(* ===== verification/Prelude.thy ===== *)
theory Prelude
  imports
    Main
    "HOL-Library.Word"
    "HOL-Library.Signed_Division"
    "HOL-Library.AList"
    "HOL-Library.Product_Lexorder"
begin

text \<open>
  Shared vocabulary of the development: Rust's integer types and the arithmetic the server
  uses on them, results and panics, hash maps as association lists, and the contract of a
  state machine with an invariant.

  Conventions.
  \<^item> An unsigned integer of width w is \<open>w word\<close>; \<open>usize\<close> lengths are \<open>nat\<close>; a signed
    \<open>i64\<close> coordinate is an \<open>int\<close> with the range written out (\<open>in_i64\<close>, \<open>checked_add_i64\<close>).
  \<^item> \<open>Result<T, E>\<close> is \<open>'e + 'a\<close> with the error on the left, \<open>Option<T>\<close> is \<open>'a option\<close>.
  \<^item> A panic (an arithmetic overflow under overflow checks, an index out of range) is the
    \<open>None\<close> of an outer \<open>option\<close>.
  \<^item> A \<open>&mut self\<close> operation returns its result together with the new state.
  \<^item> A \<open>HashMap\<close> that the code iterates over is an association list, in the order of the
    iteration; one that is only looked up is a partial function.
\<close>

type_synonym u8 = "8 word"
type_synonym u16 = "16 word"
type_synonym u32 = "32 word"
type_synonym u64 = "64 word"
type_synonym u128 = "128 word"

named_theorems machine_arith \<open>Rust arithmetic read on natural numbers\<close>
named_theorems keyed_simps \<open>lookups in association lists\<close>

section \<open>Unsigned arithmetic\<close>

definition checked_add :: "'a::len word \<Rightarrow> 'a word \<Rightarrow> 'a word option" where
  "checked_add a b = (if unat a + unat b < 2 ^ LENGTH('a) then Some (a + b) else None)"

definition checked_sub :: "'a::len word \<Rightarrow> 'a word \<Rightarrow> 'a word option" where
  "checked_sub a b = (if b \<le> a then Some (a - b) else None)"

definition saturating_add :: "'a::len word \<Rightarrow> 'a word \<Rightarrow> 'a word" where
  "saturating_add a b = (if unat a + unat b < 2 ^ LENGTH('a) then a + b else - 1)"

definition saturating_sub :: "'a::len word \<Rightarrow> 'a word \<Rightarrow> 'a word" where
  "saturating_sub a b = (if b \<le> a then a - b else 0)"

definition saturating_mul :: "'a::len word \<Rightarrow> 'a word \<Rightarrow> 'a word" where
  "saturating_mul a b = (if unat a * unat b < 2 ^ LENGTH('a) then a * b else - 1)"

lemma unat_add_fits:
  fixes a b :: "'a::len word"
  assumes "unat a + unat b < 2 ^ LENGTH('a)"
  shows "unat (a + b) = unat a + unat b"
  using assms by (simp add: unat_word_ariths)

lemma checked_add_Some [machine_arith]:
  fixes a b :: "'a::len word"
  shows "checked_add a b = Some c \<longleftrightarrow> unat c = unat a + unat b"
proof
  assume "checked_add a b = Some c"
  then show "unat c = unat a + unat b"
    by (auto simp: checked_add_def unat_add_fits split: if_splits)
next
  assume c: "unat c = unat a + unat b"
  have "unat c < 2 ^ LENGTH('a)" by simp
  with c have fits: "unat a + unat b < 2 ^ LENGTH('a)" by simp
  then have "unat (a + b) = unat c" by (simp add: unat_add_fits c)
  then have "a + b = c" by (simp only: unsigned_word_eqI)
  with fits show "checked_add a b = Some c" by (simp add: checked_add_def)
qed

lemma checked_add_None [machine_arith]:
  fixes a b :: "'a::len word"
  shows "checked_add a b = None \<longleftrightarrow> 2 ^ LENGTH('a) \<le> unat a + unat b"
  by (simp add: checked_add_def)

lemma unat_sub_le:
  fixes a b :: "'a::len word"
  shows "b \<le> a \<Longrightarrow> unat (a - b) = unat a - unat b"
  by (rule unat_sub)

lemma checked_sub_Some [machine_arith]:
  fixes a b :: "'a::len word"
  shows "checked_sub a b = Some c \<Longrightarrow> unat b + unat c = unat a"
  by (auto simp: checked_sub_def unat_sub_le word_le_nat_alt split: if_splits)

lemma unat_max_word [machine_arith]: "unat (- 1 :: 'a::len word) = 2 ^ LENGTH('a) - 1"
  by (simp add: unsigned_minus_1_eq_mask mask_eq_exp_minus_1)

lemma unat_saturating_add [machine_arith]:
  fixes a b :: "'a::len word"
  shows "unat (saturating_add a b) = min (unat a + unat b) (2 ^ LENGTH('a) - 1)"
  by (auto simp: saturating_add_def unat_add_fits unat_max_word)

lemma unat_saturating_sub [machine_arith]:
  fixes a b :: "'a::len word"
  shows "unat (saturating_sub a b) = unat a - unat b"
  by (auto simp: saturating_sub_def unat_sub_le word_le_nat_alt)

lemma unat_saturating_mul [machine_arith]:
  fixes a b :: "'a::len word"
  shows "unat (saturating_mul a b) = min (unat a * unat b) (2 ^ LENGTH('a) - 1)"
  by (auto simp: saturating_mul_def unat_max_word unat_word_ariths)

text \<open>The values of a Rust range \<open>0..n\<close>, in order.\<close>

definition word_range :: "'a::len word \<Rightarrow> 'a word list" where
  "word_range n = map of_nat [0..<unat n]"

lemma set_word_range [simp]:
  fixes n :: "'a::len word"
  shows "set (word_range n) = {k. k < n}"
proof -
  have "k \<in> set (word_range n) \<longleftrightarrow> k < n" for k :: "'a word"
  proof
    assume "k \<in> set (word_range n)"
    then obtain i where i: "i < unat n" "k = of_nat i" by (auto simp: word_range_def)
    have "unat n < 2 ^ LENGTH('a)" by simp
    with i(1) have "i < 2 ^ LENGTH('a)" by (rule less_trans)
    then have "unat k = i" by (simp add: i(2) unat_of_nat take_bit_nat_eq_self)
    with i(1) show "k < n" by (simp add: word_less_nat_alt)
  next
    assume "k < n"
    then have "unat k \<in> set [0..<unat n]" by (simp add: word_less_nat_alt)
    then have "of_nat (unat k) \<in> set (word_range n)"
      unfolding word_range_def set_map by (rule imageI)
    then show "k \<in> set (word_range n)" by simp
  qed
  then show ?thesis by blast
qed

section \<open>Signed 64-bit arithmetic\<close>

definition in_i64 :: "int \<Rightarrow> bool" where
  "in_i64 x \<longleftrightarrow> - (2 ^ 63) \<le> x \<and> x < 2 ^ 63"

definition checked_add_i64 :: "int \<Rightarrow> int \<Rightarrow> int option" where
  "checked_add_i64 a b = (if in_i64 (a + b) then Some (a + b) else None)"

definition checked_sub_i64 :: "int \<Rightarrow> int \<Rightarrow> int option" where
  "checked_sub_i64 a b = (if in_i64 (a - b) then Some (a - b) else None)"

definition checked_mul_i64 :: "int \<Rightarrow> int \<Rightarrow> int option" where
  "checked_mul_i64 a b = (if in_i64 (a * b) then Some (a * b) else None)"

text \<open>\<open>i64::div_euclid\<close>: the quotient whose remainder is never negative.\<close>

definition div_euclid :: "int \<Rightarrow> int \<Rightarrow> int" where
  "div_euclid a b = (if 0 < b then a div b else - (a div (- b)))"

lemma checked_add_i64_Some [machine_arith]:
  "checked_add_i64 a b = Some c \<longleftrightarrow> c = a + b \<and> in_i64 c"
  by (auto simp: checked_add_i64_def)

lemma checked_sub_i64_Some [machine_arith]:
  "checked_sub_i64 a b = Some c \<longleftrightarrow> c = a - b \<and> in_i64 c"
  by (auto simp: checked_sub_i64_def)

lemma checked_mul_i64_Some [machine_arith]:
  "checked_mul_i64 a b = Some c \<longleftrightarrow> c = a * b \<and> in_i64 c"
  by (auto simp: checked_mul_i64_def)

text \<open>Intermediate values in \<open>i128\<close>.\<close>

definition in_i128 :: "int \<Rightarrow> bool" where
  "in_i128 x \<longleftrightarrow> - (2 ^ 127) \<le> x \<and> x < 2 ^ 127"

definition checked_add_i128 :: "int \<Rightarrow> int \<Rightarrow> int option" where
  "checked_add_i128 a b = (if in_i128 (a + b) then Some (a + b) else None)"

definition checked_mul_i128 :: "int \<Rightarrow> int \<Rightarrow> int option" where
  "checked_mul_i128 a b = (if in_i128 (a * b) then Some (a * b) else None)"

text \<open>Division that truncates towards zero.\<close>

lemma sdiv_abs:
  fixes a d :: int
  assumes "0 < d"
  shows "\<bar>a sdiv d\<bar> = \<bar>a\<bar> div d"
  using assms by (auto simp: signed_divide_int_def abs_mult sgn_if pos_imp_zdiv_nonneg_iff)

lemma sdiv_scaled:
  fixes v :: int
  assumes "0 \<le> r" "r \<le> d" "0 < d"
  shows "\<bar>(v * r) sdiv d\<bar> \<le> \<bar>v\<bar>"
proof -
  have "\<bar>v * r\<bar> \<le> \<bar>v\<bar> * d" using assms by (simp add: abs_mult mult_left_mono)
  then have "\<bar>v * r\<bar> div d \<le> \<bar>v\<bar> * d div d" using assms(3) by (intro zdiv_mono1)
  then show ?thesis using assms(3) by (simp add: sdiv_abs)
qed

lemma sdiv_nonpos: "n \<le> 0 \<Longrightarrow> 0 < d \<Longrightarrow> n sdiv d \<le> (0 :: int)"
  by (cases "n = 0") (simp_all add: signed_divide_int_def pos_imp_zdiv_nonneg_iff)

section \<open>Results\<close>

definition ok_or :: "'e \<Rightarrow> 'a option \<Rightarrow> 'e + 'a" where
  "ok_or e r = (case r of None \<Rightarrow> Inl e | Some x \<Rightarrow> Inr x)"

fun is_ok :: "'e + 'a \<Rightarrow> bool" where
  "is_ok (Inr _) = True"
| "is_ok (Inl _) = False"

lemma is_ok_iff: "is_ok r \<longleftrightarrow> (\<exists>x. r = Inr x)"
  by (cases r) auto

lemma ok_or_Inr [simp]: "ok_or e r = Inr x \<longleftrightarrow> r = Some x"
  by (auto simp: ok_or_def split: option.splits)

lemma ok_or_Inl [simp]: "ok_or e r = Inl e' \<longleftrightarrow> r = None \<and> e' = e"
  by (auto simp: ok_or_def split: option.splits)

section \<open>Association lists\<close>

lemmas [keyed_simps] = update_conv' delete_conv' map_of_map

lemma distinct_keys_update [simp, intro]:
  "distinct (map fst al) \<Longrightarrow> distinct (map fst (AList.update k v al))"
  by (rule distinct_update)

lemma distinct_keys_delete [simp, intro]:
  "distinct (map fst al) \<Longrightarrow> distinct (map fst (AList.delete k al))"
  by (rule distinct_delete)

lemma set_alist_update:
  "distinct (map fst al) \<Longrightarrow> set (AList.update k v al) = insert (k, v) {(k', v') \<in> set al. k' \<noteq> k}"
  by (induction al) (auto simp: image_iff)

lemma map_of_eq_Some_set: "map_of al k = Some v \<Longrightarrow> k \<in> fst ` set al"
  by (metis domI dom_map_of_conv_image_fst)

section \<open>State machines\<close>

text \<open>
  The contract the stateful components share: an operation, applied to a state, keeps the
  component's invariant. A run is a list of operations applied in order.
\<close>

locale invariant_machine =
  fixes step :: "'s \<Rightarrow> 'op \<Rightarrow> 's"
    and inv :: "'s \<Rightarrow> bool"
  assumes inv_step: "inv s \<Longrightarrow> inv (step s op)"
begin

lemma inv_run: "inv s \<Longrightarrow> inv (foldl step s ops)"
proof (induction ops arbitrary: s)
  case Nil
  then show ?case by simp
next
  case (Cons op ops)
  then show ?case by (simp add: inv_step)
qed

lemma inv_prefix: "inv s \<Longrightarrow> inv (foldl step s (take n ops))"
  by (rule inv_run)

end

text \<open>A machine in which a quantity never decreases, such as a revision counter.\<close>

locale monotone_machine = invariant_machine step inv
  for step :: "'s \<Rightarrow> 'op \<Rightarrow> 's" and inv :: "'s \<Rightarrow> bool" +
  fixes level :: "'s \<Rightarrow> nat"
  assumes level_step: "inv s \<Longrightarrow> level s \<le> level (step s op)"
begin

lemma level_run: "inv s \<Longrightarrow> level s \<le> level (foldl step s ops)"
proof (induction ops arbitrary: s)
  case Nil
  then show ?case by simp
next
  case (Cons op ops)
  have "level s \<le> level (step s op)" using Cons.prems by (rule level_step)
  also have "\<dots> \<le> level (foldl step (step s op) ops)"
    using Cons.prems by (intro Cons.IH inv_step)
  finally show ?case by simp
qed

end

text \<open>A step relation, for components whose tasks interleave: what holds at the start and is kept holds in every reachable state.\<close>

locale transition_system =
  fixes step :: "'s \<Rightarrow> 's \<Rightarrow> bool" and start :: 's and inv :: "'s \<Rightarrow> bool"
  assumes inv_start: "inv start"
    and inv_step: "step s s' \<Longrightarrow> inv s \<Longrightarrow> inv s'"
begin

lemma reachable_inv: "step\<^sup>*\<^sup>* start s \<Longrightarrow> inv s"
  by (induction rule: rtranclp_induct) (auto intro: inv_start inv_step)

end

end
