(* ===== verification/Bytes.thy ===== *)
theory Bytes
  imports Prelude
begin

text \<open>
  Byte encodings of integers: Rust's \<open>to_le_bytes\<close>, \<open>from_le_bytes\<close>, \<open>to_be_bytes\<close> and
  \<open>from_be_bytes\<close>, and the contracts of the fixed-width message codecs built from them.
\<close>

section \<open>Positional encoding on naturals\<close>

fun nat_to_le :: "nat \<Rightarrow> nat \<Rightarrow> u8 list" where
  "nat_to_le 0 n = []"
| "nat_to_le (Suc k) n = of_nat n # nat_to_le k (n div 256)"

fun nat_from_le :: "u8 list \<Rightarrow> nat" where
  "nat_from_le [] = 0"
| "nat_from_le (b # bs) = unat b + 256 * nat_from_le bs"

lemma length_nat_to_le [simp]: "length (nat_to_le k n) = k"
  by (induction k arbitrary: n) auto

lemma unat_of_nat_byte: "unat (of_nat n :: u8) = n mod 256"
  by (simp add: unat_of_nat)

lemma unat_byte_less: "unat (b :: u8) < 256"
proof -
  have "unat b < 2 ^ LENGTH(8)" by (rule unsigned_less)
  then show ?thesis by simp
qed

lemma nat_from_to_le: "nat_from_le (nat_to_le k n) = n mod 256 ^ k"
proof (induction k arbitrary: n)
  case 0
  then show ?case by simp
next
  case (Suc k)
  have "nat_from_le (nat_to_le (Suc k) n) = n mod 256 + 256 * (n div 256 mod 256 ^ k)"
    by (simp add: Suc.IH unat_of_nat_byte)
  also have "\<dots> = n mod (256 * 256 ^ k)"
    by (simp add: mod_mult2_eq)
  finally show ?case by simp
qed

lemma nat_from_le_less: "nat_from_le bs < 256 ^ length bs"
proof (induction bs)
  case Nil
  then show ?case by simp
next
  case (Cons b bs)
  have "unat b < 256" by (rule unat_byte_less)
  moreover have "256 * nat_from_le bs \<le> 256 * (256 ^ length bs - 1)"
    using Cons.IH by (intro mult_le_mono2) linarith
  moreover have "256 * (256 ^ length bs - 1) + 256 = (256 ^ Suc (length bs) :: nat)"
    by (simp add: algebra_simps)
  ultimately show ?case by simp
qed

lemma nat_to_from_le: "nat_to_le (length bs) (nat_from_le bs) = bs"
proof (induction bs)
  case Nil
  then show ?case by simp
next
  case (Cons b bs)
  have b: "unat b < 256" by (rule unat_byte_less)
  then have "(unat b + 256 * nat_from_le bs) div 256 = nat_from_le bs" by simp
  moreover have "(of_nat (unat b + 256 * nat_from_le bs) :: u8) = b"
    by (rule word_unat_eq_iff [THEN iffD2]) (use b in \<open>simp add: unat_of_nat_byte del: of_nat_add of_nat_mult\<close>)
  ultimately show ?case by (simp add: Cons.IH del: of_nat_add of_nat_mult)
qed

section \<open>Rust's byte conversions\<close>

definition to_le_bytes :: "'a::len word \<Rightarrow> u8 list" where
  "to_le_bytes w = nat_to_le (LENGTH('a) div 8) (unat w)"

definition from_le_bytes :: "u8 list \<Rightarrow> 'a::len word" where
  "from_le_bytes bs = of_nat (nat_from_le bs)"

definition to_be_bytes :: "'a::len word \<Rightarrow> u8 list" where
  "to_be_bytes w = rev (to_le_bytes w)"

definition from_be_bytes :: "u8 list \<Rightarrow> 'a::len word" where
  "from_be_bytes bs = from_le_bytes (rev bs)"

lemma length_to_le_bytes [simp]: "length (to_le_bytes (w :: 'a::len word)) = LENGTH('a) div 8"
  by (simp add: to_le_bytes_def)

lemma length_to_be_bytes [simp]: "length (to_be_bytes (w :: 'a::len word)) = LENGTH('a) div 8"
  by (simp add: to_be_bytes_def)

lemma from_to_le_bytes:
  fixes w :: "'a::len word"
  assumes "8 dvd LENGTH('a)"
  shows "from_le_bytes (to_le_bytes w) = w"
proof -
  from assms obtain k where k: "LENGTH('a) = 8 * k" by (auto elim: dvdE)
  have "(256 :: nat) ^ k = 2 ^ LENGTH('a)" by (simp add: k power_mult)
  moreover have "unat w < 2 ^ LENGTH('a)" by simp
  ultimately have "unat w mod 256 ^ k = unat w" by (simp del: unsigned_less)
  then show ?thesis by (simp add: from_le_bytes_def to_le_bytes_def k nat_from_to_le)
qed

lemma to_from_le_bytes:
  assumes "8 * length bs = LENGTH('a::len)"
  shows "to_le_bytes (from_le_bytes bs :: 'a word) = bs"
proof -
  have "(256 :: nat) ^ length bs = 2 ^ LENGTH('a)"
    by (simp add: assms [symmetric] power_mult)
  then have "nat_from_le bs < 2 ^ LENGTH('a)" using nat_from_le_less [of bs] by simp
  then have "unat (of_nat (nat_from_le bs) :: 'a word) = nat_from_le bs"
    by (simp add: unat_of_nat take_bit_nat_eq_self)
  moreover have "LENGTH('a) div 8 = length bs" using assms by linarith
  ultimately show ?thesis
    by (simp add: from_le_bytes_def to_le_bytes_def nat_to_from_le)
qed

lemma from_to_be_bytes:
  fixes w :: "'a::len word"
  shows "8 dvd LENGTH('a) \<Longrightarrow> from_be_bytes (to_be_bytes w) = w"
  by (simp add: from_be_bytes_def to_be_bytes_def from_to_le_bytes)

lemma to_from_be_bytes:
  "8 * length bs = LENGTH('a::len) \<Longrightarrow> to_be_bytes (from_be_bytes bs :: 'a word) = bs"
  by (simp add: from_be_bytes_def to_be_bytes_def to_from_le_bytes)

lemma to_le_bytes_inject:
  fixes a b :: "'a::len word"
  assumes "8 dvd LENGTH('a)"
  shows "to_le_bytes a = to_le_bytes b \<longleftrightarrow> a = b"
  using from_to_le_bytes [OF assms, of a] from_to_le_bytes [OF assms, of b] by metis

lemmas bytes_roundtrip [simp] =
  from_to_le_bytes [where 'a = 8, simplified] from_to_le_bytes [where 'a = 16, simplified]
  from_to_le_bytes [where 'a = 32, simplified] from_to_le_bytes [where 'a = 64, simplified]
  from_to_be_bytes [where 'a = 16, simplified] from_to_be_bytes [where 'a = 32, simplified]
  from_to_be_bytes [where 'a = 64, simplified]

text \<open>The bytes of an \<open>i64\<close>: those of the word with the same value modulo \<open>2 ^ 64\<close>.\<close>

definition i64_le_bytes :: "int \<Rightarrow> u8 list" where
  "i64_le_bytes x = to_le_bytes (word_of_int x :: u64)"

definition i64_from_le_bytes :: "u8 list \<Rightarrow> int" where
  "i64_from_le_bytes bs = sint (from_le_bytes bs :: u64)"

lemma length_i64_le_bytes [simp]: "length (i64_le_bytes x) = 8"
  by (simp add: i64_le_bytes_def)

lemma i64_from_to_le_bytes [simp]: "in_i64 x \<Longrightarrow> i64_from_le_bytes (i64_le_bytes x) = x"
  by (simp add: i64_from_le_bytes_def i64_le_bytes_def in_i64_def sint_sbintrunc'
      signed_take_bit_int_eq_self)

lemma i64_to_from_le_bytes: "length bs = 8 \<Longrightarrow> i64_le_bytes (i64_from_le_bytes bs) = bs"
  by (simp add: i64_from_le_bytes_def i64_le_bytes_def to_from_le_bytes)

lemma in_i64_from_le_bytes [simp]: "in_i64 (i64_from_le_bytes bs)"
proof -
  have "- (2 ^ (LENGTH(64) - 1)) \<le> sint w \<and> sint w < 2 ^ (LENGTH(64) - 1)" for w :: u64
    using sint_greater_eq [of w] sint_less [of w] by simp
  then show ?thesis by (simp add: in_i64_def i64_from_le_bytes_def)
qed

lemma i64_le_bytes_inject:
  "in_i64 x \<Longrightarrow> in_i64 y \<Longrightarrow> i64_le_bytes x = i64_le_bytes y \<longleftrightarrow> x = y"
  by (metis i64_from_to_le_bytes)

text \<open>A slice \<open>bytes[from..to]\<close>.\<close>

definition slice_bytes :: "nat \<Rightarrow> nat \<Rightarrow> u8 list \<Rightarrow> u8 list" where
  "slice_bytes lo hi bs = take (hi - lo) (drop lo bs)"

lemma length_slice_bytes [simp]:
  "hi \<le> length bs \<Longrightarrow> length (slice_bytes lo hi bs) = hi - lo"
  by (simp add: slice_bytes_def)

text \<open>Reading a slice of a concatenation: skip the fields before it, then take the field.\<close>

lemma slice_bytes_skip [simp]:
  "length xs \<le> lo \<Longrightarrow> slice_bytes lo hi (xs @ ys) = slice_bytes (lo - length xs) (hi - length xs) ys"
  by (simp add: slice_bytes_def)

lemma slice_bytes_skip_Cons [simp]:
  "0 < lo \<Longrightarrow> slice_bytes lo hi (x # xs) = slice_bytes (lo - 1) (hi - 1) xs"
  by (cases lo) (simp_all add: slice_bytes_def)

lemma slice_bytes_take [simp]:
  "length xs = hi \<Longrightarrow> slice_bytes 0 hi (xs @ ys) = xs"
  by (simp add: slice_bytes_def)

lemma slice_bytes_all [simp]: "length xs = hi \<Longrightarrow> slice_bytes 0 hi xs = xs"
  by (simp add: slice_bytes_def)

lemma slice_bytes_append:
  assumes "lo \<le> mid" and "mid \<le> hi"
  shows "slice_bytes lo mid bs @ slice_bytes mid hi bs = slice_bytes lo hi bs"
proof -
  from assms obtain j k where "mid = lo + j" "hi = lo + j + k"
    by (metis le_add_diff_inverse)
  then show ?thesis by (simp add: slice_bytes_def take_add add.commute)
qed

text \<open>Adjacent slices join up again; single bytes are read by index.\<close>

lemma slice_bytes_append_assoc:
  assumes "lo \<le> mid" "mid \<le> hi"
  shows "slice_bytes lo mid bs @ slice_bytes mid hi bs @ rest = slice_bytes lo hi bs @ rest"
  using slice_bytes_append [OF assms, of bs] by (simp flip: append_assoc)

lemma slice_bytes_nth:
  assumes "i < length bs" "j = Suc i" "j \<le> hi"
  shows "bs ! i # slice_bytes j hi bs = slice_bytes i hi bs"
proof -
  have "hi - i = Suc (hi - j)" using assms(2,3) by simp
  with assms(1,2) show ?thesis by (simp add: slice_bytes_def flip: Cons_nth_drop_Suc)
qed

lemma slice_bytes_nth_assoc:
  assumes "i < length bs" "j = Suc i" "j \<le> hi"
  shows "bs ! i # slice_bytes j hi bs @ rest = slice_bytes i hi bs @ rest"
  using slice_bytes_nth [OF assms] by (simp flip: append_Cons)

lemmas slice_joins = slice_bytes_append slice_bytes_append_assoc slice_bytes_nth
  slice_bytes_nth_assoc

lemma slice_bytes_self: "slice_bytes 0 (length bs) bs = bs"
  by simp

lemma nth_append_skip: "length xs \<le> i \<Longrightarrow> (xs @ ys) ! i = ys ! (i - length xs)"
  by (simp add: nth_append)

section \<open>Codec contracts\<close>

text \<open>
  What a message codec promises its users: every value that satisfies the type's constraints
  is read back from its encoding, and nothing that violates them is ever decoded.
\<close>

locale wire_codec =
  fixes enc :: "'m \<Rightarrow> u8 list"
    and dec :: "u8 list \<Rightarrow> 'e + 'm"
    and valid :: "'m \<Rightarrow> bool"
  assumes dec_enc: "valid m \<Longrightarrow> dec (enc m) = Inr m"
    and dec_valid: "dec bs = Inr m \<Longrightarrow> valid m"
begin

lemma enc_inject: "valid m \<Longrightarrow> valid m' \<Longrightarrow> enc m = enc m' \<longleftrightarrow> m = m'"
  using dec_enc by (metis sum.inject(2))

lemma dec_enc_iff: "dec (enc m) = Inr m \<longleftrightarrow> valid m"
  using dec_enc dec_valid by blast

lemma reencode: "dec bs = Inr m \<Longrightarrow> dec (enc m) = Inr m"
  by (simp add: dec_enc dec_valid)

end

text \<open>A codec of a fixed width: encodings have that length and no other length is accepted.\<close>

locale fixed_codec = wire_codec enc dec valid
  for enc :: "'m \<Rightarrow> u8 list" and dec :: "u8 list \<Rightarrow> 'e + 'm" and valid :: "'m \<Rightarrow> bool" +
  fixes width :: nat
  assumes length_enc: "length (enc m) = width"
    and dec_length: "dec bs = Inr m \<Longrightarrow> length bs = width"
begin

lemma wrong_length_rejected: "length bs \<noteq> width \<Longrightarrow> \<exists>e. dec bs = Inl e"
  using dec_length by (cases "dec bs") auto

text \<open>Two encodings laid end to end are separated without a delimiter.\<close>

lemma concat_inject:
  assumes "valid m" "valid m'" "enc m @ rest = enc m' @ rest'"
  shows "m = m' \<and> rest = rest'"
proof -
  have "length (enc m) = length (enc m')" by (simp add: length_enc)
  with assms(3) have "enc m = enc m'" "rest = rest'" by auto
  with assms(1,2) show ?thesis by (simp add: enc_inject)
qed

end

text \<open>A canonical codec: a message has exactly one accepted encoding.\<close>

locale canonical_codec = wire_codec enc dec valid
  for enc :: "'m \<Rightarrow> u8 list" and dec :: "u8 list \<Rightarrow> 'e + 'm" and valid :: "'m \<Rightarrow> bool" +
  assumes enc_dec: "dec bs = Inr m \<Longrightarrow> enc m = bs"
begin

lemma accepted_iff: "dec bs = Inr m \<longleftrightarrow> valid m \<and> bs = enc m"
  using dec_enc dec_valid enc_dec by blast

lemma dec_inject: "dec bs = Inr m \<Longrightarrow> dec bs' = Inr m \<Longrightarrow> bs = bs'"
  by (auto dest: enc_dec)

end

text \<open>The fixed-width messages with one encoding each.\<close>

locale fixed_canonical_codec = fixed_codec enc dec valid width + canonical_codec enc dec valid
  for enc :: "'m \<Rightarrow> u8 list" and dec :: "u8 list \<Rightarrow> 'e + 'm" and valid :: "'m \<Rightarrow> bool"
    and width :: nat

end
