(* ===== verification/World_Grid.thy ===== *)
theory World_Grid
  imports Bytes
begin

text \<open>
  crates/core/src/world.rs: world positions in millimetres, the quadrant grid and the derived
  quadrant and sector seeds. The BLAKE3 functions are not part of the repository; they are the
  arguments \<open>hash\<close> and \<open>keyed_hash\<close> of the definitions that use them. A hasher fed with several
  updates hashes their concatenation.
\<close>

section \<open>Coordinates\<close>

datatype quadrant_coord = QuadrantCoord (qc_x: int) (qc_y: int)

datatype world_position = WorldPositionMm (pos_x: int) (pos_y: int) (pos_z: int)

datatype world_grid_error = InvalidQuadrantSize int

datatype quadrant_size = QuadrantSizeMm (size_value: int)

definition quadrant_size_new :: "int \<Rightarrow> world_grid_error + quadrant_size" where
  "quadrant_size_new v = (if v \<le> 0 then Inl (InvalidQuadrantSize v) else Inr (QuadrantSizeMm v))"

definition position_origin :: world_position where
  "position_origin = WorldPositionMm 0 0 0"

definition position_quadrant :: "world_position \<Rightarrow> quadrant_size \<Rightarrow> quadrant_coord" where
  "position_quadrant p s =
     QuadrantCoord (div_euclid (pos_x p) (size_value s)) (div_euclid (pos_y p) (size_value s))"

definition checked_translate_horizontal ::
  "world_position \<Rightarrow> int \<Rightarrow> int \<Rightarrow> world_position option" where
  "checked_translate_horizontal p dx dy =
     (case checked_add_i64 (pos_x p) dx of
        None \<Rightarrow> None
      | Some x \<Rightarrow>
          (case checked_add_i64 (pos_y p) dy of
             None \<Rightarrow> None
           | Some y \<Rightarrow> Some (WorldPositionMm x y (pos_z p))))"

definition coord_in_range :: "quadrant_coord \<Rightarrow> bool" where
  "coord_in_range c \<longleftrightarrow> in_i64 (qc_x c) \<and> in_i64 (qc_y c)"

section \<open>Seeds\<close>

text \<open>The bytes of the constant \<open>QUADRANT_SEED_DOMAIN_V1\<close>.\<close>

definition ascii_bytes :: "string \<Rightarrow> u8 list" where
  "ascii_bytes s = map (\<lambda>c. of_nat (of_char c)) s"

definition quadrant_seed_domain :: "u8 list" where
  "quadrant_seed_domain = ascii_bytes ''AURENFALL_QUADRANT_V1''"

datatype universe_seed = UniverseSeed (universe_key: "u8 list")

definition seed_from_phrase :: "(u8 list \<Rightarrow> u8 list) \<Rightarrow> u8 list \<Rightarrow> universe_seed" where
  "seed_from_phrase hash phrase = UniverseSeed (hash phrase)"

definition quadrant_seed_message :: "quadrant_coord \<Rightarrow> u32 \<Rightarrow> u8 list" where
  "quadrant_seed_message c v =
     quadrant_seed_domain @ to_le_bytes v @ i64_le_bytes (qc_x c) @ i64_le_bytes (qc_y c)"

definition quadrant_seed ::
  "(u8 list \<Rightarrow> u8 list \<Rightarrow> u8 list) \<Rightarrow> universe_seed \<Rightarrow> quadrant_coord \<Rightarrow> u32 \<Rightarrow> u8 list" where
  "quadrant_seed keyed_hash u c v = keyed_hash (universe_key u) (quadrant_seed_message c v)"

definition sector_seed_message :: "int \<Rightarrow> int \<Rightarrow> u32 \<Rightarrow> u8 list" where
  "sector_seed_message x y v = i64_le_bytes x @ i64_le_bytes y @ to_le_bytes v"

definition sector_seed ::
  "(u8 list \<Rightarrow> u8 list \<Rightarrow> u8 list) \<Rightarrow> universe_seed \<Rightarrow> int \<Rightarrow> int \<Rightarrow> u32 \<Rightarrow> u8 list" where
  "sector_seed keyed_hash u x y v = keyed_hash (universe_key u) (sector_seed_message x y v)"

section \<open>The grid is a partition\<close>

lemma div_euclid_bounds:
  assumes "0 < d"
  shows "div_euclid x d * d \<le> x" and "x < (div_euclid x d + 1) * d"
proof -
  have eq: "x div d * d = x - x mod d" by (rule minus_mod_eq_div_mult [symmetric])
  have "0 \<le> x mod d" "x mod d < d" using assms by simp_all
  with eq assms show "div_euclid x d * d \<le> x" "x < (div_euclid x d + 1) * d"
    by (simp_all add: div_euclid_def distrib_right)
qed

lemma div_euclid_unique:
  assumes "0 < d" "q * d \<le> x" "x < (q + 1) * d"
  shows "div_euclid x d = q"
proof -
  have "x = q * d + (x - q * d)" "0 \<le> x - q * d" "x - q * d < d"
    using assms by (auto simp: algebra_simps)
  then have "x div d = q"
    by (metis assms(1) add.commute div_mult_self1 div_pos_pos_trivial add_0 less_irrefl)
  with assms(1) show ?thesis by (simp add: div_euclid_def)
qed

definition quadrant_contains :: "quadrant_size \<Rightarrow> quadrant_coord \<Rightarrow> world_position \<Rightarrow> bool" where
  "quadrant_contains s c p \<longleftrightarrow>
     qc_x c * size_value s \<le> pos_x p \<and> pos_x p < (qc_x c + 1) * size_value s \<and>
     qc_y c * size_value s \<le> pos_y p \<and> pos_y p < (qc_y c + 1) * size_value s"

lemma quadrant_size_new_Inr [simp]:
  "quadrant_size_new v = Inr s \<longleftrightarrow> 0 < v \<and> s = QuadrantSizeMm v"
  by (auto simp: quadrant_size_new_def)

lemma position_quadrant_iff:
  assumes "0 < size_value s"
  shows "position_quadrant p s = c \<longleftrightarrow> quadrant_contains s c p"
proof
  assume "position_quadrant p s = c"
  then show "quadrant_contains s c p"
    using div_euclid_bounds [OF assms] by (auto simp: position_quadrant_def quadrant_contains_def)
next
  assume "quadrant_contains s c p"
  then show "position_quadrant p s = c"
    by (cases c) (simp add: position_quadrant_def quadrant_contains_def div_euclid_unique [OF assms])
qed

section \<open>Seed messages\<close>

lemma length_ascii_bytes [simp]: "length (ascii_bytes s) = length s"
  by (simp add: ascii_bytes_def)

lemma quadrant_seed_message_inject:
  assumes "coord_in_range c" "coord_in_range c'"
    and "quadrant_seed_message c v = quadrant_seed_message c' v'"
  shows "c = c' \<and> v = v'"
proof -
  have "to_le_bytes v = to_le_bytes v'" "i64_le_bytes (qc_x c) = i64_le_bytes (qc_x c')"
    "i64_le_bytes (qc_y c) = i64_le_bytes (qc_y c')"
    using assms(3) by (simp_all add: quadrant_seed_message_def)
  with assms(1,2) show ?thesis
    by (auto simp: coord_in_range_def i64_le_bytes_inject to_le_bytes_inject intro: quadrant_coord.expand)
qed

text \<open>A quadrant message has 41 bytes and a sector message 20: no input of one is an input of the other.\<close>

lemma seed_message_lengths:
  "length (quadrant_seed_message c v) = 41" "length (sector_seed_message x y w) = 20"
  by (simp_all add: quadrant_seed_message_def sector_seed_message_def quadrant_seed_domain_def)

section \<open>Properties\<close>

text \<open>
  For every quadrant size the constructor admits, the quadrant of a position is the one
  half-open square of the grid that contains it, for negative coordinates as for positive ones.
\<close>

theorem quadrant_grid_partitions:
  assumes "quadrant_size_new v = Inr s"
  shows "position_quadrant p s = c \<longleftrightarrow> quadrant_contains s c p"
proof -
  have "0 < size_value s" using assms by auto
  then show ?thesis by (rule position_quadrant_iff)
qed

theorem quadrant_grid_partitions_witness:
  "position_quadrant (WorldPositionMm (- 1) 250 7) (QuadrantSizeMm 100) = QuadrantCoord (- 1) 2
     \<longleftrightarrow> quadrant_contains (QuadrantSizeMm 100) (QuadrantCoord (- 1) 2) (WorldPositionMm (- 1) 250 7)"
  by (rule quadrant_grid_partitions [of 100]) simp

text \<open>
  Different quadrants, or different generator versions, hash different messages: the bytes
  hashed for a quadrant seed determine the quadrant and the version.
\<close>

theorem quadrant_seed_message_determines:
  assumes "coord_in_range c" "coord_in_range c'" "(c, v) \<noteq> (c', v')"
  shows "quadrant_seed_message c v \<noteq> quadrant_seed_message c' v'"
  using quadrant_seed_message_inject [OF assms(1,2)] assms(3) by blast

theorem quadrant_seed_message_determines_witness:
  "quadrant_seed_message (QuadrantCoord 0 (- 1)) 1 \<noteq> quadrant_seed_message (QuadrantCoord (- 1) 0) 1"
  by (rule quadrant_seed_message_determines) (simp_all add: coord_in_range_def in_i64_def)

end
