(* ===== verification/Replay_Window.thy ===== *)
theory Replay_Window
  imports Prelude
begin

unbundle bit_operations_syntax

text \<open>
  crates/core/src/replay.rs: the sliding window of the last 64 sequence numbers with which
  the server recognises duplicate and stale intents.
\<close>

section \<open>Model\<close>

datatype replay_decision =
  AcceptedNewHighest | AcceptedOutOfOrder | RejectedDuplicate | RejectedTooOld

fun is_accepted :: "replay_decision \<Rightarrow> bool" where
  "is_accepted AcceptedNewHighest = True"
| "is_accepted AcceptedOutOfOrder = True"
| "is_accepted _ = False"

definition window_bits :: u64 where
  "window_bits = 64"

record replay_window =
  highest :: "u64 option"
  seen :: u64

definition replay_default :: replay_window where
  "replay_default = \<lparr>highest = None, seen = 0\<rparr>"

definition observe :: "replay_window \<Rightarrow> u64 \<Rightarrow> replay_decision \<times> replay_window" where
  "observe w n =
     (case highest w of
        None \<Rightarrow> (AcceptedNewHighest, \<lparr>highest = Some n, seen = 1\<rparr>)
      | Some h \<Rightarrow>
          if h < n then
            (let shift = n - h;
                 seen' = (if window_bits \<le> shift then 1 else push_bit (unat shift) (seen w) OR 1)
             in (AcceptedNewHighest, \<lparr>highest = Some n, seen = seen'\<rparr>))
          else
            (let distance = h - n
             in if window_bits \<le> distance then (RejectedTooOld, w)
                else
                  (let mask = push_bit (unat distance) (1 :: u64)
                   in if seen w AND mask \<noteq> 0 then (RejectedDuplicate, w)
                      else (AcceptedOutOfOrder, w\<lparr>seen := seen w OR mask\<rparr>))))"

definition accept :: "replay_window \<Rightarrow> u64 \<Rightarrow> bool \<times> replay_window" where
  "accept w n = (case observe w n of (d, w') \<Rightarrow> (is_accepted d, w'))"

section \<open>Abstraction: the set of accepted sequence numbers\<close>

text \<open>
  \<open>tracks w S\<close>: the window represents the set S of the numbers accepted so far. Its highest is
  the maximum of S, and bit d of \<open>seen\<close> says whether \<open>highest - d\<close> is in S.
\<close>

definition tracks :: "replay_window \<Rightarrow> nat set \<Rightarrow> bool" where
  "tracks w S \<longleftrightarrow>
     (case highest w of
        None \<Rightarrow> S = {}
      | Some h \<Rightarrow> unat h \<in> S \<and> (\<forall>s\<in>S. s \<le> unat h) \<and>
          (\<forall>d<64. d \<le> unat h \<longrightarrow> (bit (seen w) d \<longleftrightarrow> unat h - d \<in> S)))"

text \<open>What the window promises, on sets: the decision about a number, given the accepted ones.\<close>

definition spec_decision :: "nat set \<Rightarrow> nat \<Rightarrow> replay_decision" where
  "spec_decision S n =
     (if \<forall>s\<in>S. s < n then AcceptedNewHighest
      else if \<exists>s\<in>S. n + 64 \<le> s then RejectedTooOld
      else if n \<in> S then RejectedDuplicate
      else AcceptedOutOfOrder)"

definition spec_accept :: "nat set \<Rightarrow> nat \<Rightarrow> nat set" where
  "spec_accept S n = (if is_accepted (spec_decision S n) then insert n S else S)"

lemma tracks_default: "tracks replay_default {}"
  by (simp add: tracks_def replay_default_def)

lemma and_mask_eq_0: "(a :: u64) AND 2 ^ n = 0 \<longleftrightarrow> \<not> bit a n"
  using bit_iff_and_push_bit_not_eq_0 [of a n] by simp

lemma bit_shifted_window:
  assumes "k < 64" "d < 64"
  shows "bit (push_bit k (a :: u64) OR 1) d \<longleftrightarrow> d = 0 \<or> (k \<le> d \<and> bit a (d - k))"
  using assms by (auto simp: bit_simps)

lemma bit_one_word: "bit (1 :: u64) d \<longleftrightarrow> d = 0"
  by (simp add: bit_simps)

lemma bit_set_mask:
  assumes "k < 64"
  shows "bit (a OR (2 :: u64) ^ k) d \<longleftrightarrow> bit a d \<or> d = k"
  using assms by (auto simp: bit_simps)

section \<open>Refinement\<close>

lemma unat_shift: "h \<le> n \<Longrightarrow> unat (n - h) = unat n - unat (h :: u64)"
  by (rule unat_sub)

lemma window_bits_le: "window_bits \<le> k \<longleftrightarrow> 64 \<le> unat k"
  by (simp add: window_bits_def word_le_nat_alt)

lemma observe_first:
  assumes "tracks w S" "highest w = None"
  shows "fst (observe w n) = spec_decision S (unat n)
    \<and> tracks (snd (observe w n)) (spec_accept S (unat n))"
  using assms
  by (auto simp: observe_def tracks_def spec_decision_def spec_accept_def bit_one_word)

lemma observe_newer:
  assumes tr: "tracks w S" and h: "highest w = Some h" and less: "h < n"
  shows "fst (observe w n) = spec_decision S (unat n)
    \<and> tracks (snd (observe w n)) (spec_accept S (unat n))"
proof -
  let ?k = "unat n - unat h"
  have lt: "unat h < unat n" using less by (simp add: word_less_nat_alt)
  have top: "unat h \<in> S" "\<And>s. s \<in> S \<Longrightarrow> s \<le> unat h"
    and bits: "\<And>d. d < 64 \<Longrightarrow> d \<le> unat h \<Longrightarrow> bit (seen w) d \<longleftrightarrow> unat h - d \<in> S"
    using tr h by (auto simp: tracks_def)
  have dec: "spec_decision S (unat n) = AcceptedNewHighest"
    using lt top(2) by (fastforce simp: spec_decision_def)
  let ?seen = "if 64 \<le> ?k then 1 else push_bit ?k (seen w) OR 1"
  have obs: "observe w n = (AcceptedNewHighest, \<lparr>highest = Some n, seen = ?seen\<rparr>)"
    using less h by (simp add: observe_def window_bits_le unat_shift Let_def)
  have "bit ?seen d \<longleftrightarrow> unat n - d \<in> insert (unat n) S" if d: "d < 64" "d \<le> unat n" for d
  proof (cases "?k \<le> d")
    case True
    then have "d - ?k < 64" "d - ?k \<le> unat h" "unat h - (d - ?k) = unat n - d" "d \<noteq> 0"
      using d lt by auto
    with bits [of "d - ?k"] True d lt show ?thesis by (auto simp: bit_shifted_window)
  next
    case False
    then have "unat n - d > unat h" using lt by linarith
    with top(2) have "unat n - d \<notin> S" by (meson not_le)
    with False d lt show ?thesis by (auto simp: bit_shifted_window bit_one_word)
  qed
  moreover have "\<forall>s\<in>insert (unat n) S. s \<le> unat n" using top(2) lt by fastforce
  ultimately have "tracks \<lparr>highest = Some n, seen = ?seen\<rparr> (insert (unat n) S)"
    by (simp add: tracks_def)
  with obs dec show ?thesis by (simp add: spec_accept_def)
qed

lemma observe_older:
  assumes tr: "tracks w S" and h: "highest w = Some h" and le: "n \<le> h"
  shows "fst (observe w n) = spec_decision S (unat n)
    \<and> tracks (snd (observe w n)) (spec_accept S (unat n))"
proof -
  let ?d = "unat h - unat n"
  have le': "unat n \<le> unat h" using le by (simp add: word_le_nat_alt)
  have top: "unat h \<in> S" "\<And>s. s \<in> S \<Longrightarrow> s \<le> unat h"
    and bits: "\<And>d. d < 64 \<Longrightarrow> d \<le> unat h \<Longrightarrow> bit (seen w) d \<longleftrightarrow> unat h - d \<in> S"
    using tr h by (auto simp: tracks_def)
  have not_new: "\<not> (\<forall>s\<in>S. s < unat n)" using top(1) le' by fastforce
  show ?thesis
  proof (cases "64 \<le> ?d")
    case True
    then have "\<exists>s\<in>S. unat n + 64 \<le> s" using top(1) by (intro bexI [of _ "unat h"]) auto
    with not_new have "spec_decision S (unat n) = RejectedTooOld"
      unfolding spec_decision_def by (simp only: if_True if_False)
    moreover have "observe w n = (RejectedTooOld, w)"
      using True le h by (simp add: observe_def window_bits_le unat_shift Let_def not_less)
    ultimately show ?thesis using tr by (simp add: spec_accept_def)
  next
    case False
    have fresh: "\<not> (\<exists>s\<in>S. unat n + 64 \<le> s)" using False top(2) by fastforce
    have member: "bit (seen w) ?d \<longleftrightarrow> unat n \<in> S" using bits [of ?d] False le' by simp
    have obs: "observe w n = (if unat n \<in> S then (RejectedDuplicate, w)
        else (AcceptedOutOfOrder, w\<lparr>seen := seen w OR push_bit ?d 1\<rparr>))"
      using False le h member
      by (simp add: observe_def window_bits_le unat_shift Let_def not_less and_mask_eq_0)
    have dec: "spec_decision S (unat n) =
        (if unat n \<in> S then RejectedDuplicate else AcceptedOutOfOrder)"
      using not_new fresh unfolding spec_decision_def by (simp only: if_False)
    have "tracks (w\<lparr>seen := seen w OR push_bit ?d 1\<rparr>) (insert (unat n) S)"
      using False top bits h le' by (auto simp: tracks_def bit_set_mask)
    with obs dec tr show ?thesis by (simp add: spec_accept_def)
  qed
qed

lemma observe_refines:
  assumes "tracks w S"
  shows "fst (observe w n) = spec_decision S (unat n)"
    and "tracks (snd (observe w n)) (spec_accept S (unat n))"
  using observe_first [OF assms] observe_newer [OF assms] observe_older [OF assms]
  by (cases "highest w"; force simp: not_less [symmetric])+

section \<open>Runs\<close>

text \<open>The sequence numbers a window accepts, in order of arrival.\<close>

fun accepted_run :: "replay_window \<Rightarrow> u64 list \<Rightarrow> u64 list" where
  "accepted_run w [] = []"
| "accepted_run w (n # ns) =
     (case accept w n of (ok, w') \<Rightarrow> if ok then n # accepted_run w' ns else accepted_run w' ns)"

text \<open>Those that set a new highest: the only ones the session registry lets through.\<close>

fun in_order_run :: "replay_window \<Rightarrow> u64 list \<Rightarrow> u64 list" where
  "in_order_run w [] = []"
| "in_order_run w (n # ns) =
     (case observe w n of (d, w') \<Rightarrow>
        if d = AcceptedNewHighest then n # in_order_run w' ns else in_order_run w' ns)"

lemma accepted_run_fresh:
  "tracks w S \<Longrightarrow> distinct (accepted_run w ns) \<and> (\<forall>n\<in>set (accepted_run w ns). unat n \<notin> S)"
proof (induction ns arbitrary: w S)
  case Nil
  then show ?case by simp
next
  case (Cons n ns)
  obtain d w' where obs: "observe w n = (d, w')" by (cases "observe w n")
  with observe_refines [OF Cons.prems, of n]
  have d: "d = spec_decision S (unat n)" and w': "tracks w' (spec_accept S (unat n))" by auto
  show ?case
  proof (cases "is_accepted d")
    case True
    then have "unat n \<notin> S" by (auto simp: d spec_decision_def split: if_splits)
    with Cons.IH [OF w'] True obs d show ?thesis by (auto simp: accept_def spec_accept_def)
  next
    case False
    with Cons.IH [OF w'] obs d show ?thesis by (auto simp: accept_def spec_accept_def)
  qed
qed

lemma in_order_run_sorted:
  "tracks w S \<Longrightarrow> sorted_wrt (<) (in_order_run w ns)
     \<and> (\<forall>n\<in>set (in_order_run w ns). \<forall>s\<in>S. s < unat n)"
proof (induction ns arbitrary: w S)
  case Nil
  then show ?case by simp
next
  case (Cons n ns)
  obtain d w' where obs: "observe w n = (d, w')" by (cases "observe w n")
  with observe_refines [OF Cons.prems, of n]
  have d: "d = spec_decision S (unat n)" and w': "tracks w' (spec_accept S (unat n))" by auto
  note IH = Cons.IH [OF w']
  show ?case
  proof (cases "d = AcceptedNewHighest")
    case True
    then have "\<forall>s\<in>S. s < unat n" by (auto simp: d spec_decision_def split: if_splits)
    with IH True obs d show ?thesis by (auto simp: spec_accept_def word_less_nat_alt)
  next
    case False
    with IH obs show ?thesis by (auto simp: spec_accept_def split: if_splits)
  qed
qed

interpretation replay_machine: invariant_machine "\<lambda>w n. snd (observe w n)" "\<lambda>w. \<exists>S. tracks w S"
  by unfold_locales (auto dest: observe_refines(2))

section \<open>Properties\<close>

text \<open>The decisions of a run, by the code and by the specification.\<close>

fun observe_run :: "replay_window \<Rightarrow> u64 list \<Rightarrow> replay_decision list" where
  "observe_run w [] = []"
| "observe_run w (n # ns) = (case observe w n of (d, w') \<Rightarrow> d # observe_run w' ns)"

fun spec_run :: "nat set \<Rightarrow> nat list \<Rightarrow> replay_decision list" where
  "spec_run S [] = []"
| "spec_run S (n # ns) = spec_decision S n # spec_run (spec_accept S n) ns"

lemma observe_run_tracks: "tracks w S \<Longrightarrow> observe_run w ns = spec_run S (map unat ns)"
proof (induction ns arbitrary: w S)
  case (Cons n ns)
  obtain d w' where o: "observe w n = (d, w')" by fastforce
  with observe_refines [OF Cons.prems, of n] Cons.IH show ?case by simp
qed simp

text \<open>
  C4: on every sequence of numbers, the 64-bit sliding window takes the decisions of the
  specification that remembers the whole set of accepted numbers.
\<close>

theorem replay_window_refines_set:
  "observe_run replay_default ns = spec_run {} (map unat ns)"
  by (rule observe_run_tracks) (rule tracks_default)

text \<open>No sequence number is accepted twice in the life of a window.\<close>

theorem replay_accepts_once: "distinct (accepted_run replay_default ns)"
  using accepted_run_fresh [OF tracks_default] by blast

end
