(* ===== verification/Session.thy ===== *)
theory Session
  imports Prelude "HOL-Library.Sublist"
begin

text \<open>
  crates/session/src/state.rs and intent.rs: one authoritative session, from protocol
  admission to the authorisation of gameplay intents. Identifiers are the \<open>u64\<close> newtypes of
  crates/core/src/ids.rs.
\<close>

section \<open>Model\<close>

datatype session_phase =
  Phase_ProtocolAdmitted | Phase_Authenticated | Phase_CharacterBound | Phase_WorldActive
| Phase_Closing

record world_binding =
  bind_account :: u64
  bind_character :: u64
  bind_zone :: u64

datatype session_state =
  ProtocolAdmitted
| Authenticated u64
| CharacterBound u64 u64 u64
| WorldActive u64 u64 u64
| Closing

fun state_phase :: "session_state \<Rightarrow> session_phase" where
  "state_phase ProtocolAdmitted = Phase_ProtocolAdmitted"
| "state_phase (Authenticated _) = Phase_Authenticated"
| "state_phase (CharacterBound _ _ _) = Phase_CharacterBound"
| "state_phase (WorldActive _ _ _) = Phase_WorldActive"
| "state_phase Closing = Phase_Closing"

fun state_world_binding :: "session_state \<Rightarrow> world_binding option" where
  "state_world_binding (CharacterBound a c z) =
     Some \<lparr>bind_account = a, bind_character = c, bind_zone = z\<rparr>"
| "state_world_binding (WorldActive a c z) =
     Some \<lparr>bind_account = a, bind_character = c, bind_zone = z\<rparr>"
| "state_world_binding _ = None"

datatype session_state_error =
  UnassignedIdentity string
| InvalidTransition session_phase string

datatype session_authority_error = NotWorldActive session_phase

datatype intent_payload = Move "16 word" "16 word"

record authorized_intent =
  ai_session :: u64
  ai_account :: u64
  ai_character :: u64
  ai_zone :: u64
  ai_sequence :: u64
  ai_payload :: intent_payload

record session =
  ses_id :: u64
  ses_connection :: u64
  ses_state :: session_state

definition require_nonzero :: "string \<Rightarrow> u64 \<Rightarrow> session_state_error + unit" where
  "require_nonzero name v = (if v = 0 then Inl (UnassignedIdentity name) else Inr ())"

definition session_new :: "u64 \<Rightarrow> u64 \<Rightarrow> session_state_error + session" where
  "session_new sid cid =
     (case require_nonzero ''session_id'' sid of Inl e \<Rightarrow> Inl e | Inr _ \<Rightarrow>
      (case require_nonzero ''connection_id'' cid of Inl e \<Rightarrow> Inl e | Inr _ \<Rightarrow>
       Inr \<lparr>ses_id = sid, ses_connection = cid, ses_state = ProtocolAdmitted\<rparr>))"

definition phase :: "session \<Rightarrow> session_phase" where
  "phase s = state_phase (ses_state s)"

definition session_world_binding :: "session \<Rightarrow> world_binding option" where
  "session_world_binding s = state_world_binding (ses_state s)"

definition authenticate :: "session \<Rightarrow> u64 \<Rightarrow> session_state_error + session" where
  "authenticate s account =
     (case require_nonzero ''account_id'' account of Inl e \<Rightarrow> Inl e | Inr _ \<Rightarrow>
      if ses_state s \<noteq> ProtocolAdmitted
      then Inl (InvalidTransition (phase s) ''authenticate'')
      else Inr (s\<lparr>ses_state := Authenticated account\<rparr>))"

definition bind_to_character :: "session \<Rightarrow> u64 \<Rightarrow> u64 \<Rightarrow> session_state_error + session" where
  "bind_to_character s character zone =
     (case require_nonzero ''character_id'' character of Inl e \<Rightarrow> Inl e | Inr _ \<Rightarrow>
      (case require_nonzero ''zone_id'' zone of Inl e \<Rightarrow> Inl e | Inr _ \<Rightarrow>
       (case ses_state s of
          Authenticated account \<Rightarrow> Inr (s\<lparr>ses_state := CharacterBound account character zone\<rparr>)
        | _ \<Rightarrow> Inl (InvalidTransition (phase s) ''bind_character''))))"

definition activate_world :: "session \<Rightarrow> session_state_error + session" where
  "activate_world s =
     (case ses_state s of
        CharacterBound a c z \<Rightarrow> Inr (s\<lparr>ses_state := WorldActive a c z\<rparr>)
      | _ \<Rightarrow> Inl (InvalidTransition (phase s) ''activate_world''))"

definition begin_closing :: "session \<Rightarrow> session" where
  "begin_closing s = s\<lparr>ses_state := Closing\<rparr>"

definition authorize_intent ::
  "session \<Rightarrow> u64 \<Rightarrow> intent_payload \<Rightarrow> session_authority_error + authorized_intent" where
  "authorize_intent s n payload =
     (case ses_state s of
        WorldActive a c z \<Rightarrow>
          Inr \<lparr>ai_session = ses_id s, ai_account = a, ai_character = c, ai_zone = z,
               ai_sequence = n, ai_payload = payload\<rparr>
      | _ \<Rightarrow> Inl (NotWorldActive (phase s)))"

section \<open>The operations as one step function\<close>

datatype session_op =
  OpAuthenticate u64
| OpBindCharacter u64 u64
| OpActivateWorld
| OpBeginClosing

fun session_apply :: "session \<Rightarrow> session_op \<Rightarrow> session_state_error + session" where
  "session_apply s (OpAuthenticate a) = authenticate s a"
| "session_apply s (OpBindCharacter c z) = bind_to_character s c z"
| "session_apply s OpActivateWorld = activate_world s"
| "session_apply s OpBeginClosing = Inr (begin_closing s)"

text \<open>A rejected operation leaves the session as it was.\<close>

definition session_step :: "session \<Rightarrow> session_op \<Rightarrow> session" where
  "session_step s op = (case session_apply s op of Inl _ \<Rightarrow> s | Inr s' \<Rightarrow> s')"

section \<open>The lifecycle as a step relation\<close>

inductive lifecycle :: "session_state \<Rightarrow> session_op \<Rightarrow> session_state \<Rightarrow> bool" where
  admit: "a \<noteq> 0 \<Longrightarrow> lifecycle ProtocolAdmitted (OpAuthenticate a) (Authenticated a)"
| bind: "c \<noteq> 0 \<Longrightarrow> z \<noteq> 0 \<Longrightarrow>
    lifecycle (Authenticated a) (OpBindCharacter c z) (CharacterBound a c z)"
| activate: "lifecycle (CharacterBound a c z) OpActivateWorld (WorldActive a c z)"
| close: "lifecycle st OpBeginClosing Closing"

inductive_cases lifecycle_authenticateE [elim!]: "lifecycle st (OpAuthenticate a) st'"
inductive_cases lifecycle_bindE [elim!]: "lifecycle st (OpBindCharacter c z) st'"
inductive_cases lifecycle_activateE [elim!]: "lifecycle st OpActivateWorld st'"
inductive_cases lifecycle_closeE [elim!]: "lifecycle st OpBeginClosing st'"
inductive_cases lifecycle_to_activeE: "lifecycle st op (WorldActive a c z)"
inductive_cases lifecycle_to_boundE: "lifecycle st op (CharacterBound a c z)"
inductive_cases lifecycle_to_authenticatedE: "lifecycle st op (Authenticated a)"

lemma session_apply_lifecycle:
  "session_apply s op = Inr s' \<longleftrightarrow>
     lifecycle (ses_state s) op (ses_state s') \<and> ses_id s' = ses_id s
       \<and> ses_connection s' = ses_connection s"
proof (cases op)
  case (OpAuthenticate a)
  then show ?thesis
    by (cases s; cases s')
      (auto simp: authenticate_def require_nonzero_def intro: lifecycle.intros)
next
  case (OpBindCharacter c z)
  then show ?thesis
    by (cases s; cases s')
      (auto simp: bind_to_character_def require_nonzero_def intro: lifecycle.intros
        split: session_state.splits)
next
  case OpActivateWorld
  then show ?thesis
    by (cases s; cases s')
      (auto simp: activate_world_def intro: lifecycle.intros split: session_state.splits)
next
  case OpBeginClosing
  then show ?thesis
    by (cases s; cases s') (auto simp: begin_closing_def intro: lifecycle.intros)
qed

lemma session_step_cases:
  "session_step s op = s \<or> lifecycle (ses_state s) op (ses_state (session_step s op))"
  using session_apply_lifecycle by (auto simp: session_step_def split: sum.splits)

lemma session_step_ids [simp]:
  "ses_id (session_step s op) = ses_id s" "ses_connection (session_step s op) = ses_connection s"
  using session_apply_lifecycle by (auto simp: session_step_def split: sum.splits)

lemma closing_absorbing: "ses_state s = Closing \<Longrightarrow> ses_state (session_step s op) = Closing"
  using session_step_cases [of s op] by (cases op) auto

section \<open>History of a state\<close>

text \<open>The operations a state proves to have happened, in this order.\<close>

fun history :: "session_state \<Rightarrow> session_op list" where
  "history ProtocolAdmitted = []"
| "history (Authenticated a) = [OpAuthenticate a]"
| "history (CharacterBound a c z) = [OpAuthenticate a, OpBindCharacter c z]"
| "history (WorldActive a c z) = [OpAuthenticate a, OpBindCharacter c z, OpActivateWorld]"
| "history Closing = [OpBeginClosing]"

lemma lifecycle_history:
  "lifecycle st op st' \<Longrightarrow> history st' = history st @ [op] \<or> history st' = [op]"
  by (induction rule: lifecycle.induct) auto

lemma history_snoc:
  assumes "subseq (history (ses_state s)) ops"
  shows "subseq (history (ses_state (session_step s op))) (ops @ [op])"
  using session_step_cases [of s op]
proof
  assume "session_step s op = s"
  with assms show ?thesis by (simp add: list_emb_prefix)
next
  assume "lifecycle (ses_state s) op (ses_state (session_step s op))"
  then consider "history (ses_state (session_step s op)) = history (ses_state s) @ [op]"
    | "history (ses_state (session_step s op)) = [op]"
    using lifecycle_history by blast
  then show ?thesis using assms by cases (auto intro: list_emb_append_mono list_emb_append2)
qed

lemma history_run:
  "ses_state s = ProtocolAdmitted \<Longrightarrow>
     subseq (history (ses_state (foldl session_step s ops))) ops"
proof (induction ops rule: rev_induct)
  case Nil
  then show ?case by simp
next
  case (snoc op ops)
  then show ?case by (simp add: history_snoc)
qed

text \<open>Identities held by a session are never the reserved zero.\<close>

fun state_assigned :: "session_state \<Rightarrow> bool" where
  "state_assigned (Authenticated a) = (a \<noteq> 0)"
| "state_assigned (CharacterBound a c z) = (a \<noteq> 0 \<and> c \<noteq> 0 \<and> z \<noteq> 0)"
| "state_assigned (WorldActive a c z) = (a \<noteq> 0 \<and> c \<noteq> 0 \<and> z \<noteq> 0)"
| "state_assigned _ = True"

definition session_inv :: "session \<Rightarrow> bool" where
  "session_inv s \<longleftrightarrow> ses_id s \<noteq> 0 \<and> ses_connection s \<noteq> 0 \<and> state_assigned (ses_state s)"

lemma lifecycle_assigned: "lifecycle st op st' \<Longrightarrow> state_assigned st \<Longrightarrow> state_assigned st'"
  by (induction rule: lifecycle.induct) auto

lemma session_inv_new: "session_new sid cid = Inr s \<Longrightarrow> session_inv s"
  by (auto simp: session_new_def require_nonzero_def session_inv_def split: if_splits)

lemma session_inv_apply: "session_inv s \<Longrightarrow> session_apply s op = Inr s' \<Longrightarrow> session_inv s'"
  unfolding session_apply_lifecycle by (auto simp: session_inv_def dest: lifecycle_assigned)

interpretation session_machine: invariant_machine session_step session_inv
  by unfold_locales (auto simp: session_step_def split: sum.splits intro: session_inv_apply)

lemma session_new_state:
  "session_new sid cid = Inr s \<Longrightarrow>
     ses_state s = ProtocolAdmitted \<and> ses_id s = sid \<and> ses_connection s = cid"
  by (auto simp: session_new_def require_nonzero_def split: if_splits)

lemma authorize_intent_Inr:
  "authorize_intent s n p = Inr ai \<Longrightarrow>
     ses_state s = WorldActive (ai_account ai) (ai_character ai) (ai_zone ai)
       \<and> ai_session ai = ses_id s \<and> ai_sequence ai = n \<and> ai_payload ai = p"
  by (auto simp: authorize_intent_def split: session_state.splits)

section \<open>Properties\<close>

text \<open>
  C34: whatever operations a new session is given, the identity it holds was put there by the
  operations themselves, in the order authenticate, bind character, activate.
\<close>

theorem session_identity_earned:
  assumes "session_new sid cid = Inr s"
  shows "subseq (history (ses_state (foldl session_step s ops))) ops"
  using session_new_state [OF assms] by (simp add: history_run)

theorem session_identity_earned_witness:
  "subseq [OpAuthenticate 3, OpBindCharacter 5 7, OpActivateWorld]
     [OpActivateWorld, OpAuthenticate 3, OpAuthenticate 4, OpBindCharacter 5 7, OpActivateWorld]"
  using session_identity_earned [of 1 2 "\<lparr>ses_id = 1, ses_connection = 2, ses_state = ProtocolAdmitted\<rparr>"
      "[OpActivateWorld, OpAuthenticate 3, OpAuthenticate 4, OpBindCharacter 5 7, OpActivateWorld]"]
  by (simp add: session_new_def require_nonzero_def session_step_def activate_world_def
      authenticate_def bind_to_character_def)

text \<open>A session that began closing stays closed and authorises nothing any more.\<close>

theorem session_closing_final:
  "ses_state (foldl session_step (begin_closing s) ops) = Closing \<and>
   authorize_intent (foldl session_step (begin_closing s) ops) n p = Inl (NotWorldActive Phase_Closing)"
proof -
  have "ses_state (foldl session_step s' ops) = Closing" if "ses_state s' = Closing" for s'
    using that by (induction ops arbitrary: s') (simp_all add: closing_absorbing)
  from this [of "begin_closing s"] show ?thesis
    by (simp add: begin_closing_def authorize_intent_def phase_def)
qed

end
