(* ===== verification/Session_Registry.thy ===== *)
theory Session_Registry
  imports Session Replay_Window
begin

text \<open>
  crates/session/src/registry.rs and ingress.rs: the live sessions, indexed by session and by
  connection, and the ingress that turns movement messages into authorised intents. The
  bounded channel to the world is a Tokio queue: \<open>try_ingest_move\<close> takes its \<open>try_send\<close> as an
  argument.
\<close>

section \<open>Model\<close>

record live_session =
  live :: session
  replay :: replay_window

record registry =
  by_session :: "u64 \<rightharpoonup> live_session"
  by_connection :: "u64 \<rightharpoonup> u64"

datatype registry_error =
  DuplicateSession u64
| DuplicateConnection u64
| UnknownConnection u64
| InconsistentIndex u64 u64
| RegistryState session_state_error

datatype sequence_error =
  SeqRegistry registry_error
| SeqAuthority session_authority_error
| SeqDuplicate u64
| SeqOutOfOrder u64 "u64 option"
| SeqTooOld u64 "u64 option"

definition registry_empty :: registry where
  "registry_empty = \<lparr>by_session = Map.empty, by_connection = Map.empty\<rparr>"

definition is_world_active_session :: "registry \<Rightarrow> u64 \<Rightarrow> bool" where
  "is_world_active_session r sid =
     (case by_session r sid of None \<Rightarrow> False | Some l \<Rightarrow> phase (live l) = Phase_WorldActive)"

definition session_id_for_connection :: "registry \<Rightarrow> u64 \<Rightarrow> registry_error + u64" where
  "session_id_for_connection r cid = ok_or (UnknownConnection cid) (by_connection r cid)"

definition live_for_connection :: "registry \<Rightarrow> u64 \<Rightarrow> registry_error + u64 \<times> live_session" where
  "live_for_connection r cid =
     (case session_id_for_connection r cid of
        Inl e \<Rightarrow> Inl e
      | Inr sid \<Rightarrow>
          (case by_session r sid of
             None \<Rightarrow> Inl (InconsistentIndex cid sid)
           | Some l \<Rightarrow> Inr (sid, l)))"

definition put_live :: "registry \<Rightarrow> u64 \<Rightarrow> live_session \<Rightarrow> registry" where
  "put_live r sid l = r\<lparr>by_session := (by_session r)(sid \<mapsto> l)\<rparr>"

definition register :: "registry \<Rightarrow> u64 \<Rightarrow> u64 \<Rightarrow> registry_error + registry" where
  "register r sid cid =
     (if by_session r sid \<noteq> None then Inl (DuplicateSession sid)
      else if by_connection r cid \<noteq> None then Inl (DuplicateConnection cid)
      else
        (case session_new sid cid of
           Inl e \<Rightarrow> Inl (RegistryState e)
         | Inr s \<Rightarrow>
             Inr (r\<lparr>by_session := (by_session r)(sid \<mapsto> \<lparr>live = s, replay = replay_default\<rparr>),
                    by_connection := (by_connection r)(cid \<mapsto> sid)\<rparr>)))"

definition remove_by_connection :: "registry \<Rightarrow> u64 \<Rightarrow> registry_error + u64 \<times> registry" where
  "remove_by_connection r cid =
     (case session_id_for_connection r cid of
        Inl e \<Rightarrow> Inl e
      | Inr sid \<Rightarrow>
          if by_session r sid = None then Inl (InconsistentIndex cid sid)
          else Inr (sid, r\<lparr>by_connection := (by_connection r)(cid := None),
                           by_session := (by_session r)(sid := None)\<rparr>))"

text \<open>The session operations, applied to the live session of a connection.\<close>

definition on_session ::
  "registry \<Rightarrow> u64 \<Rightarrow> (session \<Rightarrow> session_state_error + session) \<Rightarrow> registry_error + registry" where
  "on_session r cid f =
     (case live_for_connection r cid of
        Inl e \<Rightarrow> Inl e
      | Inr (sid, l) \<Rightarrow>
          (case f (live l) of
             Inl e \<Rightarrow> Inl (RegistryState e)
           | Inr s \<Rightarrow> Inr (put_live r sid (l\<lparr>live := s\<rparr>))))"

definition registry_authenticate :: "registry \<Rightarrow> u64 \<Rightarrow> u64 \<Rightarrow> registry_error + registry" where
  "registry_authenticate r cid account = on_session r cid (\<lambda>s. authenticate s account)"

definition registry_bind_character ::
  "registry \<Rightarrow> u64 \<Rightarrow> u64 \<Rightarrow> u64 \<Rightarrow> registry_error + registry" where
  "registry_bind_character r cid character zone =
     on_session r cid (\<lambda>s. bind_to_character s character zone)"

definition registry_activate_world :: "registry \<Rightarrow> u64 \<Rightarrow> registry_error + registry" where
  "registry_activate_world r cid = on_session r cid activate_world"

definition registry_begin_closing :: "registry \<Rightarrow> u64 \<Rightarrow> registry_error + registry" where
  "registry_begin_closing r cid = on_session r cid (\<lambda>s. Inr (begin_closing s))"

definition phase_for_connection :: "registry \<Rightarrow> u64 \<Rightarrow> registry_error + session_phase" where
  "phase_for_connection r cid =
     (case live_for_connection r cid of Inl e \<Rightarrow> Inl e | Inr (_, l) \<Rightarrow> Inr (phase (live l)))"

definition world_binding_for_connection ::
  "registry \<Rightarrow> u64 \<Rightarrow> registry_error + world_binding option" where
  "world_binding_for_connection r cid =
     (case live_for_connection r cid of
        Inl e \<Rightarrow> Inl e
      | Inr (_, l) \<Rightarrow> Inr (session_world_binding (live l)))"

text \<open>
  The replay window moves even when the sequence number is rejected as out of order, so the
  new registry is returned with every outcome.
\<close>

definition authorize_from_connection ::
  "registry \<Rightarrow> u64 \<Rightarrow> u64 \<Rightarrow> intent_payload
     \<Rightarrow> (sequence_error + authorized_intent) \<times> registry" where
  "authorize_from_connection r cid n payload =
     (case live_for_connection r cid of
        Inl e \<Rightarrow> (Inl (SeqRegistry e), r)
      | Inr (sid, l) \<Rightarrow>
          (case authorize_intent (live l) n payload of
             Inl e \<Rightarrow> (Inl (SeqAuthority e), r)
           | Inr ai \<Rightarrow>
               (let highest_before = highest (replay l)
                in (case observe (replay l) n of
                      (decision, w') \<Rightarrow>
                        ((case decision of
                            AcceptedNewHighest \<Rightarrow> Inr ai
                          | AcceptedOutOfOrder \<Rightarrow> Inl (SeqOutOfOrder n highest_before)
                          | RejectedDuplicate \<Rightarrow> Inl (SeqDuplicate n)
                          | RejectedTooOld \<Rightarrow> Inl (SeqTooOld n highest_before)),
                         put_live r sid (l\<lparr>replay := w'\<rparr>))))))"

section \<open>Ingress\<close>

datatype try_send_result = SendOk | SendFull | SendClosed

datatype ingress_error = IngressSequence sequence_error | QueueFull | QueueClosed

definition try_ingest_move ::
  "('q \<Rightarrow> authorized_intent \<Rightarrow> try_send_result \<times> 'q) \<Rightarrow> registry \<times> 'q
     \<Rightarrow> u64 \<Rightarrow> u64 \<Rightarrow> 16 word \<Rightarrow> 16 word \<Rightarrow> (ingress_error + unit) \<times> registry \<times> 'q" where
  "try_ingest_move try_send st cid n axis_x axis_y =
     (case st of
        (r, q) \<Rightarrow>
          (case authorize_from_connection r cid n (Move axis_x axis_y) of
             (Inl e, r') \<Rightarrow> (Inl (IngressSequence e), r', q)
           | (Inr ai, r') \<Rightarrow>
               (case try_send q ai of
                  (SendOk, q') \<Rightarrow> (Inr (), r', q')
                | (SendFull, q') \<Rightarrow> (Inl QueueFull, r', q')
                | (SendClosed, q') \<Rightarrow> (Inl QueueClosed, r', q'))))"

section \<open>Operations\<close>

datatype registry_op =
  Register u64 u64
| Remove u64
| OnSession u64 session_op
| Authorize u64 u64 intent_payload

fun registry_step :: "registry \<Rightarrow> registry_op \<Rightarrow> registry" where
  "registry_step r (Register sid cid) =
     (case register r sid cid of Inl _ \<Rightarrow> r | Inr r' \<Rightarrow> r')"
| "registry_step r (Remove cid) =
     (case remove_by_connection r cid of Inl _ \<Rightarrow> r | Inr (_, r') \<Rightarrow> r')"
| "registry_step r (OnSession cid op) =
     (case on_session r cid (\<lambda>s. session_apply s op) of Inl _ \<Rightarrow> r | Inr r' \<Rightarrow> r')"
| "registry_step r (Authorize cid n p) = snd (authorize_from_connection r cid n p)"

text \<open>What an operation hands to the world: at most one authorised intent.\<close>

fun registry_output :: "registry \<Rightarrow> registry_op \<Rightarrow> authorized_intent list" where
  "registry_output r (Authorize cid n p) =
     (case fst (authorize_from_connection r cid n p) of Inl _ \<Rightarrow> [] | Inr ai \<Rightarrow> [ai])"
| "registry_output r _ = []"

fun registry_log :: "registry \<Rightarrow> registry_op list \<Rightarrow> authorized_intent list" where
  "registry_log r [] = []"
| "registry_log r (op # ops) = registry_output r op @ registry_log (registry_step r op) ops"

lemma session_ops_registry:
  "registry_authenticate r cid a = on_session r cid (\<lambda>s. session_apply s (OpAuthenticate a))"
  "registry_bind_character r cid c z = on_session r cid (\<lambda>s. session_apply s (OpBindCharacter c z))"
  "registry_activate_world r cid = on_session r cid (\<lambda>s. session_apply s OpActivateWorld)"
  "registry_begin_closing r cid = on_session r cid (\<lambda>s. session_apply s OpBeginClosing)"
  by (simp_all add: registry_authenticate_def registry_bind_character_def
    registry_activate_world_def registry_begin_closing_def)

section \<open>Invariant: the two indexes describe the same sessions\<close>

definition live_ok :: "u64 \<Rightarrow> u64 \<Rightarrow> live_session \<Rightarrow> bool" where
  "live_ok sid cid l \<longleftrightarrow>
     session_inv (live l) \<and> ses_id (live l) = sid \<and> ses_connection (live l) = cid
       \<and> (\<exists>S. tracks (replay l) S)"

definition registry_inv :: "registry \<Rightarrow> bool" where
  "registry_inv r \<longleftrightarrow>
     (\<forall>cid sid. by_connection r cid = Some sid \<longrightarrow>
        (\<exists>l. by_session r sid = Some l \<and> live_ok sid cid l)) \<and>
     (\<forall>sid l. by_session r sid = Some l \<longrightarrow> by_connection r (ses_connection (live l)) = Some sid)"

lemma registry_inv_empty: "registry_inv registry_empty"
  by (simp add: registry_inv_def registry_empty_def)

lemma registry_invD:
  assumes "registry_inv r" "by_connection r cid = Some sid"
  obtains l where "by_session r sid = Some l" "live_ok sid cid l"
  using assms unfolding registry_inv_def by blast

lemma registry_inv_inj:
  assumes "registry_inv r" "by_connection r cid = Some sid" "by_connection r cid' = Some sid"
  shows "cid = cid'"
proof -
  obtain l where "by_session r sid = Some l" "live_ok sid cid l"
    using assms(1,2) by (rule registry_invD)
  moreover obtain l' where "by_session r sid = Some l'" "live_ok sid cid' l'"
    using assms(1,3) by (rule registry_invD)
  ultimately show ?thesis by (simp add: live_ok_def)
qed

lemma live_for_connection_Inr:
  "live_for_connection r cid = Inr (sid, l) \<longleftrightarrow>
     by_connection r cid = Some sid \<and> by_session r sid = Some l"
  by (auto simp: live_for_connection_def session_id_for_connection_def ok_or_def
    split: option.splits sum.splits)

lemma live_for_connection_inv:
  "registry_inv r \<Longrightarrow> by_connection r cid = None \<or>
     (\<exists>sid l. live_for_connection r cid = Inr (sid, l) \<and> live_ok sid cid l)"
  by (cases "by_connection r cid") (auto simp: live_for_connection_Inr elim: registry_invD)

lemma registry_invI:
  assumes "\<And>cid sid. by_connection r cid = Some sid \<Longrightarrow>
      \<exists>l. by_session r sid = Some l \<and> live_ok sid cid l"
    and "\<And>sid l. by_session r sid = Some l \<Longrightarrow>
      by_connection r (ses_connection (live l)) = Some sid"
  shows "registry_inv r"
  using assms by (simp add: registry_inv_def)

lemma registry_inv_back:
  "registry_inv r \<Longrightarrow> by_session r sid = Some l \<Longrightarrow>
     by_connection r (ses_connection (live l)) = Some sid"
  by (simp add: registry_inv_def)

lemma put_live_inv:
  assumes inv: "registry_inv r" and c: "by_connection r cid = Some sid" and l: "live_ok sid cid l"
  shows "registry_inv (put_live r sid l)"
proof (rule registry_invI)
  fix cid' sid'
  assume "by_connection (put_live r sid l) cid' = Some sid'"
  then have c': "by_connection r cid' = Some sid'" by (simp add: put_live_def)
  show "\<exists>l'. by_session (put_live r sid l) sid' = Some l' \<and> live_ok sid' cid' l'"
  proof (cases "sid' = sid")
    case True
    with registry_inv_inj [OF inv c] c' l show ?thesis by (simp add: put_live_def)
  next
    case False
    with registry_invD [OF inv c'] show ?thesis by (auto simp: put_live_def)
  qed
next
  fix sid' l'
  assume "by_session (put_live r sid l) sid' = Some l'"
  with registry_inv_back [OF inv, of sid'] c l
  show "by_connection (put_live r sid l) (ses_connection (live l')) = Some sid'"
    by (auto simp: put_live_def live_ok_def split: if_splits)
qed

lemma register_inv:
  assumes inv: "registry_inv r" and reg: "register r sid cid = Inr r'"
  shows "registry_inv r'"
proof -
  from reg obtain s where s: "session_new sid cid = Inr s"
    and fresh: "by_session r sid = None" "by_connection r cid = None"
    and r': "r' = r\<lparr>by_session := (by_session r)(sid \<mapsto> \<lparr>live = s, replay = replay_default\<rparr>),
                  by_connection := (by_connection r)(cid \<mapsto> sid)\<rparr>"
    by (auto simp: register_def split: if_splits sum.splits)
  have "live_ok sid cid \<lparr>live = s, replay = replay_default\<rparr>"
    using session_inv_new [OF s] session_new_state [OF s] tracks_default by (auto simp: live_ok_def)
  moreover have "by_connection r cid' \<noteq> Some sid" for cid'
    using inv fresh(1) by (auto elim: registry_invD)
  moreover have "ses_connection (live l) \<noteq> cid" if "by_session r sid' = Some l" for sid' l
    using inv that fresh(2) by (auto simp: registry_inv_def)
  ultimately show ?thesis
    using registry_inv_back [OF inv] registry_invD [OF inv]
    by (intro registry_invI) (fastforce simp: r' live_ok_def split: if_splits)+
qed

lemma remove_inv:
  assumes inv: "registry_inv r" and rem: "remove_by_connection r cid = Inr (sid, r')"
  shows "registry_inv r'"
proof -
  from rem have c: "by_connection r cid = Some sid"
    and r': "r' = r\<lparr>by_connection := (by_connection r)(cid := None),
                  by_session := (by_session r)(sid := None)\<rparr>"
    by (auto simp: remove_by_connection_def session_id_for_connection_def ok_or_def
      split: option.splits sum.splits if_splits)
  have other: "sid' \<noteq> sid" if "by_connection r cid' = Some sid'" "cid' \<noteq> cid" for cid' sid'
    using registry_inv_inj [OF inv c] that by metis
  have "ses_connection (live l) \<noteq> cid" if "by_session r sid' = Some l" "sid' \<noteq> sid" for sid' l
    using inv c that by (auto simp: registry_inv_def)
  with other registry_inv_back [OF inv] registry_invD [OF inv] show ?thesis
    by (intro registry_invI) (fastforce simp: r' split: if_splits)+
qed

lemma on_session_Inr:
  assumes "on_session r cid f = Inr r'"
  obtains sid l s where "by_connection r cid = Some sid" "by_session r sid = Some l"
    "f (live l) = Inr s" "r' = put_live r sid (l\<lparr>live := s\<rparr>)"
  using assms by (auto simp: on_session_def live_for_connection_Inr split: sum.splits)

lemma on_session_inv:
  assumes inv: "registry_inv r" and on: "on_session r cid (\<lambda>s. session_apply s op) = Inr r'"
  shows "registry_inv r'"
  using on
proof (rule on_session_Inr)
  fix sid l s
  assume c: "by_connection r cid = Some sid" "by_session r sid = Some l"
    and s: "session_apply (live l) op = Inr s" and r': "r' = put_live r sid (l\<lparr>live := s\<rparr>)"
  from inv c have "live_ok sid cid l" by (auto elim: registry_invD)
  with s have "live_ok sid cid (l\<lparr>live := s\<rparr>)"
    by (auto simp: live_ok_def session_inv_apply session_apply_lifecycle)
  with inv c(1) show ?thesis unfolding r' by (rule put_live_inv)
qed

lemma authorize_cases:
  obtains (err) e where "authorize_from_connection r cid n p = (Inl e, r)"
  | (seen) sid l ai where "by_connection r cid = Some sid" "by_session r sid = Some l"
      "authorize_intent (live l) n p = Inr ai"
      "snd (authorize_from_connection r cid n p) =
         put_live r sid (l\<lparr>replay := snd (observe (replay l) n)\<rparr>)"
      "\<And>a. fst (authorize_from_connection r cid n p) = Inr a \<longleftrightarrow>
         fst (observe (replay l) n) = AcceptedNewHighest \<and> a = ai"
proof (cases "live_for_connection r cid")
  case (Inl e)
  then show ?thesis by (intro err [of "SeqRegistry e"]) (simp add: authorize_from_connection_def)
next
  case (Inr sl)
  obtain sid l where sl: "sl = (sid, l)" by (cases sl)
  note look = Inr [unfolded sl]
  show ?thesis
  proof (cases "authorize_intent (live l) n p")
    case (Inl e)
    then show ?thesis
      using look by (intro err [of "SeqAuthority e"]) (simp add: authorize_from_connection_def)
  next
    case (Inr ai)
    show ?thesis
    proof (rule seen [of sid l ai])
      show "by_connection r cid = Some sid" "by_session r sid = Some l"
        using look by (simp_all add: live_for_connection_Inr)
      show "authorize_intent (live l) n p = Inr ai" by (fact Inr)
      show "snd (authorize_from_connection r cid n p) =
          put_live r sid (l\<lparr>replay := snd (observe (replay l) n)\<rparr>)"
        using look Inr by (simp add: authorize_from_connection_def Let_def split_beta)
      show "fst (authorize_from_connection r cid n p) = Inr a \<longleftrightarrow>
          fst (observe (replay l) n) = AcceptedNewHighest \<and> a = ai" for a
        using look Inr
        by (auto simp: authorize_from_connection_def Let_def split_beta
          split: replay_decision.splits)
    qed
  qed
qed

lemma authorize_inv:
  assumes inv: "registry_inv r"
  shows "registry_inv (snd (authorize_from_connection r cid n p))"
proof (cases rule: authorize_cases [of r cid n p])
  case (err e)
  with inv show ?thesis by simp
next
  case (seen sid l ai)
  from inv seen(1,2) have "live_ok sid cid l" by (auto elim: registry_invD)
  then have "live_ok sid cid (l\<lparr>replay := snd (observe (replay l) n)\<rparr>)"
    using observe_refines(2) by (fastforce simp: live_ok_def)
  with inv seen(1) show ?thesis unfolding seen(4) by (rule put_live_inv)
qed

lemma registry_step_inv: "registry_inv r \<Longrightarrow> registry_inv (registry_step r op)"
  by (cases op)
    (auto split: sum.splits simp: authorize_inv intro: register_inv remove_inv on_session_inv)

interpretation registry_machine: invariant_machine registry_step registry_inv
  by unfold_locales (rule registry_step_inv)

section \<open>Isolation between connections\<close>

text \<open>The registry as its clients see it: a live session per connection.\<close>

definition connection_view :: "registry \<Rightarrow> u64 \<Rightarrow> live_session option" where
  "connection_view r cid =
     (case by_connection r cid of None \<Rightarrow> None | Some sid \<Rightarrow> by_session r sid)"

fun op_connection :: "registry_op \<Rightarrow> u64" where
  "op_connection (Register _ cid) = cid"
| "op_connection (Remove cid) = cid"
| "op_connection (OnSession cid _) = cid"
| "op_connection (Authorize cid _ _) = cid"

lemma put_live_view:
  assumes "registry_inv r" "by_connection r cid = Some sid" "cid' \<noteq> cid"
  shows "connection_view (put_live r sid l) cid' = connection_view r cid'"
  using registry_inv_inj [OF assms(1,2)] assms(3)
  by (auto simp: connection_view_def put_live_def split: option.splits)

lemma step_by_connection:
  "cid' \<noteq> op_connection op \<Longrightarrow> by_connection (registry_step r op) cid' = by_connection r cid'"
proof (cases op)
  case (Authorize cid n p)
  then show ?thesis
    by (cases rule: authorize_cases [of r cid n p]) (auto simp: put_live_def)
next
  case (OnSession cid sop)
  then show ?thesis
    by (auto split: sum.splits elim!: on_session_Inr simp: put_live_def)
qed (auto split: sum.splits if_splits
    simp: register_def remove_by_connection_def)

lemma step_view_other:
  assumes inv: "registry_inv r" and other: "cid' \<noteq> op_connection op"
  shows "connection_view (registry_step r op) cid' = connection_view r cid'"
proof (cases op)
  case (Register sid cid)
  with other inv show ?thesis
    by (auto simp: register_def connection_view_def split: sum.splits option.splits
      elim: registry_invD)
next
  case (Remove cid)
  have "sid' \<noteq> sid" if "by_connection r cid = Some sid" "by_connection r cid' = Some sid'" for sid sid'
    using registry_inv_inj [OF inv that(1), of cid'] that(2) other Remove by auto
  with Remove other show ?thesis
    by (auto simp: remove_by_connection_def connection_view_def session_id_for_connection_def
      ok_or_def split: sum.splits option.splits)
next
  case (OnSession cid sop)
  with other show ?thesis
    by (auto split: sum.splits elim!: on_session_Inr intro: put_live_view [OF inv])
next
  case (Authorize cid n p)
  with other show ?thesis
    by (cases rule: authorize_cases [of r cid n p]) (auto intro: put_live_view [OF inv])
qed

section \<open>Authorised intents\<close>

lemma registry_output_source:
  assumes inv: "registry_inv r" and out: "ai \<in> set (registry_output r op)"
  obtains cid n p sid l where "op = Authorize cid n p" "by_connection r cid = Some sid"
    "by_session r sid = Some l" "live_ok sid cid l" "authorize_intent (live l) n p = Inr ai"
    "fst (observe (replay l) n) = AcceptedNewHighest"
    "registry_step r op = put_live r sid (l\<lparr>replay := snd (observe (replay l) n)\<rparr>)"
    "registry_output r op = [ai]"
proof (cases op)
  case (Authorize cid n p)
  show ?thesis
  proof (cases rule: authorize_cases [of r cid n p])
    case (err e)
    with out Authorize show ?thesis by simp
  next
    case (seen sid l ai')
    from out Authorize have "fst (authorize_from_connection r cid n p) = Inr ai"
      by (auto split: sum.splits)
    with seen(5) have new: "fst (observe (replay l) n) = AcceptedNewHighest" and "ai = ai'" by auto
    moreover have "live_ok sid cid l" using inv seen(1,2) by (auto elim: registry_invD)
    ultimately show ?thesis
      using Authorize seen \<open>fst (authorize_from_connection r cid n p) = Inr ai\<close>
      by (intro that) auto
  qed
qed (use out in auto)

lemma registry_output_session:
  assumes "registry_inv r" "ai \<in> set (registry_output r op)"
  shows "by_connection r (op_connection op) = Some (ai_session ai)"
  using assms
proof (rule registry_output_source)
  fix cid n p sid l
  assume "op = Authorize cid n p" "by_connection r cid = Some sid" "live_ok sid cid l"
    "authorize_intent (live l) n p = Inr ai"
  then show ?thesis by (auto simp: live_ok_def dest: authorize_intent_Inr)
qed

text \<open>One step, seen from the session \<open>sid\<close> of a connection that is not being removed.\<close>

lemma step_own_session:
  assumes inv: "registry_inv r" and c: "by_connection r cid = Some sid"
    and l: "by_session r sid = Some l" and tr: "tracks (replay l) S" and op: "op \<noteq> Remove cid"
  obtains l' S' where "by_connection (registry_step r op) cid = Some sid"
    "by_session (registry_step r op) sid = Some l'" "tracks (replay l') S'" "S \<subseteq> S'"
    "\<And>ai. ai \<in> set (registry_output r op) \<Longrightarrow> ai_session ai = sid \<Longrightarrow>
       unat (ai_sequence ai) \<in> S' \<and> (\<forall>s\<in>S. s < unat (ai_sequence ai))"
proof (cases "cid = op_connection op")
  case False
  have conn: "by_connection (registry_step r op) cid = Some sid"
    using step_by_connection [OF False] c by simp
  with step_view_other [OF inv False] c l
  have sess: "by_session (registry_step r op) sid = Some l" by (simp add: connection_view_def)
  have "ai_session ai \<noteq> sid" if "ai \<in> set (registry_output r op)" for ai
    using registry_inv_inj [OF inv c] registry_output_session [OF inv that] False by metis
  with conn sess tr show ?thesis by (intro that [of l S]) auto
next
  case True
  show ?thesis
  proof (cases op)
    case (Register sid' cid')
    with True c have "registry_step r op = r" by (auto simp: register_def)
    with c l tr Register show ?thesis by (intro that [of l S]) auto
  next
    case (Remove cid')
    with True op show ?thesis by simp
  next
    case (OnSession cid' sop)
    show ?thesis
    proof (cases "on_session r cid' (\<lambda>s. session_apply s sop)")
      case (Inl e)
      with c l tr OnSession show ?thesis by (intro that [of l S]) auto
    next
      case (Inr r')
      then obtain s where "r' = put_live r sid (l\<lparr>live := s\<rparr>)"
        using c l True OnSession by (auto elim!: on_session_Inr)
      with Inr c l tr OnSession show ?thesis
        by (intro that [of "l\<lparr>live := s\<rparr>" S]) (auto simp: put_live_def)
    qed
  next
    case (Authorize cid' n p)
    let ?S = "spec_accept S (unat n)"
    show ?thesis
    proof (cases rule: authorize_cases [of r cid' n p])
      case (err e)
      with c l tr Authorize show ?thesis by (intro that [of l S]) auto
    next
      case (seen sid' l' ai')
      with c l True Authorize have [simp]: "sid' = sid" "l' = l" by auto
      have "unat (ai_sequence ai) \<in> ?S \<and> (\<forall>s\<in>S. s < unat (ai_sequence ai))"
        if "ai \<in> set (registry_output r op)" for ai
      proof -
        from that Authorize have "fst (authorize_from_connection r cid' n p) = Inr ai"
          by (auto split: sum.splits)
        with seen(5) have d: "fst (observe (replay l) n) = AcceptedNewHighest"
          and [simp]: "ai = ai'" by auto
        with observe_refines(1) [OF tr] have "\<forall>s\<in>S. s < unat n"
          by (auto simp: spec_decision_def split: if_splits)
        with d observe_refines(1) [OF tr, of n] authorize_intent_Inr [OF seen(3)]
        show ?thesis by (auto simp: spec_accept_def)
      qed
      moreover have "S \<subseteq> ?S" by (auto simp: spec_accept_def)
      ultimately show ?thesis
        using c l Authorize seen(4) observe_refines(2) [OF tr, of n]
        by (intro that [of "l\<lparr>replay := snd (observe (replay l) n)\<rparr>" ?S]) (auto simp: put_live_def)
    qed
  qed
qed

lemma registry_log_above:
  assumes "registry_inv r" "by_connection r cid = Some sid" "by_session r sid = Some l"
    "tracks (replay l) S" "Remove cid \<notin> set ops"
  shows "sorted_wrt (<) (map ai_sequence (filter (\<lambda>ai. ai_session ai = sid) (registry_log r ops)))
    \<and> (\<forall>ai\<in>set (registry_log r ops). ai_session ai = sid \<longrightarrow>
          (\<forall>s\<in>S. s < unat (ai_sequence ai)))"
  using assms
proof (induction ops arbitrary: r l S)
  case Nil
  then show ?case by simp
next
  case (Cons op ops)
  from Cons.prems have op: "op \<noteq> Remove cid" by auto
  obtain l' S' where step: "by_connection (registry_step r op) cid = Some sid"
      "by_session (registry_step r op) sid = Some l'" "tracks (replay l') S'" "S \<subseteq> S'"
    and out: "\<And>ai. ai \<in> set (registry_output r op) \<Longrightarrow> ai_session ai = sid \<Longrightarrow>
       unat (ai_sequence ai) \<in> S' \<and> (\<forall>s\<in>S. s < unat (ai_sequence ai))"
    using step_own_session [OF Cons.prems(1-4) op] by blast
  have IH: "sorted_wrt (<) (map ai_sequence
        (filter (\<lambda>ai. ai_session ai = sid) (registry_log (registry_step r op) ops)))"
      "\<And>ai s. ai \<in> set (registry_log (registry_step r op) ops) \<Longrightarrow> ai_session ai = sid \<Longrightarrow>
         s \<in> S' \<Longrightarrow> s < unat (ai_sequence ai)"
    using Cons.IH [OF registry_step_inv [OF Cons.prems(1)] step(1-3)] Cons.prems(5) by auto
  have single: "registry_output r op = [] \<or> (\<exists>ai. registry_output r op = [ai])"
    by (cases op) (auto split: sum.splits)
  show ?case
  proof (cases "registry_output r op")
    case Nil
    with IH step(4) show ?thesis by auto
  next
    case (Cons ai rest)
    with single have [simp]: "registry_output r op = [ai]" by auto
    show ?thesis
      using IH step(4) out [of ai] by (auto intro: word_less_nat_alt [THEN iffD2])
  qed
qed

section \<open>Properties\<close>

lemmas registry_eval = register_def registry_empty_def session_new_def require_nonzero_def on_session_def
  live_for_connection_def session_id_for_connection_def put_live_def authenticate_def bind_to_character_def
  activate_world_def authorize_from_connection_def authorize_intent_def observe_def replay_default_def
  try_ingest_move_def ok_or_def

lemma registry_reachable_inv: "registry_inv (foldl registry_step registry_empty ops)"
  by (rule registry_machine.inv_run) (rule registry_inv_empty)

lemma register_tracks:
  assumes "register r sid cid = Inr r'"
  shows "by_connection r' cid = Some sid" "\<exists>l. by_session r' sid = Some l \<and> tracks (replay l) {}"
  using assms by (auto simp: register_def tracks_default split: if_splits sum.splits)

text \<open>
  C2: from the registration of a connection until its removal, whatever all clients send, the
  intents authorised for its session carry strictly increasing sequence numbers.
\<close>

theorem registry_intents_increase:
  assumes "register (foldl registry_step registry_empty pre) sid cid = Inr r"
    and "Remove cid \<notin> set ops"
  shows "sorted_wrt (<) (map ai_sequence (filter (\<lambda>ai. ai_session ai = sid) (registry_log r ops)))"
proof -
  have "registry_inv r" using register_inv [OF registry_reachable_inv assms(1)] .
  then show ?thesis using register_tracks [OF assms(1)] registry_log_above assms(2) by blast
qed

theorem registry_intents_increase_witness:
  "sorted_wrt (<) (map ai_sequence (filter (\<lambda>ai. ai_session ai = 1)
     (registry_log \<lparr>by_session = [1 \<mapsto> \<lparr>live = \<lparr>ses_id = 1, ses_connection = 2, ses_state = ProtocolAdmitted\<rparr>,
                                       replay = replay_default\<rparr>], by_connection = [2 \<mapsto> 1]\<rparr>
       [OnSession 2 (OpAuthenticate 3), OnSession 2 (OpBindCharacter 4 5), OnSession 2 OpActivateWorld,
        Authorize 2 7 (Move 1 0), Authorize 2 7 (Move 1 0), Authorize 2 6 (Move 0 1),
        Authorize 2 9 (Move 0 0)])))"
  by (rule registry_intents_increase [of "[]" _ 2])
    (simp_all add: register_def registry_empty_def session_new_def require_nonzero_def)

text \<open>
  C3: whatever happened before, an intent leaves the registry only at the moment a connection sends it, and only while that
  connection's session is in the world at that moment: it carries the sequence number and the payload that were sent, the
  session the connection is registered with, and the account, character and zone the server bound to that session.
\<close>

theorem registry_intent_identity:
  assumes "ai \<in> set (registry_output (foldl registry_step registry_empty pre) op)"
  shows "\<exists>cid l. op = Authorize cid (ai_sequence ai) (ai_payload ai) \<and>
    by_connection (foldl registry_step registry_empty pre) cid = Some (ai_session ai) \<and>
    by_session (foldl registry_step registry_empty pre) (ai_session ai) = Some l \<and>
    ses_id (live l) = ai_session ai \<and> ses_connection (live l) = cid \<and>
    ses_state (live l) = WorldActive (ai_account ai) (ai_character ai) (ai_zone ai) \<and>
    fst (observe (replay l) (ai_sequence ai)) = AcceptedNewHighest"
  using registry_reachable_inv [of pre] assms
proof (rule registry_output_source)
  fix cid n p sid l
  assume "op = Authorize cid n p" "by_connection (foldl registry_step registry_empty pre) cid = Some sid"
    "by_session (foldl registry_step registry_empty pre) sid = Some l" "live_ok sid cid l"
    "authorize_intent (live l) n p = Inr ai" "fst (observe (replay l) n) = AcceptedNewHighest"
  then show ?thesis by (auto simp: live_ok_def dest!: authorize_intent_Inr)
qed

theorem registry_intent_identity_witness:
  "\<exists>l. by_session (foldl registry_step registry_empty [Register 1 2, OnSession 2 (OpAuthenticate 3),
      OnSession 2 (OpBindCharacter 4 5), OnSession 2 OpActivateWorld]) 1 = Some l \<and>
    ses_connection (live l) = 2 \<and> ses_state (live l) = WorldActive 3 4 5"
proof -
  have "\<lparr>ai_session = 1, ai_account = 3, ai_character = 4, ai_zone = 5, ai_sequence = 7, ai_payload = Move 1 0\<rparr>
      \<in> set (registry_output (foldl registry_step registry_empty [Register 1 2, OnSession 2 (OpAuthenticate 3),
        OnSession 2 (OpBindCharacter 4 5), OnSession 2 OpActivateWorld]) (Authorize 2 7 (Move 1 0)))"
    by (simp add: registry_eval)
  from registry_intent_identity [OF this] show ?thesis by auto
qed

text \<open>In every reachable registry, an operation on one connection leaves the session of every other as it was.\<close>

theorem registry_isolates_connections:
  assumes "cid' \<noteq> op_connection op"
  shows "connection_view (registry_step (foldl registry_step registry_empty ops) op) cid' =
    connection_view (foldl registry_step registry_empty ops) cid'"
  using step_view_other [OF registry_reachable_inv assms] .

theorem registry_isolates_connections_witness:
  "connection_view (registry_step (foldl registry_step registry_empty [Register 1 2, Register 3 4]) (Remove 2)) 4 =
    connection_view (foldl registry_step registry_empty [Register 1 2, Register 3 4]) 4"
  by (rule registry_isolates_connections) simp

text \<open>
  A movement the queue refuses for lack of room has still used its sequence number: the
  same number sent again is refused as a duplicate, whatever the queue then does.
\<close>

theorem ingest_full_queue_uses_sequence:
  assumes "try_ingest_move send (foldl registry_step registry_empty ops, q) cid n x y = (Inl QueueFull, r', q')"
  shows "fst (try_ingest_move send' (r', q'') cid n x' y') = Inl (IngressSequence (SeqDuplicate n))"
proof -
  let ?r = "foldl registry_step registry_empty ops"
  have inv: "registry_inv ?r" by (rule registry_reachable_inv)
  obtain ai where auth: "authorize_from_connection ?r cid n (Move x y) = (Inr ai, r')"
    using assms by (auto simp: try_ingest_move_def split: prod.splits sum.splits try_send_result.splits)
  have "\<exists>sid l. by_connection ?r cid = Some sid \<and> by_session ?r sid = Some l \<and>
      authorize_intent (live l) n (Move x y) = Inr ai \<and>
      r' = put_live ?r sid (l\<lparr>replay := snd (observe (replay l) n)\<rparr>) \<and>
      fst (observe (replay l) n) = AcceptedNewHighest"
  proof (cases rule: authorize_cases [of ?r cid n "Move x y"])
    case (err e)
    with auth show ?thesis by simp
  next
    case (seen sid l ai')
    from seen(5) [of ai] auth have "fst (observe (replay l) n) = AcceptedNewHighest" "ai = ai'" by simp_all
    with seen auth show ?thesis by auto
  qed
  then obtain sid l where c: "by_connection ?r cid = Some sid" and l: "by_session ?r sid = Some l"
    and a: "authorize_intent (live l) n (Move x y) = Inr ai"
    and r': "r' = put_live ?r sid (l\<lparr>replay := snd (observe (replay l) n)\<rparr>)"
    and new: "fst (observe (replay l) n) = AcceptedNewHighest" by blast
  obtain S where S: "tracks (replay l) S" using registry_invD [OF inv c] l by (auto simp: live_ok_def)
  let ?w = "snd (observe (replay l) n)" and ?S = "spec_accept S (unat n)"
  have tr: "tracks ?w ?S" using observe_refines(2) [OF S] .
  have "spec_decision S (unat n) = AcceptedNewHighest" using observe_refines(1) [OF S, of n] new by simp
  then have "spec_decision ?S (unat n) = RejectedDuplicate"
    by (auto simp: spec_accept_def spec_decision_def split: if_splits)
  then have dup: "fst (observe ?w n) = RejectedDuplicate" using observe_refines(1) [OF tr, of n] by simp
  obtain ai' where "authorize_intent (live l) n (Move x' y') = Inr ai'"
    using a by (auto simp: authorize_intent_def split: session_state.splits)
  obtain w2 where o: "observe ?w n = (RejectedDuplicate, w2)" using dup by (cases "observe ?w n") simp
  have "live_for_connection r' cid = Inr (sid, l\<lparr>replay := ?w\<rparr>)"
    by (simp add: live_for_connection_Inr r' put_live_def c)
  with o \<open>authorize_intent (live l) n (Move x' y') = Inr ai'\<close> show ?thesis
    by (simp add: try_ingest_move_def authorize_from_connection_def)
qed

theorem ingest_full_queue_uses_sequence_witness:
  "fst (try_ingest_move (\<lambda>q ai. (SendOk, q)) (registry_step (foldl registry_step registry_empty
      [Register 1 2, OnSession 2 (OpAuthenticate 3), OnSession 2 (OpBindCharacter 4 5), OnSession 2 OpActivateWorld])
      (Authorize 2 7 (Move 1 0)), ()) 2 7 1 0) = Inl (IngressSequence (SeqDuplicate 7))"
  by (rule ingest_full_queue_uses_sequence [of "\<lambda>q ai. (SendFull, q)" "[Register 1 2,
        OnSession 2 (OpAuthenticate 3), OnSession 2 (OpBindCharacter 4 5), OnSession 2 OpActivateWorld]" "()" 2 7 1 0])
    (simp add: registry_eval)

end
