(* ===== verification/Frontier.thy ===== *)
theory Frontier
  imports World_Grid "HOL-Library.Sublist"
begin

text \<open>
  crates/domain/src/frontier.rs: the initial rectangle of revealed quadrants and the lifecycle
  Potential, Candidate, Prepared, Revealed of every other quadrant, with the public revision.
  \<open>lifecycle_states\<close> is iterated over, so it is an association list.
\<close>

section \<open>The initial frontier\<close>

definition max_initial_frontier_axis :: u16 where
  "max_initial_frontier_axis = 64"

definition max_revealed_frontier_quadrants :: nat where
  "max_revealed_frontier_quadrants = 65535"

datatype initial_frontier_error =
  EmptyDimension string
| DimensionTooLarge string u16 u16
| CoordinateOverflow string

record initial_frontier =
  min_coord :: quadrant_coord
  max_coord :: quadrant_coord
  width :: u16
  height :: u16
  initial_quadrants :: "quadrant_coord list"

definition validate_dimension :: "string \<Rightarrow> u16 \<Rightarrow> initial_frontier_error + unit" where
  "validate_dimension axis v =
     (if v = 0 then Inl (EmptyDimension axis)
      else if max_initial_frontier_axis < v
      then Inl (DimensionTooLarge axis v max_initial_frontier_axis)
      else Inr ())"

definition rectangle_coords :: "quadrant_coord \<Rightarrow> nat \<Rightarrow> nat \<Rightarrow> quadrant_coord list" where
  "rectangle_coords m w h =
     concat (map (\<lambda>oy. map (\<lambda>ox. QuadrantCoord (qc_x m + int ox) (qc_y m + int oy)) [0..<w]) [0..<h])"

definition rectangular ::
  "quadrant_coord \<Rightarrow> u16 \<Rightarrow> u16 \<Rightarrow> initial_frontier_error + initial_frontier" where
  "rectangular m w h =
     (case validate_dimension ''width'' w of Inl e \<Rightarrow> Inl e | Inr _ \<Rightarrow>
      (case validate_dimension ''height'' h of Inl e \<Rightarrow> Inl e | Inr _ \<Rightarrow>
       (case ok_or (CoordinateOverflow ''x'') (checked_add_i64 (qc_x m) (int (unat w) - 1)) of
          Inl e \<Rightarrow> Inl e
        | Inr max_x \<Rightarrow>
       (case ok_or (CoordinateOverflow ''y'') (checked_add_i64 (qc_y m) (int (unat h) - 1)) of
          Inl e \<Rightarrow> Inl e
        | Inr max_y \<Rightarrow>
            Inr \<lparr>min_coord = m, max_coord = QuadrantCoord max_x max_y, width = w, height = h,
                 initial_quadrants = rectangle_coords m (unat w) (unat h)\<rparr>))))"

definition initial_is_revealed :: "initial_frontier \<Rightarrow> quadrant_coord \<Rightarrow> bool" where
  "initial_is_revealed f c \<longleftrightarrow>
     qc_x (min_coord f) \<le> qc_x c \<and> qc_x c \<le> qc_x (max_coord f) \<and>
     qc_y (min_coord f) \<le> qc_y c \<and> qc_y c \<le> qc_y (max_coord f)"

section \<open>The frontier state\<close>

datatype frontier_quadrant_state = Potential | Candidate | Prepared | Revealed

fun can_transition_to :: "frontier_quadrant_state \<Rightarrow> frontier_quadrant_state \<Rightarrow> bool" where
  "can_transition_to Potential Candidate = True"
| "can_transition_to Candidate Prepared = True"
| "can_transition_to Prepared Revealed = True"
| "can_transition_to _ _ = False"

datatype lifecycle_error =
  ZeroRevision
| LifecycleInvalidTransition quadrant_coord frontier_quadrant_state frontier_quadrant_state
| FrontierCapacityExceeded nat nat
| RevisionOverflow

record frontier_state =
  revision :: u64
  revealed_quadrants :: "quadrant_coord list"
  revealed_lookup :: "quadrant_coord set"
  lifecycle_states :: "(quadrant_coord \<times> frontier_quadrant_state) list"

record lifecycle_transition =
  lt_coord :: quadrant_coord
  lt_from :: frontier_quadrant_state
  lt_to :: frontier_quadrant_state
  lt_previous_revision :: u64
  lt_revision :: u64

definition advances_public_revision :: "lifecycle_transition \<Rightarrow> bool" where
  "advances_public_revision t \<longleftrightarrow> lt_revision t \<noteq> lt_previous_revision t"

definition from_initial :: "initial_frontier \<Rightarrow> u64 \<Rightarrow> lifecycle_error + frontier_state" where
  "from_initial f rev0 =
     (if rev0 = 0 then Inl ZeroRevision
      else Inr \<lparr>revision = rev0, revealed_quadrants = initial_quadrants f,
                revealed_lookup = set (initial_quadrants f), lifecycle_states = []\<rparr>)"

definition quadrant_state :: "frontier_state \<Rightarrow> quadrant_coord \<Rightarrow> frontier_quadrant_state" where
  "quadrant_state f c =
     (if c \<in> revealed_lookup f then Revealed
      else (case map_of (lifecycle_states f) c of None \<Rightarrow> Potential | Some st \<Rightarrow> st))"

definition is_revealed :: "frontier_state \<Rightarrow> quadrant_coord \<Rightarrow> bool" where
  "is_revealed f c \<longleftrightarrow> c \<in> revealed_lookup f"

definition sort_coords :: "quadrant_coord list \<Rightarrow> quadrant_coord list" where
  "sort_coords cs = sort_key (\<lambda>c. (qc_y c, qc_x c)) cs"

definition quadrants_in_state ::
  "frontier_state \<Rightarrow> frontier_quadrant_state \<Rightarrow> quadrant_coord list" where
  "quadrants_in_state f target =
     (if target = Revealed then sort_coords (revealed_quadrants f)
      else sort_coords (map fst (filter (\<lambda>(_, st). st = target) (lifecycle_states f))))"

definition usize_checked_add :: "nat \<Rightarrow> nat \<Rightarrow> nat option" where
  "usize_checked_add a b = (if a + b < 2 ^ 64 then Some (a + b) else None)"

definition next_revision ::
  "frontier_state \<Rightarrow> frontier_quadrant_state \<Rightarrow> lifecycle_error + u64" where
  "next_revision f target =
     (if target = Revealed then
        (case usize_checked_add (length (revealed_quadrants f)) 1 of
           None \<Rightarrow> Inl (FrontierCapacityExceeded (2 ^ 64 - 1) max_revealed_frontier_quadrants)
         | Some next_len \<Rightarrow>
             if max_revealed_frontier_quadrants < next_len
             then Inl (FrontierCapacityExceeded next_len max_revealed_frontier_quadrants)
             else ok_or RevisionOverflow (checked_add (revision f) 1))
      else Inr (revision f))"

definition transition ::
  "frontier_state \<Rightarrow> quadrant_coord \<Rightarrow> frontier_quadrant_state
     \<Rightarrow> lifecycle_error + lifecycle_transition option \<times> frontier_state" where
  "transition f c target =
     (let current = quadrant_state f c
      in if current = target then Inr (None, f)
         else if \<not> can_transition_to current target
         then Inl (LifecycleInvalidTransition c current target)
         else
           (case next_revision f target of
              Inl e \<Rightarrow> Inl e
            | Inr next \<Rightarrow>
                Inr (Some \<lparr>lt_coord = c, lt_from = current, lt_to = target,
                           lt_previous_revision = revision f, lt_revision = next\<rparr>,
                     if target = Revealed
                     then f\<lparr>lifecycle_states := AList.delete c (lifecycle_states f),
                            revealed_lookup := insert c (revealed_lookup f),
                            revealed_quadrants := revealed_quadrants f @ [c],
                            revision := next\<rparr>
                     else f\<lparr>lifecycle_states := AList.update c target (lifecycle_states f)\<rparr>)))"

definition mark_candidate ::
  "frontier_state \<Rightarrow> quadrant_coord \<Rightarrow> lifecycle_error + lifecycle_transition option \<times> frontier_state"
where "mark_candidate f c = transition f c Candidate"

definition mark_prepared ::
  "frontier_state \<Rightarrow> quadrant_coord \<Rightarrow> lifecycle_error + lifecycle_transition option \<times> frontier_state"
where "mark_prepared f c = transition f c Prepared"

definition reveal ::
  "frontier_state \<Rightarrow> quadrant_coord \<Rightarrow> lifecycle_error + lifecycle_transition option \<times> frontier_state"
where "reveal f c = transition f c Revealed"

section \<open>The initial rectangle\<close>

lemma set_rectangle_coords:
  "c \<in> set (rectangle_coords m w h) \<longleftrightarrow>
     qc_x m \<le> qc_x c \<and> qc_x c < qc_x m + int w \<and> qc_y m \<le> qc_y c \<and> qc_y c < qc_y m + int h"
proof
  assume "c \<in> set (rectangle_coords m w h)"
  then show "qc_x m \<le> qc_x c \<and> qc_x c < qc_x m + int w \<and> qc_y m \<le> qc_y c \<and> qc_y c < qc_y m + int h"
    by (auto simp: rectangle_coords_def)
next
  assume *: "qc_x m \<le> qc_x c \<and> qc_x c < qc_x m + int w \<and> qc_y m \<le> qc_y c \<and> qc_y c < qc_y m + int h"
  then have "c = QuadrantCoord (qc_x m + int (nat (qc_x c - qc_x m))) (qc_y m + int (nat (qc_y c - qc_y m)))"
    by (cases c) simp
  moreover have "nat (qc_x c - qc_x m) \<in> set [0..<w]" "nat (qc_y c - qc_y m) \<in> set [0..<h]"
    using * by auto
  ultimately show "c \<in> set (rectangle_coords m w h)"
    unfolding rectangle_coords_def by force
qed

lemma length_rectangle_coords [simp]: "length (rectangle_coords m w h) = h * w"
  by (simp add: rectangle_coords_def length_concat comp_def sum_list_triv)

lemma distinct_rectangle_coords: "distinct (rectangle_coords m w h)"
proof -
  have "distinct (concat (map (\<lambda>oy. map (\<lambda>ox. QuadrantCoord (a + int ox) (b + int oy)) [0..<w]) [0..<h]))"
    for a b
    by (induction h) (auto simp: distinct_map inj_on_def)
  then show ?thesis by (simp add: rectangle_coords_def)
qed

lemma validate_dimension_Inr: "validate_dimension axis v = Inr u \<longleftrightarrow> 0 < unat v \<and> unat v \<le> 64"
  by (auto simp: validate_dimension_def max_initial_frontier_axis_def word_less_nat_alt unat_gt_0)

lemma rectangular_Inr:
  assumes "rectangular m w h = Inr f"
  shows "0 < unat w \<and> unat w \<le> 64 \<and> 0 < unat h \<and> unat h \<le> 64
    \<and> min_coord f = m \<and> in_i64 (qc_x (max_coord f)) \<and> in_i64 (qc_y (max_coord f))
    \<and> qc_x (max_coord f) = qc_x m + int (unat w) - 1
    \<and> qc_y (max_coord f) = qc_y m + int (unat h) - 1
    \<and> initial_quadrants f = rectangle_coords m (unat w) (unat h)"
  using assms
  by (auto simp: rectangular_def validate_dimension_Inr machine_arith split: sum.splits)

section \<open>Invariant\<close>

definition frontier_inv :: "frontier_state \<Rightarrow> bool" where
  "frontier_inv f \<longleftrightarrow>
     revision f \<noteq> 0 \<and> revealed_lookup f = set (revealed_quadrants f) \<and>
     distinct (revealed_quadrants f) \<and>
     length (revealed_quadrants f) \<le> max_revealed_frontier_quadrants \<and>
     distinct (map fst (lifecycle_states f)) \<and>
     (\<forall>(c, st)\<in>set (lifecycle_states f). c \<notin> revealed_lookup f \<and> (st = Candidate \<or> st = Prepared))"

lemma quadrant_state_Revealed [simp]:
  "frontier_inv f \<Longrightarrow> quadrant_state f c = Revealed \<longleftrightarrow> c \<in> set (revealed_quadrants f)"
  by (auto simp: quadrant_state_def frontier_inv_def split: option.splits dest: map_of_SomeD)

lemma from_initial_inv:
  assumes "rectangular m w h = Inr i" "from_initial i rev0 = Inr f"
  shows "frontier_inv f"
proof -
  have "unat h * unat w \<le> 64 * 64"
    using rectangular_Inr [OF assms(1)] by (intro mult_le_mono) auto
  with assms rectangular_Inr [OF assms(1)] show ?thesis
    by (auto simp: from_initial_def frontier_inv_def distinct_rectangle_coords
      max_revealed_frontier_quadrants_def split: if_splits)
qed

lemma transition_cases:
  assumes "transition f c target = Inr (t, f')"
  obtains (same) "quadrant_state f c = target" "t = None" "f' = f"
  | (inner) "can_transition_to (quadrant_state f c) target" "target \<noteq> Revealed"
      "t = Some \<lparr>lt_coord = c, lt_from = quadrant_state f c, lt_to = target,
                 lt_previous_revision = revision f, lt_revision = revision f\<rparr>"
      "f' = f\<lparr>lifecycle_states := AList.update c target (lifecycle_states f)\<rparr>"
  | (opened) rv where "quadrant_state f c = Prepared" "target = Revealed"
      "checked_add (revision f) 1 = Some rv"
      "length (revealed_quadrants f) < max_revealed_frontier_quadrants"
      "t = Some \<lparr>lt_coord = c, lt_from = Prepared, lt_to = Revealed,
                 lt_previous_revision = revision f, lt_revision = rv\<rparr>"
      "f' = f\<lparr>lifecycle_states := AList.delete c (lifecycle_states f),
             revealed_lookup := insert c (revealed_lookup f),
             revealed_quadrants := revealed_quadrants f @ [c], revision := rv\<rparr>"
proof (cases "quadrant_state f c = target")
  case True
  with assms show ?thesis by (intro same) (auto simp: transition_def)
next
  case False
  then have can: "can_transition_to (quadrant_state f c) target"
    using assms by (auto simp: transition_def Let_def split: if_splits)
  with False assms obtain nx where nxt: "next_revision f target = Inr nx"
    by (auto simp: transition_def Let_def split: if_splits sum.splits)
  show ?thesis
  proof (cases "target = Revealed")
    case False
    with assms can nxt \<open>quadrant_state f c \<noteq> target\<close> show ?thesis
      by (intro inner) (auto simp: transition_def Let_def next_revision_def)
  next
    case True
    with can have prep: "quadrant_state f c = Prepared" by (cases "quadrant_state f c") auto
    from nxt True have "checked_add (revision f) 1 = Some nx"
      "length (revealed_quadrants f) < max_revealed_frontier_quadrants"
      by (auto simp: next_revision_def split: option.splits if_splits)
        (simp add: usize_checked_add_def split: if_splits)
    with assms can nxt True prep show ?thesis
      by (intro opened) (auto simp: transition_def Let_def)
  qed
qed

lemma can_transition_iff:
  "can_transition_to a b \<longleftrightarrow>
     (a, b) \<in> {(Potential, Candidate), (Candidate, Prepared), (Prepared, Revealed)}"
  by (cases a; cases b) auto

lemma transition_inv:
  assumes inv: "frontier_inv f" and tr: "transition f c target = Inr (t, f')"
  shows "frontier_inv f'"
  using tr
proof (cases rule: transition_cases)
  case same
  with inv show ?thesis by simp
next
  case inner
  then have "c \<notin> revealed_lookup f"
    by (auto simp: quadrant_state_def split: if_splits)
  moreover have "target = Candidate \<or> target = Prepared"
    using inner(1,2) by (auto simp: can_transition_iff)
  ultimately show ?thesis
    using inv inner(4) by (auto simp: frontier_inv_def set_alist_update)
next
  case (opened rv)
  then have "c \<notin> revealed_lookup f"
    by (auto simp: quadrant_state_def split: if_splits)
  moreover have "rv \<noteq> 0" using opened(3) by (auto simp: machine_arith)
  ultimately show ?thesis
    using inv opened(4,6) by (auto simp: frontier_inv_def AList.delete_eq distinct_map_filter)
qed

section \<open>Simulation\<close>

text \<open>
  The abstract lifecycle: a function from quadrants to states in which one quadrant moves one
  step forward. A transition of the code is a step of it or leaves it as it is.
\<close>

inductive advance ::
  "(quadrant_coord \<Rightarrow> frontier_quadrant_state) \<Rightarrow> quadrant_coord
     \<Rightarrow> (quadrant_coord \<Rightarrow> frontier_quadrant_state) \<Rightarrow> bool" where
  candidate: "s c = Potential \<Longrightarrow> advance s c (s(c := Candidate))"
| prepare: "s c = Candidate \<Longrightarrow> advance s c (s(c := Prepared))"
| reveal_it: "s c = Prepared \<Longrightarrow> advance s c (s(c := Revealed))"

inductive_simps advance_simps: "advance s c s'"

lemma transition_state:
  assumes inv: "frontier_inv f" and tr: "transition f c target = Inr (t, f')"
  shows "quadrant_state f' = (quadrant_state f)(c := target)"
  using tr
proof (cases rule: transition_cases)
  case same
  then show ?thesis by auto
next
  case inner
  then have "c \<notin> revealed_lookup f" by (auto simp: quadrant_state_def split: if_splits)
  with inner(4) show ?thesis by (auto simp: quadrant_state_def update_conv' fun_eq_iff)
next
  case (opened rv)
  then show ?thesis by (auto simp: quadrant_state_def delete_conv' fun_eq_iff)
qed

lemma transition_advance:
  assumes "frontier_inv f" "transition f c target = Inr (Some t, f')"
  shows "advance (quadrant_state f) c (quadrant_state f')"
  using assms(2)
proof (cases rule: transition_cases)
  case inner
  with transition_state [OF assms] show ?thesis
    by (auto simp: can_transition_iff intro: advance.intros)
next
  case (opened rv)
  with transition_state [OF assms] show ?thesis by (auto intro: advance.intros)
qed simp

lemma transition_revision:
  assumes "transition f c target = Inr (t, f')"
  shows "unat (revision f') + length (revealed_quadrants f) =
    unat (revision f) + length (revealed_quadrants f')"
  using assms by (cases rule: transition_cases) (auto simp: machine_arith)

lemma transition_revealed_prefix:
  assumes "transition f c target = Inr (t, f')"
  shows "revealed_quadrants f' = revealed_quadrants f \<or> revealed_quadrants f' = revealed_quadrants f @ [c]"
  using assms by (cases rule: transition_cases) auto

section \<open>Queries\<close>

lemma set_sort_coords [simp]: "set (sort_coords cs) = set cs"
  by (simp add: sort_coords_def)

lemma length_sort_coords [simp]: "length (sort_coords cs) = length cs"
  by (simp add: sort_coords_def)

lemma distinct_sort_coords [simp]: "distinct (sort_coords cs) = distinct cs"
  by (simp add: sort_coords_def)

lemma sorted_sort_coords: "sorted (map (\<lambda>c. (qc_y c, qc_x c)) (sort_coords cs))"
  by (simp add: sort_coords_def)

lemma set_quadrants_in_state:
  assumes "frontier_inv f" "target \<noteq> Potential"
  shows "set (quadrants_in_state f target) = {c. quadrant_state f c = target}"
proof (cases "target = Revealed")
  case True
  with assms show ?thesis by (auto simp: quadrants_in_state_def)
next
  case False
  have dist: "distinct (map fst (lifecycle_states f))" using assms by (simp add: frontier_inv_def)
  have "quadrant_state f c = target \<longleftrightarrow> map_of (lifecycle_states f) c = Some target" for c
    using assms False map_of_SomeD [of "lifecycle_states f" c]
    by (auto simp: quadrant_state_def frontier_inv_def split: option.splits
      dest: eq_key_imp_eq_value)
  then have "quadrant_state f c = target \<longleftrightarrow> (c, target) \<in> set (lifecycle_states f)" for c
    using map_of_eq_Some_iff [OF dist] by simp
  note member = this
  have "set (quadrants_in_state f target) = {c. (c, target) \<in> set (lifecycle_states f)}"
    using False by (force simp: quadrants_in_state_def)
  then show ?thesis by (simp add: member)
qed

lemma distinct_quadrants_in_state:
  "frontier_inv f \<Longrightarrow> distinct (quadrants_in_state f target)"
  by (auto simp: quadrants_in_state_def frontier_inv_def intro: distinct_map_filter)

section \<open>Properties\<close>

text \<open>A frontier as its users drive it: a refused transition leaves it as it was.\<close>

fun frontier_step :: "frontier_state \<Rightarrow> quadrant_coord \<times> frontier_quadrant_state \<Rightarrow> frontier_state" where
  "frontier_step f (c, target) = (case transition f c target of Inl _ \<Rightarrow> f | Inr (_, f') \<Rightarrow> f')"

definition grown_from :: "frontier_state \<Rightarrow> frontier_state \<Rightarrow> bool" where
  "grown_from f g \<longleftrightarrow> frontier_inv g \<and> prefix (revealed_quadrants f) (revealed_quadrants g) \<and>
     unat (revision g) + length (revealed_quadrants f) = unat (revision f) + length (revealed_quadrants g)"

interpretation frontier_machine: invariant_machine frontier_step "grown_from f"
proof
  fix g and op :: "quadrant_coord \<times> frontier_quadrant_state"
  assume g: "grown_from f g"
  obtain c target where op: "op = (c, target)" by (cases op)
  show "grown_from f (frontier_step g op)"
  proof (cases "transition g c target")
    case (Inr r)
    then obtain t g' where tr: "transition g c target = Inr (t, g')" by (cases r) auto
    from g have "frontier_inv g'" using transition_inv [OF _ tr] by (simp add: grown_from_def)
    moreover have "prefix (revealed_quadrants f) (revealed_quadrants g')"
      using g transition_revealed_prefix [OF tr] by (auto simp: grown_from_def)
    ultimately show ?thesis using g transition_revision [OF tr] op tr by (simp add: grown_from_def)
  qed (use g op in simp)
qed

text \<open>
  From a rectangular initial frontier, whatever transitions are asked for, revealed quadrants
  are never taken back or repeated, the list of them only grows at its end, and the public revision has
  advanced by exactly the number of quadrants revealed since.
\<close>

theorem frontier_run_grows:
  assumes "rectangular m w h = Inr i" "from_initial i rev0 = Inr f" "g = foldl frontier_step f ops"
  shows "frontier_inv g \<and> prefix (initial_quadrants i) (revealed_quadrants g) \<and>
    unat (revision g) + length (initial_quadrants i) = unat rev0 + length (revealed_quadrants g)"
proof -
  have f: "revealed_quadrants f = initial_quadrants i" "revision f = rev0"
    using assms(2) by (auto simp: from_initial_def split: if_splits)
  have "grown_from f f" using from_initial_inv [OF assms(1,2)] by (simp add: grown_from_def)
  then have "grown_from f g" unfolding assms(3) by (rule frontier_machine.inv_run)
  then show ?thesis by (simp add: grown_from_def f)
qed

theorem frontier_run_grows_witness:
  "prefix [QuadrantCoord 0 0, QuadrantCoord 1 0]
     (revealed_quadrants (foldl frontier_step \<lparr>revision = 1, revealed_quadrants = [QuadrantCoord 0 0, QuadrantCoord 1 0],
        revealed_lookup = {QuadrantCoord 0 0, QuadrantCoord 1 0}, lifecycle_states = []\<rparr>
       [(QuadrantCoord 2 0, Candidate), (QuadrantCoord 2 0, Prepared), (QuadrantCoord 2 0, Revealed)]))"
proof -
  have r: "rectangular (QuadrantCoord 0 0) 2 1 = Inr \<lparr>min_coord = QuadrantCoord 0 0, max_coord = QuadrantCoord 1 0,
      width = 2, height = 1, initial_quadrants = [QuadrantCoord 0 0, QuadrantCoord 1 0]\<rparr>"
    by code_simp
  have i: "from_initial \<lparr>min_coord = QuadrantCoord 0 0, max_coord = QuadrantCoord 1 0, width = 2,
      height = 1, initial_quadrants = [QuadrantCoord 0 0, QuadrantCoord 1 0]\<rparr> 1 =
    Inr \<lparr>revision = 1, revealed_quadrants = [QuadrantCoord 0 0, QuadrantCoord 1 0],
        revealed_lookup = {QuadrantCoord 0 0, QuadrantCoord 1 0}, lifecycle_states = []\<rparr>"
    by (simp add: from_initial_def)
  show ?thesis
    using frontier_run_grows [OF r i refl] unfolding initial_frontier.select_convs by blast
qed

text \<open>
  The initial frontier is the rectangle: every one of its quadrants is listed once, the list
  has width times height entries, and membership is the comparison with the two corners.
\<close>

theorem initial_frontier_is_rectangle:
  assumes "rectangular m w h = Inr i"
  shows "distinct (initial_quadrants i) \<and> length (initial_quadrants i) = unat w * unat h \<and>
    (c \<in> set (initial_quadrants i) \<longleftrightarrow> initial_is_revealed i c) \<and> 0 < unat w * unat h"
  using rectangular_Inr [OF assms]
  by (auto simp: distinct_rectangle_coords set_rectangle_coords initial_is_revealed_def)

theorem initial_frontier_is_rectangle_witness:
  "QuadrantCoord 1 (- 3) \<in> set (rectangle_coords (QuadrantCoord 0 (- 4)) 3 2)"
proof -
  have "rectangular (QuadrantCoord 0 (- 4)) 3 2 = Inr \<lparr>min_coord = QuadrantCoord 0 (- 4),
      max_coord = QuadrantCoord 2 (- 3), width = 3, height = 2,
      initial_quadrants = rectangle_coords (QuadrantCoord 0 (- 4)) 3 2\<rparr>"
    by code_simp
  from initial_frontier_is_rectangle [OF this] show ?thesis by (auto simp: initial_is_revealed_def)
qed

text \<open>
  A transition that happens moves the one quadrant one step along potential, candidate,
  prepared, revealed, and no other quadrant's state changes.
\<close>

theorem frontier_transition_refines_lifecycle:
  assumes "frontier_inv f" "transition f c target = Inr (Some t, f')"
  shows "advance (quadrant_state f) c (quadrant_state f') \<and> quadrant_state f' c = target"
  using transition_advance [OF assms] transition_state [OF assms] by simp

theorem frontier_transition_refines_lifecycle_witness:
  "advance (quadrant_state \<lparr>revision = 1, revealed_quadrants = [], revealed_lookup = {}, lifecycle_states = []\<rparr>)
     (QuadrantCoord 2 0) (quadrant_state \<lparr>revision = 1, revealed_quadrants = [], revealed_lookup = {},
       lifecycle_states = [(QuadrantCoord 2 0, Candidate)]\<rparr>)"
proof -
  have "frontier_inv \<lparr>revision = 1, revealed_quadrants = [], revealed_lookup = {}, lifecycle_states = []\<rparr>"
    by (simp add: frontier_inv_def)
  moreover have "transition \<lparr>revision = 1, revealed_quadrants = [], revealed_lookup = {}, lifecycle_states = []\<rparr>
      (QuadrantCoord 2 0) Candidate = Inr (Some \<lparr>lt_coord = QuadrantCoord 2 0, lt_from = Potential,
        lt_to = Candidate, lt_previous_revision = 1, lt_revision = 1\<rparr>,
      \<lparr>revision = 1, revealed_quadrants = [], revealed_lookup = {},
       lifecycle_states = [(QuadrantCoord 2 0, Candidate)]\<rparr>)"
    by (simp add: transition_def quadrant_state_def next_revision_def)
  ultimately show ?thesis using frontier_transition_refines_lifecycle by blast
qed

end
