(* ===== verification/Candidate_Frontier.thy ===== *)
theory Candidate_Frontier
  imports Frontier
begin

text \<open>
  crates/domain/src/candidate_frontier.rs: every cardinal neighbour of a revealed quadrant that is
  still Potential becomes a Candidate. The function works on a mutable state, so the model returns
  the state it leaves behind beside the result; \<open>None\<close> is a failed \<open>debug_assert!\<close>.
\<close>

section \<open>Definitions\<close>

definition cardinal_neighbors :: "(int \<times> int) list" where
  "cardinal_neighbors = [(-1, 0), (1, 0), (0, -1), (0, 1)]"

datatype candidate_frontier_error =
  QuadrantCoordinateOverflow quadrant_coord string int
| CandidateLifecycle lifecycle_error

definition checked_neighbor ::
  "quadrant_coord \<Rightarrow> int \<Rightarrow> int \<Rightarrow> candidate_frontier_error + quadrant_coord" where
  "checked_neighbor coord delta_x delta_y =
     (case ok_or (QuadrantCoordinateOverflow coord ''x'' delta_x)
                 (checked_add_i64 (qc_x coord) delta_x) of
        Inl e \<Rightarrow> Inl e
      | Inr x \<Rightarrow>
     (case ok_or (QuadrantCoordinateOverflow coord ''y'' delta_y)
                 (checked_add_i64 (qc_y coord) delta_y) of
        Inl e \<Rightarrow> Inl e
      | Inr y \<Rightarrow> Inr (QuadrantCoord x y)))"

fun scan_neighbors ::
  "frontier_state \<Rightarrow> (quadrant_coord \<times> int \<times> int) list \<Rightarrow> quadrant_coord set
     \<Rightarrow> quadrant_coord list \<Rightarrow> candidate_frontier_error + quadrant_coord list" where
  "scan_neighbors f [] seen newly = Inr newly"
| "scan_neighbors f ((coord, dx, dy) # rest) seen newly =
     (case checked_neighbor coord dx dy of
        Inl e \<Rightarrow> Inl e
      | Inr neighbor \<Rightarrow>
          if quadrant_state f neighbor = Potential \<and> neighbor \<notin> seen
          then scan_neighbors f rest (insert neighbor seen) (newly @ [neighbor])
          else scan_neighbors f rest seen newly)"

fun mark_candidates ::
  "frontier_state \<Rightarrow> quadrant_coord list
     \<Rightarrow> ((candidate_frontier_error + unit) \<times> frontier_state) option" where
  "mark_candidates f [] = Some (Inr (), f)"
| "mark_candidates f (c # cs) =
     (case mark_candidate f c of
        Inl e \<Rightarrow> Some (Inl (CandidateLifecycle e), f)
      | Inr (None, f') \<Rightarrow> None
      | Inr (Some t, f') \<Rightarrow> mark_candidates f' cs)"

definition derive_candidate_frontier ::
  "frontier_state \<Rightarrow> ((candidate_frontier_error + quadrant_coord list) \<times> frontier_state) option"
where
  "derive_candidate_frontier f =
     (case scan_neighbors f (List.product (revealed_quadrants f) cardinal_neighbors) {} [] of
        Inl e \<Rightarrow> Some (Inl e, f)
      | Inr found \<Rightarrow>
          (let newly = sort_coords found
           in case mark_candidates f newly of
                None \<Rightarrow> None
              | Some (Inl e, f') \<Rightarrow> Some (Inl e, f')
              | Some (Inr _, f') \<Rightarrow> Some (Inr newly, f')))"

section \<open>The scan\<close>

definition cardinal :: "quadrant_coord \<Rightarrow> quadrant_coord \<Rightarrow> bool" where
  "cardinal a b \<longleftrightarrow> (qc_x b - qc_x a, qc_y b - qc_y a) \<in> set cardinal_neighbors"

lemma cardinal_alt: "cardinal a b \<longleftrightarrow> \<bar>qc_x b - qc_x a\<bar> + \<bar>qc_y b - qc_y a\<bar> = 1"
  by (auto simp: cardinal_def cardinal_neighbors_def)

lemma checked_neighbor_Inr:
  "checked_neighbor c dx dy = Inr n \<longleftrightarrow>
     n = QuadrantCoord (qc_x c + dx) (qc_y c + dy) \<and> in_i64 (qc_x c + dx) \<and> in_i64 (qc_y c + dy)"
  by (auto simp: checked_neighbor_def checked_add_i64_def ok_or_def split: sum.splits)

lemma scan_neighbors_Inr:
  assumes "scan_neighbors f ps seen newly = Inr found" "seen = set newly" "distinct newly"
    "\<forall>c\<in>set newly. quadrant_state f c = Potential"
  shows "distinct found \<and>
    set found = set newly \<union>
      {n. quadrant_state f n = Potential \<and> (\<exists>(c, dx, dy)\<in>set ps. checked_neighbor c dx dy = Inr n)}
    \<and> (\<forall>(c, dx, dy)\<in>set ps. \<exists>n. checked_neighbor c dx dy = Inr n)"
  using assms
proof (induction f ps seen newly rule: scan_neighbors.induct)
  case (2 f coord dx dy rest seen newly)
  from "2.prems"(1) obtain n where n: "checked_neighbor coord dx dy = Inr n"
    by (auto split: sum.splits)
  show ?case
  proof (cases "quadrant_state f n = Potential \<and> n \<notin> seen")
    case True
    with "2.prems" n have "scan_neighbors f rest (insert n seen) (newly @ [n]) = Inr found" by simp
    with "2.IH"(1) [OF n True this] "2.prems" True n show ?thesis by auto
  next
    case False
    from "2.prems"(1) n False have "scan_neighbors f rest seen newly = Inr found"
      by (simp split: if_splits)
    with "2.IH"(2) [OF n False this] "2.prems" False n show ?thesis by auto
  qed
qed auto

lemma scan_neighbors_Inl:
  "scan_neighbors f ps seen newly = Inl e \<Longrightarrow>
     \<exists>(c, dx, dy)\<in>set ps. checked_neighbor c dx dy = Inl e"
  by (induction f ps seen newly rule: scan_neighbors.induct)
    (auto split: sum.splits if_splits)

section \<open>Marking\<close>

lemma mark_candidate_Potential:
  assumes "quadrant_state f c = Potential"
  obtains t f' where "mark_candidate f c = Inr (Some t, f')" "lt_coord t = c"
    "revision f' = revision f" "revealed_quadrants f' = revealed_quadrants f"
  using assms
  by (simp add: mark_candidate_def transition_def next_revision_def Let_def)

lemma mark_candidates_ok:
  assumes "frontier_inv f" "distinct cs" "\<forall>c\<in>set cs. quadrant_state f c = Potential"
  shows "\<exists>f'. mark_candidates f cs = Some (Inr (), f') \<and> frontier_inv f' \<and>
    quadrant_state f' = (\<lambda>c. if c \<in> set cs then Candidate else quadrant_state f c) \<and>
    revision f' = revision f \<and> revealed_quadrants f' = revealed_quadrants f"
  using assms
proof (induction cs arbitrary: f)
  case (Cons c cs)
  obtain t f1 where f1: "mark_candidate f c = Inr (Some t, f1)"
    and same: "revision f1 = revision f" "revealed_quadrants f1 = revealed_quadrants f"
    by (rule mark_candidate_Potential [of f c]) (use Cons.prems(3) in auto)
  have st: "quadrant_state f1 = (quadrant_state f)(c := Candidate)"
    and inv: "frontier_inv f1"
    using transition_state [OF Cons.prems(1)] transition_inv [OF Cons.prems(1)] f1
    by (auto simp: mark_candidate_def)
  have "\<forall>c\<in>set cs. quadrant_state f1 c = Potential" "distinct cs"
    using Cons.prems(2,3) by (auto simp: st)
  from Cons.IH [OF inv this(2,1)] obtain f' where
    "mark_candidates f1 cs = Some (Inr (), f')" "frontier_inv f'"
    "quadrant_state f' = (\<lambda>c. if c \<in> set cs then Candidate else quadrant_state f1 c)"
    "revision f' = revision f1" "revealed_quadrants f' = revealed_quadrants f1"
    by auto
  with f1 same st Cons.prems(2) show ?case by (auto simp: fun_eq_iff)
qed auto

section \<open>The derivation\<close>

text \<open>The neighbours the scan looks at, when none of them leaves the 64-bit range.\<close>

definition frontier_edge :: "frontier_state \<Rightarrow> quadrant_coord set" where
  "frontier_edge f = {n. \<exists>c\<in>set (revealed_quadrants f). cardinal c n}"

lemma scanned_neighbors:
  assumes "\<forall>(c, dx, dy)\<in>set (List.product (revealed_quadrants f) cardinal_neighbors).
    \<exists>n. checked_neighbor c dx dy = Inr n"
  shows "{n. \<exists>(c, dx, dy)\<in>set (List.product (revealed_quadrants f) cardinal_neighbors).
    checked_neighbor c dx dy = Inr n} = frontier_edge f"
proof -
  have "(\<exists>(c, dx, dy)\<in>set (List.product (revealed_quadrants f) cardinal_neighbors).
    checked_neighbor c dx dy = Inr n) \<longleftrightarrow> n \<in> frontier_edge f" for n
  proof
    assume "n \<in> frontier_edge f"
    then obtain c where c: "c \<in> set (revealed_quadrants f)"
      and d: "(qc_x n - qc_x c, qc_y n - qc_y c) \<in> set cardinal_neighbors"
      by (auto simp: frontier_edge_def cardinal_def)
    then have mem: "(c, qc_x n - qc_x c, qc_y n - qc_y c)
        \<in> set (List.product (revealed_quadrants f) cardinal_neighbors)" by auto
    with assms obtain n' where n': "checked_neighbor c (qc_x n - qc_x c) (qc_y n - qc_y c) = Inr n'"
      by blast
    then have "n' = n" by (cases n) (simp add: checked_neighbor_Inr)
    with mem n' show "\<exists>(c, dx, dy)\<in>set (List.product (revealed_quadrants f) cardinal_neighbors).
      checked_neighbor c dx dy = Inr n" by blast
  qed (force simp: frontier_edge_def cardinal_def checked_neighbor_Inr)
  then show ?thesis by blast
qed

lemma derive_overflow:
  assumes "scan_neighbors f (List.product (revealed_quadrants f) cardinal_neighbors) {} [] = Inl e"
  shows "derive_candidate_frontier f = Some (Inl e, f) \<and>
    (\<exists>c axis d. e = QuadrantCoordinateOverflow c axis d \<and> c \<in> set (revealed_quadrants f))"
proof -
  from scan_neighbors_Inl [OF assms] obtain c dx dy where
    "c \<in> set (revealed_quadrants f)" "checked_neighbor c dx dy = Inl e" by auto
  then show ?thesis
    using assms by (auto simp: derive_candidate_frontier_def checked_neighbor_def ok_or_def
      split: option.splits)
qed

lemma derive_ok:
  assumes inv: "frontier_inv f"
    and scan: "scan_neighbors f (List.product (revealed_quadrants f) cardinal_neighbors) {} [] = Inr found"
  shows "\<exists>f'. derive_candidate_frontier f = Some (Inr (sort_coords found), f') \<and> frontier_inv f' \<and>
    set found = {n \<in> frontier_edge f. quadrant_state f n = Potential} \<and> distinct found \<and>
    quadrant_state f' = (\<lambda>c. if c \<in> set found then Candidate else quadrant_state f c) \<and>
    revision f' = revision f \<and> revealed_quadrants f' = revealed_quadrants f"
proof -
  let ?ps = "List.product (revealed_quadrants f) cardinal_neighbors"
  have r: "distinct found" "set found = {n. quadrant_state f n = Potential \<and>
      (\<exists>(c, dx, dy)\<in>set ?ps. checked_neighbor c dx dy = Inr n)}"
    "\<forall>(c, dx, dy)\<in>set ?ps. \<exists>n. checked_neighbor c dx dy = Inr n"
    using scan_neighbors_Inr [OF scan] by auto
  have found: "set found = {n \<in> frontier_edge f. quadrant_state f n = Potential}"
    unfolding r(2) scanned_neighbors [OF r(3), symmetric] by blast
  with mark_candidates_ok [OF inv, of "sort_coords found"] r(1)
  obtain f' where "mark_candidates f (sort_coords found) = Some (Inr (), f')" "frontier_inv f'"
    "quadrant_state f' = (\<lambda>c. if c \<in> set found then Candidate else quadrant_state f c)"
    "revision f' = revision f" "revealed_quadrants f' = revealed_quadrants f" by auto
  with scan found r(1) show ?thesis by (simp add: derive_candidate_frontier_def)
qed

lemma derive_cases:
  assumes "frontier_inv f"
  obtains (overflow) c axis d where "c \<in> set (revealed_quadrants f)"
      "derive_candidate_frontier f = Some (Inl (QuadrantCoordinateOverflow c axis d), f)"
  | (derived) newly f' where "derive_candidate_frontier f = Some (Inr newly, f')" "frontier_inv f'"
      "set newly = {n \<in> frontier_edge f. quadrant_state f n = Potential}" "distinct newly"
      "sorted (map (\<lambda>c. (qc_y c, qc_x c)) newly)"
      "quadrant_state f' = (\<lambda>c. if c \<in> set newly then Candidate else quadrant_state f c)"
      "revision f' = revision f" "revealed_quadrants f' = revealed_quadrants f"
proof (cases "scan_neighbors f (List.product (revealed_quadrants f) cardinal_neighbors) {} []")
  case (Inl e)
  then show ?thesis using derive_overflow [OF Inl] overflow by blast
next
  case (Inr found)
  from derive_ok [OF assms Inr] obtain f' where
    "derive_candidate_frontier f = Some (Inr (sort_coords found), f')" "frontier_inv f'"
    "set found = {n \<in> frontier_edge f. quadrant_state f n = Potential}" "distinct found"
    "quadrant_state f' = (\<lambda>c. if c \<in> set found then Candidate else quadrant_state f c)"
    "revision f' = revision f" "revealed_quadrants f' = revealed_quadrants f" by blast
  then show ?thesis by (intro derived [of "sort_coords found" f']) (simp_all add: sorted_sort_coords)
qed

section \<open>Properties\<close>

text \<open>
  C31: deriving the candidates marks exactly the potential quadrants next to a revealed one,
  reports them in row order, changes neither revision nor revealed quadrants, never panics, and
  on a coordinate overflow changes nothing at all.
\<close>

theorem derive_candidates_exact:
  assumes "frontier_inv f"
  shows "case derive_candidate_frontier f of
      None \<Rightarrow> False
    | Some (Inl e, f') \<Rightarrow> f' = f \<and>
        (\<exists>c axis d. e = QuadrantCoordinateOverflow c axis d \<and> c \<in> set (revealed_quadrants f))
    | Some (Inr newly, f') \<Rightarrow>
        frontier_inv f' \<and> set newly = {n \<in> frontier_edge f. quadrant_state f n = Potential} \<and>
        distinct newly \<and> sorted (map (\<lambda>c. (qc_y c, qc_x c)) newly) \<and>
        quadrant_state f' = (\<lambda>c. if c \<in> set newly then Candidate else quadrant_state f c) \<and>
        revision f' = revision f \<and> revealed_quadrants f' = revealed_quadrants f"
  by (rule derive_cases [OF assms]) simp_all

theorem derive_candidates_exact_witness:
  "frontier_inv \<lparr>revision = 1, revealed_quadrants = [QuadrantCoord 0 0], revealed_lookup = {QuadrantCoord 0 0},
     lifecycle_states = [(QuadrantCoord 1 0, Candidate)]\<rparr> \<and>
   (\<exists>f'. derive_candidate_frontier \<lparr>revision = 1, revealed_quadrants = [QuadrantCoord 0 0],
      revealed_lookup = {QuadrantCoord 0 0}, lifecycle_states = [(QuadrantCoord 1 0, Candidate)]\<rparr> =
      Some (Inr [QuadrantCoord 0 (- 1), QuadrantCoord (- 1) 0, QuadrantCoord 0 1], f') \<and> frontier_inv f')"
proof -
  let ?f = "\<lparr>revision = 1, revealed_quadrants = [QuadrantCoord 0 0], revealed_lookup = {QuadrantCoord 0 0},
     lifecycle_states = [(QuadrantCoord 1 0, Candidate)]\<rparr>"
  have inv: "frontier_inv ?f" by (simp add: frontier_inv_def max_revealed_frontier_quadrants_def)
  have "map_option fst (derive_candidate_frontier ?f) =
      Some (Inr [QuadrantCoord 0 (- 1), QuadrantCoord (- 1) 0, QuadrantCoord 0 1])"
    by code_simp
  then show ?thesis using derive_candidates_exact [OF inv] inv by (auto split: prod.splits)
qed

end
