(* ===== verification/Frontier_Reveal.thy ===== *)
theory Frontier_Reveal
  imports Candidate_Frontier
begin

text \<open>
  crates/domain/src/frontier_eligibility.rs (which requirements a quadrant needs before it is
  revealed) and crates/domain/src/frontier_reveal.rs (the authoritative reveal, which works on a
  clone and commits it only when every step succeeded). The resolver, a trait the game implements,
  is a function argument.
\<close>

section \<open>Eligibility\<close>

type_synonym requirement_id = u32

datatype eligibility_error =
  ZeroRequirementId
| EmptyRequirementSet quadrant_coord
| DuplicateRequirement quadrant_coord requirement_id
| UnknownRequirement quadrant_coord requirement_id

definition requirement_id_new :: "u32 \<Rightarrow> eligibility_error + requirement_id" where
  "requirement_id_new v = (if v = 0 then Inl ZeroRequirementId else Inr v)"

record unlock_requirements =
  ur_coord :: quadrant_coord
  ur_requirements :: "requirement_id list"

fun first_equal_pair :: "'a list \<Rightarrow> 'a option" where
  "first_equal_pair (a # b # rest) = (if a = b then Some a else first_equal_pair (b # rest))"
| "first_equal_pair _ = None"

definition unlock_requirements_new ::
  "quadrant_coord \<Rightarrow> requirement_id list \<Rightarrow> eligibility_error + unlock_requirements" where
  "unlock_requirements_new coord reqs =
     (if reqs = [] then Inl (EmptyRequirementSet coord)
      else let sorted_reqs = sort reqs
           in case first_equal_pair sorted_reqs of
                Some r \<Rightarrow> Inl (DuplicateRequirement coord r)
              | None \<Rightarrow> Inr \<lparr>ur_coord = coord, ur_requirements = sorted_reqs\<rparr>)"

type_synonym requirement_resolver = "quadrant_coord \<Rightarrow> requirement_id \<Rightarrow> bool option"

record eligibility_evaluation =
  ev_coord :: quadrant_coord
  unsatisfied_requirements :: "requirement_id list"

definition is_eligible :: "eligibility_evaluation \<Rightarrow> bool" where
  "is_eligible ev \<longleftrightarrow> unsatisfied_requirements ev = []"

fun collect_unsatisfied ::
  "requirement_resolver \<Rightarrow> quadrant_coord \<Rightarrow> requirement_id list \<Rightarrow> requirement_id list
     \<Rightarrow> eligibility_error + requirement_id list" where
  "collect_unsatisfied res coord [] acc = Inr acc"
| "collect_unsatisfied res coord (r # rs) acc =
     (case res coord r of
        Some True \<Rightarrow> collect_unsatisfied res coord rs acc
      | Some False \<Rightarrow> collect_unsatisfied res coord rs (acc @ [r])
      | None \<Rightarrow> Inl (UnknownRequirement coord r))"

definition evaluate_frontier_eligibility ::
  "unlock_requirements \<Rightarrow> requirement_resolver \<Rightarrow> eligibility_error + eligibility_evaluation" where
  "evaluate_frontier_eligibility reqs res =
     (case collect_unsatisfied res (ur_coord reqs) (ur_requirements reqs) [] of
        Inl e \<Rightarrow> Inl e
      | Inr un \<Rightarrow> Inr \<lparr>ev_coord = ur_coord reqs, unsatisfied_requirements = un\<rparr>)"

section \<open>Reveal\<close>

datatype reveal_outcome =
  RevealBlocked eligibility_evaluation
| RevealAlreadyRevealed quadrant_coord u64
| RevealDone lifecycle_transition "quadrant_coord list"

datatype reveal_error =
  NotPrepared quadrant_coord frontier_quadrant_state
| MissingRevealTransition quadrant_coord
| RevealEligibility eligibility_error
| RevealLifecycle lifecycle_error
| RevealCandidateFrontier candidate_frontier_error

definition commit_authoritative_reveal ::
  "frontier_state \<Rightarrow> unlock_requirements \<Rightarrow> requirement_resolver
     \<Rightarrow> ((reveal_error + reveal_outcome) \<times> frontier_state) option" where
  "commit_authoritative_reveal state reqs res =
     (let coord = ur_coord reqs
      in case quadrant_state state coord of
           Revealed \<Rightarrow> Some (Inr (RevealAlreadyRevealed coord (revision state)), state)
         | Prepared \<Rightarrow>
             (case evaluate_frontier_eligibility reqs res of
                Inl e \<Rightarrow> Some (Inl (RevealEligibility e), state)
              | Inr evaluation \<Rightarrow>
                  if \<not> is_eligible evaluation then Some (Inr (RevealBlocked evaluation), state)
                  else
                    (case reveal state coord of
                       Inl e \<Rightarrow> Some (Inl (RevealLifecycle e), state)
                     | Inr (None, staged) \<Rightarrow> Some (Inl (MissingRevealTransition coord), state)
                     | Inr (Some t, staged) \<Rightarrow>
                         (case derive_candidate_frontier staged of
                            None \<Rightarrow> None
                          | Some (Inl e, staged') \<Rightarrow> Some (Inl (RevealCandidateFrontier e), state)
                          | Some (Inr derivation, staged') \<Rightarrow>
                              Some (Inr (RevealDone t derivation), staged'))))
         | actual \<Rightarrow> Some (Inl (NotPrepared coord actual), state))"

section \<open>Requirement sets\<close>

lemma first_equal_pair_None:
  "sorted xs \<Longrightarrow> first_equal_pair xs = None \<longleftrightarrow> distinct (xs :: 'a::linorder list)"
  by (induction xs rule: first_equal_pair.induct) (auto simp: order_le_less)

lemma first_equal_pair_Some:
  "first_equal_pair xs = Some r \<Longrightarrow> \<exists>us vs. xs = us @ r # r # vs"
proof (induction xs rule: first_equal_pair.induct)
  case (1 a b rest)
  then show ?case
  proof (cases "a = b")
    case False
    with 1 obtain us vs where "b # rest = us @ r # r # vs" by auto
    then have "a # b # rest = (a # us) @ r # r # vs" by simp
    then show ?thesis by blast
  qed (auto intro: exI [of _ "[]"])
qed simp_all

lemma unlock_requirements_new_Inr:
  "unlock_requirements_new coord reqs = Inr u \<longleftrightarrow>
     reqs \<noteq> [] \<and> distinct reqs \<and> u = \<lparr>ur_coord = coord, ur_requirements = sort reqs\<rparr>"
  using first_equal_pair_None [of "sort reqs"]
  by (auto simp: unlock_requirements_new_def Let_def split: option.splits)

lemma collect_unsatisfied_Inr:
  "collect_unsatisfied res coord rs acc = Inr un \<longleftrightarrow>
     (\<forall>r\<in>set rs. res coord r \<noteq> None) \<and> un = acc @ filter (\<lambda>r. res coord r = Some False) rs"
  by (induction res coord rs acc rule: collect_unsatisfied.induct)
    (auto split: option.splits bool.splits)

lemma evaluate_eligible:
  "(\<exists>ev. evaluate_frontier_eligibility reqs res = Inr ev \<and> is_eligible ev) \<longleftrightarrow>
     (\<forall>r\<in>set (ur_requirements reqs). res (ur_coord reqs) r = Some True)"
proof -
  let ?res = "res (ur_coord reqs)" and ?rs = "ur_requirements reqs"
  have sat: "x \<noteq> None \<and> x \<noteq> Some False \<longleftrightarrow> x = Some True" for x :: "bool option" by (cases x) auto
  have "(\<exists>ev. evaluate_frontier_eligibility reqs res = Inr ev \<and> is_eligible ev) \<longleftrightarrow>
    collect_unsatisfied res (ur_coord reqs) ?rs [] = Inr []"
    by (auto simp: evaluate_frontier_eligibility_def is_eligible_def split: sum.splits)
  also have "\<dots> \<longleftrightarrow> (\<forall>r\<in>set ?rs. ?res r \<noteq> None \<and> ?res r \<noteq> Some False)"
    by (simp add: collect_unsatisfied_Inr eq_commute [of Nil] filter_empty_conv) blast
  finally show ?thesis by (simp only: sat)
qed

section \<open>The reveal is all or nothing\<close>

lemma reveal_commit_cases:
  assumes inv: "frontier_inv f" and commit: "commit_authoritative_reveal f reqs res = Some (r, f')"
  obtains (unchanged) "f' = f" "\<And>t d. r \<noteq> Inr (RevealDone t d)"
  | (committed) t staged d where "r = Inr (RevealDone t d)" "quadrant_state f (ur_coord reqs) = Prepared"
      "\<forall>q\<in>set (ur_requirements reqs). res (ur_coord reqs) q = Some True"
      "transition f (ur_coord reqs) Revealed = Inr (Some t, staged)" "frontier_inv staged"
      "derive_candidate_frontier staged = Some (Inr d, f')"
proof (cases "\<exists>t d. r = Inr (RevealDone t d)")
  case False
  with commit have "f' = f"
    by (auto simp: commit_authoritative_reveal_def Let_def
      split: frontier_quadrant_state.splits sum.splits if_splits prod.splits option.splits)
  with False unchanged show ?thesis by blast
next
  case True
  then obtain t d where r: "r = Inr (RevealDone t d)" by blast
  with commit have prep: "quadrant_state f (ur_coord reqs) = Prepared"
    by (auto simp: commit_authoritative_reveal_def Let_def
      split: frontier_quadrant_state.splits)
  with commit r obtain ev where ev: "evaluate_frontier_eligibility reqs res = Inr ev" "is_eligible ev"
    by (auto simp: commit_authoritative_reveal_def Let_def split: sum.splits if_splits)
  with commit r prep obtain staged where
    tr: "transition f (ur_coord reqs) Revealed = Inr (Some t, staged)"
    and dv: "derive_candidate_frontier staged = Some (Inr d, f')"
    by (auto simp: commit_authoritative_reveal_def Let_def reveal_def
      split: sum.splits prod.splits option.splits)
  show ?thesis
  proof (rule committed [OF r prep _ tr transition_inv [OF inv tr] dv])
    show "\<forall>q\<in>set (ur_requirements reqs). res (ur_coord reqs) q = Some True"
      using ev evaluate_eligible by blast
  qed
qed

lemma reveal_commit_inv:
  assumes "frontier_inv f" "commit_authoritative_reveal f reqs res = Some (r, f')"
  shows "frontier_inv f'"
  using assms
proof (cases rule: reveal_commit_cases)
  case (committed t staged d)
  from committed(5) show ?thesis using committed(6) by (cases rule: derive_cases) auto
next
  case unchanged
  then show ?thesis using assms(1) by simp
qed

lemma reveal_commit_total:
  assumes "frontier_inv f"
  shows "commit_authoritative_reveal f reqs res \<noteq> None"
proof -
  have "derive_candidate_frontier staged \<noteq> None"
    if "transition f (ur_coord reqs) Revealed = Inr (t, staged)" for t staged
    using transition_inv [OF assms that] by (cases rule: derive_cases) auto
  then show ?thesis
    by (fastforce simp: commit_authoritative_reveal_def Let_def reveal_def
      split: frontier_quadrant_state.splits sum.splits prod.splits option.splits)
qed

lemma reveal_commit_done:
  assumes inv: "frontier_inv f"
    and commit: "commit_authoritative_reveal f reqs res = Some (Inr (RevealDone t d), f')"
  shows "revealed_quadrants f' = revealed_quadrants f @ [ur_coord reqs]"
    and "unat (revision f') = unat (revision f) + 1"
    and "quadrant_state f' = (\<lambda>c. if c = ur_coord reqs then Revealed
      else if c \<in> set d then Candidate else quadrant_state f c)"
    and "set d = {n \<in> frontier_edge f'. n \<noteq> ur_coord reqs \<and> quadrant_state f n = Potential}"
proof -
  from inv commit obtain staged where
    tr: "transition f (ur_coord reqs) Revealed = Inr (Some t, staged)"
    and stinv: "frontier_inv staged"
    and dv: "derive_candidate_frontier staged = Some (Inr d, f')"
    by (cases rule: reveal_commit_cases) auto
  have st: "quadrant_state staged = (quadrant_state f)(ur_coord reqs := Revealed)"
    by (rule transition_state [OF inv tr])
  have rq: "revealed_quadrants staged = revealed_quadrants f @ [ur_coord reqs]"
    "unat (revision staged) = unat (revision f) + 1"
    using tr by (cases rule: transition_cases, simp_all add: machine_arith)+
  from stinv dv have d: "set d = {n \<in> frontier_edge staged. quadrant_state staged n = Potential}"
    "quadrant_state f' = (\<lambda>c. if c \<in> set d then Candidate else quadrant_state staged c)"
    "revision f' = revision staged" "revealed_quadrants f' = revealed_quadrants staged"
    by (cases rule: derive_cases; simp)+
  show "revealed_quadrants f' = revealed_quadrants f @ [ur_coord reqs]"
    "unat (revision f') = unat (revision f) + 1" using d rq by simp_all
  show "set d = {n \<in> frontier_edge f'. n \<noteq> ur_coord reqs \<and> quadrant_state f n = Potential}"
    using d(1,4) st by (auto simp: frontier_edge_def)
  show "quadrant_state f' = (\<lambda>c. if c = ur_coord reqs then Revealed
      else if c \<in> set d then Candidate else quadrant_state f c)"
    using d(1,2) st by (auto simp: fun_eq_iff)
qed

section \<open>Properties\<close>

text \<open>
  C5: an authoritative reveal is all or nothing and never panics: either the frontier is exactly as before,
  or the quadrant was prepared, every requirement of it is satisfied, and then it is the newest revealed quadrant, the
  revision advanced by one and exactly its potential neighbours became candidates.
\<close>

theorem reveal_commit_atomic:
  assumes "frontier_inv f"
  shows "case commit_authoritative_reveal f reqs res of
      None \<Rightarrow> False
    | Some (Inr (RevealDone t d), f') \<Rightarrow>
        quadrant_state f (ur_coord reqs) = Prepared \<and>
        (\<forall>q\<in>set (ur_requirements reqs). res (ur_coord reqs) q = Some True) \<and>
        revealed_quadrants f' = revealed_quadrants f @ [ur_coord reqs] \<and>
        unat (revision f') = unat (revision f) + 1 \<and>
        set d = {n \<in> frontier_edge f'. n \<noteq> ur_coord reqs \<and> quadrant_state f n = Potential} \<and>
        quadrant_state f' = (\<lambda>c. if c = ur_coord reqs then Revealed
          else if c \<in> set d then Candidate else quadrant_state f c)
    | Some (_, f') \<Rightarrow> f' = f"
proof (cases "commit_authoritative_reveal f reqs res")
  case None
  with reveal_commit_total [OF assms, of reqs res] show ?thesis by simp
next
  case (Some r)
  obtain o1 f' where r: "commit_authoritative_reveal f reqs res = Some (o1, f')" using Some by (cases r) simp
  show ?thesis
  proof (cases "\<exists>t d. o1 = Inr (RevealDone t d)")
    case True
    then obtain t d where out: "o1 = Inr (RevealDone t d)" by blast
    have "quadrant_state f (ur_coord reqs) = Prepared \<and>
        (\<forall>q\<in>set (ur_requirements reqs). res (ur_coord reqs) q = Some True)"
      using reveal_commit_cases [OF assms r] out by metis
    with reveal_commit_done [OF assms r [unfolded out]] r out show ?thesis by simp
  next
    case False
    then have "f' = f" using reveal_commit_cases [OF assms r] by metis
    with r False show ?thesis by (auto split: sum.splits reveal_outcome.splits)
  qed
qed

theorem reveal_commit_atomic_witness:
  "\<exists>t f'. commit_authoritative_reveal \<lparr>revision = 1, revealed_quadrants = [QuadrantCoord 0 0],
      revealed_lookup = {QuadrantCoord 0 0}, lifecycle_states = [(QuadrantCoord 1 0, Prepared)]\<rparr>
      \<lparr>ur_coord = QuadrantCoord 1 0, ur_requirements = [4, 9]\<rparr> (\<lambda>c r. Some True) =
      Some (Inr (RevealDone t [QuadrantCoord 0 (- 1), QuadrantCoord 1 (- 1), QuadrantCoord (- 1) 0,
        QuadrantCoord 2 0, QuadrantCoord 0 1, QuadrantCoord 1 1]), f') \<and>
    revealed_quadrants f' = [QuadrantCoord 0 0, QuadrantCoord 1 0] \<and> unat (revision f') = 2"
proof -
  let ?f = "\<lparr>revision = 1, revealed_quadrants = [QuadrantCoord 0 0],
      revealed_lookup = {QuadrantCoord 0 0}, lifecycle_states = [(QuadrantCoord 1 0, Prepared)]\<rparr>"
  let ?r = "commit_authoritative_reveal ?f \<lparr>ur_coord = QuadrantCoord 1 0, ur_requirements = [4, 9]\<rparr> (\<lambda>c r. Some True)"
  have inv: "frontier_inv ?f" by (simp add: frontier_inv_def max_revealed_frontier_quadrants_def)
  let ?t = "\<lparr>lt_coord = QuadrantCoord 1 0, lt_from = Prepared, lt_to = Revealed, lt_previous_revision = 1,
      lt_revision = 2\<rparr>"
  let ?s = "\<lparr>revision = 2, revealed_quadrants = [QuadrantCoord 0 0, QuadrantCoord 1 0],
      revealed_lookup = {QuadrantCoord 1 0, QuadrantCoord 0 0}, lifecycle_states = []\<rparr>"
  have step: "reveal ?f (QuadrantCoord 1 0) = Inr (Some ?t, ?s)"
    by (simp add: reveal_def transition_def quadrant_state_def next_revision_def usize_checked_add_def
        max_revealed_frontier_quadrants_def checked_add_def ok_or_def)
  let ?new = "[QuadrantCoord 0 (- 1), QuadrantCoord 1 (- 1), QuadrantCoord (- 1) 0, QuadrantCoord 2 0,
      QuadrantCoord 0 1, QuadrantCoord 1 1]"
  have "scan_neighbors ?s (List.product [QuadrantCoord 0 0, QuadrantCoord 1 0] cardinal_neighbors) {} [] =
      Inr [QuadrantCoord (- 1) 0, QuadrantCoord 0 (- 1), QuadrantCoord 0 1, QuadrantCoord 2 0,
        QuadrantCoord 1 (- 1), QuadrantCoord 1 1]"
    by code_simp
  moreover have "sort_coords [QuadrantCoord (- 1) 0, QuadrantCoord 0 (- 1), QuadrantCoord 0 1, QuadrantCoord 2 0,
        QuadrantCoord 1 (- 1), QuadrantCoord 1 1] = ?new"
    by code_simp
  moreover have "map_option fst (mark_candidates ?s ?new) = Some (Inr ())" by code_simp
  ultimately obtain f1 where derive: "derive_candidate_frontier ?s = Some (Inr ?new, f1)"
    by (auto simp: derive_candidate_frontier_def)
  have "quadrant_state ?f (QuadrantCoord 1 0) = Prepared" by (simp add: quadrant_state_def)
  then have r: "?r = Some (Inr (RevealDone ?t ?new), f1)"
    by (simp add: commit_authoritative_reveal_def step derive evaluate_frontier_eligibility_def is_eligible_def Let_def)
  from reveal_commit_atomic [OF inv, of "\<lparr>ur_coord = QuadrantCoord 1 0, ur_requirements = [4, 9]\<rparr>" "\<lambda>c r. Some True"]
  have "revealed_quadrants f1 = revealed_quadrants ?f @ [QuadrantCoord 1 0] \<and> unat (revision f1) = unat (revision ?f) + 1"
    unfolding r by (simp only: option.case prod.case sum.case reveal_outcome.case unlock_requirements.select_convs)
  with r show ?thesis by auto
qed

end
