(* ===== verification/Quadrant_Preparation.thy ===== *)
theory Quadrant_Preparation
  imports Frontier_Reveal
begin

text \<open>
  crates/domain/src/quadrant_preparation.rs: the registry of preparations in flight and of prepared
  artifacts, keyed by quadrant, and its joint invariant with the frontier lifecycle.
\<close>

section \<open>Identities and artifacts\<close>

type_synonym fingerprint = "u8 list"

record preparation_identity =
  pi_coord :: quadrant_coord
  pi_generator_version :: u32
  pi_inputs_fingerprint :: fingerprint

record prepared_artifact =
  pa_identity :: preparation_identity
  pa_fingerprint :: fingerprint
  pa_bytes :: u64

datatype preparation_error =
  ZeroGeneratorVersion
| ZeroFingerprint
| EmptyArtifact
| FrontierNotCandidate quadrant_coord frontier_quadrant_state
| ConflictingIdentity quadrant_coord
| CompletionWithoutRequest quadrant_coord
| ConflictingPreparedArtifact quadrant_coord
| MissingPreparedTransition quadrant_coord
| PreparationLifecycle lifecycle_error

text \<open>The argument is an array of 32 bytes in the code.\<close>

definition fingerprint_new :: "u8 list \<Rightarrow> preparation_error + fingerprint" where
  "fingerprint_new bytes =
     (if list_all (\<lambda>b. b = 0) bytes then Inl ZeroFingerprint else Inr bytes)"

definition preparation_identity_new ::
  "quadrant_coord \<Rightarrow> u32 \<Rightarrow> fingerprint \<Rightarrow> preparation_error + preparation_identity" where
  "preparation_identity_new coord gen fp =
     (if gen = 0 then Inl ZeroGeneratorVersion
      else Inr \<lparr>pi_coord = coord, pi_generator_version = gen, pi_inputs_fingerprint = fp\<rparr>)"

definition prepared_artifact_new ::
  "preparation_identity \<Rightarrow> fingerprint \<Rightarrow> u64 \<Rightarrow> preparation_error + prepared_artifact" where
  "prepared_artifact_new i fp n =
     (if n = 0 then Inl EmptyArtifact
      else Inr \<lparr>pa_identity = i, pa_fingerprint = fp, pa_bytes = n\<rparr>)"

section \<open>Slots\<close>

datatype request_outcome = RequestStarted | RequestAlreadyInFlight | RequestAlreadyPrepared

datatype completion_outcome = CompletionPrepared lifecycle_transition | CompletionAlreadyPrepared

datatype abandon_outcome = AbandonRemoved | AbandonNotFound | AbandonAlreadyPrepared

datatype preparation_slot =
  InFlight preparation_identity
| PreparedSlot prepared_artifact

fun slot_identity :: "preparation_slot \<Rightarrow> preparation_identity" where
  "slot_identity (InFlight i) = i"
| "slot_identity (PreparedSlot a) = pa_identity a"

fun slot_in_flight :: "preparation_slot \<Rightarrow> bool" where
  "slot_in_flight (InFlight _) = True"
| "slot_in_flight (PreparedSlot _) = False"

type_synonym preparation_slots = "(quadrant_coord \<times> preparation_slot) list"

definition in_flight_len :: "preparation_slots \<Rightarrow> nat" where
  "in_flight_len slots = length (filter (\<lambda>(_, slot). slot_in_flight slot) slots)"

definition prep_request ::
  "frontier_state \<Rightarrow> preparation_identity \<Rightarrow> preparation_slots
     \<Rightarrow> preparation_error + request_outcome \<times> preparation_slots" where
  "prep_request frontier i slots =
     (let coord = pi_coord i
      in case map_of slots coord of
           Some slot \<Rightarrow>
             if slot_identity slot \<noteq> i then Inl (ConflictingIdentity coord)
             else Inr (case slot of InFlight _ \<Rightarrow> RequestAlreadyInFlight
                                  | PreparedSlot _ \<Rightarrow> RequestAlreadyPrepared, slots)
         | None \<Rightarrow>
             let actual = quadrant_state frontier coord
             in if actual \<noteq> Candidate then Inl (FrontierNotCandidate coord actual)
                else Inr (RequestStarted, AList.update coord (InFlight i) slots))"

definition prep_complete ::
  "frontier_state \<Rightarrow> prepared_artifact \<Rightarrow> preparation_slots
     \<Rightarrow> preparation_error + completion_outcome \<times> preparation_slots \<times> frontier_state" where
  "prep_complete frontier artifact slots =
     (let i = pa_identity artifact; coord = pi_coord i
      in case map_of slots coord of
           None \<Rightarrow> Inl (CompletionWithoutRequest coord)
         | Some slot \<Rightarrow>
             if slot_identity slot \<noteq> i then Inl (ConflictingIdentity coord)
             else
               (case slot of
                  PreparedSlot existing \<Rightarrow>
                    if existing = artifact then Inr (CompletionAlreadyPrepared, slots, frontier)
                    else Inl (ConflictingPreparedArtifact coord)
                | InFlight _ \<Rightarrow>
                    let actual = quadrant_state frontier coord
                    in if actual \<noteq> Candidate then Inl (FrontierNotCandidate coord actual)
                       else (case mark_prepared frontier coord of
                               Inl e \<Rightarrow> Inl (PreparationLifecycle e)
                             | Inr (None, frontier') \<Rightarrow> Inl (MissingPreparedTransition coord)
                             | Inr (Some t, frontier') \<Rightarrow>
                                 Inr (CompletionPrepared t,
                                      AList.update coord (PreparedSlot artifact) slots, frontier'))))"

definition prep_abandon ::
  "preparation_identity \<Rightarrow> preparation_slots
     \<Rightarrow> preparation_error + abandon_outcome \<times> preparation_slots" where
  "prep_abandon i slots =
     (let coord = pi_coord i
      in case map_of slots coord of
           None \<Rightarrow> Inr (AbandonNotFound, slots)
         | Some slot \<Rightarrow>
             if slot_identity slot \<noteq> i then Inl (ConflictingIdentity coord)
             else (case slot of
                     PreparedSlot _ \<Rightarrow> Inr (AbandonAlreadyPrepared, slots)
                   | InFlight _ \<Rightarrow> Inr (AbandonRemoved, AList.delete coord slots)))"

definition prep_cancel ::
  "preparation_identity \<Rightarrow> preparation_slots
     \<Rightarrow> preparation_error + abandon_outcome \<times> preparation_slots" where
  "prep_cancel i slots = prep_abandon i slots"

definition prep_fail ::
  "preparation_identity \<Rightarrow> preparation_slots
     \<Rightarrow> preparation_error + abandon_outcome \<times> preparation_slots" where
  "prep_fail i slots = prep_abandon i slots"

definition prep_prepared_artifact ::
  "preparation_slots \<Rightarrow> preparation_identity \<Rightarrow> prepared_artifact option" where
  "prep_prepared_artifact slots i =
     (case map_of slots (pi_coord i) of
        Some (PreparedSlot a) \<Rightarrow> if pa_identity a = i then Some a else None
      | _ \<Rightarrow> None)"

section \<open>Joint invariant with the frontier\<close>

text \<open>
  A slot in flight belongs to a Candidate quadrant, a slot with an artifact to a Prepared or
  Revealed one, and every Prepared quadrant has its artifact. A quadrant revealed at the start has
  no slot.
\<close>

definition slot_matches :: "frontier_state \<Rightarrow> quadrant_coord \<Rightarrow> preparation_slot \<Rightarrow> bool" where
  "slot_matches f c slot \<longleftrightarrow>
     pi_coord (slot_identity slot) = c \<and>
     (if slot_in_flight slot then quadrant_state f c = Candidate
      else quadrant_state f c = Prepared \<or> quadrant_state f c = Revealed)"

definition preparation_inv :: "frontier_state \<Rightarrow> preparation_slots \<Rightarrow> bool" where
  "preparation_inv f slots \<longleftrightarrow>
     distinct (map fst slots) \<and>
     (\<forall>c slot. map_of slots c = Some slot \<longrightarrow> slot_matches f c slot) \<and>
     (\<forall>c. quadrant_state f c = Prepared \<longrightarrow> (\<exists>a. map_of slots c = Some (PreparedSlot a)))"

lemma preparation_invD:
  assumes "preparation_inv f slots"
  shows "distinct (map fst slots)"
    and "map_of slots c = Some slot \<Longrightarrow> slot_matches f c slot"
    and "quadrant_state f c = Prepared \<Longrightarrow> \<exists>a. map_of slots c = Some (PreparedSlot a)"
  using assms by (auto simp: preparation_inv_def)

lemma preparation_inv_empty:
  "\<forall>c. quadrant_state f c \<noteq> Prepared \<Longrightarrow> preparation_inv f []"
  by (simp add: preparation_inv_def)

lemma prep_request_inv:
  assumes inv: "preparation_inv f slots" and req: "prep_request f i slots = Inr (out, slots')"
  shows "preparation_inv f slots'"
proof (cases "slots' = slots")
  case False
  with req have "map_of slots (pi_coord i) = None" "quadrant_state f (pi_coord i) = Candidate"
    "slots' = AList.update (pi_coord i) (InFlight i) slots"
    by (auto simp: prep_request_def Let_def split: option.splits if_splits)
  with inv show ?thesis
    by (auto simp: preparation_inv_def keyed_simps slot_matches_def)
qed (use inv in simp)

lemma prep_complete_cases:
  assumes "prep_complete f a slots = Inr (out, slots', f')"
  obtains (again) "map_of slots (pi_coord (pa_identity a)) = Some (PreparedSlot a)"
      "out = CompletionAlreadyPrepared" "slots' = slots" "f' = f"
  | (first) t where
      "map_of slots (pi_coord (pa_identity a)) = Some (InFlight (pa_identity a))"
      "quadrant_state f (pi_coord (pa_identity a)) = Candidate" "out = CompletionPrepared t"
      "transition f (pi_coord (pa_identity a)) Prepared = Inr (Some t, f')"
      "slots' = AList.update (pi_coord (pa_identity a)) (PreparedSlot a) slots"
  using assms
  by (auto simp: prep_complete_def Let_def mark_prepared_def
      split: option.splits if_splits preparation_slot.splits sum.splits prod.splits)

lemma prep_complete_inv:
  assumes finv: "frontier_inv f" and inv: "preparation_inv f slots"
    and comp: "prep_complete f a slots = Inr (out, slots', f')"
  shows "preparation_inv f' slots'"
  using comp
proof (cases rule: prep_complete_cases)
  case (first t)
  have st: "quadrant_state f' = (quadrant_state f)(pi_coord (pa_identity a) := Prepared)"
    using transition_state [OF finv] first(4) by blast
  show ?thesis
    using inv by (auto simp: preparation_inv_def first(5) keyed_simps slot_matches_def st)
qed (use inv in simp)

lemma prep_abandon_inv:
  assumes inv: "preparation_inv f slots" and ab: "prep_abandon i slots = Inr (out, slots')"
  shows "preparation_inv f slots'"
proof (cases "slots' = slots")
  case False
  with ab have "map_of slots (pi_coord i) = Some (InFlight i)" "slots' = AList.delete (pi_coord i) slots"
    by (auto simp: prep_abandon_def Let_def split: option.splits if_splits preparation_slot.splits)
  with inv show ?thesis by (auto simp: preparation_inv_def keyed_simps)
qed (use inv in simp)

text \<open>
  Under the invariant the completion of a requested preparation always succeeds: the frontier
  checks after the identity check never fail.
\<close>

lemma prep_complete_succeeds:
  assumes inv: "preparation_inv f slots"
    and slot: "map_of slots (pi_coord (pa_identity a)) = Some (InFlight (pa_identity a))"
  shows "\<exists>t f'. prep_complete f a slots = Inr (CompletionPrepared t,
    AList.update (pi_coord (pa_identity a)) (PreparedSlot a) slots, f')"
proof -
  have "quadrant_state f (pi_coord (pa_identity a)) = Candidate"
    using preparation_invD(2) [OF inv slot] by (simp add: slot_matches_def)
  then show ?thesis
    using slot by (auto simp: prep_complete_def Let_def mark_prepared_def transition_def
      next_revision_def)
qed

text \<open>Revealing a quadrant and deriving candidates keep the invariant.\<close>

lemma reveal_commit_preparation_inv:
  assumes finv: "frontier_inv f" and inv: "preparation_inv f slots"
    and commit: "commit_authoritative_reveal f reqs res = Some (r, f')"
  shows "preparation_inv f' slots"
  using finv commit
proof (cases rule: reveal_commit_cases)
  case (committed t staged d)
  note after = reveal_commit_done [OF finv commit [unfolded committed(1)]]
  have "quadrant_state f c = Potential" if "c \<in> set d" "c \<noteq> ur_coord reqs" for c
    using after(4) that by simp
  then show ?thesis
    using inv committed(2) by (fastforce simp: preparation_inv_def slot_matches_def after(3))
qed (use inv in simp)

section \<open>Lookups\<close>

lemma prep_prepared_artifact_Some:
  "prep_prepared_artifact slots i = Some a \<longleftrightarrow>
     map_of slots (pi_coord i) = Some (PreparedSlot a) \<and> pa_identity a = i"
  by (auto simp: prep_prepared_artifact_def split: option.splits preparation_slot.splits)

lemma prep_request_then_complete:
  assumes "prep_request f (pa_identity a) slots = Inr (RequestStarted, slots1)"
    and "prep_complete f a slots1 = Inr (out, slots2, f')"
  shows "prep_prepared_artifact slots2 (pa_identity a) = Some a"
proof -
  have "map_of slots1 (pi_coord (pa_identity a)) = Some (InFlight (pa_identity a))"
    using assms(1) by (auto simp: prep_request_def Let_def keyed_simps
      split: option.splits if_splits preparation_slot.splits)
  with assms(2) show ?thesis
    by (cases rule: prep_complete_cases)
      (auto simp: prep_prepared_artifact_Some keyed_simps)
qed

end
