(* ===== verification/Contracts_Bootstrap.thy ===== *)
theory Contracts_Bootstrap
  imports Bytes
begin

text \<open>
  crates/contracts/src/lib.rs and bootstrap.rs: protocol negotiation, message kinds, the frame
  header and the two handshake messages, all big-endian; crates/transport/src/datagram.rs: a
  datagram is one frame header followed by exactly the payload it declares.
\<close>

section \<open>Negotiation and message kinds\<close>

definition negotiate_protocol_minor :: "u16 \<Rightarrow> u16 \<Rightarrow> u16 \<Rightarrow> u16 \<Rightarrow> u16 option" where
  "negotiate_protocol_minor client_major client_minor server_major server_minor =
     (if client_major = server_major \<and> client_minor \<le> server_minor then Some client_minor else None)"

datatype message_kind =
  KClientHello | KServerHello | KMovementPredictionProfile | KMoveIntent | KFrontierManifest
| KEntityDelta | KSelfMovementSnapshot | KSelfMovementSnapshotV2 | KFrontierManifestAck
| KTerrainAuthority | KEnvironmentPresentationPolicy | KWaterSurfacePresentation
| KInventoryIntent | KInventoryResult | KMineIntent

fun kind_code :: "message_kind \<Rightarrow> u16" where
  "kind_code KClientHello = 1"
| "kind_code KServerHello = 2"
| "kind_code KMovementPredictionProfile = 3"
| "kind_code KMoveIntent = 100"
| "kind_code KFrontierManifest = 200"
| "kind_code KEntityDelta = 201"
| "kind_code KSelfMovementSnapshot = 202"
| "kind_code KSelfMovementSnapshotV2 = 203"
| "kind_code KFrontierManifestAck = 204"
| "kind_code KTerrainAuthority = 205"
| "kind_code KEnvironmentPresentationPolicy = 206"
| "kind_code KWaterSurfacePresentation = 207"
| "kind_code KInventoryIntent = 300"
| "kind_code KInventoryResult = 301"
| "kind_code KMineIntent = 400"

datatype bootstrap_codec_error =
  InvalidMagic
| UnknownMessageKind u16
| InvalidPayloadLength nat nat
| InvalidBoolean u8
| UnknownRejectCode u8
| PayloadTooLarge

definition kind_try_from :: "u16 \<Rightarrow> bootstrap_codec_error + message_kind" where
  "kind_try_from v =
     (if v = 1 then Inr KClientHello
      else if v = 2 then Inr KServerHello
      else if v = 3 then Inr KMovementPredictionProfile
      else if v = 100 then Inr KMoveIntent
      else if v = 200 then Inr KFrontierManifest
      else if v = 201 then Inr KEntityDelta
      else if v = 202 then Inr KSelfMovementSnapshot
      else if v = 203 then Inr KSelfMovementSnapshotV2
      else if v = 204 then Inr KFrontierManifestAck
      else if v = 205 then Inr KTerrainAuthority
      else if v = 206 then Inr KEnvironmentPresentationPolicy
      else if v = 207 then Inr KWaterSurfacePresentation
      else if v = 300 then Inr KInventoryIntent
      else if v = 301 then Inr KInventoryResult
      else if v = 400 then Inr KMineIntent
      else Inl (UnknownMessageKind v))"

section \<open>Frame header\<close>

definition frame_magic :: "u8 list" where
  "frame_magic = [65, 85, 82, 50]"

definition frame_header_bytes :: nat where
  "frame_header_bytes = 8"

record frame_header =
  fh_kind :: message_kind
  fh_payload_len :: u16

definition frame_header_new :: "message_kind \<Rightarrow> nat \<Rightarrow> bootstrap_codec_error + frame_header" where
  "frame_header_new kind payload_len =
     (if payload_len < 2 ^ 16 then Inr \<lparr>fh_kind = kind, fh_payload_len = of_nat payload_len\<rparr>
      else Inl PayloadTooLarge)"

definition frame_header_encode :: "frame_header \<Rightarrow> u8 list" where
  "frame_header_encode h =
     frame_magic @ to_be_bytes (kind_code (fh_kind h)) @ to_be_bytes (fh_payload_len h)"

text \<open>The argument of the Rust function is an array of 8 bytes.\<close>

definition frame_header_decode :: "u8 list \<Rightarrow> bootstrap_codec_error + frame_header" where
  "frame_header_decode bytes =
     (if slice_bytes 0 4 bytes \<noteq> frame_magic then Inl InvalidMagic
      else (case kind_try_from (from_be_bytes (slice_bytes 4 6 bytes)) of
              Inl e \<Rightarrow> Inl e
            | Inr kind \<Rightarrow>
                Inr \<lparr>fh_kind = kind, fh_payload_len = from_be_bytes (slice_bytes 6 8 bytes)\<rparr>))"

section \<open>Handshake messages\<close>

definition client_hello_bytes :: nat where
  "client_hello_bytes = 24"

definition server_hello_bytes :: nat where
  "server_hello_bytes = 62"

record client_hello =
  ch_protocol_major :: u16
  ch_protocol_minor :: u16
  ch_client_build :: u32
  ch_client_nonce :: "u8 list"

definition client_hello_encode :: "client_hello \<Rightarrow> u8 list" where
  "client_hello_encode m =
     to_be_bytes (ch_protocol_major m) @ to_be_bytes (ch_protocol_minor m)
       @ to_be_bytes (ch_client_build m) @ ch_client_nonce m"

definition client_hello_decode :: "u8 list \<Rightarrow> bootstrap_codec_error + client_hello" where
  "client_hello_decode payload =
     (if length payload \<noteq> client_hello_bytes
      then Inl (InvalidPayloadLength client_hello_bytes (length payload))
      else Inr \<lparr>ch_protocol_major = from_be_bytes (slice_bytes 0 2 payload),
                ch_protocol_minor = from_be_bytes (slice_bytes 2 4 payload),
                ch_client_build = from_be_bytes (slice_bytes 4 8 payload),
                ch_client_nonce = slice_bytes 8 24 payload\<rparr>)"

datatype reject_code = RejectNone | IncompatibleProtocol | ClientBuildTooOld

fun reject_code_byte :: "reject_code \<Rightarrow> u8" where
  "reject_code_byte RejectNone = 0"
| "reject_code_byte IncompatibleProtocol = 1"
| "reject_code_byte ClientBuildTooOld = 2"

definition reject_code_try_from :: "u8 \<Rightarrow> bootstrap_codec_error + reject_code" where
  "reject_code_try_from v =
     (if v = 0 then Inr RejectNone else if v = 1 then Inr IncompatibleProtocol
      else if v = 2 then Inr ClientBuildTooOld else Inl (UnknownRejectCode v))"

record server_hello =
  sh_protocol_major :: u16
  sh_protocol_minor :: u16
  sh_accepted :: bool
  sh_reject_code :: reject_code
  sh_connection_id :: u64
  sh_session_id :: u64
  sh_universe_id :: u64
  sh_client_nonce_echo :: "u8 list"
  sh_server_nonce :: "u8 list"

definition server_hello_encode :: "server_hello \<Rightarrow> u8 list" where
  "server_hello_encode m =
     to_be_bytes (sh_protocol_major m) @ to_be_bytes (sh_protocol_minor m)
       @ (if sh_accepted m then 1 else 0) # reject_code_byte (sh_reject_code m)
       # to_be_bytes (sh_connection_id m) @ to_be_bytes (sh_session_id m)
       @ to_be_bytes (sh_universe_id m) @ sh_client_nonce_echo m @ sh_server_nonce m"

definition server_hello_decode :: "u8 list \<Rightarrow> bootstrap_codec_error + server_hello" where
  "server_hello_decode payload =
     (if length payload \<noteq> server_hello_bytes
      then Inl (InvalidPayloadLength server_hello_bytes (length payload))
      else if payload ! 4 \<noteq> 0 \<and> payload ! 4 \<noteq> 1 then Inl (InvalidBoolean (payload ! 4))
      else (case reject_code_try_from (payload ! 5) of
              Inl e \<Rightarrow> Inl e
            | Inr code \<Rightarrow>
                Inr \<lparr>sh_protocol_major = from_be_bytes (slice_bytes 0 2 payload),
                     sh_protocol_minor = from_be_bytes (slice_bytes 2 4 payload),
                     sh_accepted = (payload ! 4 = 1),
                     sh_reject_code = code,
                     sh_connection_id = from_be_bytes (slice_bytes 6 14 payload),
                     sh_session_id = from_be_bytes (slice_bytes 14 22 payload),
                     sh_universe_id = from_be_bytes (slice_bytes 22 30 payload),
                     sh_client_nonce_echo = slice_bytes 30 46 payload,
                     sh_server_nonce = slice_bytes 46 62 payload\<rparr>))"

section \<open>Datagrams\<close>

datatype datagram_frame_error =
  DatagramCodec bootstrap_codec_error
| DatagramTooLarge nat nat
| HeaderTooShort nat nat
| PayloadLengthMismatch nat nat

definition encode_datagram_frame ::
  "message_kind \<Rightarrow> u8 list \<Rightarrow> nat \<Rightarrow> datagram_frame_error + u8 list" where
  "encode_datagram_frame kind payload maximum =
     (case frame_header_new kind (length payload) of
        Inl e \<Rightarrow> Inl (DatagramCodec e)
      | Inr h \<Rightarrow>
          (let header = frame_header_encode h; total_len = frame_header_bytes + length payload
           in if maximum < total_len then Inl (DatagramTooLarge total_len maximum)
              else Inr (header @ payload)))"

definition decode_datagram_frame ::
  "u8 list \<Rightarrow> nat \<Rightarrow> datagram_frame_error + message_kind \<times> u8 list" where
  "decode_datagram_frame frame maximum =
     (if maximum < length frame then Inl (DatagramTooLarge (length frame) maximum)
      else if length frame < frame_header_bytes
      then Inl (HeaderTooShort (length frame) frame_header_bytes)
      else (case frame_header_decode (take frame_header_bytes frame) of
              Inl e \<Rightarrow> Inl (DatagramCodec e)
            | Inr header \<Rightarrow>
                (let payload = drop frame_header_bytes frame;
                     declared = unat (fh_payload_len header)
                 in if declared \<noteq> length payload
                    then Inl (PayloadLengthMismatch declared (length payload))
                    else Inr (fh_kind header, payload))))"

section \<open>Codes\<close>

lemma kind_try_from_code [simp]: "kind_try_from (kind_code k) = Inr k"
  by (cases k) (simp_all add: kind_try_from_def)

lemma kind_try_from_Inr: "kind_try_from v = Inr k \<longleftrightarrow> v = kind_code k"
proof
  assume "kind_try_from v = Inr k"
  then show "v = kind_code k"
    by (auto simp: kind_try_from_def split: if_splits)
qed simp

lemma kind_code_inject: "kind_code k = kind_code k' \<longleftrightarrow> k = k'"
  by (metis kind_try_from_code sum.inject(2))

lemma reject_code_try_from_Inr: "reject_code_try_from v = Inr c \<longleftrightarrow> v = reject_code_byte c"
  by (cases c) (auto simp: reject_code_try_from_def split: if_splits)

section \<open>Codec contracts\<close>

lemmas be_word_read [simp] =
  to_from_be_bytes [where 'a = 16, simplified] to_from_be_bytes [where 'a = 32, simplified]
  to_from_be_bytes [where 'a = 64, simplified]

lemma length_frame_magic [simp]: "length frame_magic = 4"
  by (simp add: frame_magic_def)

lemma frame_header_roundtrip: "frame_header_decode (frame_header_encode h) = Inr h"
  by (simp add: frame_header_decode_def frame_header_encode_def)

lemma frame_header_canonical:
  assumes "length bs = 8" "frame_header_decode bs = Inr h"
  shows "frame_header_encode h = bs"
proof -
  have "slice_bytes 0 4 bs = frame_magic" "from_be_bytes (slice_bytes 4 6 bs) = kind_code (fh_kind h)"
    "fh_payload_len h = from_be_bytes (slice_bytes 6 8 bs)"
    using assms(2) by (auto simp: frame_header_decode_def kind_try_from_Inr split: if_splits sum.splits)
  then have "frame_header_encode h = slice_bytes 0 4 bs @ slice_bytes 4 6 bs @ slice_bytes 6 8 bs"
    using assms(1) by (simp add: frame_header_encode_def flip: \<open>_ = kind_code _\<close>)
  also have "\<dots> = bs" using assms(1) by (simp add: slice_joins)
  finally show ?thesis .
qed

definition client_hello_valid :: "client_hello \<Rightarrow> bool" where
  "client_hello_valid m \<longleftrightarrow> length (ch_client_nonce m) = 16"

text \<open>The nonce is an array of 16 bytes in the code: encodings of other lengths do not exist.\<close>

interpretation client_hello_codec:
  canonical_codec client_hello_encode client_hello_decode client_hello_valid
proof
  fix m bs
  show "client_hello_valid m \<Longrightarrow> client_hello_decode (client_hello_encode m) = Inr m"
    by (simp add: client_hello_valid_def client_hello_decode_def client_hello_encode_def
        client_hello_bytes_def)
  assume "client_hello_decode bs = Inr m"
  then have len: "length bs = 24" and m:
    "m = \<lparr>ch_protocol_major = from_be_bytes (slice_bytes 0 2 bs),
          ch_protocol_minor = from_be_bytes (slice_bytes 2 4 bs),
          ch_client_build = from_be_bytes (slice_bytes 4 8 bs),
          ch_client_nonce = slice_bytes 8 24 bs\<rparr>"
    by (auto simp: client_hello_decode_def client_hello_bytes_def split: if_splits)
  show "client_hello_valid m" using len by (simp add: m client_hello_valid_def)
  show "client_hello_encode m = bs"
    using len by (simp add: m client_hello_encode_def slice_joins)
qed

definition server_hello_valid :: "server_hello \<Rightarrow> bool" where
  "server_hello_valid m \<longleftrightarrow>
     length (sh_client_nonce_echo m) = 16 \<and> length (sh_server_nonce m) = 16"

lemma server_hello_decode_fields:
  assumes "server_hello_decode bs = Inr m"
  shows "length bs = 62" "bs ! 4 = (if sh_accepted m then 1 else 0)"
    "bs ! 5 = reject_code_byte (sh_reject_code m)"
    "m = \<lparr>sh_protocol_major = from_be_bytes (slice_bytes 0 2 bs),
          sh_protocol_minor = from_be_bytes (slice_bytes 2 4 bs),
          sh_accepted = sh_accepted m, sh_reject_code = sh_reject_code m,
          sh_connection_id = from_be_bytes (slice_bytes 6 14 bs),
          sh_session_id = from_be_bytes (slice_bytes 14 22 bs),
          sh_universe_id = from_be_bytes (slice_bytes 22 30 bs),
          sh_client_nonce_echo = slice_bytes 30 46 bs, sh_server_nonce = slice_bytes 46 62 bs\<rparr>"
  using assms
  by (auto simp: server_hello_decode_def server_hello_bytes_def reject_code_try_from_Inr
      split: if_splits sum.splits)

lemma server_hello_canonical:
  assumes "server_hello_decode bs = Inr m"
  shows "server_hello_encode m = bs"
proof -
  note f = server_hello_decode_fields [OF assms]
  have "server_hello_encode m = slice_bytes 0 2 bs @ slice_bytes 2 4 bs @ bs ! 4 # bs ! 5
    # slice_bytes 6 14 bs @ slice_bytes 14 22 bs @ slice_bytes 22 30 bs @ slice_bytes 30 46 bs
    @ slice_bytes 46 62 bs"
    by (subst f(4)) (use f(1-3) in \<open>simp add: server_hello_encode_def\<close>)
  also have "\<dots> = bs" using f(1) by (simp add: slice_joins)
  finally show ?thesis .
qed

interpretation server_hello_codec:
  canonical_codec server_hello_encode server_hello_decode server_hello_valid
proof
  fix m bs
  show "server_hello_valid m \<Longrightarrow> server_hello_decode (server_hello_encode m) = Inr m"
    by (cases "sh_reject_code m")
      (simp_all add: server_hello_valid_def server_hello_decode_def server_hello_encode_def
        server_hello_bytes_def nth_append_skip reject_code_try_from_def)
  assume d: "server_hello_decode bs = Inr m"
  note f = server_hello_decode_fields [OF d]
  show "server_hello_valid m"
    by (subst f(4)) (use f(1) in \<open>simp add: server_hello_valid_def\<close>)
  show "server_hello_encode m = bs" by (rule server_hello_canonical [OF d])
qed

section \<open>Datagram framing\<close>

lemma length_frame_header_encode [simp]: "length (frame_header_encode h) = frame_header_bytes"
  by (simp add: frame_header_encode_def frame_magic_def frame_header_bytes_def)

lemma encode_datagram_Inr:
  "encode_datagram_frame kind payload maximum = Inr frame \<longleftrightarrow>
     length payload < 2 ^ 16 \<and> frame_header_bytes + length payload \<le> maximum \<and>
     frame = frame_header_encode \<lparr>fh_kind = kind, fh_payload_len = of_nat (length payload)\<rparr> @ payload"
  by (auto simp: encode_datagram_frame_def frame_header_new_def Let_def)

lemma datagram_roundtrip:
  assumes "encode_datagram_frame kind payload maximum = Inr frame"
  shows "decode_datagram_frame frame maximum = Inr (kind, payload)"
proof -
  from assms have len: "length payload < 2 ^ 16" "frame_header_bytes + length payload \<le> maximum"
    and frame: "frame = frame_header_encode
      \<lparr>fh_kind = kind, fh_payload_len = of_nat (length payload)\<rparr> @ payload"
    by (simp_all add: encode_datagram_Inr)
  have "unat (of_nat (length payload) :: u16) = length payload"
    using len(1) by (simp add: unat_of_nat take_bit_nat_eq_self)
  then show ?thesis
    using len(2) by (simp add: decode_datagram_frame_def frame frame_header_roundtrip)
qed

lemma datagram_canonical:
  assumes "decode_datagram_frame frame maximum = Inr (kind, payload)"
  shows "encode_datagram_frame kind payload maximum = Inr frame"
proof -
  let ?head = "take frame_header_bytes frame"
  from assms obtain h where h: "frame_header_decode ?head = Inr h" "fh_kind h = kind"
    "unat (fh_payload_len h) = length payload"
    and p: "payload = drop frame_header_bytes frame"
    and len: "frame_header_bytes \<le> length frame" "length frame \<le> maximum"
    by (auto simp: decode_datagram_frame_def Let_def split: if_splits sum.splits)
  have "length ?head = 8" using len(1) by (simp add: frame_header_bytes_def)
  from frame_header_canonical [OF this h(1)] have head: "frame_header_encode h = ?head" .
  have "h = \<lparr>fh_kind = kind, fh_payload_len = of_nat (length payload)\<rparr>"
    using h(2,3) by (cases h) (simp add: word_unat_eq_iff unat_of_nat take_bit_nat_eq_self
      flip: h(3))
  moreover have "length payload < 2 ^ 16"
    using unsigned_less [of "fh_payload_len h", where ?'a = nat] by (simp add: h(3))
  ultimately show ?thesis
    using head len by (simp add: encode_datagram_Inr p)
qed

section \<open>Properties\<close>

text \<open>
  The server hello on the wire is canonical: a byte string is read as a message exactly when it is
  the encoding of it, and the message satisfies the type's own constraints.
\<close>

theorem server_hello_wire_canonical:
  "server_hello_decode bs = Inr m \<longleftrightarrow> server_hello_valid m \<and> bs = server_hello_encode m"
  by (rule server_hello_codec.accepted_iff)

text \<open>
  For every size limit, a datagram frame is read back as a kind and payload exactly when the
  encoder, under the same limit, writes that frame for them.
\<close>

theorem datagram_frame_canonical:
  "decode_datagram_frame frame maximum = Inr (kind, payload) \<longleftrightarrow>
     encode_datagram_frame kind payload maximum = Inr frame"
  using datagram_canonical datagram_roundtrip by blast

end
