(* ===== verification/Contracts_Movement.thy ===== *)
theory Contracts_Movement
  imports Bytes
begin

text \<open>
  The little-endian messages of movement: crates/contracts/src/intents.rs (move and mine intents),
  snapshots.rs and snapshots_v2.rs (the server's answers) and prediction.rs (the profile the client
  predicts with).
\<close>

section \<open>Intents\<close>

definition move_intent_bytes :: nat where
  "move_intent_bytes = 12"

definition mine_intent_bytes :: nat where
  "mine_intent_bytes = 16"

datatype intent_codec_error =
  IntentInvalidLength nat nat
| AxisOutOfRange string "16 word"

record move_intent =
  mi_sequence :: u64
  mi_axis_x :: "16 word"
  mi_axis_y :: "16 word"

definition validate_axis :: "string \<Rightarrow> 16 word \<Rightarrow> intent_codec_error + unit" where
  "validate_axis name v =
     (if \<not> (- 32767 \<le> sint v \<and> sint v \<le> 32767) then Inl (AxisOutOfRange name v) else Inr ())"

definition move_intent_new :: "u64 \<Rightarrow> 16 word \<Rightarrow> 16 word \<Rightarrow> intent_codec_error + move_intent" where
  "move_intent_new n ax ay =
     (case validate_axis ''axis_x'' ax of Inl e \<Rightarrow> Inl e | Inr _ \<Rightarrow>
      (case validate_axis ''axis_y'' ay of Inl e \<Rightarrow> Inl e | Inr _ \<Rightarrow>
         Inr \<lparr>mi_sequence = n, mi_axis_x = ax, mi_axis_y = ay\<rparr>))"

definition move_intent_encode :: "move_intent \<Rightarrow> u8 list" where
  "move_intent_encode m =
     to_le_bytes (mi_sequence m) @ to_le_bytes (mi_axis_x m) @ to_le_bytes (mi_axis_y m)"

definition move_intent_decode :: "u8 list \<Rightarrow> intent_codec_error + move_intent" where
  "move_intent_decode bytes =
     (if length bytes \<noteq> move_intent_bytes
      then Inl (IntentInvalidLength move_intent_bytes (length bytes))
      else move_intent_new (from_le_bytes (slice_bytes 0 8 bytes))
             (from_le_bytes (slice_bytes 8 10 bytes)) (from_le_bytes (slice_bytes 10 12 bytes)))"

record mine_intent =
  mine_resource_id :: u64
  mine_sequence :: u64

definition mine_intent_encode :: "mine_intent \<Rightarrow> u8 list" where
  "mine_intent_encode m = to_le_bytes (mine_resource_id m) @ to_le_bytes (mine_sequence m)"

definition mine_intent_decode :: "u8 list \<Rightarrow> intent_codec_error + mine_intent" where
  "mine_intent_decode bytes =
     (if length bytes \<noteq> mine_intent_bytes
      then Inl (IntentInvalidLength mine_intent_bytes (length bytes))
      else Inr \<lparr>mine_resource_id = from_le_bytes (slice_bytes 0 8 bytes),
                mine_sequence = from_le_bytes (slice_bytes 8 16 bytes)\<rparr>)"

section \<open>Snapshots\<close>

definition self_movement_snapshot_bytes :: nat where
  "self_movement_snapshot_bytes = 34"

definition self_movement_snapshot_v2_bytes :: nat where
  "self_movement_snapshot_v2_bytes = 50"

datatype snapshot_codec_error =
  PayloadTooShort nat nat
| InvalidMarker u8

record self_movement_snapshot =
  sn_server_tick :: u64
  sn_x_mm :: int
  sn_y_mm :: int
  sn_z_mm :: int
  sn_sequence :: "u64 option"

definition snapshot_encode :: "self_movement_snapshot \<Rightarrow> u8 list" where
  "snapshot_encode m =
     to_le_bytes (sn_server_tick m) @ i64_le_bytes (sn_x_mm m) @ i64_le_bytes (sn_y_mm m)
       @ i64_le_bytes (sn_z_mm m)
       @ (case sn_sequence m of Some n \<Rightarrow> [1, ucast (and n 255)] | None \<Rightarrow> [0, 0])"

definition snapshot_decode :: "u8 list \<Rightarrow> snapshot_codec_error + self_movement_snapshot" where
  "snapshot_decode payload =
     (if length payload < self_movement_snapshot_bytes
      then Inl (PayloadTooShort self_movement_snapshot_bytes (length payload))
      else if payload ! 32 \<noteq> 0 \<and> payload ! 32 \<noteq> 1 then Inl (InvalidMarker (payload ! 32))
      else Inr \<lparr>sn_server_tick = from_le_bytes (slice_bytes 0 8 payload),
                sn_x_mm = i64_from_le_bytes (slice_bytes 8 16 payload),
                sn_y_mm = i64_from_le_bytes (slice_bytes 16 24 payload),
                sn_z_mm = i64_from_le_bytes (slice_bytes 24 32 payload),
                sn_sequence = (if payload ! 32 = 0 then None else Some (ucast (payload ! 33)))\<rparr>)"

definition movement_flags_contains :: "u8 \<Rightarrow> u8 \<Rightarrow> bool" where
  "movement_flags_contains self other \<longleftrightarrow> and self other = other"

record self_movement_snapshot_v2 =
  s2_server_tick :: u64
  s2_x_mm :: int
  s2_y_mm :: int
  s2_z_mm :: int
  s2_last_processed :: "u64 option"
  s2_active_movement :: "u64 option"

fun encode_optional_sequence :: "u64 option \<Rightarrow> u8 list" where
  "encode_optional_sequence (Some v) = 1 # to_le_bytes v"
| "encode_optional_sequence None = 0 # replicate 8 0"

definition decode_optional_sequence :: "u8 list \<Rightarrow> snapshot_codec_error + u64 option" where
  "decode_optional_sequence src =
     (if src = [] then Inr None
      else if src ! 0 = 0 then Inr None
      else if src ! 0 = 1 then
        (if length src < 9 then Inl (PayloadTooShort 9 (length src))
         else Inr (Some (from_le_bytes (slice_bytes 1 9 src))))
      else Inl (InvalidMarker (src ! 0)))"

definition snapshot_v2_encode :: "self_movement_snapshot_v2 \<Rightarrow> u8 list" where
  "snapshot_v2_encode m =
     to_le_bytes (s2_server_tick m) @ i64_le_bytes (s2_x_mm m) @ i64_le_bytes (s2_y_mm m)
       @ i64_le_bytes (s2_z_mm m) @ encode_optional_sequence (s2_last_processed m)
       @ encode_optional_sequence (s2_active_movement m)"

definition snapshot_v2_decode :: "u8 list \<Rightarrow> snapshot_codec_error + self_movement_snapshot_v2" where
  "snapshot_v2_decode payload =
     (if length payload \<noteq> self_movement_snapshot_v2_bytes
      then Inl (PayloadTooShort self_movement_snapshot_v2_bytes (length payload))
      else
        (case decode_optional_sequence (slice_bytes 32 41 payload) of
           Inl e \<Rightarrow> Inl e
         | Inr processed \<Rightarrow>
        (case decode_optional_sequence (slice_bytes 41 50 payload) of
           Inl e \<Rightarrow> Inl e
         | Inr active \<Rightarrow>
             Inr \<lparr>s2_server_tick = from_le_bytes (slice_bytes 0 8 payload),
                  s2_x_mm = i64_from_le_bytes (slice_bytes 8 16 payload),
                  s2_y_mm = i64_from_le_bytes (slice_bytes 16 24 payload),
                  s2_z_mm = i64_from_le_bytes (slice_bytes 24 32 payload),
                  s2_last_processed = processed, s2_active_movement = active\<rparr>)))"

section \<open>Prediction profile\<close>

definition movement_prediction_profile_bytes :: nat where
  "movement_prediction_profile_bytes = 44"

definition movement_prediction_profile_version :: u32 where
  "movement_prediction_profile_version = 2"

datatype profile_codec_error =
  ProfileInvalidLength nat nat
| ProfileUnsupportedVersion u32 u32
| ProfileZeroValue string
| InvalidCorrectionThresholds u32 u32 u32

record correction_profile =
  absorb_max_mm :: u32
  smooth_max_mm :: u32
  hard_snap_threshold_mm :: u32
  smooth_duration_ms :: u32
  rapid_duration_ms :: u32

definition correction_validate :: "correction_profile \<Rightarrow> profile_codec_error + unit" where
  "correction_validate p =
     (if smooth_max_mm p \<le> absorb_max_mm p
      then Inl (InvalidCorrectionThresholds (absorb_max_mm p) (smooth_max_mm p) (hard_snap_threshold_mm p))
      else if hard_snap_threshold_mm p \<le> smooth_max_mm p
      then Inl (InvalidCorrectionThresholds (absorb_max_mm p) (smooth_max_mm p) (hard_snap_threshold_mm p))
      else if smooth_duration_ms p = 0 then Inl (ProfileZeroValue ''smooth_duration_ms'')
      else if rapid_duration_ms p = 0 then Inl (ProfileZeroValue ''rapid_duration_ms'')
      else Inr ())"

record prediction_profile =
  profile_version :: u32
  speed_mm_per_second :: u32
  simulation_tick_hz :: u32
  character_radius_mm :: u32
  movement_input_timeout_ticks :: u64
  presentation_correction :: correction_profile

definition profile_validate :: "prediction_profile \<Rightarrow> profile_codec_error + unit" where
  "profile_validate p =
     (if profile_version p \<noteq> movement_prediction_profile_version
      then Inl (ProfileUnsupportedVersion (profile_version p) movement_prediction_profile_version)
      else if speed_mm_per_second p = 0 then Inl (ProfileZeroValue ''speed_mm_per_second'')
      else if simulation_tick_hz p = 0 then Inl (ProfileZeroValue ''simulation_tick_hz'')
      else if character_radius_mm p = 0 then Inl (ProfileZeroValue ''character_radius_mm'')
      else if movement_input_timeout_ticks p = 0
      then Inl (ProfileZeroValue ''movement_input_timeout_ticks'')
      else correction_validate (presentation_correction p))"

definition profile_encode :: "prediction_profile \<Rightarrow> u8 list" where
  "profile_encode p =
     (let c = presentation_correction p
      in to_le_bytes (profile_version p) @ to_le_bytes (speed_mm_per_second p)
       @ to_le_bytes (simulation_tick_hz p) @ to_le_bytes (character_radius_mm p)
       @ to_le_bytes (movement_input_timeout_ticks p) @ to_le_bytes (absorb_max_mm c)
       @ to_le_bytes (smooth_max_mm c) @ to_le_bytes (hard_snap_threshold_mm c)
       @ to_le_bytes (smooth_duration_ms c) @ to_le_bytes (rapid_duration_ms c))"

definition profile_decode :: "u8 list \<Rightarrow> profile_codec_error + prediction_profile" where
  "profile_decode payload =
     (if length payload \<noteq> movement_prediction_profile_bytes
      then Inl (ProfileInvalidLength movement_prediction_profile_bytes (length payload))
      else
        (let correction = \<lparr>absorb_max_mm = from_le_bytes (slice_bytes 24 28 payload),
                           smooth_max_mm = from_le_bytes (slice_bytes 28 32 payload),
                           hard_snap_threshold_mm = from_le_bytes (slice_bytes 32 36 payload),
                           smooth_duration_ms = from_le_bytes (slice_bytes 36 40 payload),
                           rapid_duration_ms = from_le_bytes (slice_bytes 40 44 payload)\<rparr>;
             profile = \<lparr>profile_version = from_le_bytes (slice_bytes 0 4 payload),
                        speed_mm_per_second = from_le_bytes (slice_bytes 4 8 payload),
                        simulation_tick_hz = from_le_bytes (slice_bytes 8 12 payload),
                        character_radius_mm = from_le_bytes (slice_bytes 12 16 payload),
                        movement_input_timeout_ticks = from_le_bytes (slice_bytes 16 24 payload),
                        presentation_correction = correction\<rparr>
         in case profile_validate profile of Inl e \<Rightarrow> Inl e | Inr _ \<Rightarrow> Inr profile))"

section \<open>Codec contracts\<close>

lemmas le_word_read [simp] =
  to_from_le_bytes [where 'a = 16, simplified] to_from_le_bytes [where 'a = 32, simplified]
  to_from_le_bytes [where 'a = 64, simplified] i64_to_from_le_bytes

lemma validate_axis_Inr [simp]:
  "validate_axis name v = Inr u \<longleftrightarrow> - 32767 \<le> sint v \<and> sint v \<le> 32767"
  by (auto simp: validate_axis_def)

definition move_intent_valid :: "move_intent \<Rightarrow> bool" where
  "move_intent_valid m \<longleftrightarrow> \<bar>sint (mi_axis_x m)\<bar> \<le> 32767 \<and> \<bar>sint (mi_axis_y m)\<bar> \<le> 32767"

lemma move_intent_new_Inr:
  "move_intent_new n ax ay = Inr m \<longleftrightarrow>
     m = \<lparr>mi_sequence = n, mi_axis_x = ax, mi_axis_y = ay\<rparr> \<and> move_intent_valid m"
  by (auto simp: move_intent_new_def move_intent_valid_def validate_axis_def abs_le_iff
      split: if_splits)

interpretation move_intent_codec:
  fixed_canonical_codec move_intent_encode move_intent_decode move_intent_valid 12
proof
  fix m bs
  show "move_intent_valid m \<Longrightarrow> move_intent_decode (move_intent_encode m) = Inr m"
    by (simp add: move_intent_decode_def move_intent_encode_def move_intent_new_Inr
        move_intent_bytes_def)
  show "length (move_intent_encode m) = 12" by (simp add: move_intent_encode_def)
  assume "move_intent_decode bs = Inr m"
  then show "move_intent_valid m" "length bs = 12" "move_intent_encode m = bs"
    by (auto simp: move_intent_decode_def move_intent_new_Inr move_intent_bytes_def
        move_intent_encode_def slice_joins split: if_splits)
qed

interpretation mine_intent_codec:
  fixed_canonical_codec mine_intent_encode mine_intent_decode "\<lambda>_. True" 16
proof
  fix m bs
  show "mine_intent_decode (mine_intent_encode m) = Inr m"
    by (simp add: mine_intent_decode_def mine_intent_encode_def mine_intent_bytes_def)
  show "length (mine_intent_encode m) = 16" by (simp add: mine_intent_encode_def)
  assume "mine_intent_decode bs = Inr m"
  then show "length bs = 16" "mine_intent_encode m = bs"
    by (auto simp: mine_intent_decode_def mine_intent_bytes_def mine_intent_encode_def slice_joins
        split: if_splits)
qed simp

subsection \<open>Snapshots\<close>

text \<open>
  The first snapshot keeps only the low byte of the acknowledged sequence, so it reads back a
  snapshot whose sequence is below 256 and another one otherwise.
\<close>

lemma snapshot_reads_low_byte:
  assumes "in_i64 (sn_x_mm m)" "in_i64 (sn_y_mm m)" "in_i64 (sn_z_mm m)"
  shows "snapshot_decode (snapshot_encode m @ rest) =
    Inr (m\<lparr>sn_sequence := map_option (\<lambda>n. and n 255) (sn_sequence m)\<rparr>)"
proof -
  have low: "ucast (ucast (and n 255 :: u64) :: u8) = and n 255" for n :: u64
  proof -
    have "and n 255 = take_bit 8 n" by (simp add: take_bit_eq_mask mask_eq_exp_minus_1)
    then show ?thesis by (simp only:) (rule bit_word_eqI, auto simp: bit_simps)
  qed
  show ?thesis
    using assms by (cases "sn_sequence m")
      (simp_all add: snapshot_decode_def snapshot_encode_def self_movement_snapshot_bytes_def
        nth_append_skip low)
qed

definition snapshot_v2_valid :: "self_movement_snapshot_v2 \<Rightarrow> bool" where
  "snapshot_v2_valid m \<longleftrightarrow> in_i64 (s2_x_mm m) \<and> in_i64 (s2_y_mm m) \<and> in_i64 (s2_z_mm m)"

lemma length_encode_optional_sequence [simp]: "length (encode_optional_sequence n) = 9"
  by (cases n) simp_all

lemma optional_sequence_roundtrip [simp]:
  "decode_optional_sequence (encode_optional_sequence n) = Inr n"
  by (cases n) (simp_all add: decode_optional_sequence_def)

interpretation snapshot_v2_codec:
  fixed_codec snapshot_v2_encode snapshot_v2_decode snapshot_v2_valid 50
proof
  fix m bs
  show "snapshot_v2_valid m \<Longrightarrow> snapshot_v2_decode (snapshot_v2_encode m) = Inr m"
    by (simp add: snapshot_v2_decode_def snapshot_v2_encode_def snapshot_v2_valid_def
        self_movement_snapshot_v2_bytes_def)
  show "length (snapshot_v2_encode m) = 50" by (simp add: snapshot_v2_encode_def)
  assume "snapshot_v2_decode bs = Inr m"
  then show "snapshot_v2_valid m" "length bs = 50"
    by (auto simp: snapshot_v2_decode_def self_movement_snapshot_v2_bytes_def snapshot_v2_valid_def
        split: if_splits sum.splits)
qed

subsection \<open>Prediction profile\<close>

definition profile_valid :: "prediction_profile \<Rightarrow> bool" where
  "profile_valid p \<longleftrightarrow> profile_validate p = Inr ()"

interpretation profile_codec:
  fixed_canonical_codec profile_encode profile_decode profile_valid 44
proof
  fix m bs
  show "profile_valid m \<Longrightarrow> profile_decode (profile_encode m) = Inr m"
    by (cases m, cases "presentation_correction m")
      (simp add: profile_decode_def profile_encode_def profile_valid_def
        movement_prediction_profile_bytes_def Let_def)
  show "length (profile_encode m) = 44" by (simp add: profile_encode_def Let_def)
  assume "profile_decode bs = Inr m"
  then show "profile_valid m" "length bs = 44" "profile_encode m = bs"
    by (auto simp: profile_decode_def profile_valid_def movement_prediction_profile_bytes_def
        profile_encode_def Let_def slice_joins split: if_splits sum.splits)
qed

lemma profile_valid_bounds:
  assumes "profile_valid p"
  shows "0 < speed_mm_per_second p" "0 < simulation_tick_hz p" "0 < character_radius_mm p"
    "0 < movement_input_timeout_ticks p"
    "absorb_max_mm (presentation_correction p) < smooth_max_mm (presentation_correction p)"
    "smooth_max_mm (presentation_correction p) < hard_snap_threshold_mm (presentation_correction p)"
  using assms
  by (auto simp: profile_valid_def profile_validate_def correction_validate_def word_gt_0 not_le
      split: if_splits)

section \<open>Properties\<close>

text \<open>
  Movement intents on the wire are canonical, twelve bytes each, and no axis outside the range
  of plus and minus 32767 is ever decoded.
\<close>

theorem move_intent_wire_canonical:
  "move_intent_decode bs = Inr m \<longleftrightarrow>
     move_intent_valid m \<and> bs = move_intent_encode m \<and> length bs = 12"
  using move_intent_codec.accepted_iff [of bs m] move_intent_codec.length_enc [of m] by auto

text \<open>
  The first snapshot format loses the acknowledged sequence number: what the client reads of it
  is only its low byte, so different numbers are confused from 256 on.
\<close>

theorem snapshot_v1_truncates_sequence:
  assumes "in_i64 (sn_x_mm m)" "in_i64 (sn_y_mm m)" "in_i64 (sn_z_mm m)"
  shows "snapshot_decode (snapshot_encode m) = Inr (m\<lparr>sn_sequence := map_option (\<lambda>n. and n 255) (sn_sequence m)\<rparr>)"
  using snapshot_reads_low_byte [OF assms, of "[]"] by simp

theorem snapshot_v1_truncates_sequence_witness:
  "snapshot_decode (snapshot_encode \<lparr>sn_server_tick = 5, sn_x_mm = 1, sn_y_mm = - 2, sn_z_mm = 0, sn_sequence = Some 300\<rparr>) =
     Inr \<lparr>sn_server_tick = 5, sn_x_mm = 1, sn_y_mm = - 2, sn_z_mm = 0, sn_sequence = Some 44\<rparr>"
  by (subst snapshot_v1_truncates_sequence) (simp_all add: in_i64_def)

text \<open>The second snapshot format reads back every field of what was written.\<close>

theorem snapshot_v2_roundtrip:
  assumes "snapshot_v2_valid m"
  shows "snapshot_v2_decode (snapshot_v2_encode m) = Inr m"
  using assms by (rule snapshot_v2_codec.dec_enc)

theorem snapshot_v2_roundtrip_witness:
  "snapshot_v2_decode (snapshot_v2_encode \<lparr>s2_server_tick = 5, s2_x_mm = - 7, s2_y_mm = 2 ^ 62, s2_z_mm = 0,
      s2_last_processed = Some 300, s2_active_movement = None\<rparr>) =
    Inr \<lparr>s2_server_tick = 5, s2_x_mm = - 7, s2_y_mm = 2 ^ 62, s2_z_mm = 0,
      s2_last_processed = Some 300, s2_active_movement = None\<rparr>"
  by (rule snapshot_v2_roundtrip) (simp add: snapshot_v2_valid_def in_i64_def)

end
