(* ===== verification/Contracts_Frontier.thy ===== *)
theory Contracts_Frontier
  imports Bytes
begin

text \<open>
  crates/contracts/src/frontier.rs (the manifest of revealed quadrants sent to every client) and
  frontier_ack.rs (the client's acknowledgement of a revision).
\<close>

section \<open>Manifest\<close>

definition frontier_manifest_version :: u32 where
  "frontier_manifest_version = 1"

definition manifest_header_bytes :: nat where
  "manifest_header_bytes = 26"

definition manifest_quadrant_bytes :: nat where
  "manifest_quadrant_bytes = 16"

datatype manifest_codec_error =
  ManifestTooShort nat nat
| ManifestInvalidLength nat nat
| ManifestLengthOverflow
| ManifestUnsupportedVersion u32 u32
| ManifestZeroValue string
| InvalidQuadrantSize int
| EmptyManifest
| TooManyQuadrants nat nat
| DuplicateQuadrant int int

datatype frontier_quadrant_coord = FrontierQuadrantCoord (fqc_x: int) (fqc_y: int)

record frontier_manifest =
  fm_manifest_version :: u32
  fm_generator_version :: u32
  fm_quadrant_size_mm :: int
  fm_revision :: u64
  fm_quadrants :: "frontier_quadrant_coord list"

fun first_duplicate :: "'a set \<Rightarrow> 'a list \<Rightarrow> 'a option" where
  "first_duplicate unique [] = None"
| "first_duplicate unique (c # cs) =
     (if c \<in> unique then Some c else first_duplicate (insert c unique) cs)"

definition manifest_validate :: "frontier_manifest \<Rightarrow> manifest_codec_error + unit" where
  "manifest_validate m =
     (if fm_manifest_version m \<noteq> frontier_manifest_version
      then Inl (ManifestUnsupportedVersion (fm_manifest_version m) frontier_manifest_version)
      else if fm_generator_version m = 0 then Inl (ManifestZeroValue ''generator_version'')
      else if fm_quadrant_size_mm m \<le> 0 then Inl (InvalidQuadrantSize (fm_quadrant_size_mm m))
      else if fm_revision m = 0 then Inl (ManifestZeroValue ''revision'')
      else if fm_quadrants m = [] then Inl EmptyManifest
      else if 65535 < length (fm_quadrants m)
      then Inl (TooManyQuadrants (length (fm_quadrants m)) 65535)
      else (case first_duplicate {} (fm_quadrants m) of
              Some c \<Rightarrow> Inl (DuplicateQuadrant (fqc_x c) (fqc_y c))
            | None \<Rightarrow> Inr ()))"

definition manifest_new ::
  "u32 \<Rightarrow> int \<Rightarrow> u64 \<Rightarrow> frontier_quadrant_coord list \<Rightarrow> manifest_codec_error + frontier_manifest" where
  "manifest_new gen size_mm rev0 quads =
     (let m = \<lparr>fm_manifest_version = frontier_manifest_version, fm_generator_version = gen,
               fm_quadrant_size_mm = size_mm, fm_revision = rev0, fm_quadrants = quads\<rparr>
      in case manifest_validate m of Inl e \<Rightarrow> Inl e | Inr _ \<Rightarrow> Inr m)"

text \<open>\<open>usize::checked_mul\<close> and \<open>checked_add\<close> on a 64-bit target.\<close>

definition manifest_payload_len :: "u16 \<Rightarrow> manifest_codec_error + nat" where
  "manifest_payload_len n =
     (if unat n * manifest_quadrant_bytes < 2 ^ 64 \<and>
         manifest_header_bytes + unat n * manifest_quadrant_bytes < 2 ^ 64
      then Inr (manifest_header_bytes + unat n * manifest_quadrant_bytes)
      else Inl ManifestLengthOverflow)"

definition coord_bytes :: "frontier_quadrant_coord \<Rightarrow> u8 list" where
  "coord_bytes c = i64_le_bytes (fqc_x c) @ i64_le_bytes (fqc_y c)"

definition manifest_bytes :: "frontier_manifest \<Rightarrow> u8 list" where
  "manifest_bytes m =
     to_le_bytes (fm_manifest_version m) @ to_le_bytes (fm_generator_version m)
       @ i64_le_bytes (fm_quadrant_size_mm m) @ to_le_bytes (fm_revision m)
       @ to_le_bytes (of_nat (length (fm_quadrants m)) :: u16)
       @ concat (map coord_bytes (fm_quadrants m))"

definition manifest_encode :: "frontier_manifest \<Rightarrow> manifest_codec_error + u8 list" where
  "manifest_encode m =
     (case manifest_validate m of
        Inl e \<Rightarrow> Inl e
      | Inr _ \<Rightarrow>
          if 65535 < length (fm_quadrants m)
          then Inl (TooManyQuadrants (length (fm_quadrants m)) 65535)
          else (case manifest_payload_len (of_nat (length (fm_quadrants m))) of
                  Inl e \<Rightarrow> Inl e
                | Inr _ \<Rightarrow> Inr (manifest_bytes m)))"

text \<open>The bytes \<open>payload.get(start..start + n)\<close>.\<close>

definition get_field :: "nat \<Rightarrow> u8 list \<Rightarrow> nat \<Rightarrow> manifest_codec_error + u8 list" where
  "get_field n payload start =
     (if start + n \<le> length payload then Inr (slice_bytes start (start + n) payload)
      else Inl (ManifestInvalidLength (start + n) (length payload)))"

definition decode_u16 :: "u8 list \<Rightarrow> nat \<Rightarrow> manifest_codec_error + u16" where
  "decode_u16 payload start = map_sum id from_le_bytes (get_field 2 payload start)"

definition decode_u32 :: "u8 list \<Rightarrow> nat \<Rightarrow> manifest_codec_error + u32" where
  "decode_u32 payload start = map_sum id from_le_bytes (get_field 4 payload start)"

definition decode_u64 :: "u8 list \<Rightarrow> nat \<Rightarrow> manifest_codec_error + u64" where
  "decode_u64 payload start = map_sum id from_le_bytes (get_field 8 payload start)"

definition decode_i64 :: "u8 list \<Rightarrow> nat \<Rightarrow> manifest_codec_error + int" where
  "decode_i64 payload start = map_sum id i64_from_le_bytes (get_field 8 payload start)"

fun decode_coords ::
  "u8 list \<Rightarrow> nat \<Rightarrow> nat \<Rightarrow> manifest_codec_error + frontier_quadrant_coord list" where
  "decode_coords payload offset 0 = Inr []"
| "decode_coords payload offset (Suc n) =
     (case decode_i64 payload offset of Inl e \<Rightarrow> Inl e | Inr x \<Rightarrow>
      (case decode_i64 payload (offset + 8) of Inl e \<Rightarrow> Inl e | Inr y \<Rightarrow>
       (case decode_coords payload (offset + manifest_quadrant_bytes) n of
          Inl e \<Rightarrow> Inl e
        | Inr rest \<Rightarrow> Inr (FrontierQuadrantCoord x y # rest))))"

definition manifest_decode :: "u8 list \<Rightarrow> manifest_codec_error + frontier_manifest" where
  "manifest_decode payload =
     (if length payload < manifest_header_bytes
      then Inl (ManifestTooShort (length payload) manifest_header_bytes)
      else
        (case decode_u16 payload 24 of Inl e \<Rightarrow> Inl e | Inr quadrant_count \<Rightarrow>
         (case manifest_payload_len quadrant_count of Inl e \<Rightarrow> Inl e | Inr expected_len \<Rightarrow>
          if length payload \<noteq> expected_len
          then Inl (ManifestInvalidLength expected_len (length payload))
          else
            (case decode_coords payload manifest_header_bytes (unat quadrant_count) of
               Inl e \<Rightarrow> Inl e | Inr quadrants \<Rightarrow>
             (case decode_u32 payload 0 of Inl e \<Rightarrow> Inl e | Inr version \<Rightarrow>
              (case decode_u32 payload 4 of Inl e \<Rightarrow> Inl e | Inr gen \<Rightarrow>
               (case decode_i64 payload 8 of Inl e \<Rightarrow> Inl e | Inr size_mm \<Rightarrow>
                (case decode_u64 payload 16 of Inl e \<Rightarrow> Inl e | Inr rev0 \<Rightarrow>
                 (let m = \<lparr>fm_manifest_version = version, fm_generator_version = gen,
                           fm_quadrant_size_mm = size_mm, fm_revision = rev0,
                           fm_quadrants = quadrants\<rparr>
                  in case manifest_validate m of Inl e \<Rightarrow> Inl e | Inr _ \<Rightarrow> Inr m)))))))))"

section \<open>Acknowledgement\<close>

definition frontier_manifest_ack_bytes :: nat where
  "frontier_manifest_ack_bytes = 8"

datatype ack_codec_error = AckInvalidLength nat nat | AckZeroRevision

definition ack_new :: "u64 \<Rightarrow> ack_codec_error + u64" where
  "ack_new rev0 = (if rev0 = 0 then Inl AckZeroRevision else Inr rev0)"

definition ack_encode :: "u64 \<Rightarrow> u8 list" where
  "ack_encode rev0 = to_le_bytes rev0"

definition ack_decode :: "u8 list \<Rightarrow> ack_codec_error + u64" where
  "ack_decode payload =
     (if length payload \<noteq> frontier_manifest_ack_bytes
      then Inl (AckInvalidLength frontier_manifest_ack_bytes (length payload))
      else ack_new (from_le_bytes payload))"

interpretation ack_codec: fixed_canonical_codec ack_encode ack_decode "\<lambda>v. v \<noteq> 0" 8
proof
  fix m bs
  show "m \<noteq> 0 \<Longrightarrow> ack_decode (ack_encode m) = Inr m"
    by (simp add: ack_decode_def ack_encode_def ack_new_def frontier_manifest_ack_bytes_def)
  show "length (ack_encode m) = 8" by (simp add: ack_encode_def)
  assume "ack_decode bs = Inr m"
  then show "m \<noteq> 0" "length bs = 8" "ack_encode m = bs"
    by (auto simp: ack_decode_def ack_encode_def ack_new_def frontier_manifest_ack_bytes_def
        to_from_le_bytes split: if_splits)
qed

section \<open>Validation\<close>

lemma first_duplicate_None: "first_duplicate unique cs = None \<longleftrightarrow> distinct cs \<and> unique \<inter> set cs = {}"
  by (induction unique cs rule: first_duplicate.induct) auto

lemma manifest_validate_Inr:
  "manifest_validate m = Inr u \<longleftrightarrow>
     fm_manifest_version m = frontier_manifest_version \<and> fm_generator_version m \<noteq> 0 \<and>
     0 < fm_quadrant_size_mm m \<and> fm_revision m \<noteq> 0 \<and> fm_quadrants m \<noteq> [] \<and>
     length (fm_quadrants m) \<le> 65535 \<and> distinct (fm_quadrants m)"
  by (auto simp: manifest_validate_def first_duplicate_None split: option.splits)
    (metis first_duplicate_None option.distinct(1) inf_bot_left)+

definition coord_fits :: "frontier_quadrant_coord \<Rightarrow> bool" where
  "coord_fits c \<longleftrightarrow> in_i64 (fqc_x c) \<and> in_i64 (fqc_y c)"

text \<open>What a manifest value is in the code: an \<open>i64\<close> size, \<open>i64\<close> coordinates, and validated.\<close>

definition manifest_valid :: "frontier_manifest \<Rightarrow> bool" where
  "manifest_valid m \<longleftrightarrow> manifest_validate m = Inr () \<and> in_i64 (fm_quadrant_size_mm m) \<and>
     list_all coord_fits (fm_quadrants m)"

section \<open>Codec contract\<close>

lemma length_coord_bytes [simp]: "length (coord_bytes c) = 16"
  by (simp add: coord_bytes_def)

lemma coord_bytes_pair:
  "coord_bytes (FrontierQuadrantCoord x y) = i64_le_bytes x @ i64_le_bytes y"
  by (simp add: coord_bytes_def)

lemma length_coords_bytes [simp]: "length (concat (map coord_bytes cs)) = 16 * length cs"
  by (induction cs) simp_all

lemma get_field_Inr:
  "get_field n payload start = Inr bs \<longleftrightarrow>
     start + n \<le> length payload \<and> bs = slice_bytes start (start + n) payload"
  by (auto simp: get_field_def)

lemma map_sum_Inr: "map_sum id f r = Inr y \<longleftrightarrow> (\<exists>x. r = Inr x \<and> y = f x)"
  by (cases r) auto

lemmas decode_field_defs = decode_u16_def decode_u32_def decode_u64_def decode_i64_def

lemma decode_coords_written:
  assumes "list_all coord_fits cs"
  shows "decode_coords (pre @ concat (map coord_bytes cs)) (length pre) (length cs) = Inr cs"
  using assms
proof (induction cs arbitrary: pre)
  case (Cons c cs)
  have "decode_coords ((pre @ coord_bytes c) @ concat (map coord_bytes cs)) (length (pre @ coord_bytes c))
    (length cs) = Inr cs" using Cons.prems by (intro Cons.IH) simp
  then show ?case using Cons.prems
    by (cases c) (simp add: decode_i64_def get_field_def coord_bytes_pair coord_fits_def
        manifest_quadrant_bytes_def add.commute [of _ 16])
qed simp

lemma decode_coords_reads:
  assumes "decode_coords payload offset n = Inr cs"
  shows "length cs = n \<and> list_all coord_fits cs \<and>
    concat (map coord_bytes cs) = slice_bytes offset (offset + 16 * n) payload \<and>
    (0 < n \<longrightarrow> offset + 16 * n \<le> length payload)"
  using assms
proof (induction payload offset n arbitrary: cs rule: decode_coords.induct)
  case (2 payload offset n)
  then obtain x y rest where x: "decode_i64 payload offset = Inr x"
    and y: "decode_i64 payload (offset + 8) = Inr y"
    and rest: "decode_coords payload (offset + manifest_quadrant_bytes) n = Inr rest"
    and cs: "cs = FrontierQuadrantCoord x y # rest"
    by (auto split: sum.splits)
  note IH = "2.IH" [OF x y rest, unfolded manifest_quadrant_bytes_def]
  have "coord_bytes (FrontierQuadrantCoord x y) = slice_bytes offset (16 + offset) payload"
    and len: "offset + 16 \<le> length payload"
    using x y by (auto simp: coord_bytes_def decode_i64_def map_sum_Inr get_field_Inr
      i64_to_from_le_bytes slice_bytes_append)
  moreover have "coord_fits (FrontierQuadrantCoord x y)"
    using x y by (auto simp: coord_fits_def decode_i64_def map_sum_Inr)
  ultimately show ?case
    using IH len by (cases n) (auto simp: cs slice_bytes_append add.assoc algebra_simps)
qed (simp add: slice_bytes_def)

lemma length_manifest_bytes: "length (manifest_bytes m) = 26 + 16 * length (fm_quadrants m)"
  by (simp add: manifest_bytes_def)

lemma manifest_decode_written:
  assumes "manifest_valid m"
  shows "manifest_decode (manifest_bytes m) = Inr m"
proof -
  let ?n = "length (fm_quadrants m)"
  let ?pre = "to_le_bytes (fm_manifest_version m) @ to_le_bytes (fm_generator_version m)
    @ i64_le_bytes (fm_quadrant_size_mm m) @ to_le_bytes (fm_revision m) @ to_le_bytes (of_nat ?n :: u16)"
  from assms have n: "unat (of_nat ?n :: u16) = ?n"
    by (simp add: manifest_valid_def manifest_validate_Inr unat_of_nat take_bit_nat_eq_self)
  have "decode_coords (?pre @ concat (map coord_bytes (fm_quadrants m))) (length ?pre) ?n =
    Inr (fm_quadrants m)"
    using assms by (intro decode_coords_written) (simp add: manifest_valid_def)
  then have "decode_coords (manifest_bytes m) 26 ?n = Inr (fm_quadrants m)"
    by (simp add: manifest_bytes_def)
  moreover have "decode_u16 (manifest_bytes m) 24 = Inr (of_nat ?n)"
    "decode_u32 (manifest_bytes m) 0 = Inr (fm_manifest_version m)"
    "decode_u32 (manifest_bytes m) 4 = Inr (fm_generator_version m)"
    "decode_i64 (manifest_bytes m) 8 = Inr (fm_quadrant_size_mm m)"
    "decode_u64 (manifest_bytes m) 16 = Inr (fm_revision m)"
    using assms
    by (simp_all add: decode_field_defs get_field_def manifest_bytes_def manifest_valid_def)
  moreover have "manifest_payload_len (of_nat ?n) = Inr (length (manifest_bytes m))"
    using assms by (simp add: manifest_payload_len_def n length_manifest_bytes
      manifest_quadrant_bytes_def manifest_header_bytes_def manifest_valid_def manifest_validate_Inr)
  ultimately show ?thesis
    using assms n by (cases m) (simp add: manifest_decode_def manifest_header_bytes_def length_manifest_bytes
      manifest_valid_def Let_def)
qed

lemma manifest_decode_reads:
  assumes "manifest_decode bs = Inr m"
  shows "manifest_valid m \<and> manifest_bytes m = bs"
proof -
  from assms obtain n where n: "decode_u16 bs 24 = Inr n"
    and len: "length bs = 26 + 16 * unat n"
    and coords: "decode_coords bs 26 (unat n) = Inr (fm_quadrants m)"
    and f: "decode_u32 bs 0 = Inr (fm_manifest_version m)"
      "decode_u32 bs 4 = Inr (fm_generator_version m)"
      "decode_i64 bs 8 = Inr (fm_quadrant_size_mm m)" "decode_u64 bs 16 = Inr (fm_revision m)"
    and valid: "manifest_validate m = Inr ()"
    by (auto simp: manifest_decode_def manifest_header_bytes_def manifest_quadrant_bytes_def
      manifest_payload_len_def Let_def split: if_splits sum.splits)
  note c = decode_coords_reads [OF coords]
  have "manifest_bytes m = slice_bytes 0 4 bs @ slice_bytes 4 8 bs @ slice_bytes 8 16 bs
    @ slice_bytes 16 24 bs @ slice_bytes 24 26 bs @ slice_bytes 26 (26 + 16 * unat n) bs"
    using f n len c by (auto simp: manifest_bytes_def decode_field_defs map_sum_Inr get_field_Inr
      to_from_le_bytes i64_to_from_le_bytes)
  also have "\<dots> = bs" using len by (simp add: slice_joins)
  finally have "manifest_bytes m = bs" .
  moreover have "manifest_valid m"
    using valid c f(3) by (auto simp: manifest_valid_def decode_i64_def map_sum_Inr)
  ultimately show ?thesis by simp
qed

interpretation manifest_codec: canonical_codec manifest_bytes manifest_decode manifest_valid
  by unfold_locales (use manifest_decode_written manifest_decode_reads in blast)+

lemma manifest_encode_Inr:
  "manifest_encode m = Inr bs \<longleftrightarrow> manifest_validate m = Inr () \<and> bs = manifest_bytes m"
proof -
  have "manifest_payload_len n = Inr (26 + 16 * unat n)" for n :: u16
    using unsigned_less [of n, where ?'a = nat]
    by (simp add: manifest_payload_len_def manifest_quadrant_bytes_def manifest_header_bytes_def)
  then show ?thesis
    using manifest_validate_Inr [of m]
    by (cases "manifest_validate m") (auto simp: manifest_encode_def)
qed

section \<open>Properties\<close>

text \<open>
  The frontier manifest on the wire is canonical: the decoder accepts exactly the encodings
  of valid manifests, and hence never a duplicated quadrant, a zero revision or trailing bytes.
\<close>

theorem manifest_wire_canonical:
  "manifest_decode bs = Inr m \<longleftrightarrow> manifest_valid m \<and> manifest_encode m = Inr bs"
  using manifest_codec.accepted_iff [of bs m] manifest_encode_Inr [of m bs] by (auto simp: manifest_valid_def)

end
