(* ===== verification/Frontier_Runtime.thy ===== *)
theory Frontier_Runtime
  imports Quadrant_Preparation Contracts_Frontier
begin

text \<open>
  apps/world-server/src/frontier_runtime.rs: the server's frontier, which owns the lifecycle state
  and the preparation slots and publishes the manifest. The resolver of reveal requirements is an
  argument of the operation.
\<close>

section \<open>Model\<close>

record frontier_runtime =
  rt_state :: frontier_state
  rt_preparations :: preparation_slots
  rt_generator_version :: u32
  rt_quadrant_size_mm :: int

datatype runtime_error =
  RtLifecycle lifecycle_error
| RtCandidate candidate_frontier_error
| RtManifest manifest_codec_error
| RtPreparation preparation_error
| RtReveal reveal_error
| GeneratorMismatch preparation_identity u32

definition build_manifest ::
  "frontier_state \<Rightarrow> u32 \<Rightarrow> int \<Rightarrow> runtime_error + frontier_manifest" where
  "build_manifest state gen size_mm =
     (let quadrants = sort_key (\<lambda>c. (fqc_y c, fqc_x c))
                        (map (\<lambda>c. FrontierQuadrantCoord (qc_x c) (qc_y c)) (revealed_quadrants state))
      in map_sum RtManifest id (manifest_new gen size_mm (revision state) quadrants))"

definition runtime_manifest :: "frontier_runtime \<Rightarrow> runtime_error + frontier_manifest" where
  "runtime_manifest rt = build_manifest (rt_state rt) (rt_generator_version rt) (rt_quadrant_size_mm rt)"

definition runtime_new ::
  "initial_frontier \<Rightarrow> u64 \<Rightarrow> u32 \<Rightarrow> int \<Rightarrow> (runtime_error + frontier_runtime) option" where
  "runtime_new initial rev0 gen size_mm =
     (case from_initial initial rev0 of
        Inl e \<Rightarrow> Some (Inl (RtLifecycle e))
      | Inr state \<Rightarrow>
          (case derive_candidate_frontier state of
             None \<Rightarrow> None
           | Some (Inl e, _) \<Rightarrow> Some (Inl (RtCandidate e))
           | Some (Inr _, state') \<Rightarrow>
               (let rt = \<lparr>rt_state = state', rt_preparations = [], rt_generator_version = gen,
                          rt_quadrant_size_mm = size_mm\<rparr>
                in case runtime_manifest rt of
                     Inl e \<Rightarrow> Some (Inl e)
                   | Inr _ \<Rightarrow> Some (Inr rt))))"

definition runtime_candidate_quadrants :: "frontier_runtime \<Rightarrow> quadrant_coord list" where
  "runtime_candidate_quadrants rt = quadrants_in_state (rt_state rt) Candidate"

definition runtime_prepared_len :: "frontier_runtime \<Rightarrow> nat" where
  "runtime_prepared_len rt = length (quadrants_in_state (rt_state rt) Prepared)"

definition runtime_in_flight_len :: "frontier_runtime \<Rightarrow> nat" where
  "runtime_in_flight_len rt = in_flight_len (rt_preparations rt)"

definition runtime_preparation_identity ::
  "frontier_runtime \<Rightarrow> quadrant_coord \<Rightarrow> fingerprint \<Rightarrow> runtime_error + preparation_identity" where
  "runtime_preparation_identity rt coord fp =
     map_sum RtPreparation id (preparation_identity_new coord (rt_generator_version rt) fp)"

definition validate_preparation_generator ::
  "frontier_runtime \<Rightarrow> preparation_identity \<Rightarrow> runtime_error + unit" where
  "validate_preparation_generator rt i =
     (if pi_generator_version i \<noteq> rt_generator_version rt
      then Inl (GeneratorMismatch i (rt_generator_version rt)) else Inr ())"

definition request_preparation ::
  "frontier_runtime \<Rightarrow> preparation_identity \<Rightarrow> runtime_error + request_outcome \<times> frontier_runtime" where
  "request_preparation rt i =
     (case validate_preparation_generator rt i of
        Inl e \<Rightarrow> Inl e
      | Inr _ \<Rightarrow>
          (case prep_request (rt_state rt) i (rt_preparations rt) of
             Inl e \<Rightarrow> Inl (RtPreparation e)
           | Inr (out, slots) \<Rightarrow> Inr (out, rt\<lparr>rt_preparations := slots\<rparr>)))"

definition complete_preparation ::
  "frontier_runtime \<Rightarrow> prepared_artifact \<Rightarrow> runtime_error + completion_outcome \<times> frontier_runtime" where
  "complete_preparation rt a =
     (case validate_preparation_generator rt (pa_identity a) of
        Inl e \<Rightarrow> Inl e
      | Inr _ \<Rightarrow>
          (case prep_complete (rt_state rt) a (rt_preparations rt) of
             Inl e \<Rightarrow> Inl (RtPreparation e)
           | Inr (out, slots, state) \<Rightarrow>
               Inr (out, rt\<lparr>rt_state := state, rt_preparations := slots\<rparr>)))"

definition cancel_preparation ::
  "frontier_runtime \<Rightarrow> preparation_identity \<Rightarrow> runtime_error + abandon_outcome \<times> frontier_runtime" where
  "cancel_preparation rt i =
     (case validate_preparation_generator rt i of
        Inl e \<Rightarrow> Inl e
      | Inr _ \<Rightarrow>
          (case prep_cancel i (rt_preparations rt) of
             Inl e \<Rightarrow> Inl (RtPreparation e)
           | Inr (out, slots) \<Rightarrow> Inr (out, rt\<lparr>rt_preparations := slots\<rparr>)))"

definition fail_preparation ::
  "frontier_runtime \<Rightarrow> preparation_identity \<Rightarrow> runtime_error + abandon_outcome \<times> frontier_runtime" where
  "fail_preparation rt i =
     (case validate_preparation_generator rt i of
        Inl e \<Rightarrow> Inl e
      | Inr _ \<Rightarrow>
          (case prep_fail i (rt_preparations rt) of
             Inl e \<Rightarrow> Inl (RtPreparation e)
           | Inr (out, slots) \<Rightarrow> Inr (out, rt\<lparr>rt_preparations := slots\<rparr>)))"

definition commit_reveal ::
  "frontier_runtime \<Rightarrow> unlock_requirements \<Rightarrow> requirement_resolver
     \<Rightarrow> ((runtime_error + reveal_outcome) \<times> frontier_runtime) option" where
  "commit_reveal rt reqs res =
     (case commit_authoritative_reveal (rt_state rt) reqs res of
        None \<Rightarrow> None
      | Some (r, state) \<Rightarrow> Some (map_sum RtReveal id r, rt\<lparr>rt_state := state\<rparr>))"

section \<open>The runtime as a machine\<close>

datatype runtime_op =
  RequestPrep preparation_identity
| CompletePrep prepared_artifact
| CancelPrep preparation_identity
| FailPrep preparation_identity
| CommitReveal unlock_requirements requirement_resolver

fun runtime_step :: "frontier_runtime \<Rightarrow> runtime_op \<Rightarrow> frontier_runtime" where
  "runtime_step rt (RequestPrep i) =
     (case request_preparation rt i of Inl _ \<Rightarrow> rt | Inr (_, rt') \<Rightarrow> rt')"
| "runtime_step rt (CompletePrep a) =
     (case complete_preparation rt a of Inl _ \<Rightarrow> rt | Inr (_, rt') \<Rightarrow> rt')"
| "runtime_step rt (CancelPrep i) =
     (case cancel_preparation rt i of Inl _ \<Rightarrow> rt | Inr (_, rt') \<Rightarrow> rt')"
| "runtime_step rt (FailPrep i) =
     (case fail_preparation rt i of Inl _ \<Rightarrow> rt | Inr (_, rt') \<Rightarrow> rt')"
| "runtime_step rt (CommitReveal reqs res) =
     (case commit_reveal rt reqs res of None \<Rightarrow> rt | Some (_, rt') \<Rightarrow> rt')"

lemma request_preparation_Inr:
  "request_preparation rt i = Inr (out, rt') \<longleftrightarrow> pi_generator_version i = rt_generator_version rt \<and>
     (\<exists>slots. prep_request (rt_state rt) i (rt_preparations rt) = Inr (out, slots) \<and>
       rt' = rt\<lparr>rt_preparations := slots\<rparr>)"
  by (auto simp: request_preparation_def validate_preparation_generator_def split: sum.splits)

lemma complete_preparation_Inr:
  "complete_preparation rt a = Inr (out, rt') \<longleftrightarrow>
     pi_generator_version (pa_identity a) = rt_generator_version rt \<and>
     (\<exists>slots f'. prep_complete (rt_state rt) a (rt_preparations rt) = Inr (out, slots, f') \<and>
       rt' = rt\<lparr>rt_state := f', rt_preparations := slots\<rparr>)"
  by (auto simp: complete_preparation_def validate_preparation_generator_def split: sum.splits)

lemma abandon_preparation_Inr:
  "cancel_preparation rt i = Inr (out, rt') \<longleftrightarrow> pi_generator_version i = rt_generator_version rt \<and>
     (\<exists>slots. prep_abandon i (rt_preparations rt) = Inr (out, slots) \<and>
       rt' = rt\<lparr>rt_preparations := slots\<rparr>)"
  "fail_preparation rt i = Inr (out, rt') \<longleftrightarrow> pi_generator_version i = rt_generator_version rt \<and>
     (\<exists>slots. prep_abandon i (rt_preparations rt) = Inr (out, slots) \<and>
       rt' = rt\<lparr>rt_preparations := slots\<rparr>)"
  by (auto simp: cancel_preparation_def fail_preparation_def prep_cancel_def prep_fail_def
      validate_preparation_generator_def split: sum.splits)

text \<open>What a step changes, seen from outside.\<close>

lemma runtime_step_cases:
  assumes inv: "frontier_inv (rt_state rt)"
  obtains (slots) slots where "runtime_step rt op = rt\<lparr>rt_preparations := slots\<rparr>"
      "(\<exists>i out. prep_request (rt_state rt) i (rt_preparations rt) = Inr (out, slots)) \<or>
        (\<exists>i out. prep_abandon i (rt_preparations rt) = Inr (out, slots))"
  | (completed) a out slots f' where
      "runtime_step rt op = rt\<lparr>rt_state := f', rt_preparations := slots\<rparr>"
      "prep_complete (rt_state rt) a (rt_preparations rt) = Inr (out, slots, f')"
  | (reveal) reqs res t d f' where "runtime_step rt op = rt\<lparr>rt_state := f'\<rparr>"
      "op = CommitReveal reqs res"
      "commit_authoritative_reveal (rt_state rt) reqs res = Some (Inr (RevealDone t d), f')"
  | (same) "runtime_step rt op = rt"
proof (cases op)
  case (CommitReveal reqs res)
  show ?thesis
  proof (cases "commit_authoritative_reveal (rt_state rt) reqs res")
    case None
    then show ?thesis using same CommitReveal by (simp add: commit_reveal_def)
  next
    case (Some r)
    obtain r0 f' where r: "r = (r0, f')" by (cases r)
    from inv Some [unfolded r] show ?thesis
    proof (cases rule: reveal_commit_cases)
      case unchanged
      then show ?thesis using same CommitReveal Some r by (simp add: commit_reveal_def)
    next
      case (committed t staged d)
      then show ?thesis using reveal CommitReveal Some r by (simp add: commit_reveal_def)
    qed
  qed
next
  case (RequestPrep i)
  then show ?thesis
    using slots same by (cases "request_preparation rt i") (fastforce simp: request_preparation_Inr)+
next
  case (CompletePrep a)
  then show ?thesis
    using completed same
    by (cases "complete_preparation rt a") (fastforce simp: complete_preparation_Inr)+
next
  case (CancelPrep i)
  then show ?thesis
    using slots same by (cases "cancel_preparation rt i") (fastforce simp: abandon_preparation_Inr)+
next
  case (FailPrep i)
  then show ?thesis
    using slots same by (cases "fail_preparation rt i") (fastforce simp: abandon_preparation_Inr)+
qed

section \<open>Invariant\<close>

text \<open>
  \<open>init\<close> is the list of quadrants revealed when the runtime started. Every quadrant revealed since
  has its prepared artifact, and every neighbour of a revealed quadrant is tracked.
\<close>

definition runtime_inv :: "quadrant_coord list \<Rightarrow> frontier_runtime \<Rightarrow> bool" where
  "runtime_inv init rt \<longleftrightarrow>
     frontier_inv (rt_state rt) \<and> preparation_inv (rt_state rt) (rt_preparations rt) \<and>
     rt_generator_version rt \<noteq> 0 \<and> 0 < rt_quadrant_size_mm rt \<and> init \<noteq> [] \<and>
     (\<exists>more. revealed_quadrants (rt_state rt) = init @ more \<and>
        (\<forall>c\<in>set more. \<exists>a. map_of (rt_preparations rt) c = Some (PreparedSlot a))) \<and>
     (\<forall>n\<in>frontier_edge (rt_state rt). quadrant_state (rt_state rt) n \<noteq> Potential)"

lemma prepared_slot_kept_request:
  "prep_request f i slots = Inr (out, slots') \<Longrightarrow> map_of slots c = Some (PreparedSlot a) \<Longrightarrow>
     map_of slots' c = Some (PreparedSlot a)"
  by (auto simp: prep_request_def Let_def keyed_simps split: option.splits if_splits)

lemma prepared_slot_kept_abandon:
  "prep_abandon i slots = Inr (out, slots') \<Longrightarrow> map_of slots c = Some (PreparedSlot a) \<Longrightarrow>
     map_of slots' c = Some (PreparedSlot a)"
  by (auto simp: prep_abandon_def Let_def keyed_simps
      split: option.splits if_splits preparation_slot.splits)

lemma prepared_slot_kept_complete:
  "prep_complete f b slots = Inr (out, slots', f') \<Longrightarrow> map_of slots c = Some (PreparedSlot a) \<Longrightarrow>
     map_of slots' c = Some (PreparedSlot a)"
  by (erule prep_complete_cases) (auto simp: keyed_simps)

lemma runtime_inv_slots:
  assumes inv: "runtime_inv init rt"
    and step: "(\<exists>i out. prep_request (rt_state rt) i (rt_preparations rt) = Inr (out, slots)) \<or>
      (\<exists>i out. prep_abandon i (rt_preparations rt) = Inr (out, slots))"
  shows "runtime_inv init (rt\<lparr>rt_preparations := slots\<rparr>)"
proof -
  have pinv: "preparation_inv (rt_state rt) (rt_preparations rt)"
    using inv by (simp add: runtime_inv_def)
  have "preparation_inv (rt_state rt) slots"
    using step prep_request_inv [OF pinv] prep_abandon_inv [OF pinv] by blast
  moreover have "\<exists>a. map_of slots c = Some (PreparedSlot a)"
    if "\<exists>a. map_of (rt_preparations rt) c = Some (PreparedSlot a)" for c
    using step that prepared_slot_kept_request prepared_slot_kept_abandon by blast
  ultimately show ?thesis using inv by (fastforce simp: runtime_inv_def)
qed

lemma runtime_inv_completed:
  assumes inv: "runtime_inv init rt"
    and step: "prep_complete (rt_state rt) a (rt_preparations rt) = Inr (out, slots, f')"
  shows "runtime_inv init (rt\<lparr>rt_state := f', rt_preparations := slots\<rparr>)"
  using step
proof (cases rule: prep_complete_cases)
  case again
  with inv show ?thesis by simp
next
  case (first t)
  have finv: "frontier_inv (rt_state rt)" using inv by (simp add: runtime_inv_def)
  note st = transition_state [OF finv first(4)]
  have "preparation_inv f' slots"
    using prep_complete_inv [OF finv _ step] inv by (simp add: runtime_inv_def)
  moreover have "revealed_quadrants f' = revealed_quadrants (rt_state rt)"
    using first(4) by (cases rule: transition_cases) auto
  moreover have "\<exists>a. map_of slots c = Some (PreparedSlot a)"
    if "\<exists>a. map_of (rt_preparations rt) c = Some (PreparedSlot a)" for c
    using step that prepared_slot_kept_complete by blast
  ultimately show ?thesis
    using inv transition_inv [OF finv first(4)]
    by (fastforce simp: runtime_inv_def frontier_edge_def st)
qed

lemma runtime_inv_reveal:
  assumes inv: "runtime_inv init rt"
    and step: "commit_authoritative_reveal (rt_state rt) reqs res = Some (Inr (RevealDone t d), f')"
  shows "runtime_inv init (rt\<lparr>rt_state := f'\<rparr>)"
proof -
  have finv: "frontier_inv (rt_state rt)"
    and pinv: "preparation_inv (rt_state rt) (rt_preparations rt)"
    using inv by (simp_all add: runtime_inv_def)
  note after = reveal_commit_done [OF finv step]
  have "quadrant_state (rt_state rt) (ur_coord reqs) = Prepared"
    using finv step by (cases rule: reveal_commit_cases) auto
  then obtain a where a: "map_of (rt_preparations rt) (ur_coord reqs) = Some (PreparedSlot a)"
    using preparation_invD(3) [OF pinv] by blast
  from inv obtain more where more: "revealed_quadrants (rt_state rt) = init @ more"
    "\<forall>c\<in>set more. \<exists>a. map_of (rt_preparations rt) c = Some (PreparedSlot a)"
    by (auto simp: runtime_inv_def)
  have "revealed_quadrants f' = init @ (more @ [ur_coord reqs])"
    "\<forall>c\<in>set (more @ [ur_coord reqs]). \<exists>a. map_of (rt_preparations rt) c = Some (PreparedSlot a)"
    using after(1) more a by auto
  then have "\<exists>more. revealed_quadrants f' = init @ more \<and>
      (\<forall>c\<in>set more. \<exists>a. map_of (rt_preparations rt) c = Some (PreparedSlot a))" by blast
  moreover have "\<forall>n\<in>frontier_edge f'. quadrant_state f' n \<noteq> Potential"
    using after(4) by (auto simp: after(3))
  ultimately show ?thesis
    using inv reveal_commit_inv [OF finv step] reveal_commit_preparation_inv [OF finv pinv step]
    by (simp add: runtime_inv_def)
qed

lemma runtime_inv_step:
  assumes "runtime_inv init rt"
  shows "runtime_inv init (runtime_step rt op)"
proof -
  have "frontier_inv (rt_state rt)" using assms by (simp add: runtime_inv_def)
  then show ?thesis
  proof (cases rule: runtime_step_cases [where op = op])
    case (slots slots)
    then show ?thesis using runtime_inv_slots [OF assms] by auto
  next
    case (completed a out slots f')
    then show ?thesis using runtime_inv_completed [OF assms] by simp
  next
    case (reveal reqs res t d f')
    then show ?thesis using runtime_inv_reveal [OF assms] by simp
  qed (simp add: assms)
qed

text \<open>The public revision and the number of revealed quadrants advance together.\<close>

definition reveals :: "frontier_runtime \<Rightarrow> nat" where
  "reveals rt = length (revealed_quadrants (rt_state rt))"

lemma runtime_step_revision:
  assumes "runtime_inv init rt"
  shows "unat (revision (rt_state (runtime_step rt op))) + reveals rt =
    unat (revision (rt_state rt)) + reveals (runtime_step rt op) \<and> reveals rt \<le> reveals (runtime_step rt op)"
proof -
  have finv: "frontier_inv (rt_state rt)" using assms by (simp add: runtime_inv_def)
  then show ?thesis
  proof (cases rule: runtime_step_cases [where op = op])
    case (completed a out slots f')
    from completed(2) have "revision f' = revision (rt_state rt) \<and>
      revealed_quadrants f' = revealed_quadrants (rt_state rt)"
    proof (cases rule: prep_complete_cases)
      case (first t)
      from first(4) show ?thesis by (cases rule: transition_cases) auto
    qed simp
    with completed(1) show ?thesis by (simp add: reveals_def)
  next
    case (reveal reqs res t d f')
    note after = reveal_commit_done [OF finv reveal(3)]
    show ?thesis using after(1,2) by (simp add: reveal(1) reveals_def)
  qed (simp_all add: reveals_def)
qed

interpretation runtime_machine: monotone_machine runtime_step "runtime_inv init" reveals
  by unfold_locales (use runtime_inv_step runtime_step_revision in blast)+

lemma runtime_run_revision:
  assumes "runtime_inv init rt"
  shows "unat (revision (rt_state (foldl runtime_step rt ops))) + reveals rt =
    unat (revision (rt_state rt)) + reveals (foldl runtime_step rt ops)"
proof (induction ops rule: rev_induct)
  case (snoc op ops)
  have "runtime_inv init (foldl runtime_step rt ops)" using assms by (rule runtime_machine.inv_run)
  from runtime_step_revision [OF this, of op] snoc show ?case by simp
qed simp

section \<open>Start and manifest\<close>

lemma runtime_new_inv:
  assumes init: "rectangular m w h = Inr i" and new: "runtime_new i rev0 gen size_mm = Some (Inr rt)"
  shows "runtime_inv (initial_quadrants i) rt"
proof -
  from new obtain f0 newly f1 where f0: "from_initial i rev0 = Inr f0"
    and dv: "derive_candidate_frontier f0 = Some (Inr newly, f1)"
    and rt: "rt = \<lparr>rt_state = f1, rt_preparations = [], rt_generator_version = gen,
                  rt_quadrant_size_mm = size_mm\<rparr>"
    and man: "\<exists>m. runtime_manifest rt = Inr m"
    by (auto simp: runtime_new_def Let_def split: sum.splits option.splits prod.splits)
  have rq: "revealed_quadrants f0 = initial_quadrants i" "lifecycle_states f0 = []"
    using f0 by (auto simp: from_initial_def split: if_splits)
  have finv: "frontier_inv f0" by (rule from_initial_inv [OF init f0])
  from finv dv have f1: "frontier_inv f1" "revealed_quadrants f1 = revealed_quadrants f0"
    "set newly = {n \<in> frontier_edge f0. quadrant_state f0 n = Potential}"
    "quadrant_state f1 = (\<lambda>c. if c \<in> set newly then Candidate else quadrant_state f0 c)"
    by (cases rule: derive_cases; simp)+
  have "quadrant_state f0 c \<noteq> Prepared" for c by (simp add: quadrant_state_def rq)
  then have "preparation_inv f1 []" by (intro preparation_inv_empty) (simp add: f1(4))
  moreover have "\<forall>n\<in>frontier_edge f1. quadrant_state f1 n \<noteq> Potential"
    using f1(3) by (auto simp: f1(2,4) frontier_edge_def)
  moreover have "gen \<noteq> 0 \<and> 0 < size_mm"
    using man by (auto simp: rt runtime_manifest_def build_manifest_def manifest_new_def Let_def
      manifest_validate_Inr split: sum.splits)
  moreover have "initial_quadrants i \<noteq> []"
    using rectangular_Inr [OF init] length_rectangle_coords [of m "unat w" "unat h"]
    by (metis length_0_conv mult_is_0 not_less_zero)
  ultimately show ?thesis using f1(1,2) rq by (simp add: runtime_inv_def rt)
qed

lemma distinct_frontier_coords:
  "distinct cs \<Longrightarrow> distinct (map (\<lambda>c. FrontierQuadrantCoord (qc_x c) (qc_y c)) cs)"
  by (auto simp: distinct_map inj_on_def intro: quadrant_coord.expand)

text \<open>The manifest of a runtime is always valid: publishing never fails.\<close>

lemma runtime_manifest_ok:
  assumes "runtime_inv init rt"
  obtains m where "runtime_manifest rt = Inr m" "manifest_validate m = Inr ()"
    "fm_revision m = revision (rt_state rt)"
    "set (fm_quadrants m) = (\<lambda>c. FrontierQuadrantCoord (qc_x c) (qc_y c)) ` set (revealed_quadrants (rt_state rt))"
    "sorted (map (\<lambda>c. (fqc_y c, fqc_x c)) (fm_quadrants m))"
proof -
  let ?q = "sort_key (\<lambda>c. (fqc_y c, fqc_x c))
    (map (\<lambda>c. FrontierQuadrantCoord (qc_x c) (qc_y c)) (revealed_quadrants (rt_state rt)))"
  let ?m = "\<lparr>fm_manifest_version = frontier_manifest_version,
    fm_generator_version = rt_generator_version rt, fm_quadrant_size_mm = rt_quadrant_size_mm rt,
    fm_revision = revision (rt_state rt), fm_quadrants = ?q\<rparr>"
  have "length ?q = length (revealed_quadrants (rt_state rt))" by simp
  moreover have "revealed_quadrants (rt_state rt) \<noteq> []" using assms by (auto simp: runtime_inv_def)
  ultimately have "?q \<noteq> []" by (metis length_0_conv)
  then have "manifest_validate ?m = Inr ()"
    using assms by (auto simp: manifest_validate_Inr runtime_inv_def frontier_inv_def
      distinct_frontier_coords max_revealed_frontier_quadrants_def)
  then show ?thesis
    by (intro that [of ?m]) (simp_all add: runtime_manifest_def build_manifest_def manifest_new_def Let_def)
qed

section \<open>Coordinates stay in range\<close>

definition coords_ok :: "frontier_state \<Rightarrow> bool" where
  "coords_ok f \<longleftrightarrow> (\<forall>c. quadrant_state f c \<noteq> Potential \<longrightarrow> coord_in_range c)"

lemma derive_in_range:
  assumes "derive_candidate_frontier f = Some (Inr newly, f')" "n \<in> set newly"
  shows "coord_in_range n"
proof -
  from assms(1) obtain found where scan:
      "scan_neighbors f (List.product (revealed_quadrants f) cardinal_neighbors) {} [] = Inr found"
    and newly: "newly = sort_coords found"
    by (auto simp: derive_candidate_frontier_def Let_def split: sum.splits option.splits)
  from assms(2) newly have "n \<in> set found" by simp
  with scan_neighbors_Inr [OF scan] show ?thesis by (auto simp: checked_neighbor_Inr coord_in_range_def)
qed

lemma coords_ok_advance:
  assumes inv: "frontier_inv f" and ok: "coords_ok f" and tr: "transition f c target = Inr (t, f')"
    and "target \<noteq> Candidate"
  shows "coords_ok f'"
proof (cases t)
  case None
  with tr have "f' = f" by (cases rule: transition_cases) auto
  with ok show ?thesis by simp
next
  case (Some t')
  have "quadrant_state f c \<noteq> Potential"
    using transition_advance [OF inv tr [unfolded Some]] transition_state [OF inv tr] assms(4)
    by (cases "quadrant_state f c") (auto elim!: advance.cases dest: fun_cong [of _ _ c])
  with ok transition_state [OF inv tr] show ?thesis by (auto simp: coords_ok_def split: if_splits)
qed

lemma coords_ok_derive:
  assumes "frontier_inv f" "coords_ok f" "derive_candidate_frontier f = Some (Inr newly, f')"
  shows "coords_ok f'"
proof -
  have "quadrant_state f' = (\<lambda>c. if c \<in> set newly then Candidate else quadrant_state f c)"
    using assms(3) by (cases rule: derive_cases [OF assms(1)]) auto
  with assms derive_in_range show ?thesis by (auto simp: coords_ok_def)
qed

lemma coords_ok_step:
  assumes inv: "frontier_inv (rt_state rt)" and ok: "coords_ok (rt_state rt)"
  shows "coords_ok (rt_state (runtime_step rt op))"
  using inv
proof (cases rule: runtime_step_cases [where op = op])
  case (completed a out slots f')
  from completed(2) show ?thesis
    by (cases rule: prep_complete_cases)
      (use ok coords_ok_advance [OF inv ok] completed(1) in \<open>auto\<close>)
next
  case (reveal reqs res t d f')
  from inv reveal(3) show ?thesis
  proof (cases rule: reveal_commit_cases)
    case (committed t' staged d')
    have "coords_ok staged" by (rule coords_ok_advance [OF inv ok committed(4)]) simp
    with committed(5,6) reveal(1) show ?thesis using coords_ok_derive by auto
  qed (use ok reveal(1) in auto)
qed (use ok in auto)

lemma rectangle_in_range:
  assumes "rectangular m w h = Inr i" "coord_in_range m" "c \<in> set (initial_quadrants i)"
  shows "coord_in_range c"
  using rectangular_Inr [OF assms(1)] assms(2,3)
  by (auto simp: set_rectangle_coords coord_in_range_def in_i64_def)

lemma runtime_new_Inr:
  assumes "runtime_new i rev0 gen size_mm = Some (Inr rt)" "rectangular m w h = Inr i"
  obtains f newly where "from_initial i rev0 = Inr f" "frontier_inv f"
    "derive_candidate_frontier f = Some (Inr newly, rt_state rt)" "rt_quadrant_size_mm rt = size_mm"
    "revision (rt_state rt) = rev0" "revealed_quadrants (rt_state rt) = initial_quadrants i"
proof -
  from assms(1) obtain f newly where f: "from_initial i rev0 = Inr f"
    and d: "derive_candidate_frontier f = Some (Inr newly, rt_state rt)" and s: "rt_quadrant_size_mm rt = size_mm"
    by (auto simp: runtime_new_def Let_def split: sum.splits option.splits)
  have inv: "frontier_inv f" using from_initial_inv [OF assms(2) f] .
  have "revision (rt_state rt) = revision f \<and> revealed_quadrants (rt_state rt) = revealed_quadrants f"
    using d by (cases rule: derive_cases [OF inv]) auto
  with f have "revision (rt_state rt) = rev0" "revealed_quadrants (rt_state rt) = initial_quadrants i"
    by (auto simp: from_initial_def split: if_splits)
  with f inv d s show thesis by (rule that)
qed

lemma runtime_new_coords:
  assumes "runtime_new i rev0 gen size_mm = Some (Inr rt)" "rectangular m w h = Inr i" "coord_in_range m"
  shows "coords_ok (rt_state rt)"
proof (rule runtime_new_Inr [OF assms(1,2)])
  fix f newly
  assume f: "from_initial i rev0 = Inr f" "frontier_inv f" "derive_candidate_frontier f = Some (Inr newly, rt_state rt)"
  have "coords_ok f"
    using f(1) rectangle_in_range [OF assms(2,3)]
    by (auto simp: coords_ok_def from_initial_def quadrant_state_def split: if_splits)
  with f show ?thesis using coords_ok_derive by blast
qed

section \<open>Properties\<close>

text \<open>
  C1: whatever sequence of requests, completions, cancellations, failures and reveals a new runtime is given:
  each quadrant revealed beyond the initial rectangle has a prepared artifact, every neighbour of
  a revealed quadrant has been made a candidate, and the revision has advanced by the number of reveals.
\<close>

theorem runtime_run_safe:
  assumes "rectangular m w h = Inr i" "runtime_new i rev0 gen size_mm = Some (Inr rt)"
    and "rt' = foldl runtime_step rt ops"
  shows "(\<exists>more. revealed_quadrants (rt_state rt') = initial_quadrants i @ more \<and>
      unat (revision (rt_state rt')) = unat rev0 + length more \<and>
      (\<forall>c\<in>set more. \<exists>a. map_of (rt_preparations rt') c = Some (PreparedSlot a))) \<and>
    (\<forall>n\<in>frontier_edge (rt_state rt'). quadrant_state (rt_state rt') n \<noteq> Potential)"
proof -
  have inv: "runtime_inv (initial_quadrants i) rt" using runtime_new_inv [OF assms(1,2)] .
  have inv': "runtime_inv (initial_quadrants i) rt'" unfolding assms(3) by (rule runtime_machine.inv_run [OF inv])
  have start: "revision (rt_state rt) = rev0" "revealed_quadrants (rt_state rt) = initial_quadrants i"
    by (rule runtime_new_Inr [OF assms(2,1)]; simp)+
  from inv' runtime_run_revision [OF inv, of ops] show ?thesis
    by (auto simp: runtime_inv_def reveals_def start simp flip: assms(3))
qed

text \<open>
  C0: every manifest a runtime publishes, after any operations, passes the wire validation, and a client
  that decodes its bytes reads the same manifest: the current revision and exactly the revealed quadrants.
\<close>

definition client_ready :: "quadrant_coord list \<Rightarrow> int \<Rightarrow> frontier_runtime \<Rightarrow> bool" where
  "client_ready init size_mm rt \<longleftrightarrow>
     runtime_inv init rt \<and> coords_ok (rt_state rt) \<and> rt_quadrant_size_mm rt = size_mm"

interpretation client_machine: invariant_machine runtime_step "client_ready init size_mm"
proof
  fix rt op
  assume ready: "client_ready init size_mm rt"
  then have inv: "frontier_inv (rt_state rt)" by (simp add: client_ready_def runtime_inv_def)
  have "rt_quadrant_size_mm (runtime_step rt op) = rt_quadrant_size_mm rt"
    using inv by (cases rule: runtime_step_cases [where op = op]) auto
  with ready show "client_ready init size_mm (runtime_step rt op)"
    using runtime_inv_step coords_ok_step [OF inv] by (auto simp: client_ready_def)
qed

lemma client_ready_manifest:
  assumes ready: "client_ready init size_mm rt" and size: "in_i64 size_mm"
  shows "\<exists>man bs. runtime_manifest rt = Inr man \<and> manifest_encode man = Inr bs \<and> manifest_decode bs = Inr man \<and>
    fm_revision man = revision (rt_state rt) \<and>
    set (fm_quadrants man) = (\<lambda>c. FrontierQuadrantCoord (qc_x c) (qc_y c)) ` set (revealed_quadrants (rt_state rt))"
proof -
  from ready have inv: "runtime_inv init rt" and ok: "coords_ok (rt_state rt)"
    and s: "rt_quadrant_size_mm rt = size_mm" by (simp_all add: client_ready_def)
  obtain man where man: "runtime_manifest rt = Inr man" "manifest_validate man = Inr ()"
      "fm_revision man = revision (rt_state rt)"
      "set (fm_quadrants man) = (\<lambda>c. FrontierQuadrantCoord (qc_x c) (qc_y c)) ` set (revealed_quadrants (rt_state rt))"
    using runtime_manifest_ok [OF inv] by metis
  have "fm_quadrant_size_mm man = size_mm"
    using man(1) s by (auto simp: runtime_manifest_def build_manifest_def manifest_new_def Let_def split: sum.splits)
  moreover have "coord_in_range c" if "c \<in> set (revealed_quadrants (rt_state rt))" for c
    using that ok inv quadrant_state_Revealed [of "rt_state rt" c]
    by (metis coords_ok_def frontier_quadrant_state.distinct(5) runtime_inv_def)
  then have "list_all coord_fits (fm_quadrants man)"
    by (auto simp: list_all_iff man(4) coord_fits_def coord_in_range_def)
  ultimately have "manifest_valid man" using man(2) size by (simp add: manifest_valid_def)
  moreover have "manifest_encode man = Inr (manifest_bytes man)" using man(2) by (simp add: manifest_encode_Inr)
  ultimately show ?thesis using man manifest_decode_written by blast
qed

text \<open>
  C10: every manifest a runtime publishes, after any operations, passes the wire validation, and a client
  that decodes its bytes reads the same manifest: the current revision and exactly the revealed quadrants.
\<close>

theorem runtime_manifest_reaches_client:
  assumes "rectangular m w h = Inr i" "coord_in_range m" "in_i64 size_mm"
    and "runtime_new i rev0 gen size_mm = Some (Inr rt)" "rt' = foldl runtime_step rt ops"
  shows "\<exists>man bs. runtime_manifest rt' = Inr man \<and> manifest_encode man = Inr bs \<and> manifest_decode bs = Inr man \<and>
    fm_revision man = revision (rt_state rt') \<and>
    set (fm_quadrants man) = (\<lambda>c. FrontierQuadrantCoord (qc_x c) (qc_y c)) ` set (revealed_quadrants (rt_state rt'))"
proof -
  have "rt_quadrant_size_mm rt = size_mm" by (rule runtime_new_Inr [OF assms(4,1)])
  then have "client_ready (initial_quadrants i) size_mm rt"
    using runtime_new_inv [OF assms(1,4)] runtime_new_coords [OF assms(4,1,2)] by (simp add: client_ready_def)
  then have "client_ready (initial_quadrants i) size_mm rt'" unfolding assms(5) by (rule client_machine.inv_run)
  then show ?thesis using client_ready_manifest assms(3) by blast
qed

text \<open>The runtime of the witnesses: one revealed quadrant, and the operations that reveal its eastern neighbour.\<close>

definition sample_initial :: initial_frontier where
  "sample_initial = \<lparr>min_coord = QuadrantCoord 0 0, max_coord = QuadrantCoord 0 0, width = 1, height = 1,
     initial_quadrants = [QuadrantCoord 0 0]\<rparr>"

definition sample_ops :: "runtime_op list" where
  "sample_ops =
     (let i = \<lparr>pi_coord = QuadrantCoord 1 0, pi_generator_version = 7, pi_inputs_fingerprint = [1]\<rparr>
      in [RequestPrep i, CompletePrep \<lparr>pa_identity = i, pa_fingerprint = [2], pa_bytes = 10\<rparr>,
          CommitReveal \<lparr>ur_coord = QuadrantCoord 1 0, ur_requirements = [3]\<rparr> (\<lambda>c r. Some True)])"

lemma sample_initial_new: "rectangular (QuadrantCoord 0 0) 1 1 = Inr sample_initial"
  unfolding sample_initial_def by code_simp

lemma sample_runtime_new: obtains rt where "runtime_new sample_initial 1 7 100 = Some (Inr rt)"
proof -
  let ?f = "\<lparr>revision = 1, revealed_quadrants = [QuadrantCoord 0 0], revealed_lookup = {QuadrantCoord 0 0},
     lifecycle_states = []\<rparr>"
  have f: "from_initial sample_initial 1 = Inr ?f" by (simp add: from_initial_def sample_initial_def)
  have inv: "frontier_inv ?f" by (simp add: frontier_inv_def max_revealed_frontier_quadrants_def)
  have "map_option (\<lambda>r. is_ok (fst r)) (derive_candidate_frontier ?f) = Some True" by code_simp
  then obtain newly f' where d: "derive_candidate_frontier ?f = Some (Inr newly, f')" by (auto simp: is_ok_iff)
  then have "revision f' = 1" "revealed_quadrants f' = [QuadrantCoord 0 0]"
    by (cases rule: derive_cases [OF inv]; simp)+
  then have "\<exists>man. build_manifest f' 7 100 = Inr man"
    by (simp add: build_manifest_def manifest_new_def manifest_validate_def frontier_manifest_version_def Let_def)
  with f d that show thesis by (auto simp: runtime_new_def runtime_manifest_def Let_def)
qed

theorem runtime_run_safe_witness:
  "\<exists>rt. runtime_new sample_initial 1 7 100 = Some (Inr rt) \<and>
    (\<exists>more. revealed_quadrants (rt_state (foldl runtime_step rt sample_ops)) = QuadrantCoord 0 0 # more \<and>
      unat (revision (rt_state (foldl runtime_step rt sample_ops))) = 1 + length more)"
proof (rule sample_runtime_new)
  fix rt assume "runtime_new sample_initial 1 7 100 = Some (Inr rt)"
  from this runtime_run_safe [OF sample_initial_new this refl, of sample_ops] show ?thesis
    by (auto simp: sample_initial_def)
qed

theorem runtime_manifest_reaches_client_witness:
  "\<exists>rt man bs. runtime_new sample_initial 1 7 100 = Some (Inr rt) \<and>
    runtime_manifest (foldl runtime_step rt sample_ops) = Inr man \<and>
    manifest_encode man = Inr bs \<and> manifest_decode bs = Inr man"
proof (rule sample_runtime_new)
  fix rt assume new: "runtime_new sample_initial 1 7 100 = Some (Inr rt)"
  have "coord_in_range (QuadrantCoord 0 0)" "in_i64 100" by (simp_all add: coord_in_range_def in_i64_def)
  from new runtime_manifest_reaches_client [OF sample_initial_new this new refl, of sample_ops] show ?thesis by blast
qed

lemma frontier_inv_step:
  assumes inv: "frontier_inv (rt_state rt)"
  shows "frontier_inv (rt_state (runtime_step rt op))"
  using inv
proof (cases rule: runtime_step_cases [where op = op])
  case (completed a out slots f')
  from completed(2) show ?thesis
    by (cases rule: prep_complete_cases) (use inv transition_inv completed(1) in \<open>auto\<close>)
next
  case (reveal reqs res t d f')
  with reveal_commit_inv [OF inv] show ?thesis by auto
qed (use inv in auto)

text \<open>
  Once an artifact is recorded for a preparation, no later operation on the runtime replaces
  or drops it.
\<close>

theorem prepared_artifact_final:
  assumes "frontier_inv (rt_state rt)" "prep_prepared_artifact (rt_preparations rt) i = Some a"
  shows "prep_prepared_artifact (rt_preparations (foldl runtime_step rt ops)) i = Some a"
  using assms
proof (induction ops arbitrary: rt)
  case (Cons op ops)
  have "prep_prepared_artifact (rt_preparations (runtime_step rt op)) i = Some a"
    using Cons.prems
    by (cases rule: runtime_step_cases [where op = op])
      (auto simp: prep_prepared_artifact_Some dest: prepared_slot_kept_request prepared_slot_kept_abandon
        prepared_slot_kept_complete)
  with Cons.IH frontier_inv_step [OF Cons.prems(1)] show ?case by simp
qed simp

theorem prepared_artifact_final_witness:
  "prep_prepared_artifact (rt_preparations (foldl runtime_step
      \<lparr>rt_state = \<lparr>revision = 1, revealed_quadrants = [QuadrantCoord 0 0], revealed_lookup = {QuadrantCoord 0 0},
         lifecycle_states = [(QuadrantCoord 1 0, Prepared)]\<rparr>,
       rt_preparations = [(QuadrantCoord 1 0, PreparedSlot \<lparr>pa_identity = \<lparr>pi_coord = QuadrantCoord 1 0,
         pi_generator_version = 7, pi_inputs_fingerprint = [1]\<rparr>, pa_fingerprint = [2], pa_bytes = 10\<rparr>)],
       rt_generator_version = 7, rt_quadrant_size_mm = 100\<rparr> sample_ops))
     \<lparr>pi_coord = QuadrantCoord 1 0, pi_generator_version = 7, pi_inputs_fingerprint = [1]\<rparr> =
   Some \<lparr>pa_identity = \<lparr>pi_coord = QuadrantCoord 1 0, pi_generator_version = 7, pi_inputs_fingerprint = [1]\<rparr>,
     pa_fingerprint = [2], pa_bytes = 10\<rparr>"
  by (rule prepared_artifact_final)
    (simp_all add: frontier_inv_def max_revealed_frontier_quadrants_def prep_prepared_artifact_def)

end
