(* ===== verification/Frontier_Delivery.thy ===== *)
theory Frontier_Delivery
  imports Prelude
begin

text \<open>
  apps/world-server/src/frontier_sync.rs (which manifest revision each connection has confirmed)
  and frontier_delivery.rs (retries and timeout of manifests that were not confirmed). An
  \<open>Instant\<close> is the number of nanoseconds since an arbitrary start and a \<open>Duration\<close> a number of
  nanoseconds; the order of the association lists stands for the iteration order of the hash maps.
\<close>

section \<open>Synchronisation registry\<close>

datatype sync_state = Pending u64 | Synced u64

fun sync_revision :: "sync_state \<Rightarrow> u64" where
  "sync_revision (Pending r) = r"
| "sync_revision (Synced r) = r"

fun sync_is_synced :: "sync_state \<Rightarrow> bool" where
  "sync_is_synced (Synced _) = True"
| "sync_is_synced (Pending _) = False"

datatype ack_outcome = AckSynchronized u64 | AckDuplicate u64 | AckStale u64 u64

datatype sync_error =
  SyncZeroRevision
| SyncDuplicateConnection u64
| SyncUnknownConnection u64
| SyncFutureAck u64 u64 u64

type_synonym sync_registry = "(u64 \<times> sync_state) list"

definition validate_revision :: "u64 \<Rightarrow> sync_error + unit" where
  "validate_revision r = (if r = 0 then Inl SyncZeroRevision else Inr ())"

definition register_pending :: "u64 \<Rightarrow> u64 \<Rightarrow> sync_registry \<Rightarrow> (sync_error + unit) \<times> sync_registry" where
  "register_pending cid r reg =
     (case validate_revision r of
        Inl e \<Rightarrow> (Inl e, reg)
      | Inr _ \<Rightarrow>
          (case map_of reg cid of
             None \<Rightarrow> (Inr (), AList.update cid (Pending r) reg)
           | Some _ \<Rightarrow> (Inl (SyncDuplicateConnection cid), reg)))"

definition mark_all_pending :: "u64 \<Rightarrow> sync_registry \<Rightarrow> (sync_error + nat) \<times> sync_registry" where
  "mark_all_pending r reg =
     (case validate_revision r of
        Inl e \<Rightarrow> (Inl e, reg)
      | Inr _ \<Rightarrow> (let reg' = map (\<lambda>(c, _). (c, Pending r)) reg in (Inr (length reg'), reg')))"

definition apply_ack :: "u64 \<Rightarrow> u64 \<Rightarrow> sync_registry \<Rightarrow> (sync_error + ack_outcome) \<times> sync_registry" where
  "apply_ack cid received reg =
     (case validate_revision received of
        Inl e \<Rightarrow> (Inl e, reg)
      | Inr _ \<Rightarrow>
          (case map_of reg cid of
             None \<Rightarrow> (Inl (SyncUnknownConnection cid), reg)
           | Some st \<Rightarrow>
               (let expected = sync_revision st
                in if received < expected then (Inr (AckStale expected received), reg)
                   else if expected < received then (Inl (SyncFutureAck cid expected received), reg)
                   else (case st of
                           Pending r \<Rightarrow> (Inr (AckSynchronized r), AList.update cid (Synced r) reg)
                         | Synced r \<Rightarrow> (Inr (AckDuplicate r), reg)))))"

definition sync_is_synced_connection :: "u64 \<Rightarrow> sync_registry \<Rightarrow> bool" where
  "sync_is_synced_connection cid reg =
     (case map_of reg cid of None \<Rightarrow> False | Some st \<Rightarrow> sync_is_synced st)"

definition sync_remove :: "u64 \<Rightarrow> sync_registry \<Rightarrow> sync_state option \<times> sync_registry" where
  "sync_remove cid reg = (map_of reg cid, AList.delete cid reg)"

section \<open>Delivery tracker\<close>

record delivery_policy =
  retry_interval :: nat
  ack_timeout :: nat
  max_retries :: u32

datatype delivery_policy_error =
  ZeroRetryInterval
| AckTimeoutNotGreaterThanRetry nat nat
| ZeroMaxRetries

definition delivery_policy_new :: "nat \<Rightarrow> nat \<Rightarrow> u32 \<Rightarrow> delivery_policy_error + delivery_policy" where
  "delivery_policy_new retry timeout retries =
     (if retry = 0 then Inl ZeroRetryInterval
      else if timeout \<le> retry then Inl (AckTimeoutNotGreaterThanRetry retry timeout)
      else if retries = 0 then Inl ZeroMaxRetries
      else Inr \<lparr>retry_interval = retry, ack_timeout = timeout, max_retries = retries\<rparr>)"

definition delivery_policy_default :: delivery_policy where
  "delivery_policy_default =
     \<lparr>retry_interval = 500000000, ack_timeout = 5000000000, max_retries = 3\<rparr>"

datatype delivery_action =
  Retry u64 u64 u32
| Timeout u64 u64 u32

record pending_delivery =
  pd_revision :: u64
  started_at :: nat
  next_retry_at :: nat
  retries_sent :: u32

type_synonym pending_deliveries = "(u64 \<times> pending_delivery) list"

text \<open>\<open>None\<close> is the failed \<open>debug_assert!\<close> on a zero revision.\<close>

definition delivery_track ::
  "delivery_policy \<Rightarrow> u64 \<Rightarrow> u64 \<Rightarrow> nat \<Rightarrow> pending_deliveries \<Rightarrow> pending_deliveries option" where
  "delivery_track policy cid rev0 now pending =
     (if 0 < rev0
      then Some (AList.update cid \<lparr>pd_revision = rev0, started_at = now,
                                   next_retry_at = now + retry_interval policy,
                                   retries_sent = 0\<rparr> pending)
      else None)"

definition delivery_acknowledge ::
  "u64 \<Rightarrow> u64 \<Rightarrow> pending_deliveries \<Rightarrow> bool \<times> pending_deliveries" where
  "delivery_acknowledge cid rev0 pending =
     (case map_of pending cid of
        None \<Rightarrow> (False, pending)
      | Some p \<Rightarrow> if pd_revision p \<noteq> rev0 then (False, pending) else (True, AList.delete cid pending))"

definition delivery_remove :: "u64 \<Rightarrow> pending_deliveries \<Rightarrow> pending_deliveries" where
  "delivery_remove cid pending = AList.delete cid pending"

fun evaluate_ids ::
  "delivery_policy \<Rightarrow> nat \<Rightarrow> u64 list \<Rightarrow> pending_deliveries \<Rightarrow> delivery_action list
     \<Rightarrow> delivery_action list \<times> pending_deliveries" where
  "evaluate_ids policy now [] pending actions = (actions, pending)"
| "evaluate_ids policy now (cid # cids) pending actions =
     (case map_of pending cid of
        None \<Rightarrow> evaluate_ids policy now cids pending actions
      | Some p \<Rightarrow>
          if started_at p + ack_timeout policy \<le> now
          then evaluate_ids policy now cids (AList.delete cid pending)
                 (actions @ [Timeout cid (pd_revision p) (retries_sent p)])
          else if max_retries policy \<le> retries_sent p \<or> now < next_retry_at p
          then evaluate_ids policy now cids pending actions
          else
            (let current = p\<lparr>retries_sent := retries_sent p + 1,
                             next_retry_at := now + retry_interval policy\<rparr>
             in evaluate_ids policy now cids (AList.update cid current pending)
                  (actions @ [Retry cid (pd_revision current) (retries_sent current)])))"

definition delivery_evaluate ::
  "delivery_policy \<Rightarrow> nat \<Rightarrow> pending_deliveries \<Rightarrow> delivery_action list \<times> pending_deliveries" where
  "delivery_evaluate policy now pending = evaluate_ids policy now (map fst pending) pending []"

section \<open>One connection\<close>

text \<open>What an evaluation does to one tracked delivery, on its own.\<close>

definition evaluate_one ::
  "delivery_policy \<Rightarrow> nat \<Rightarrow> u64 \<Rightarrow> pending_delivery \<Rightarrow> delivery_action list \<times> pending_delivery option"
where
  "evaluate_one policy now cid p =
     (if started_at p + ack_timeout policy \<le> now
      then ([Timeout cid (pd_revision p) (retries_sent p)], None)
      else if max_retries policy \<le> retries_sent p \<or> now < next_retry_at p then ([], Some p)
      else ([Retry cid (pd_revision p) (retries_sent p + 1)],
            Some (p\<lparr>retries_sent := retries_sent p + 1,
                    next_retry_at := now + retry_interval policy\<rparr>)))"

fun action_connection :: "delivery_action \<Rightarrow> u64" where
  "action_connection (Retry c _ _) = c"
| "action_connection (Timeout c _ _) = c"

definition evaluate_entry ::
  "delivery_policy \<Rightarrow> nat \<Rightarrow> u64 \<Rightarrow> pending_deliveries \<Rightarrow> delivery_action list \<times> pending_delivery option"
where
  "evaluate_entry policy now cid pending =
     (case map_of pending cid of None \<Rightarrow> ([], None) | Some p \<Rightarrow> evaluate_one policy now cid p)"

lemma evaluate_one_connection: "a \<in> set (fst (evaluate_one policy now cid p)) \<Longrightarrow> action_connection a = cid"
  by (auto simp: evaluate_one_def split: if_splits)

lemma evaluate_ids_other:
  assumes "c \<notin> set cids"
  shows "filter (\<lambda>a. action_connection a = c) (fst (evaluate_ids policy now cids pending actions)) =
      filter (\<lambda>a. action_connection a = c) actions \<and>
    map_of (snd (evaluate_ids policy now cids pending actions)) c = map_of pending c"
  using assms
  by (induction policy now cids pending actions rule: evaluate_ids.induct)
    (auto simp: Let_def keyed_simps split: option.splits)

lemma evaluate_ids_entry:
  assumes "distinct cids" "c \<in> set cids"
  shows "filter (\<lambda>a. action_connection a = c) (fst (evaluate_ids policy now cids pending actions)) =
      filter (\<lambda>a. action_connection a = c) actions @ fst (evaluate_entry policy now c pending) \<and>
    map_of (snd (evaluate_ids policy now cids pending actions)) c =
      snd (evaluate_entry policy now c pending)"
  using assms
proof (induction policy now cids pending actions rule: evaluate_ids.induct)
  case (2 policy now cid cids pending actions)
  show ?case
  proof (cases "c = cid")
    case True
    with 2 evaluate_ids_other [of c cids policy now] show ?thesis
      by (auto simp: evaluate_entry_def evaluate_one_def Let_def keyed_simps split: option.splits)
  next
    case False
    with 2 show ?thesis
      by (auto simp: evaluate_entry_def Let_def keyed_simps split: option.splits)
  qed
qed simp

lemma delivery_evaluate_entry:
  assumes "distinct (map fst pending)"
  shows "filter (\<lambda>a. action_connection a = c) (fst (delivery_evaluate policy now pending)) =
      fst (evaluate_entry policy now c pending)"
    and "map_of (snd (delivery_evaluate policy now pending)) c =
      snd (evaluate_entry policy now c pending)"
proof -
  have "filter (\<lambda>a. action_connection a = c) (fst (delivery_evaluate policy now pending)) =
      fst (evaluate_entry policy now c pending) \<and>
    map_of (snd (delivery_evaluate policy now pending)) c = snd (evaluate_entry policy now c pending)"
  proof (cases "c \<in> set (map fst pending)")
    case True
    from evaluate_ids_entry [OF assms True] show ?thesis by (simp add: delivery_evaluate_def)
  next
    case False
    then have none: "map_of pending c = None" by (auto simp: map_of_eq_None_iff)
    from evaluate_ids_other [OF False] show ?thesis
      by (simp add: delivery_evaluate_def evaluate_entry_def none)
  qed
  then show "filter (\<lambda>a. action_connection a = c) (fst (delivery_evaluate policy now pending)) =
      fst (evaluate_entry policy now c pending)"
    "map_of (snd (delivery_evaluate policy now pending)) c =
      snd (evaluate_entry policy now c pending)" by simp_all
qed

lemma evaluate_ids_distinct:
  "distinct (map fst pending) \<Longrightarrow> distinct (map fst (snd (evaluate_ids policy now cids pending actions)))"
  by (induction policy now cids pending actions rule: evaluate_ids.induct)
    (auto simp: Let_def split: option.splits)

lemma delivery_evaluate_distinct:
  "distinct (map fst pending) \<Longrightarrow> distinct (map fst (snd (delivery_evaluate policy now pending)))"
  by (simp add: delivery_evaluate_def evaluate_ids_distinct)

section \<open>Repeated evaluation\<close>

fun delivery_run ::
  "delivery_policy \<Rightarrow> nat list \<Rightarrow> pending_deliveries \<Rightarrow> delivery_action list \<times> pending_deliveries" where
  "delivery_run policy [] pending = ([], pending)"
| "delivery_run policy (now # later) pending =
     (case delivery_evaluate policy now pending of
        (actions, pending') \<Rightarrow>
          (case delivery_run policy later pending' of
             (rest, pending'') \<Rightarrow> (actions @ rest, pending'')))"

fun run_one ::
  "delivery_policy \<Rightarrow> nat list \<Rightarrow> u64 \<Rightarrow> pending_delivery option
     \<Rightarrow> delivery_action list \<times> pending_delivery option" where
  "run_one policy ticks cid None = ([], None)"
| "run_one policy [] cid (Some p) = ([], Some p)"
| "run_one policy (now # later) cid (Some p) =
     (case evaluate_one policy now cid p of
        (actions, p') \<Rightarrow>
          (case run_one policy later cid p' of (rest, p'') \<Rightarrow> (actions @ rest, p'')))"

lemma delivery_run_one:
  assumes "distinct (map fst pending)"
  shows "filter (\<lambda>a. action_connection a = c) (fst (delivery_run policy ticks pending)) =
      fst (run_one policy ticks c (map_of pending c)) \<and>
    map_of (snd (delivery_run policy ticks pending)) c =
      snd (run_one policy ticks c (map_of pending c))"
  using assms
proof (induction ticks arbitrary: pending)
  case (Cons now later)
  obtain actions pending' where ev: "delivery_evaluate policy now pending = (actions, pending')"
    by (cases "delivery_evaluate policy now pending")
  have "distinct (map fst pending')"
    using delivery_evaluate_distinct [OF Cons.prems, of policy now] by (simp add: ev)
  note IH = Cons.IH [OF this]
  from delivery_evaluate_entry [OF Cons.prems, where c = c and policy = policy and now = now]
  have e: "filter (\<lambda>a. action_connection a = c) actions = fst (evaluate_entry policy now c pending)"
    "map_of pending' c = snd (evaluate_entry policy now c pending)" by (simp_all add: ev)
  show ?case
    using IH e by (cases "map_of pending c")
      (auto simp: ev evaluate_entry_def split: prod.splits)
next
  case Nil
  then show ?case by (cases "map_of pending c") simp_all
qed

text \<open>A delivery is retried at most as often as the policy allows, and ticks out at most once.\<close>

definition is_retry :: "delivery_action \<Rightarrow> bool" where
  "is_retry a \<longleftrightarrow> (\<exists>c r n. a = Retry c r n)"

lemma is_retry_simps [simp]: "is_retry (Retry c r n)" "\<not> is_retry (Timeout c r n)"
  by (simp_all add: is_retry_def)

lemma run_one_retries:
  assumes "retries_sent p \<le> max_retries policy"
  shows "length (filter is_retry (fst (run_one policy ticks cid (Some p)))) + unat (retries_sent p)
      \<le> unat (max_retries policy) \<and>
    length (filter (\<lambda>a. \<not> is_retry a) (fst (run_one policy ticks cid (Some p)))) \<le> 1"
  using assms
proof (induction ticks arbitrary: p)
  case (Cons now later)
  consider (out) "started_at p + ack_timeout policy \<le> now"
    | (wait) "\<not> started_at p + ack_timeout policy \<le> now"
        "max_retries policy \<le> retries_sent p \<or> now < next_retry_at p"
    | (again) "\<not> started_at p + ack_timeout policy \<le> now"
        "\<not> (max_retries policy \<le> retries_sent p \<or> now < next_retry_at p)" by blast
  then show ?case
  proof cases
    case out
    then show ?thesis using Cons.prems by (simp add: evaluate_one_def word_le_nat_alt)
  next
    case wait
    then show ?thesis using Cons.IH [OF Cons.prems]
      by (auto simp: evaluate_one_def split: prod.splits)
  next
    case again
    let ?p = "p\<lparr>retries_sent := retries_sent p + 1, next_retry_at := now + retry_interval policy\<rparr>"
    have lt: "unat (retries_sent p) < unat (max_retries policy)"
      using again(2) by (simp add: word_le_nat_alt)
    moreover have "unat (max_retries policy) < 2 ^ LENGTH(32)" by (rule unsigned_less)
    ultimately have n: "unat (retries_sent p + 1) = unat (retries_sent p) + 1"
      by (subst unat_add_fits) simp_all
    then have "retries_sent ?p \<le> max_retries policy" using lt by (simp add: word_le_nat_alt)
    from Cons.IH [OF this] again n show ?thesis
      by (auto simp: evaluate_one_def split: prod.splits)
  qed
next
  case Nil
  then show ?case by (simp add: word_le_nat_alt)
qed

lemma evaluate_one_started: "snd (evaluate_one policy now cid p) = Some p' \<Longrightarrow> started_at p' = started_at p"
  by (auto simp: evaluate_one_def split: if_splits)

text \<open>The first evaluation after the deadline ends the delivery.\<close>

lemma run_one_deadline:
  assumes "\<exists>now\<in>set ticks. started_at p + ack_timeout policy \<le> now"
  shows "snd (run_one policy ticks cid (Some p)) = None \<and>
    (\<exists>r n. Timeout cid r n \<in> set (fst (run_one policy ticks cid (Some p))))"
  using assms
proof (induction ticks arbitrary: p)
  case (Cons now later)
  show ?case
  proof (cases "started_at p + ack_timeout policy \<le> now")
    case False
    obtain actions p' where ev: "evaluate_one policy now cid p = (actions, Some p')"
      using False by (cases "max_retries policy \<le> retries_sent p \<or> now < next_retry_at p")
        (auto simp: evaluate_one_def)
    then have "started_at p' = started_at p" using evaluate_one_started [of policy now cid p p'] by simp
    with False Cons.prems have "\<exists>now\<in>set later. started_at p' + ack_timeout policy \<le> now" by auto
    from Cons.IH [OF this] show ?thesis by (cases "run_one policy later cid (Some p')") (auto simp: ev)
  qed (simp add: evaluate_one_def)
qed simp

section \<open>Synchronisation\<close>

lemma apply_ack_synced:
  assumes "apply_ack cid received reg = (Inr out, reg')"
  shows "(case out of AckStale expected r \<Rightarrow> reg' = reg \<and> r < expected
    | _ \<Rightarrow> map_of reg' cid = Some (Synced received) \<and> received \<noteq> 0)"
  using assms
  by (auto simp: apply_ack_def validate_revision_def Let_def keyed_simps
      split: if_splits option.splits sync_state.splits)

lemma apply_ack_other:
  assumes "apply_ack cid received reg = (r, reg')" "c \<noteq> cid"
  shows "map_of reg' c = map_of reg c"
  using assms
  by (auto simp: apply_ack_def validate_revision_def Let_def keyed_simps
      split: if_splits option.splits sync_state.splits sum.splits)

lemma mark_all_pending_state:
  assumes "mark_all_pending r reg = (Inr n, reg')"
  shows "n = length reg" and "map fst reg' = map fst reg"
    and "map_of reg' c = map_option (\<lambda>_. Pending r) (map_of reg c)"
proof -
  from assms have r: "reg' = map (\<lambda>(c, _). (c, Pending r)) reg" "n = length reg"
    by (auto simp: mark_all_pending_def validate_revision_def Let_def split: if_splits)
  show "n = length reg" "map fst reg' = map fst reg" using r by auto
  show "map_of reg' c = map_option (\<lambda>_. Pending r) (map_of reg c)"
    unfolding r(1) by (induction reg) auto
qed

text \<open>A connection is confirmed for a revision only by an acknowledgement of that very revision.\<close>

datatype sync_op = SyncRegister u64 u64 | SyncMarkAll u64 | SyncAck u64 u64 | SyncRemove u64

fun sync_step :: "sync_registry \<Rightarrow> sync_op \<Rightarrow> sync_registry" where
  "sync_step reg (SyncRegister c r) = snd (register_pending c r reg)"
| "sync_step reg (SyncMarkAll r) = snd (mark_all_pending r reg)"
| "sync_step reg (SyncAck c r) = snd (apply_ack c r reg)"
| "sync_step reg (SyncRemove c) = snd (sync_remove c reg)"

definition sync_inv :: "sync_registry \<Rightarrow> bool" where
  "sync_inv reg \<longleftrightarrow> distinct (map fst reg) \<and> (\<forall>(c, st)\<in>set reg. sync_revision st \<noteq> 0)"

lemma sync_step_inv: "sync_inv reg \<Longrightarrow> sync_inv (sync_step reg op)"
proof (cases op)
  case (SyncMarkAll r)
  assume inv: "sync_inv reg"
  show ?thesis
  proof (cases "mark_all_pending r reg")
    case (Pair out reg')
    then show ?thesis
    proof (cases out)
      case (Inr n)
      note m = mark_all_pending_state [OF Pair [unfolded Inr]]
      have "r \<noteq> 0" using Pair Inr by (auto simp: mark_all_pending_def validate_revision_def split: if_splits)
      moreover have "reg' = map (\<lambda>(c, _). (c, Pending r)) reg"
        using Pair Inr by (auto simp: mark_all_pending_def Let_def split: sum.splits)
      moreover have "distinct (map fst reg')" using inv m(2) by (simp only: sync_inv_def)
      ultimately show ?thesis using SyncMarkAll Pair by (auto simp: sync_inv_def)
    next
      case (Inl e)
      then have "reg' = reg" using Pair
        by (auto simp: mark_all_pending_def Let_def split: sum.splits)
      with inv SyncMarkAll Pair show ?thesis by simp
    qed
  qed
qed (auto simp: sync_inv_def register_pending_def apply_ack_def sync_remove_def validate_revision_def
    Let_def set_alist_update AList.delete_eq distinct_map_filter
    split: option.splits sync_state.splits)

interpretation sync_machine: invariant_machine sync_step sync_inv
  by unfold_locales (rule sync_step_inv)

lemma sync_step_synced:
  assumes "map_of (sync_step reg op) c = Some (Synced r)" "map_of reg c \<noteq> Some (Synced r)"
  shows "op = SyncAck c r \<and> map_of reg c = Some (Pending r)"
  using assms
proof (cases op)
  case (SyncMarkAll q)
  with assms mark_all_pending_state(3) [of q reg] show ?thesis
    by (cases "mark_all_pending q reg")
      (auto simp: mark_all_pending_def validate_revision_def Let_def split: if_splits)
qed (auto simp: register_pending_def apply_ack_def sync_remove_def validate_revision_def
    Let_def keyed_simps split: option.splits sync_state.splits if_splits)

section \<open>Properties\<close>

definition actions_for :: "u64 \<Rightarrow> delivery_action list \<Rightarrow> delivery_action list" where
  "actions_for cid actions = filter (\<lambda>a. action_connection a = cid) actions"

lemma tracked_run:
  assumes "delivery_track policy cid rev0 now pending = Some pending'" "distinct (map fst pending)"
  shows "actions_for cid (fst (delivery_run policy ticks pending')) =
      fst (run_one policy ticks cid (Some \<lparr>pd_revision = rev0, started_at = now,
        next_retry_at = now + retry_interval policy, retries_sent = 0\<rparr>))"
    and "map_of (snd (delivery_run policy ticks pending')) cid =
      snd (run_one policy ticks cid (Some \<lparr>pd_revision = rev0, started_at = now,
        next_retry_at = now + retry_interval policy, retries_sent = 0\<rparr>))"
proof -
  from assms(1) have p: "pending' = AList.update cid \<lparr>pd_revision = rev0, started_at = now,
      next_retry_at = now + retry_interval policy, retries_sent = 0\<rparr> pending"
    by (simp add: delivery_track_def split: if_splits)
  then have "distinct (map fst pending')" using assms(2) by auto
  from delivery_run_one [OF this, of cid policy ticks]
  show "actions_for cid (fst (delivery_run policy ticks pending')) =
      fst (run_one policy ticks cid (Some \<lparr>pd_revision = rev0, started_at = now,
        next_retry_at = now + retry_interval policy, retries_sent = 0\<rparr>))"
    and "map_of (snd (delivery_run policy ticks pending')) cid =
      snd (run_one policy ticks cid (Some \<lparr>pd_revision = rev0, started_at = now,
        next_retry_at = now + retry_interval policy, retries_sent = 0\<rparr>))"
    by (simp_all add: actions_for_def p update_conv')
qed

text \<open>
  C33: a tracked delivery is never sent more than the policy's number of retries and never times
  out twice, at whatever instants it is evaluated and whatever other deliveries are pending.
\<close>

theorem delivery_retries_bounded:
  assumes "delivery_track policy cid rev0 now pending = Some pending'" "distinct (map fst pending)"
  shows "length (filter is_retry (actions_for cid (fst (delivery_run policy ticks pending')))) \<le> unat (max_retries policy) \<and>
    length (filter (\<lambda>a. \<not> is_retry a) (actions_for cid (fst (delivery_run policy ticks pending')))) \<le> 1"
  using run_one_retries [of "\<lparr>pd_revision = rev0, started_at = now,
      next_retry_at = now + retry_interval policy, retries_sent = 0\<rparr>" policy ticks cid]
  by (simp add: tracked_run [OF assms])

theorem delivery_retries_bounded_witness:
  "length (filter is_retry (actions_for 4 (fst (delivery_run delivery_policy_default
      [0, 600000000, 1200000000, 1800000000, 2400000000, 6000000000]
      [(4, \<lparr>pd_revision = 9, started_at = 0, next_retry_at = 500000000, retries_sent = 0\<rparr>)])))) \<le> 3"
proof -
  have "delivery_track delivery_policy_default 4 9 0 [] =
      Some [(4, \<lparr>pd_revision = 9, started_at = 0, next_retry_at = 500000000, retries_sent = 0\<rparr>)]"
    by (simp add: delivery_track_def delivery_policy_default_def)
  from delivery_retries_bounded [OF this, of "[0, 600000000, 1200000000, 1800000000, 2400000000, 6000000000]"]
  show ?thesis by (simp add: delivery_policy_default_def del: delivery_run.simps)
qed

text \<open>
  A delivery that is not acknowledged ends: as soon as it is evaluated at or after its deadline,
  it has been reported as timed out and is no longer pending.
\<close>

theorem delivery_deadline_reported:
  assumes "delivery_track policy cid rev0 now pending = Some pending'" "distinct (map fst pending)"
    and "t \<in> set ticks" "now + ack_timeout policy \<le> t"
  shows "map_of (snd (delivery_run policy ticks pending')) cid = None \<and>
    (\<exists>r n. Timeout cid r n \<in> set (fst (delivery_run policy ticks pending')))"
proof -
  let ?p = "\<lparr>pd_revision = rev0, started_at = now, next_retry_at = now + retry_interval policy, retries_sent = 0\<rparr>"
  have "\<exists>t\<in>set ticks. started_at ?p + ack_timeout policy \<le> t" using assms(3,4) by auto
  from run_one_deadline [OF this, of cid] obtain r n where
    "snd (run_one policy ticks cid (Some ?p)) = None" "Timeout cid r n \<in> set (fst (run_one policy ticks cid (Some ?p)))"
    by auto
  moreover from this(2) have "Timeout cid r n \<in> set (fst (delivery_run policy ticks pending'))"
    unfolding tracked_run(1) [OF assms(1,2), symmetric] by (simp add: actions_for_def)
  ultimately show ?thesis using tracked_run(2) [OF assms(1,2)] by auto
qed

theorem delivery_deadline_reported_witness:
  "\<exists>r n. Timeout 4 r n \<in> set (fst (delivery_run delivery_policy_default [600000000, 5000000000]
      [(4, \<lparr>pd_revision = 9, started_at = 0, next_retry_at = 500000000, retries_sent = 0\<rparr>)]))"
proof -
  have "delivery_track delivery_policy_default 4 9 0 [] =
      Some [(4, \<lparr>pd_revision = 9, started_at = 0, next_retry_at = 500000000, retries_sent = 0\<rparr>)]"
    by (simp add: delivery_track_def delivery_policy_default_def)
  from delivery_deadline_reported [OF this, of 5000000000 "[600000000, 5000000000]"]
  show ?thesis by (simp add: delivery_policy_default_def del: delivery_run.simps)
qed

text \<open>
  A connection becomes synchronised with a revision in one way only: it was waiting for that
  very revision and acknowledged it.
\<close>

theorem sync_only_by_acknowledgement:
  assumes "map_of (sync_step reg op) c = Some (Synced r)" "map_of reg c \<noteq> Some (Synced r)"
  shows "op = SyncAck c r \<and> map_of reg c = Some (Pending r)"
  using sync_step_synced [OF assms] .

theorem sync_only_by_acknowledgement_witness:
  "map_of (sync_step [(1, Pending 5), (2, Pending 5)] (SyncAck 2 5)) 2 = Some (Synced 5) \<and>
   map_of [(1, Pending 5), (2, Pending 5)] (2 :: u64) = Some (Pending 5)"
  using sync_only_by_acknowledgement [of "[(1, Pending 5), (2, Pending 5)]" "SyncAck 2 5" 2 5]
  by (simp add: apply_ack_def validate_revision_def)

end
