(* ===== verification/Inventory_Grid.thy ===== *)
theory Inventory_Grid
  imports Prelude
begin

text \<open>
  crates/domain/src/items.rs, the inventory grid: a matrix of cells, each holding the id of the
  item that covers it, beside the map from items to their rectangles. Coordinates and sizes are
  bytes; \<open>None\<close> as the outer result is the panic of an overflowing addition or of an index out of
  the vector.
\<close>

section \<open>Model\<close>

datatype item_rotation = RotNormal | Rotated90

record inventory_dimensions =
  dim_width :: u8
  dim_height :: u8

record grid_slot =
  gs_x :: u8
  gs_y :: u8

record placed_item =
  gp_origin :: grid_slot
  gp_rotation :: item_rotation
  gp_dimensions :: inventory_dimensions

record inventory_grid =
  ig_columns :: u8
  ig_rows :: u8
  ig_cells :: "u128 option list"
  ig_placements :: "u128 \<rightharpoonup> placed_item"

datatype grid_error = OutOfBounds | Collision

definition oriented :: "inventory_dimensions \<Rightarrow> item_rotation \<Rightarrow> inventory_dimensions" where
  "oriented d r =
     (case r of RotNormal \<Rightarrow> d
      | Rotated90 \<Rightarrow> \<lparr>dim_width = dim_height d, dim_height = dim_width d\<rparr>)"

definition grid_new :: "u8 \<Rightarrow> u8 \<Rightarrow> inventory_grid" where
  "grid_new columns rows =
     \<lparr>ig_columns = columns, ig_rows = rows, ig_cells = replicate (unat columns * unat rows) None,
      ig_placements = Map.empty\<rparr>"

definition index_of :: "inventory_grid \<Rightarrow> u8 \<Rightarrow> u8 \<Rightarrow> nat option" where
  "index_of g x y =
     (if ig_columns g \<le> x \<or> ig_rows g \<le> y then None
      else Some (unat y * unat (ig_columns g) + unat x))"

definition get_placement :: "inventory_grid \<Rightarrow> u128 \<Rightarrow> placed_item option" where
  "get_placement g item = ig_placements g item"

definition get_item_at :: "inventory_grid \<Rightarrow> grid_slot \<Rightarrow> u128 option" where
  "get_item_at g s =
     (case index_of g (gs_x s) (gs_y s) of None \<Rightarrow> None | Some i \<Rightarrow> ig_cells g ! i)"

text \<open>A \<open>for\<close> loop whose body may panic (\<open>None\<close>) or return early (\<open>Inl\<close>).\<close>

fun for_loop :: "('a \<Rightarrow> 's \<Rightarrow> ('e + 's) option) \<Rightarrow> 'a list \<Rightarrow> 's \<Rightarrow> ('e + 's) option" where
  "for_loop body [] s = Some (Inr s)"
| "for_loop body (x # xs) s =
     (case body x s of
        None \<Rightarrow> None
      | Some (Inl e) \<Rightarrow> Some (Inl e)
      | Some (Inr s') \<Rightarrow> for_loop body xs s')"

definition check_cell ::
  "inventory_grid \<Rightarrow> grid_slot \<Rightarrow> u128 option \<Rightarrow> u8 \<Rightarrow> u8 \<Rightarrow> unit \<Rightarrow> (grid_error + unit) option" where
  "check_cell g origin ignore dy dx s =
     (case checked_add (gs_x origin) dx of None \<Rightarrow> None | Some cx \<Rightarrow>
      (case checked_add (gs_y origin) dy of None \<Rightarrow> None | Some cy \<Rightarrow>
       (case index_of g cx cy of
          None \<Rightarrow> Some (Inl OutOfBounds)
        | Some i \<Rightarrow>
            if length (ig_cells g) \<le> i then None
            else (case ig_cells g ! i of
                    None \<Rightarrow> Some (Inr ())
                  | Some occupant \<Rightarrow>
                      if Some occupant \<noteq> ignore then Some (Inl Collision) else Some (Inr ())))))"

definition can_place_at ::
  "inventory_grid \<Rightarrow> grid_slot \<Rightarrow> inventory_dimensions \<Rightarrow> item_rotation \<Rightarrow> u128 option
     \<Rightarrow> (grid_error + unit) option" where
  "can_place_at g origin dims rot ignore =
     (let eff = oriented dims rot
      in if ig_columns g < saturating_add (gs_x origin) (dim_width eff) \<or>
            ig_rows g < saturating_add (gs_y origin) (dim_height eff)
         then Some (Inl OutOfBounds)
         else for_loop (\<lambda>dy. for_loop (check_cell g origin ignore dy) (word_range (dim_width eff)))
                (word_range (dim_height eff)) ())"

text \<open>The cell writes of \<open>place_item\<close> and \<open>remove_item\<close>: \<open>upd\<close> is the new content of a cell.\<close>

definition write_cell ::
  "inventory_grid \<Rightarrow> grid_slot \<Rightarrow> (u128 option \<Rightarrow> u128 option) \<Rightarrow> u8 \<Rightarrow> u8 \<Rightarrow> u128 option list
     \<Rightarrow> (grid_error + u128 option list) option" where
  "write_cell g origin upd dy dx cells =
     (case checked_add (gs_x origin) dx of None \<Rightarrow> None | Some cx \<Rightarrow>
      (case checked_add (gs_y origin) dy of None \<Rightarrow> None | Some cy \<Rightarrow>
       (case index_of g cx cy of
          None \<Rightarrow> Some (Inr cells)
        | Some i \<Rightarrow>
            if length cells \<le> i then None else Some (Inr (cells[i := upd (cells ! i)])))))"

definition write_cells ::
  "inventory_grid \<Rightarrow> grid_slot \<Rightarrow> inventory_dimensions \<Rightarrow> (u128 option \<Rightarrow> u128 option)
     \<Rightarrow> (grid_error + u128 option list) option" where
  "write_cells g origin eff upd =
     for_loop (\<lambda>dy. for_loop (write_cell g origin upd dy) (word_range (dim_width eff)))
       (word_range (dim_height eff)) (ig_cells g)"

definition place_item ::
  "inventory_grid \<Rightarrow> u128 \<Rightarrow> grid_slot \<Rightarrow> inventory_dimensions \<Rightarrow> item_rotation
     \<Rightarrow> (grid_error + inventory_grid) option" where
  "place_item g item origin dims rot =
     (case can_place_at g origin dims rot None of
        None \<Rightarrow> None
      | Some (Inl e) \<Rightarrow> Some (Inl e)
      | Some (Inr _) \<Rightarrow>
          (case write_cells g origin (oriented dims rot) (\<lambda>_. Some item) of
             None \<Rightarrow> None
           | Some (Inl e) \<Rightarrow> Some (Inl e)
           | Some (Inr cells) \<Rightarrow>
               Some (Inr (g\<lparr>ig_cells := cells,
                           ig_placements := (ig_placements g)(item \<mapsto>
                             \<lparr>gp_origin = origin, gp_rotation = rot, gp_dimensions = dims\<rparr>)\<rparr>))))"

definition remove_item :: "inventory_grid \<Rightarrow> u128 \<Rightarrow> (bool \<times> inventory_grid) option" where
  "remove_item g item =
     (case ig_placements g item of
        None \<Rightarrow> Some (False, g)
      | Some p \<Rightarrow>
          (case write_cells g (gp_origin p) (oriented (gp_dimensions p) (gp_rotation p))
                  (\<lambda>c. if c = Some item then None else c) of
             Some (Inr cells) \<Rightarrow>
               Some (True, g\<lparr>ig_cells := cells, ig_placements := (ig_placements g)(item := None)\<rparr>)
           | _ \<Rightarrow> None))"

text \<open>The item has left its old place when the second placement fails.\<close>

definition rotate_or_move ::
  "inventory_grid \<Rightarrow> u128 \<Rightarrow> grid_slot \<Rightarrow> item_rotation \<Rightarrow> ((grid_error + unit) \<times> inventory_grid) option" where
  "rotate_or_move g item origin rot =
     (case ig_placements g item of
        None \<Rightarrow> Some (Inl OutOfBounds, g)
      | Some p \<Rightarrow>
          (case can_place_at g origin (gp_dimensions p) rot (Some item) of
             None \<Rightarrow> None
           | Some (Inl e) \<Rightarrow> Some (Inl e, g)
           | Some (Inr _) \<Rightarrow>
               (case remove_item g item of
                  None \<Rightarrow> None
                | Some (_, g') \<Rightarrow>
                    (case place_item g' item origin (gp_dimensions p) rot of
                       None \<Rightarrow> None
                     | Some (Inl e) \<Rightarrow> Some (Inl e, g')
                     | Some (Inr g'') \<Rightarrow> Some (Inr (), g'')))))"

section \<open>Loops\<close>

lemma for_loop_unit:
  "for_loop body xs () = Some (Inr ()) \<longleftrightarrow> (\<forall>x\<in>set xs. body x () = Some (Inr ()))"
  by (induction xs) (auto split: option.splits sum.splits)

text \<open>A loop whose body updates the state when a state invariant holds is a fold.\<close>

lemma for_loop_fold:
  assumes "\<And>x s. x \<in> set xs \<Longrightarrow> I s \<Longrightarrow> body x s = Some (Inr (f x s)) \<and> I (f x s)" and "I s"
  shows "for_loop body xs s = Some (Inr (fold f xs s)) \<and> I (fold f xs s)"
  using assms by (induction xs arbitrary: s) auto

lemma length_fold_update: "length (fold (\<lambda>i c. c[i := g (c ! i)]) is cells) = length cells"
  by (induction "is" arbitrary: cells) simp_all

lemma nth_fold_update:
  assumes "\<And>v. g (g v) = g v" "j < length cells"
  shows "fold (\<lambda>i c. c[i := g (c ! i)]) is cells ! j = (if j \<in> set is then g (cells ! j) else cells ! j)"
  using assms(2)
proof (induction "is" arbitrary: cells)
  case (Cons a "is")
  then show ?case by (cases "a = j") (simp_all add: assms(1))
qed simp

lemma fold_fold_concat: "fold (\<lambda>x. fold f (h x)) xs s = fold f (concat (map h xs)) s"
  by (induction xs arbitrary: s) simp_all

section \<open>Geometry\<close>

text \<open>The rectangle of a placement, in natural coordinates, and the content of a cell.\<close>

definition covers :: "grid_slot \<Rightarrow> inventory_dimensions \<Rightarrow> nat \<Rightarrow> nat \<Rightarrow> bool" where
  "covers origin eff x y \<longleftrightarrow>
     unat (gs_x origin) \<le> x \<and> x < unat (gs_x origin) + unat (dim_width eff) \<and>
     unat (gs_y origin) \<le> y \<and> y < unat (gs_y origin) + unat (dim_height eff)"

definition placement_covers :: "placed_item \<Rightarrow> nat \<Rightarrow> nat \<Rightarrow> bool" where
  "placement_covers p = covers (gp_origin p) (oriented (gp_dimensions p) (gp_rotation p))"

definition in_grid :: "inventory_grid \<Rightarrow> nat \<Rightarrow> nat \<Rightarrow> bool" where
  "in_grid g x y \<longleftrightarrow> x < unat (ig_columns g) \<and> y < unat (ig_rows g)"

definition cell :: "inventory_grid \<Rightarrow> nat \<Rightarrow> nat \<Rightarrow> u128 option" where
  "cell g x y = ig_cells g ! (y * unat (ig_columns g) + x)"

definition grid_shape :: "inventory_grid \<Rightarrow> bool" where
  "grid_shape g \<longleftrightarrow> length (ig_cells g) = unat (ig_columns g) * unat (ig_rows g)"

lemma cell_index_less:
  assumes "grid_shape g" "in_grid g x y"
  shows "y * unat (ig_columns g) + x < length (ig_cells g)"
proof -
  have "y * unat (ig_columns g) + x < y * unat (ig_columns g) + unat (ig_columns g)"
    using assms(2) by (simp add: in_grid_def)
  also have "\<dots> = Suc y * unat (ig_columns g)" by simp
  also have "\<dots> \<le> unat (ig_rows g) * unat (ig_columns g)"
    using assms(2) by (intro mult_le_mono1) (simp add: in_grid_def)
  finally show ?thesis using assms(1) by (simp add: grid_shape_def mult.commute)
qed

lemma cell_index_inject:
  assumes "x < n" "x' < (n :: nat)"
  shows "y * n + x = y' * n + x' \<longleftrightarrow> x = x' \<and> y = y'"
proof
  assume eq: "y * n + x = y' * n + x'"
  then have "(y * n + x) mod n = (y' * n + x') mod n" by simp
  then have "x = x'" using assms by simp
  with eq assms show "x = x' \<and> y = y'" by auto
qed simp

lemma index_of_Some: "index_of g x y = Some i \<longleftrightarrow>
    in_grid g (unat x) (unat y) \<and> i = unat y * unat (ig_columns g) + unat x"
  by (auto simp: index_of_def in_grid_def word_le_nat_alt)

lemma u8_checked_add:
  "unat (a :: u8) + unat b < 256 \<Longrightarrow> \<exists>c. checked_add a b = Some c \<and> unat c = unat a + unat b"
  by (simp add: checked_add_def unat_add_fits)

lemma in_grid_u8: "in_grid g x y \<Longrightarrow> x < 256 \<and> y < 256"
  using unsigned_less [of "ig_columns g", where ?'a = nat] unsigned_less [of "ig_rows g", where ?'a = nat]
  by (simp add: in_grid_def)

text \<open>One iteration of each loop, at a cell inside the grid and elsewhere.\<close>

lemma check_cell_Inr:
  assumes "grid_shape g"
  shows "check_cell g origin ignore dy dx s = Some (Inr ()) \<longleftrightarrow>
    (let x = unat (gs_x origin) + unat dx; y = unat (gs_y origin) + unat dy
     in in_grid g x y \<and> (cell g x y = None \<or> cell g x y = ignore))"
proof (cases "in_grid g (unat (gs_x origin) + unat dx) (unat (gs_y origin) + unat dy)")
  case True
  let ?x = "unat (gs_x origin) + unat dx" and ?y = "unat (gs_y origin) + unat dy"
  obtain cx cy where "checked_add (gs_x origin) dx = Some cx" "checked_add (gs_y origin) dy = Some cy"
    and c: "unat cx = ?x" "unat cy = ?y"
    using in_grid_u8 [OF True] u8_checked_add by blast
  moreover have "index_of g cx cy = Some (?y * unat (ig_columns g) + ?x)"
    using True by (simp add: index_of_Some c)
  moreover have "?y * unat (ig_columns g) + ?x < length (ig_cells g)"
    by (rule cell_index_less [OF assms True])
  ultimately show ?thesis
    using True by (auto simp: check_cell_def Let_def cell_def split: option.splits)
next
  case False
  have "index_of g cx cy = None" if "checked_add (gs_x origin) dx = Some cx"
    "checked_add (gs_y origin) dy = Some cy" for cx cy
    using False that index_of_Some [of g cx cy] by (cases "index_of g cx cy") (auto simp: machine_arith)
  with False show ?thesis by (auto simp: check_cell_def Let_def split: option.splits)
qed

lemma write_cell_Inr:
  assumes "length cells = unat (ig_columns g) * unat (ig_rows g)"
    and "in_grid g (unat (gs_x origin) + unat dx) (unat (gs_y origin) + unat dy)"
  shows "write_cell g origin upd dy dx cells = Some (Inr
    (let i = (unat (gs_y origin) + unat dy) * unat (ig_columns g) + (unat (gs_x origin) + unat dx)
     in cells[i := upd (cells ! i)]))"
proof -
  let ?x = "unat (gs_x origin) + unat dx" and ?y = "unat (gs_y origin) + unat dy"
  obtain cx cy where "checked_add (gs_x origin) dx = Some cx" "checked_add (gs_y origin) dy = Some cy"
    and c: "unat cx = ?x" "unat cy = ?y"
    using in_grid_u8 [OF assms(2)] u8_checked_add by blast
  moreover have "index_of g cx cy = Some (?y * unat (ig_columns g) + ?x)"
    using assms(2) by (simp add: index_of_Some c)
  moreover have "?y * unat (ig_columns g) + ?x < length cells"
    using cell_index_less [of "g\<lparr>ig_cells := cells\<rparr>"] assms
    by (simp add: grid_shape_def in_grid_def)
  ultimately show ?thesis by (simp add: write_cell_def Let_def)
qed

lemma covers_loop:
  "(\<forall>x y. covers origin eff x y \<longrightarrow> P x y) \<longleftrightarrow>
   (\<forall>dy\<in>set (word_range (dim_height eff)). \<forall>dx\<in>set (word_range (dim_width eff)).
      P (unat (gs_x origin) + unat dx) (unat (gs_y origin) + unat dy))"
proof
  assume P: "\<forall>dy\<in>set (word_range (dim_height eff)). \<forall>dx\<in>set (word_range (dim_width eff)).
      P (unat (gs_x origin) + unat dx) (unat (gs_y origin) + unat dy)"
  show "\<forall>x y. covers origin eff x y \<longrightarrow> P x y"
  proof (intro allI impI)
    fix x y
    assume c: "covers origin eff x y"
    have off: "\<exists>d :: u8. d < w \<and> unat d = n" if "n < unat w" for n and w :: u8
    proof -
      have "n < 256" using that unsigned_less [of w, where ?'a = nat] by simp
      then have "unat (of_nat n :: u8) = n" by (simp add: unat_of_nat take_bit_nat_eq_self)
      with that show ?thesis by (metis word_less_nat_alt)
    qed
    from c have "x - unat (gs_x origin) < unat (dim_width eff)"
      "y - unat (gs_y origin) < unat (dim_height eff)" unfolding covers_def by linarith+
    then obtain dx dy where "dx < dim_width eff" "unat dx = x - unat (gs_x origin)"
      "dy < dim_height eff" "unat dy = y - unat (gs_y origin)"
      using off by metis
    moreover from c have "unat (gs_x origin) \<le> x" "unat (gs_y origin) \<le> y"
      by (simp_all add: covers_def)
    ultimately show "P x y" using P by fastforce
  qed
next
  assume "\<forall>x y. covers origin eff x y \<longrightarrow> P x y"
  then show "\<forall>dy\<in>set (word_range (dim_height eff)). \<forall>dx\<in>set (word_range (dim_width eff)).
      P (unat (gs_x origin) + unat dx) (unat (gs_y origin) + unat dy)"
    by (auto simp: covers_def word_less_nat_alt)
qed

section \<open>Placement checks\<close>

definition within_bounds :: "inventory_grid \<Rightarrow> grid_slot \<Rightarrow> inventory_dimensions \<Rightarrow> bool" where
  "within_bounds g origin eff \<longleftrightarrow>
     saturating_add (gs_x origin) (dim_width eff) \<le> ig_columns g \<and>
     saturating_add (gs_y origin) (dim_height eff) \<le> ig_rows g"

lemma can_place_at_iff:
  assumes "grid_shape g"
  shows "can_place_at g origin dims rot ignore = Some (Inr ()) \<longleftrightarrow>
    within_bounds g origin (oriented dims rot) \<and>
    (\<forall>x y. covers origin (oriented dims rot) x y \<longrightarrow>
       in_grid g x y \<and> (cell g x y = None \<or> cell g x y = ignore))"
  unfolding covers_loop
  by (auto simp: can_place_at_def Let_def for_loop_unit check_cell_Inr [OF assms] within_bounds_def
      simp del: set_word_range simp flip: not_less)

text \<open>The check never panics: a coordinate leaves the grid before its addition overflows.\<close>

lemma check_row_total:
  assumes "grid_shape g" "unat (gs_y origin) + unat dy < 256"
    and "unat (gs_x origin) + a < 256" "n < 256"
  shows "for_loop (check_cell g origin ignore dy) (map of_nat [a..<n]) () \<noteq> None"
  using assms(3)
proof (induction "n - a" arbitrary: a)
  case (Suc k)
  then have an: "a < n" by simp
  then have row: "map of_nat [a..<n] = (of_nat a :: u8) # map of_nat [Suc a..<n]"
    by (simp add: upt_conv_Cons)
  have a: "unat (of_nat a :: u8) = a" using an assms(4) by (simp add: unat_of_nat take_bit_nat_eq_self)
  obtain cx cy where c: "checked_add (gs_x origin) (of_nat a) = Some cx" "unat cx = unat (gs_x origin) + a"
    "checked_add (gs_y origin) dy = Some cy" "unat cy = unat (gs_y origin) + unat dy"
    using u8_checked_add [of "gs_x origin" "of_nat a"] u8_checked_add [of "gs_y origin" dy]
      Suc.prems assms(2) a by auto
  show ?case
  proof (cases "check_cell g origin ignore dy (of_nat a) ()")
    case None
    have "\<not> length (ig_cells g) \<le> i" if "index_of g cx cy = Some i" for i
      using that cell_index_less [OF assms(1)] by (auto simp: index_of_Some not_le)
    with None c show ?thesis by (auto simp: check_cell_def split: option.splits if_splits)
  next
    case (Some r)
    show ?thesis
    proof (cases r)
      case (Inr u)
      with Some have "check_cell g origin ignore dy (of_nat a) () = Some (Inr ())" by simp
      then have "unat (gs_x origin) + a < unat (ig_columns g)"
        by (simp add: check_cell_Inr [OF assms(1)] Let_def in_grid_def a)
      then have "unat (gs_x origin) + Suc a < 256"
        using unsigned_less [of "ig_columns g", where ?'a = nat] by simp
      moreover have "k = n - Suc a" using Suc.hyps(2) by simp
      ultimately have "for_loop (check_cell g origin ignore dy) (map of_nat [Suc a..<n]) () \<noteq> None"
        using Suc.hyps(1) by blast
      with Some Inr row show ?thesis by simp
    qed (use Some row in simp)
  qed
qed simp

lemma check_row_in_grid:
  assumes "grid_shape g" "for_loop (check_cell g origin ignore dy) xs () = Some (Inr ())" "xs \<noteq> []"
  shows "unat (gs_y origin) + unat dy < unat (ig_rows g)"
proof -
  from assms(3) obtain dx where "dx \<in> set xs" by (cases xs) auto
  with assms(2) have "check_cell g origin ignore dy dx () = Some (Inr ())" by (simp add: for_loop_unit)
  then show ?thesis by (simp add: check_cell_Inr [OF assms(1)] Let_def in_grid_def)
qed

lemma check_rows_total:
  assumes "grid_shape g" "unat (gs_y origin) + b < 256" "n < 256"
  shows "for_loop (\<lambda>dy. for_loop (check_cell g origin ignore dy) (word_range w)) (map of_nat [b..<n]) () \<noteq> None"
  using assms(2)
proof (induction "n - b" arbitrary: b)
  case (Suc k)
  then have bn: "b < n" by simp
  then have rows: "map of_nat [b..<n] = (of_nat b :: u8) # map of_nat [Suc b..<n]"
    by (simp add: upt_conv_Cons)
  have b: "unat (of_nat b :: u8) = b" using bn assms(3) by (simp add: unat_of_nat take_bit_nat_eq_self)
  have row: "for_loop (check_cell g origin ignore (of_nat b)) (word_range w) () \<noteq> None"
    using check_row_total [OF assms(1), of origin "of_nat b" 0 "unat w"] Suc.prems b
      unsigned_less [of "gs_x origin", where ?'a = nat] unsigned_less [of w, where ?'a = nat]
    by (simp add: word_range_def)
  show ?case
  proof (cases "word_range w = []")
    case True
    have "for_loop (\<lambda>dy. for_loop (check_cell g origin ignore dy) (word_range w)) ds () = Some (Inr ())" for ds
      by (simp add: for_loop_unit True)
    then show ?thesis by simp
  next
    case False
    obtain r where r: "for_loop (check_cell g origin ignore (of_nat b)) (word_range w) () = Some r"
      using row by blast
    show ?thesis
    proof (cases r)
      case (Inr u)
      then have "unat (gs_y origin) + b < unat (ig_rows g)"
        using check_row_in_grid [OF assms(1) _ False] r b by fastforce
      then have "unat (gs_y origin) + Suc b < 256"
        using unsigned_less [of "ig_rows g", where ?'a = nat] by simp
      moreover have "k = n - Suc b" using Suc.hyps(2) by simp
      ultimately show ?thesis using Suc.hyps(1) rows r Inr by simp
    qed (use r rows in simp)
  qed
qed simp

lemma can_place_at_total:
  assumes "grid_shape g"
  shows "can_place_at g origin dims rot ignore \<noteq> None"
  using check_rows_total [OF assms, of origin 0 "unat (dim_height (oriented dims rot))"]
    unsigned_less [of "gs_y origin", where ?'a = nat]
    unsigned_less [of "dim_height (oriented dims rot)", where ?'a = nat]
  by (simp add: can_place_at_def Let_def word_range_def)

section \<open>Cell writes\<close>

lemma write_cells_Some:
  assumes shape: "grid_shape g" and inside: "\<And>x y. covers origin eff x y \<Longrightarrow> in_grid g x y"
    and idem: "\<And>v. upd (upd v) = upd v"
  obtains cells where "write_cells g origin eff upd = Some (Inr cells)"
    "length cells = length (ig_cells g)"
    "\<And>x y. in_grid g x y \<Longrightarrow> cells ! (y * unat (ig_columns g) + x) =
       (if covers origin eff x y then upd (cell g x y) else cell g x y)"
proof -
  let ?I = "\<lambda>c. length c = unat (ig_columns g) * unat (ig_rows g)"
  let ?up = "\<lambda>i (c :: u128 option list). c[i := upd (c ! i)]"
  let ?i = "\<lambda>dy dx. (unat (gs_y origin) + unat dy) * unat (ig_columns g) + (unat (gs_x origin) + unat (dx :: u8))"
  let ?ws = "word_range (dim_width eff)" and ?hs = "word_range (dim_height eff)"
  let ?is = "concat (map (\<lambda>dy. map (?i dy) ?ws) ?hs)"
  have loop: "\<forall>dy\<in>set ?hs. \<forall>dx\<in>set ?ws.
      in_grid g (unat (gs_x origin) + unat dx) (unat (gs_y origin) + unat dy)"
    using inside covers_loop [of origin eff "in_grid g"] by blast
  have row: "for_loop (write_cell g origin upd dy) ?ws c = Some (Inr (fold (\<lambda>dx. ?up (?i dy dx)) ?ws c)) \<and>
      ?I (fold (\<lambda>dx. ?up (?i dy dx)) ?ws c)" if "dy \<in> set ?hs" "?I c" for dy c
  proof (rule for_loop_fold [where I = ?I])
    fix dx and c :: "u128 option list"
    assume "dx \<in> set ?ws" "?I c"
    with loop that(1) show "write_cell g origin upd dy dx c = Some (Inr (?up (?i dy dx) c)) \<and>
        ?I (?up (?i dy dx) c)"
      using write_cell_Inr [of c g origin dx dy upd] by (simp add: Let_def)
  qed (rule that(2))
  have "?I (ig_cells g)" using shape by (simp add: grid_shape_def)
  then have "for_loop (\<lambda>dy. for_loop (write_cell g origin upd dy) ?ws) ?hs (ig_cells g) =
      Some (Inr (fold (\<lambda>dy. fold (\<lambda>dx. ?up (?i dy dx)) ?ws) ?hs (ig_cells g))) \<and>
      ?I (fold (\<lambda>dy. fold (\<lambda>dx. ?up (?i dy dx)) ?ws) ?hs (ig_cells g))"
    by (intro for_loop_fold [where I = ?I] row)
  then have w: "write_cells g origin eff upd =
      Some (Inr (fold (\<lambda>dy. fold (\<lambda>dx. ?up (?i dy dx)) ?ws) ?hs (ig_cells g)))"
    unfolding write_cells_def by blast
  have "fold (\<lambda>dy. fold (\<lambda>dx. ?up (?i dy dx)) ?ws) ?hs (ig_cells g) = fold ?up ?is (ig_cells g)"
    by (simp add: fold_fold_concat [symmetric] fold_map comp_def)
  with w have w: "write_cells g origin eff upd = Some (Inr (fold ?up ?is (ig_cells g)))" by simp
  show ?thesis
  proof (rule that [OF w])
    fix x y
    assume xy: "in_grid g x y"
    let ?j = "y * unat (ig_columns g) + x"
    have "?j \<in> set ?is \<longleftrightarrow> covers origin eff x y"
    proof
      assume "?j \<in> set ?is"
      then obtain dx dy where d: "dx \<in> set ?ws" "dy \<in> set ?hs" "?j = ?i dy dx" by auto
      then have "x = unat (gs_x origin) + unat dx \<and> y = unat (gs_y origin) + unat dy"
        using xy loop cell_index_inject [of x "unat (ig_columns g)"] by (auto simp: in_grid_def)
      with d show "covers origin eff x y" by (simp add: covers_def word_less_nat_alt)
    next
      have "\<forall>x y. covers origin eff x y \<longrightarrow> y * unat (ig_columns g) + x \<in> set ?is"
        unfolding covers_loop by auto
      then show "?j \<in> set ?is" if "covers origin eff x y" using that by blast
    qed
    then show "fold ?up ?is (ig_cells g) ! ?j = (if covers origin eff x y then upd (cell g x y) else cell g x y)"
      using nth_fold_update [of upd, OF idem cell_index_less [OF shape xy]] by (simp add: cell_def)
  qed (rule length_fold_update)
qed

section \<open>Invariant\<close>

text \<open>The cells and the placements describe the same layout: a cell holds an item exactly when
  the item's rectangle covers it. In particular two placements never overlap.\<close>

definition grid_inv :: "inventory_grid \<Rightarrow> bool" where
  "grid_inv g \<longleftrightarrow> grid_shape g \<and>
     (\<forall>item p x y. ig_placements g item = Some p \<longrightarrow> placement_covers p x y \<longrightarrow> in_grid g x y) \<and>
     (\<forall>item x y. in_grid g x y \<longrightarrow> (cell g x y = Some item \<longleftrightarrow>
        (\<exists>p. ig_placements g item = Some p \<and> placement_covers p x y)))"

lemma grid_invD:
  assumes "grid_inv g"
  shows "grid_shape g"
    and "ig_placements g item = Some p \<Longrightarrow> placement_covers p x y \<Longrightarrow> in_grid g x y"
    and "in_grid g x y \<Longrightarrow> cell g x y = Some item \<longleftrightarrow>
      (\<exists>p. ig_placements g item = Some p \<and> placement_covers p x y)"
  using assms by (auto simp: grid_inv_def)

lemma grid_inv_disjoint:
  assumes "grid_inv g" "ig_placements g a = Some p" "ig_placements g b = Some q"
    "placement_covers p x y" "placement_covers q x y"
  shows "a = b"
proof -
  have "in_grid g x y" by (rule grid_invD(2) [OF assms(1,2,4)])
  with grid_invD(3) [OF assms(1)] assms(2-5) have "cell g x y = Some a" "cell g x y = Some b" by blast+
  then show ?thesis by simp
qed

lemma grid_new_inv: "grid_inv (grid_new columns rows)"
proof -
  have "cell (grid_new columns rows) x y = None" if "in_grid (grid_new columns rows) x y" for x y
    using that cell_index_less [of "grid_new columns rows" x y]
    by (simp add: cell_def grid_new_def grid_shape_def)
  then show ?thesis by (simp add: grid_inv_def grid_shape_def grid_new_def)
qed

lemma place_item_cases:
  assumes "grid_shape g"
  obtains (refused) e where "can_place_at g origin dims rot None = Some (Inl e)"
      "place_item g item origin dims rot = Some (Inl e)"
  | (placed) g' where "can_place_at g origin dims rot None = Some (Inr ())"
      "place_item g item origin dims rot = Some (Inr g')" "grid_shape g'"
      "ig_columns g' = ig_columns g" "ig_rows g' = ig_rows g"
      "ig_placements g' = (ig_placements g)(item \<mapsto>
         \<lparr>gp_origin = origin, gp_rotation = rot, gp_dimensions = dims\<rparr>)"
      "\<And>x y. in_grid g x y \<Longrightarrow> cell g' x y =
         (if covers origin (oriented dims rot) x y then Some item else cell g x y)"
proof (cases "can_place_at g origin dims rot None")
  case None
  with can_place_at_total [OF assms] show ?thesis by blast
next
  case (Some r)
  show ?thesis
  proof (cases r)
    case (Inl e)
    with Some refused show ?thesis by (simp add: place_item_def)
  next
    case (Inr u)
    with Some have can: "can_place_at g origin dims rot None = Some (Inr ())" by simp
    then have "covers origin (oriented dims rot) x y \<Longrightarrow> in_grid g x y" for x y
      by (simp add: can_place_at_iff [OF assms])
    from write_cells_Some [of g origin "oriented dims rot" "\<lambda>_. Some item", OF assms this]
    obtain cells where cells: "write_cells g origin (oriented dims rot) (\<lambda>_. Some item) = Some (Inr cells)"
      "length cells = length (ig_cells g)"
      "\<And>x y. in_grid g x y \<Longrightarrow> cells ! (y * unat (ig_columns g) + x) =
         (if covers origin (oriented dims rot) x y then Some item else cell g x y)" by blast
    let ?g = "g\<lparr>ig_cells := cells, ig_placements := (ig_placements g)(item \<mapsto>
      \<lparr>gp_origin = origin, gp_rotation = rot, gp_dimensions = dims\<rparr>)\<rparr>"
    show ?thesis
    proof (rule placed [OF can, of ?g])
      show "place_item g item origin dims rot = Some (Inr ?g)"
        using can cells(1) by (simp add: place_item_def)
      show "cell ?g x y = (if covers origin (oriented dims rot) x y then Some item else cell g x y)"
        if "in_grid g x y" for x y using cells(3) [OF that] by (simp add: cell_def)
    qed (use assms cells(2) in \<open>simp_all add: grid_shape_def\<close>)
  qed
qed

lemma place_item_inv:
  assumes inv: "grid_inv g" and fresh: "ig_placements g item = None"
    and place: "place_item g item origin dims rot = Some (Inr g')"
  shows "grid_inv g'"
  using grid_invD(1) [OF inv]
proof (cases rule: place_item_cases [where origin = origin and dims = dims and rot = rot and item = item])
  case (placed g1)
  then have g': "g' = g1" using place by simp
  have inside: "in_grid g1 x y \<longleftrightarrow> in_grid g x y" for x y by (simp add: in_grid_def placed)
  have free: "in_grid g x y \<and> cell g x y = None" if "covers origin (oriented dims rot) x y" for x y
    using placed(1) that by (simp add: can_place_at_iff [OF grid_invD(1) [OF inv]])
  have new: "placement_covers \<lparr>gp_origin = origin, gp_rotation = rot, gp_dimensions = dims\<rparr> x y \<longleftrightarrow>
    covers origin (oriented dims rot) x y" for x y by (simp add: placement_covers_def)
  have "cell g1 x y = Some i \<longleftrightarrow> (\<exists>p. ig_placements g1 i = Some p \<and> placement_covers p x y)"
    if xy: "in_grid g x y" for i x y
  proof (cases "i = item")
    case True
    then show ?thesis using grid_invD(3) [OF inv xy, of item] fresh
      by (auto simp: placed(6) placed(7) [OF xy] new)
  next
    case False
    then show ?thesis using grid_invD(3) [OF inv xy, of i] free [of x y]
      by (auto simp: placed(6) placed(7) [OF xy])
  qed
  moreover have "in_grid g x y" if "ig_placements g1 i = Some p" "placement_covers p x y" for i p x y
    using that free grid_invD(2) [OF inv] by (auto simp: placed(6) new split: if_splits)
  ultimately show ?thesis using placed(3) by (simp add: grid_inv_def g' inside)
qed (use place in simp)

lemma remove_item_absent: "ig_placements g item = None \<Longrightarrow> remove_item g item = Some (False, g)"
  by (simp add: remove_item_def)

lemma remove_item_present:
  assumes inv: "grid_inv g" and p: "ig_placements g item = Some p"
  obtains g' where "remove_item g item = Some (True, g')" "grid_inv g'"
    "ig_columns g' = ig_columns g" "ig_rows g' = ig_rows g"
    "ig_placements g' = (ig_placements g)(item := None)"
    "\<And>x y. in_grid g x y \<Longrightarrow> cell g' x y = (if cell g x y = Some item then None else cell g x y)"
proof -
  let ?eff = "oriented (gp_dimensions p) (gp_rotation p)"
  let ?upd = "\<lambda>c. if c = Some item then None else c"
  have cov: "covers (gp_origin p) ?eff x y \<longleftrightarrow> placement_covers p x y" for x y
    by (simp add: placement_covers_def)
  have "covers (gp_origin p) ?eff x y \<Longrightarrow> in_grid g x y" for x y
    using grid_invD(2) [OF inv p] by (simp add: cov)
  moreover have "?upd (?upd v) = ?upd v" for v by simp
  ultimately obtain cells where cells: "write_cells g (gp_origin p) ?eff ?upd = Some (Inr cells)"
    "length cells = length (ig_cells g)"
    "\<And>x y. in_grid g x y \<Longrightarrow> cells ! (y * unat (ig_columns g) + x) =
       (if covers (gp_origin p) ?eff x y then ?upd (cell g x y) else cell g x y)"
    using write_cells_Some [of g "gp_origin p" ?eff ?upd, OF grid_invD(1) [OF inv]] by blast
  let ?g = "g\<lparr>ig_cells := cells, ig_placements := (ig_placements g)(item := None)\<rparr>"
  have rem: "remove_item g item = Some (True, ?g)" using cells(1) by (simp add: remove_item_def p)
  have "cell g x y = Some item \<longleftrightarrow> placement_covers p x y" if "in_grid g x y" for x y
    using grid_invD(3) [OF inv that, of item] by (simp add: p)
  then have c: "cell ?g x y = ?upd (cell g x y)" if "in_grid g x y" for x y
    using cells(3) [OF that] that by (auto simp: cell_def cov)
  have inside: "in_grid ?g x y \<longleftrightarrow> in_grid g x y" for x y by (simp add: in_grid_def)
  have "cell ?g x y = Some i \<longleftrightarrow> (\<exists>q. ig_placements ?g i = Some q \<and> placement_covers q x y)"
    if xy: "in_grid g x y" for i x y
    using grid_invD(3) [OF inv xy, of i] by (auto simp: c [OF xy])
  moreover have "in_grid g x y" if "ig_placements ?g i = Some q" "placement_covers q x y" for i q x y
    using that grid_invD(2) [OF inv] by (auto split: if_splits)
  moreover have "grid_shape ?g" using grid_invD(1) [OF inv] cells(2) by (simp add: grid_shape_def)
  ultimately have "grid_inv ?g" by (simp add: grid_inv_def inside)
  from that [OF rem this] c show ?thesis by simp
qed

text \<open>Moving an item checks the new place with the item's own cells ignored, then removes and
  places it; the second check repeats the first one on the emptied grid, so no item is lost.\<close>

lemma rotate_or_move_cases:
  assumes inv: "grid_inv g"
  obtains (unknown) "ig_placements g item = None" "rotate_or_move g item origin rot = Some (Inl OutOfBounds, g)"
  | (refused) p e where "ig_placements g item = Some p"
      "can_place_at g origin (gp_dimensions p) rot (Some item) = Some (Inl e)"
      "rotate_or_move g item origin rot = Some (Inl e, g)"
  | (moved) p g' where "ig_placements g item = Some p"
      "can_place_at g origin (gp_dimensions p) rot (Some item) = Some (Inr ())"
      "rotate_or_move g item origin rot = Some (Inr (), g')" "grid_inv g'"
      "ig_placements g' = (ig_placements g)(item \<mapsto>
         \<lparr>gp_origin = origin, gp_rotation = rot, gp_dimensions = gp_dimensions p\<rparr>)"
proof (cases "ig_placements g item")
  case None
  with unknown show ?thesis by (simp add: rotate_or_move_def)
next
  case (Some p)
  note shape = grid_invD(1) [OF inv]
  show ?thesis
  proof (cases "can_place_at g origin (gp_dimensions p) rot (Some item)")
    case None
    with can_place_at_total [OF shape] show ?thesis by blast
  next
    case check: (Some r)
    show ?thesis
    proof (cases r)
      case (Inl e)
      with check Some refused show ?thesis by (simp add: rotate_or_move_def)
    next
      case (Inr u)
      with check have can: "can_place_at g origin (gp_dimensions p) rot (Some item) = Some (Inr ())" by simp
      from remove_item_present [OF inv Some] obtain g1 where g1:
        "remove_item g item = Some (True, g1)" "grid_inv g1" "ig_columns g1 = ig_columns g"
        "ig_rows g1 = ig_rows g" "ig_placements g1 = (ig_placements g)(item := None)"
        "\<And>x y. in_grid g x y \<Longrightarrow> cell g1 x y = (if cell g x y = Some item then None else cell g x y)"
        by blast
      have can1: "can_place_at g1 origin (gp_dimensions p) rot None = Some (Inr ())"
        using can g1(3,4,6) by (auto simp: can_place_at_iff [OF shape]
          can_place_at_iff [OF grid_invD(1) [OF g1(2)]] within_bounds_def in_grid_def)
      from grid_invD(1) [OF g1(2)] obtain g' where
        place: "place_item g1 item origin (gp_dimensions p) rot = Some (Inr g')"
        and pl: "ig_placements g' = (ig_placements g1)(item \<mapsto>
          \<lparr>gp_origin = origin, gp_rotation = rot, gp_dimensions = gp_dimensions p\<rparr>)"
        using can1 by (cases rule: place_item_cases
          [where origin = origin and dims = "gp_dimensions p" and rot = rot and item = item]) auto
      have "grid_inv g'" using place_item_inv [OF g1(2) _ place] g1(5) by simp
      then show ?thesis
        using moved [OF Some can] Some can g1(1,5) place pl by (simp add: rotate_or_move_def)
    qed
  qed
qed

section \<open>The grid as a machine\<close>

text \<open>Any calls of the operations, an item that is placed already included.\<close>

datatype grid_op =
  GridPlace u128 grid_slot inventory_dimensions item_rotation
| GridRemove u128
| GridMove u128 grid_slot item_rotation

fun grid_step :: "inventory_grid \<Rightarrow> grid_op \<Rightarrow> inventory_grid" where
  "grid_step g (GridPlace item origin dims rot) =
     (case place_item g item origin dims rot of Some (Inr g') \<Rightarrow> g' | _ \<Rightarrow> g)"
| "grid_step g (GridRemove item) = (case remove_item g item of None \<Rightarrow> g | Some (_, g') \<Rightarrow> g')"
| "grid_step g (GridMove item origin rot) =
     (case rotate_or_move g item origin rot of None \<Rightarrow> g | Some (_, g') \<Rightarrow> g')"

text \<open>
  Placing an item a second time leaves its old cells behind, so a cell may hold an item that is elsewhere. What no call
  breaks: the cells a placement covers are in the grid and hold its item.
\<close>

definition layout_inv :: "inventory_grid \<Rightarrow> bool" where
  "layout_inv g \<longleftrightarrow> grid_shape g \<and>
     (\<forall>item p x y. ig_placements g item = Some p \<longrightarrow> placement_covers p x y \<longrightarrow> in_grid g x y \<and> cell g x y = Some item)"

lemma layout_invD:
  "layout_inv g \<Longrightarrow> grid_shape g"
  "layout_inv g \<Longrightarrow> ig_placements g item = Some p \<Longrightarrow> placement_covers p x y \<Longrightarrow> in_grid g x y \<and> cell g x y = Some item"
  by (auto simp: layout_inv_def)

lemma grid_new_layout: "layout_inv (grid_new columns rows)"
  using grid_invD(1) [OF grid_new_inv] by (simp add: layout_inv_def grid_new_def)

lemma place_item_layout:
  assumes inv: "layout_inv g"
  obtains (Refused) e where "place_item g item origin dims rot = Some (Inl e)"
  | (Placed) g' where "place_item g item origin dims rot = Some (Inr g')" "layout_inv g'"
  using layout_invD(1) [OF inv]
proof (cases rule: place_item_cases [where origin = origin and dims = dims and rot = rot and item = item])
  case (refused e)
  with Refused show thesis by blast
next
  case (placed g1)
  have inside: "in_grid g1 x y \<longleftrightarrow> in_grid g x y" for x y by (simp add: in_grid_def placed)
  have free: "in_grid g x y \<and> cell g x y = None" if "covers origin (oriented dims rot) x y" for x y
    using placed(1) that by (simp add: can_place_at_iff [OF layout_invD(1) [OF inv]])
  have "in_grid g1 x y \<and> cell g1 x y = Some i" if "ig_placements g1 i = Some p" "placement_covers p x y" for i p x y
  proof (cases "i = item")
    case True
    with that(1) placed(6) have "p = \<lparr>gp_origin = origin, gp_rotation = rot, gp_dimensions = dims\<rparr>" by simp
    with that(2) have "covers origin (oriented dims rot) x y" by (simp add: placement_covers_def)
    with free [OF this] True show ?thesis by (simp add: inside placed(7))
  next
    case False
    with that placed(6) layout_invD(2) [OF inv] have c: "in_grid g x y" "cell g x y = Some i" by auto
    with free [of x y] have "\<not> covers origin (oriented dims rot) x y" by auto
    with c show ?thesis by (simp add: inside placed(7))
  qed
  with placed(3) have "layout_inv g1" by (simp add: layout_inv_def)
  with placed(2) Placed show thesis by blast
qed

lemma remove_item_layout:
  assumes inv: "layout_inv g"
  obtains removed g' where "remove_item g item = Some (removed, g')" "layout_inv g'"
proof (cases "ig_placements g item")
  case None
  show thesis by (rule that [OF remove_item_absent [OF None] inv])
next
  case (Some p)
  let ?eff = "oriented (gp_dimensions p) (gp_rotation p)"
  let ?upd = "\<lambda>c. if c = Some item then None else c"
  have "covers (gp_origin p) ?eff x y \<Longrightarrow> in_grid g x y" for x y
    using layout_invD(2) [OF inv Some, of x y] by (simp add: placement_covers_def)
  moreover have "?upd (?upd v) = ?upd v" for v by simp
  ultimately obtain cells where cells: "write_cells g (gp_origin p) ?eff ?upd = Some (Inr cells)"
    "length cells = length (ig_cells g)"
    "\<And>x y. in_grid g x y \<Longrightarrow> cells ! (y * unat (ig_columns g) + x) =
       (if covers (gp_origin p) ?eff x y then ?upd (cell g x y) else cell g x y)"
    using write_cells_Some [of g "gp_origin p" ?eff ?upd, OF layout_invD(1) [OF inv]] by blast
  let ?g = "g\<lparr>ig_cells := cells, ig_placements := (ig_placements g)(item := None)\<rparr>"
  have "in_grid ?g x y \<and> cell ?g x y = Some i" if q: "ig_placements ?g i = Some q" "placement_covers q x y" for i q x y
  proof -
    from q(1) have ne: "i \<noteq> item" "ig_placements g i = Some q" by (auto split: if_splits)
    from layout_invD(2) [OF inv ne(2) q(2)] have c: "in_grid g x y" "cell g x y = Some i" by simp_all
    then have "cell ?g x y = Some i" using cells(3) [OF c(1)] ne(1) by (simp add: cell_def)
    with c(1) show ?thesis by (simp add: in_grid_def)
  qed
  moreover have "grid_shape ?g" using layout_invD(1) [OF inv] cells(2) by (simp add: grid_shape_def)
  ultimately have "layout_inv ?g" by (simp add: layout_inv_def)
  with that cells(1) Some show thesis by (simp add: remove_item_def)
qed

lemma rotate_or_move_layout:
  assumes inv: "layout_inv g"
  obtains r g' where "rotate_or_move g item origin rot = Some (r, g')" "layout_inv g'"
proof (cases "ig_placements g item")
  case None
  with inv that show thesis by (simp add: rotate_or_move_def)
next
  case (Some p)
  note shape = layout_invD(1) [OF inv]
  obtain c where c: "can_place_at g origin (gp_dimensions p) rot (Some item) = Some c"
    using can_place_at_total [OF shape] by blast
  show thesis
  proof (cases c)
    case (Inl e)
    with Some c inv that show thesis by (simp add: rotate_or_move_def)
  next
    case (Inr u)
    obtain removed g1 where g1: "remove_item g item = Some (removed, g1)" "layout_inv g1" by (rule remove_item_layout [OF inv])
    from g1(2) show thesis
    proof (cases rule: place_item_layout [where item = item and origin = origin and dims = "gp_dimensions p" and rot = rot])
      case (Refused e)
      with Some c Inr g1 that show thesis by (simp add: rotate_or_move_def)
    next
      case (Placed g')
      with Some c Inr g1(1) that show thesis by (simp add: rotate_or_move_def)
    qed
  qed
qed

lemma grid_step_layout:
  assumes "layout_inv g"
  shows "layout_inv (grid_step g op)"
proof (cases op)
  case (GridPlace item origin dims rot)
  from assms show ?thesis
    by (cases rule: place_item_layout [where item = item and origin = origin and dims = dims and rot = rot])
      (use assms GridPlace in simp_all)
next
  case (GridRemove item)
  from assms show ?thesis
    by (rule remove_item_layout [where item = item]) (simp add: GridRemove)
next
  case (GridMove item origin rot)
  from assms show ?thesis
    by (rule rotate_or_move_layout [where item = item and origin = origin and rot = rot]) (simp add: GridMove)
qed

interpretation grid_machine: invariant_machine grid_step layout_inv
  by unfold_locales (rule grid_step_layout)

section \<open>Properties\<close>

lemma grid_run_layout: "layout_inv (foldl grid_step (grid_new columns rows) ops)"
  by (rule grid_machine.inv_run) (rule grid_new_layout)

text \<open>
  C8: after any sequence of placements, moves, rotations and removals, refused or not and with items placed twice, two
  items of an inventory never share a cell, every cell an item covers is in the grid and holds that item, and no
  operation panics.
\<close>

theorem inventory_items_disjoint:
  assumes "g = foldl grid_step (grid_new columns rows) ops"
  shows "(\<forall>a p x y. ig_placements g a = Some p \<and> placement_covers p x y \<longrightarrow> in_grid g x y \<and> cell g x y = Some a \<and>
      (\<forall>b q. ig_placements g b = Some q \<and> placement_covers q x y \<longrightarrow> b = a)) \<and>
    place_item g item origin dims rot \<noteq> None \<and> remove_item g item \<noteq> None \<and> rotate_or_move g item origin rot \<noteq> None"
proof -
  have inv: "layout_inv g" unfolding assms(1) by (rule grid_run_layout)
  have "place_item g item origin dims rot \<noteq> None" by (rule place_item_layout [OF inv]) auto
  moreover have "remove_item g item \<noteq> None" by (rule remove_item_layout [OF inv]) auto
  moreover have "rotate_or_move g item origin rot \<noteq> None" by (rule rotate_or_move_layout [OF inv]) auto
  moreover have "in_grid g x y \<and> cell g x y = Some a \<and> (\<forall>b q. ig_placements g b = Some q \<and> placement_covers q x y \<longrightarrow> b = a)"
    if placed: "ig_placements g a = Some p" "placement_covers p x y" for a p x y
  proof -
    have at: "in_grid g x y" "cell g x y = Some a" using layout_invD(2) [OF inv placed] by simp_all
    have "b = a" if "ig_placements g b = Some q" "placement_covers q x y" for b q
      using layout_invD(2) [OF inv that] at(2) by simp
    with at show ?thesis by blast
  qed
  ultimately show ?thesis by blast
qed

text \<open>
  Placing an item in a well-formed grid never panics and succeeds exactly when the oriented item is
  within the bounds and every cell it covers is empty.
\<close>

theorem place_item_exact:
  assumes "grid_inv g"
  shows "place_item g item origin dims rot \<noteq> None \<and>
    ((\<exists>g'. place_item g item origin dims rot = Some (Inr g')) \<longleftrightarrow>
      within_bounds g origin (oriented dims rot) \<and>
      (\<forall>x y. covers origin (oriented dims rot) x y \<longrightarrow> in_grid g x y \<and> cell g x y = None))"
proof -
  have shape: "grid_shape g" by (rule grid_invD(1) [OF assms])
  from can_place_at_iff [OF shape, of origin dims rot None] show ?thesis
    by (cases rule: place_item_cases [OF shape, of origin dims rot item]) auto
qed

text \<open>
  Moving or rotating a placed item never panics; it succeeds exactly when the target is free apart from
  the item itself, and then only this item's placement changes.
\<close>

theorem rotate_or_move_exact:
  assumes "grid_inv g" "ig_placements g item = Some p"
  shows "case rotate_or_move g item origin rot of
      None \<Rightarrow> False
    | Some (Inl e, g') \<Rightarrow> g' = g \<and> can_place_at g origin (gp_dimensions p) rot (Some item) = Some (Inl e)
    | Some (Inr _, g') \<Rightarrow> can_place_at g origin (gp_dimensions p) rot (Some item) = Some (Inr ()) \<and> grid_inv g' \<and>
        ig_placements g' = (ig_placements g)(item \<mapsto>
          \<lparr>gp_origin = origin, gp_rotation = rot, gp_dimensions = gp_dimensions p\<rparr>)"
  by (cases rule: rotate_or_move_cases [OF assms(1), of item origin rot]) (use assms(2) in auto)

text \<open>The grid of the witnesses: two columns, one row, item 7 in the first cell.\<close>

definition sample_grid :: inventory_grid where
  "sample_grid = foldl grid_step (grid_new 2 1)
     [GridPlace 7 \<lparr>gs_x = 0, gs_y = 0\<rparr> \<lparr>dim_width = 1, dim_height = 1\<rparr> RotNormal]"

lemma sample_grid_inv: "grid_inv sample_grid"
proof -
  let ?start = "grid_new 2 1"
  let ?placed = "place_item ?start 7 \<lparr>gs_x = 0, gs_y = 0\<rparr> \<lparr>dim_width = 1, dim_height = 1\<rparr> RotNormal"
  have start: "grid_inv ?start" by (rule grid_new_inv)
  have fresh: "ig_placements ?start 7 = None" by (simp add: grid_new_def)
  have "grid_inv (case ?placed of Some (Inr g) \<Rightarrow> g | _ \<Rightarrow> ?start)"
    using start place_item_inv [OF start fresh] by (auto split: option.split sum.split)
  then show ?thesis by (simp add: sample_grid_def)
qed

lemma sample_grid_placed: "ig_placements sample_grid 7 = Some
    \<lparr>gp_origin = \<lparr>gs_x = 0, gs_y = 0\<rparr>, gp_rotation = RotNormal, gp_dimensions = \<lparr>dim_width = 1, dim_height = 1\<rparr>\<rparr>"
  by code_simp

theorem inventory_items_disjoint_witness: "cell sample_grid 0 0 = Some 7"
  using inventory_items_disjoint [OF sample_grid_def, THEN conjunct1, rule_format, of 7 _ 0 0] sample_grid_placed
  by (simp add: placement_covers_def covers_def oriented_def)

theorem place_item_exact_witness:
  "place_item sample_grid 8 \<lparr>gs_x = 1, gs_y = 0\<rparr> \<lparr>dim_width = 1, dim_height = 1\<rparr> Rotated90 \<noteq> None"
  using place_item_exact [OF sample_grid_inv] by blast

theorem rotate_or_move_exact_witness:
  "\<exists>g'. rotate_or_move sample_grid 7 \<lparr>gs_x = 1, gs_y = 0\<rparr> RotNormal = Some (Inr (), g') \<and> grid_inv g'"
proof -
  have "map_option (is_ok \<circ> fst) (rotate_or_move sample_grid 7 \<lparr>gs_x = 1, gs_y = 0\<rparr> RotNormal) = Some True" by code_simp
  then obtain g' where "rotate_or_move sample_grid 7 \<lparr>gs_x = 1, gs_y = 0\<rparr> RotNormal = Some (Inr (), g')"
    by (auto simp: is_ok_iff)
  with rotate_or_move_exact [OF sample_grid_inv sample_grid_placed, of "\<lparr>gs_x = 1, gs_y = 0\<rparr>" RotNormal]
  show ?thesis by simp
qed

text \<open>
  Placing an item that is already placed does not take it off its old cell: the cell keeps the item after the
  item has been removed.
\<close>

lemma place_item_twice_leaves_cell:
  "(case place_item sample_grid 7 \<lparr>gs_x = 1, gs_y = 0\<rparr> \<lparr>dim_width = 1, dim_height = 1\<rparr> RotNormal of
      Some (Inr g) \<Rightarrow>
        (case remove_item g 7 of
           Some (removed, g') \<Rightarrow> removed \<and> get_placement g' 7 = None \<and> get_item_at g' \<lparr>gs_x = 0, gs_y = 0\<rparr> = Some 7
         | None \<Rightarrow> False)
    | _ \<Rightarrow> False)"
  by code_simp

end
