(* ===== verification/Float32.thy ===== *)
theory Float32
  imports Prelude
begin

text \<open>
  Rust's \<open>f32\<close>, as far as the server computes with it. Every finite value of binary32 is an integer
  multiple of \<open>2\<^sup>-\<^sup>1\<^sup>4\<^sup>9\<close> and is kept as that integer; an operation rounds its exact result to 24
  significant bits, ties to even, and to an infinity from \<open>2\<^sup>1\<^sup>2\<^sup>8\<close> on. A zero has no sign and a NaN no
  payload: no operation of the server tells them apart.
\<close>

section \<open>Rounding\<close>

text \<open>How many low bits a 24-bit significand drops.\<close>

function dropped_bits :: "int \<Rightarrow> nat" where
  "dropped_bits m = (if m < 16777216 then 0 else Suc (dropped_bits (m div 2)))"
  by pat_completeness auto
termination by (relation "measure nat") auto

declare dropped_bits.simps [simp del]

definition nearest_even :: "int \<Rightarrow> int \<Rightarrow> int" where
  "nearest_even a b =
     (let q = a div b; r = a mod b in if 2 * r < b \<or> (2 * r = b \<and> even q) then q else q + 1)"

definition round_even :: "int \<Rightarrow> nat \<Rightarrow> int" where
  "round_even m s =
     (let unit = 2 ^ s; q = m div unit; r = m mod unit
      in (if 2 * r < unit \<or> (2 * r = unit \<and> even q) then q else q + 1) * unit)"

definition f32_round :: "int \<Rightarrow> int" where
  "f32_round n = sgn n * round_even \<bar>n\<bar> (dropped_bits \<bar>n\<bar>)"


text \<open>A quotient of naturals, rounded once.\<close>

definition f32_round_ratio :: "int \<Rightarrow> int \<Rightarrow> int" where
  "f32_round_ratio num den =
     (let unit = 2 ^ dropped_bits (num div den) in nearest_even num (den * unit) * unit)"

section \<open>Values and operations\<close>

datatype f32 = F32NaN | F32Inf bool | F32 int

definition f32_finite :: "int \<Rightarrow> f32" where
  "f32_finite n = (if 2 ^ 277 \<le> \<bar>n\<bar> then F32Inf (n < 0) else F32 n)"

definition f32_of_ratio :: "int \<Rightarrow> int \<Rightarrow> f32" where
  "f32_of_ratio num den = f32_finite (sgn num * f32_round_ratio \<bar>num\<bar> den)"

definition f32_one :: int where
  "f32_one = 2 ^ 149"

definition f32_of_i64 :: "int \<Rightarrow> f32" where
  "f32_of_i64 n = f32_finite (f32_round (n * f32_one))"

fun f32_neg :: "f32 \<Rightarrow> f32" where
  "f32_neg F32NaN = F32NaN"
| "f32_neg (F32Inf s) = F32Inf (\<not> s)"
| "f32_neg (F32 x) = F32 (- x)"

fun f32_add :: "f32 \<Rightarrow> f32 \<Rightarrow> f32" where
  "f32_add (F32 x) (F32 y) = f32_finite (f32_round (x + y))"
| "f32_add (F32Inf s) (F32Inf t) = (if s = t then F32Inf s else F32NaN)"
| "f32_add (F32Inf s) (F32 y) = F32Inf s"
| "f32_add (F32 x) (F32Inf t) = F32Inf t"
| "f32_add a b = F32NaN"

definition f32_sub :: "f32 \<Rightarrow> f32 \<Rightarrow> f32" where
  "f32_sub a b = f32_add a (f32_neg b)"

fun f32_mul :: "f32 \<Rightarrow> f32 \<Rightarrow> f32" where
  "f32_mul (F32 x) (F32 y) = f32_of_ratio (x * y) f32_one"
| "f32_mul (F32Inf s) (F32Inf t) = F32Inf (s \<noteq> t)"
| "f32_mul (F32Inf s) (F32 y) = (if y = 0 then F32NaN else F32Inf (s \<noteq> (y < 0)))"
| "f32_mul (F32 x) (F32Inf t) = (if x = 0 then F32NaN else F32Inf ((x < 0) \<noteq> t))"
| "f32_mul a b = F32NaN"

text \<open>Division by a positive whole constant.\<close>

fun f32_div_const :: "f32 \<Rightarrow> int \<Rightarrow> f32" where
  "f32_div_const F32NaN c = F32NaN"
| "f32_div_const (F32Inf s) c = F32Inf s"
| "f32_div_const (F32 x) c = f32_of_ratio x c"

fun f32_gt :: "f32 \<Rightarrow> f32 \<Rightarrow> bool" where
  "f32_gt (F32 x) (F32 y) = (y < x)"
| "f32_gt (F32Inf s) (F32 y) = (\<not> s)"
| "f32_gt (F32 x) (F32Inf t) = t"
| "f32_gt (F32Inf s) (F32Inf t) = (\<not> s \<and> t)"
| "f32_gt a b = False"

definition saturate_i64 :: "int \<Rightarrow> int" where
  "saturate_i64 n = max (- (2 ^ 63)) (min (2 ^ 63 - 1) n)"

text \<open>\<open>.floor() as i64\<close> and \<open>.round() as i64\<close> (half away from zero): saturating, a NaN is zero.\<close>

fun f32_floor_i64 :: "f32 \<Rightarrow> int" where
  "f32_floor_i64 F32NaN = 0"
| "f32_floor_i64 (F32Inf s) = (if s then - (2 ^ 63) else 2 ^ 63 - 1)"
| "f32_floor_i64 (F32 x) = saturate_i64 (x div f32_one)"

fun f32_round_i64 :: "f32 \<Rightarrow> int" where
  "f32_round_i64 F32NaN = 0"
| "f32_round_i64 (F32Inf s) = (if s then - (2 ^ 63) else 2 ^ 63 - 1)"
| "f32_round_i64 (F32 x) = saturate_i64 (sgn x * ((2 * \<bar>x\<bar> + f32_one) div (2 * f32_one)))"

section \<open>Rounding of integers\<close>

lemma dropped_bits_small: "m < 16777216 \<Longrightarrow> dropped_bits m = 0"
  by (simp add: dropped_bits.simps)

lemma dropped_bits_bound: "0 \<le> m \<Longrightarrow> m < 2 ^ (24 + k) \<Longrightarrow> dropped_bits m \<le> k"
proof (induction k arbitrary: m)
  case 0
  then show ?case by (simp add: dropped_bits_small)
next
  case (Suc k)
  show ?case
  proof (cases "m < 16777216")
    case True
    then show ?thesis by (simp add: dropped_bits_small)
  next
    case False
    have "m < 2 * 2 ^ (24 + k)" using Suc.prems(2) unfolding add_Suc_right power_Suc .
    then have "m div 2 < 2 ^ (24 + k)" by linarith
    with Suc.IH [of "m div 2"] Suc.prems(1) False show ?thesis
      by (subst dropped_bits.simps) simp
  qed
qed

lemma f32_round_small: "\<bar>n\<bar> < 16777216 \<Longrightarrow> f32_round n = n"
  by (simp add: f32_round_def dropped_bits_small round_even_def Let_def sgn_mult_abs)

text \<open>Rounding never passes a representable bound.\<close>

lemma round_even_le:
  assumes "m \<le> c * 2 ^ s"
  shows "round_even m s \<le> c * 2 ^ s"
proof -
  let ?u = "2 ^ s :: int"
  have u: "0 < ?u" by simp
  have m: "m = m div ?u * ?u + m mod ?u" by (rule div_mult_mod_eq [symmetric])
  have r: "0 \<le> m mod ?u" using u by simp
  have q: "m div ?u \<le> c" using zdiv_mono1 [OF assms u] by simp
  show ?thesis
  proof (cases "m div ?u = c")
    case True
    have "m mod ?u = 0" using m assms r unfolding True by linarith
    with True show ?thesis by (simp add: round_even_def Let_def)
  next
    case False
    with q have "m div ?u + 1 \<le> c" by simp
    then show ?thesis using u by (auto simp: round_even_def Let_def intro!: mult_right_mono)
  qed
qed

lemma round_even_nonneg: "0 \<le> m \<Longrightarrow> 0 \<le> round_even m s"
  by (auto simp: round_even_def Let_def pos_imp_zdiv_nonneg_iff intro: add_nonneg_nonneg)

lemma f32_round_bounded:
  assumes "\<bar>n\<bar> \<le> b * 16777216" "0 \<le> b" "b \<le> 16777216"
  shows "\<bar>f32_round n\<bar> \<le> b * 16777216"
proof -
  let ?m = "\<bar>n\<bar>" and ?s = "dropped_bits \<bar>n\<bar>"
  have "round_even ?m ?s \<le> b * 16777216"
  proof (cases "?s \<le> 24")
    case True
    then have e: "b * 16777216 = (b * 2 ^ (24 - ?s)) * 2 ^ ?s"
      by (simp add: mult.assoc power_add [symmetric])
    show ?thesis unfolding e by (rule round_even_le) (use assms(1) e in linarith)
  next
    case False
    then have "\<not> ?m < 2 ^ 48" using dropped_bits_bound [of ?m 24] by auto
    moreover have "b * 16777216 \<le> 16777216 * 16777216" using assms(2,3) by (intro mult_right_mono) auto
    ultimately have m: "?m = 2 ^ 48" "b * 16777216 = 2 ^ 48" using assms(1) by auto
    have "?s \<le> 25" using dropped_bits_bound [of ?m 25] m(1) by simp
    with False have "?s = 25" by simp
    with m show ?thesis using round_even_le [of ?m "2 ^ 23" 25] by simp
  qed
  moreover have "\<bar>f32_round n\<bar> \<le> round_even ?m ?s"
    unfolding f32_round_def abs_mult using round_even_nonneg [of ?m ?s] by (cases "n = 0") auto
  ultimately show ?thesis by (rule order_trans [rotated])
qed

lemma round_even_error: "2 * \<bar>round_even m s - m\<bar> \<le> 2 ^ s"
proof -
  define u q r where "u = (2 ^ s :: int)" and "q = m div u" and "r = m mod u"
  have m: "m = q * u + r" unfolding q_def r_def by (rule div_mult_mod_eq [symmetric])
  have r: "0 \<le> r" "r < u" by (simp_all add: r_def u_def)
  have e: "round_even m s = q * u \<and> 2 * r \<le> u \<or> round_even m s = q * u + u \<and> u \<le> 2 * r"
    by (auto simp: round_even_def Let_def q_def [symmetric] r_def [symmetric] u_def [symmetric] distrib_right)
  show ?thesis unfolding u_def [symmetric] using e m r by (elim disjE conjE) (simp_all add: abs_if)
qed

lemma f32_round_error:
  assumes "\<bar>n\<bar> \<le> 2 ^ 48"
  shows "\<bar>f32_round n - n\<bar> \<le> 8388608"
proof (cases "\<bar>n\<bar> = 2 ^ 48")
  case True
  have "dropped_bits (2 ^ 48) = 25" by (simp add: dropped_bits.simps eval_nat_numeral)
  then have "f32_round n = n" using True
    by (simp add: f32_round_def round_even_def Let_def) (auto simp: abs_if sgn_if split: if_splits)
  then show ?thesis by simp
next
  case False
  let ?m = "\<bar>n\<bar>" and ?s = "dropped_bits \<bar>n\<bar>"
  have "?s \<le> 24" using dropped_bits_bound [of ?m 24] False assms by simp
  then have "(2::int) ^ ?s \<le> 2 ^ 24" by (rule power_increasing) simp
  with round_even_error [of ?m ?s] have "\<bar>round_even ?m ?s - ?m\<bar> \<le> 8388608" by simp
  moreover have "f32_round n - n = sgn n * (round_even ?m ?s - ?m)"
    by (simp add: f32_round_def right_diff_distrib sgn_mult_abs)
  ultimately show ?thesis by (cases "n = 0") (simp_all add: abs_mult)
qed

lemma f32_round_id: "\<bar>n\<bar> \<le> 16777216 \<Longrightarrow> f32_round n = n"
proof (cases "\<bar>n\<bar> = 16777216")
  case True
  have "dropped_bits 16777216 = 1" by (simp add: dropped_bits.simps)
  with True show ?thesis
    by (simp add: f32_round_def round_even_def Let_def) (auto simp: abs_if sgn_if split: if_splits)
qed (simp add: f32_round_small)

text \<open>Rounding commutes with a scaling by a power of two.\<close>

lemma round_even_double: "round_even (2 * m) (Suc s) = 2 * round_even m s"
  by (simp add: round_even_def Let_def mult_mod_right [symmetric] distrib_right)

lemma f32_round_double: "f32_round (2 * n) = 2 * f32_round n"
proof (cases "\<bar>2 * n\<bar> < 16777216")
  case True
  then show ?thesis by (simp add: f32_round_small)
next
  case False
  then have "dropped_bits \<bar>2 * n\<bar> = Suc (dropped_bits \<bar>n\<bar>)"
    by (subst dropped_bits.simps) (simp add: abs_mult)
  then show ?thesis by (simp add: f32_round_def abs_mult sgn_mult round_even_double)
qed

lemma f32_round_scale: "f32_round (n * 2 ^ k) = f32_round n * 2 ^ k"
proof (induction k)
  case (Suc k)
  have e: "n * 2 ^ Suc k = 2 * (n * 2 ^ k)" by simp
  show ?case by (simp only: e f32_round_double Suc) simp
qed simp

lemma f32_round_sgn: "sgn n * f32_round \<bar>n\<bar> = f32_round n"
  by (cases "n = 0") (simp_all add: f32_round_def)

text \<open>A quotient that is whole rounds like the integer.\<close>

lemma f32_round_ratio_whole:
  assumes "0 \<le> n" "0 < d"
  shows "f32_round_ratio (n * d) d = f32_round n"
proof -
  have q: "(n * d) div (d * u) = n div u" "(n * d) mod (d * u) = (n mod u) * d" for u :: int
    using assms(2) by (simp_all add: mult.commute [of n d] mult_mod_right [symmetric])
  have c: "2 * (r * d) < d * u \<longleftrightarrow> 2 * r < u" "2 * (r * d) = d * u \<longleftrightarrow> 2 * r = u" for r u :: int
    using assms(2) mult_less_cancel_left_pos [of d "2 * r" u] by (auto simp: mult_ac)
  show ?thesis
    using assms by (cases "n = 0")
      (simp_all add: f32_round_ratio_def f32_round_def round_even_def nearest_even_def Let_def q c)
qed

end
