(* ===== verification/Items.thy ===== *)
theory Items
  imports Prelude Float32 "HOL-Library.Multiset"
begin

text \<open>
  crates/domain/src/items.rs without its grid: item instances and their ownership, the bags dropped
  in the world and their decay, worn equipment.
\<close>

section \<open>Item instances\<close>

type_synonym i32 = "32 word"

datatype ownership =
  OwnedByCharacter u64
| OwnedByContainer u64
| OwnedByWorld int int

record durability_state =
  du_current :: u32
  du_max :: u32

record rolled_modifier =
  rm_modifier_id :: u32
  rm_tier :: u8
  rm_rolled_value :: f32

record item_history =
  ih_kill_count :: u32
  ih_repair_count :: u32
  ih_owner_count :: u32

record item_instance =
  it_id :: u128
  it_definition_id :: u32
  it_owner :: ownership
  it_revision :: u64
  it_quantity :: u32
  it_seed :: u64
  it_durability :: durability_state
  it_enhancement :: u8
  it_modifiers :: "rolled_modifier list"
  it_sockets :: "u128 option list"
  it_history :: item_history

definition item_new_unique :: "u128 \<Rightarrow> u32 \<Rightarrow> ownership \<Rightarrow> u64 \<Rightarrow> u32 \<Rightarrow> item_instance" where
  "item_new_unique i def_id owner seed max_durability =
     \<lparr>it_id = i, it_definition_id = def_id, it_owner = owner, it_revision = 1, it_quantity = 1,
      it_seed = seed, it_durability = \<lparr>du_current = max_durability, du_max = max_durability\<rparr>,
      it_enhancement = 0, it_modifiers = [], it_sockets = [],
      it_history = \<lparr>ih_kill_count = 0, ih_repair_count = 0, ih_owner_count = 0\<rparr>\<rparr>"

definition item_new_stackable :: "u128 \<Rightarrow> u32 \<Rightarrow> ownership \<Rightarrow> u32 \<Rightarrow> item_instance" where
  "item_new_stackable i def_id owner quantity =
     \<lparr>it_id = i, it_definition_id = def_id, it_owner = owner, it_revision = 1, it_quantity = quantity,
      it_seed = 0, it_durability = \<lparr>du_current = 0, du_max = 0\<rparr>,
      it_enhancement = 0, it_modifiers = [], it_sockets = [],
      it_history = \<lparr>ih_kill_count = 0, ih_repair_count = 0, ih_owner_count = 0\<rparr>\<rparr>"

definition transfer_ownership :: "item_instance \<Rightarrow> ownership \<Rightarrow> item_instance" where
  "transfer_ownership it new_owner =
     (if it_owner it \<noteq> new_owner
      then it\<lparr>it_owner := new_owner,
              it_history := (it_history it)\<lparr>ih_owner_count := saturating_add (ih_owner_count (it_history it)) 1\<rparr>,
              it_revision := saturating_add (it_revision it) 1\<rparr>
      else it)"

section \<open>Equipment\<close>

datatype equipment_slot = Head | Chest | Hands | Legs | Feet | MainHand | OffHand

type_synonym equipment = "equipment_slot \<rightharpoonup> item_instance"

definition equip_item ::
  "equipment_slot \<Rightarrow> item_instance \<Rightarrow> equipment \<Rightarrow> item_instance option \<times> equipment" where
  "equip_item slot item eq = (eq slot, eq(slot \<mapsto> item))"

definition unequip_item :: "equipment_slot \<Rightarrow> equipment \<Rightarrow> item_instance option \<times> equipment" where
  "unequip_item slot eq = (eq slot, eq(slot := None))"

section \<open>Dropped bags\<close>

record dropped_bag =
  db_id :: u64
  db_original_owner :: u64
  db_quadrant_x :: i32
  db_quadrant_y :: i32
  db_world_x :: f32
  db_world_y :: f32
  db_spawned_at_tick :: u64
  db_decay_after_ticks :: u64
  db_items :: "item_instance list"

definition bag_is_expired :: "dropped_bag \<Rightarrow> u64 \<Rightarrow> bool" where
  "bag_is_expired b now \<longleftrightarrow> db_decay_after_ticks b \<le> saturating_sub now (db_spawned_at_tick b)"

text \<open>The index of the first element that satisfies a predicate, \<open>Iterator::position\<close>, and
  \<open>Vec::swap_remove\<close>.\<close>

fun position :: "('a \<Rightarrow> bool) \<Rightarrow> 'a list \<Rightarrow> nat option" where
  "position P [] = None"
| "position P (x # xs) = (if P x then Some 0 else map_option Suc (position P xs))"

definition swap_remove :: "nat \<Rightarrow> 'a list \<Rightarrow> 'a \<times> 'a list" where
  "swap_remove i xs = (xs ! i, butlast (xs[i := last xs]))"

definition bag_take_item :: "dropped_bag \<Rightarrow> u128 \<Rightarrow> item_instance option \<times> dropped_bag" where
  "bag_take_item b item =
     (case position (\<lambda>i. it_id i = item) (db_items b) of
        None \<Rightarrow> (None, b)
      | Some idx \<Rightarrow> (case swap_remove idx (db_items b) of (it, rest) \<Rightarrow> (Some it, b\<lparr>db_items := rest\<rparr>)))"

text \<open>\<open>bags\<close> is iterated over and so an association list; the spatial index is only looked up.\<close>

record bag_manager =
  bm_bags :: "(u64 \<times> dropped_bag) list"
  bm_spatial :: "i32 \<times> i32 \<rightharpoonup> u64 list"

definition bag_manager_new :: bag_manager where
  "bag_manager_new = \<lparr>bm_bags = [], bm_spatial = Map.empty\<rparr>"

definition bag_quadrant :: "dropped_bag \<Rightarrow> i32 \<times> i32" where
  "bag_quadrant b = (db_quadrant_x b, db_quadrant_y b)"

definition spawn_bag :: "dropped_bag \<Rightarrow> bag_manager \<Rightarrow> bag_manager" where
  "spawn_bag b m =
     \<lparr>bm_bags = AList.update (db_id b) b (bm_bags m),
      bm_spatial = (bm_spatial m)(bag_quadrant b \<mapsto>
        (case bm_spatial m (bag_quadrant b) of None \<Rightarrow> [] | Some ids \<Rightarrow> ids) @ [db_id b])\<rparr>"

definition get_bag :: "bag_manager \<Rightarrow> u64 \<Rightarrow> dropped_bag option" where
  "get_bag m i = map_of (bm_bags m) i"

definition get_bags_in_quadrant :: "bag_manager \<Rightarrow> i32 \<times> i32 \<Rightarrow> dropped_bag list" where
  "get_bags_in_quadrant m q =
     (case bm_spatial m q of None \<Rightarrow> [] | Some ids \<Rightarrow> List.map_filter (map_of (bm_bags m)) ids)"

definition remove_expired_bag :: "u64 \<Rightarrow> bag_manager \<Rightarrow> bag_manager" where
  "remove_expired_bag i m =
     (case map_of (bm_bags m) i of
        None \<Rightarrow> m
      | Some b \<Rightarrow>
          \<lparr>bm_bags = AList.delete i (bm_bags m),
           bm_spatial =
             (case bm_spatial m (bag_quadrant b) of
                None \<Rightarrow> bm_spatial m
              | Some ids \<Rightarrow>
                  (let kept = filter (\<lambda>j. j \<noteq> i) ids
                   in (bm_spatial m)(bag_quadrant b := (if kept = [] then None else Some kept))))\<rparr>)"

definition tick_decay :: "u64 \<Rightarrow> bag_manager \<Rightarrow> u64 list \<times> bag_manager" where
  "tick_decay now m =
     (let expired = map fst (filter (\<lambda>(i, b). bag_is_expired b now) (bm_bags m))
      in (expired, fold remove_expired_bag expired m))"

section \<open>Instances\<close>

lemma transfer_ownership_identity:
  "it_id (transfer_ownership it o') = it_id it \<and> it_definition_id (transfer_ownership it o') = it_definition_id it
   \<and> it_quantity (transfer_ownership it o') = it_quantity it \<and> it_owner (transfer_ownership it o') = o'
   \<and> it_revision it \<le> it_revision (transfer_ownership it o')"
  using unsigned_less [of "it_revision it", where ?'a = nat]
  by (auto simp: transfer_ownership_def word_le_nat_alt machine_arith min_def)

section \<open>Taking items\<close>

lemma position_Some:
  "position P xs = Some i \<Longrightarrow> i < length xs \<and> P (xs ! i) \<and> (\<forall>j<i. \<not> P (xs ! j))"
  by (induction xs arbitrary: i) (auto split: if_splits simp: less_Suc_eq_0_disj nth_Cons')

lemma position_None: "position P xs = None \<longleftrightarrow> (\<forall>x\<in>set xs. \<not> P x)"
  by (induction xs) auto

lemma mset_swap_remove:
  assumes "i < length xs" "swap_remove i xs = (x, rest)"
  shows "mset xs = add_mset x (mset rest)"
proof -
  have x: "x = xs ! i" and rest: "rest = butlast (xs[i := last xs])"
    using assms(2) by (auto simp: swap_remove_def)
  from assms(1) obtain ys z where xs: "xs = ys @ [z]" by (cases xs rule: rev_cases) auto
  show ?thesis
  proof (cases "i = length ys")
    case True
    then show ?thesis by (simp add: x rest xs)
  next
    case False
    then have "i < length ys" using assms(1) xs by simp
    then have "rest = ys[i := z]" "x = ys ! i" by (simp_all add: x rest xs list_update_append nth_append)
    moreover have "mset (ys[i := z]) = add_mset z (mset ys - {#ys ! i#})"
      using \<open>i < length ys\<close> by (rule mset_update)
    moreover have "add_mset (ys ! i) (mset ys - {#ys ! i#}) = mset ys"
      using \<open>i < length ys\<close> by simp
    ultimately show ?thesis by (simp add: xs)
  qed
qed

lemma bag_take_item_mset:
  assumes "bag_take_item b item = (Some it, b')"
  shows "mset (db_items b) = add_mset it (mset (db_items b')) \<and> it_id it = item"
proof -
  from assms obtain idx rest where idx: "position (\<lambda>i. it_id i = item) (db_items b) = Some idx"
    and sw: "swap_remove idx (db_items b) = (it, rest)" and b': "b' = b\<lparr>db_items := rest\<rparr>"
    by (auto simp: bag_take_item_def split: option.splits prod.splits)
  from position_Some [OF idx] have "idx < length (db_items b)" "it_id (db_items b ! idx) = item" by auto
  with mset_swap_remove [OF _ sw] sw b' show ?thesis by (auto simp: swap_remove_def)
qed

lemma bag_take_item_None:
  "bag_take_item b item = (None, b') \<longleftrightarrow> b' = b \<and> item \<notin> it_id ` set (db_items b)"
proof (cases "position (\<lambda>i. it_id i = item) (db_items b)")
  case None
  then have "bag_take_item b item = (None, b)" by (simp add: bag_take_item_def)
  moreover have "item \<notin> it_id ` set (db_items b)" using None by (auto simp: position_None)
  ultimately show ?thesis by auto
next
  case (Some idx)
  from position_Some [OF Some] have "item \<in> it_id ` set (db_items b)" by force
  with Some show ?thesis by (simp add: bag_take_item_def swap_remove_def)
qed

section \<open>Bags\<close>

text \<open>The spatial index lists exactly the bags of a quadrant, and no quadrant with an empty list.\<close>

definition bag_inv :: "bag_manager \<Rightarrow> bool" where
  "bag_inv m \<longleftrightarrow> distinct (map fst (bm_bags m)) \<and>
     (\<forall>i b. map_of (bm_bags m) i = Some b \<longrightarrow> db_id b = i) \<and>
     (\<forall>q. case bm_spatial m q of
        None \<Rightarrow> (\<forall>i b. map_of (bm_bags m) i = Some b \<longrightarrow> bag_quadrant b \<noteq> q)
      | Some ids \<Rightarrow> ids \<noteq> [] \<and> distinct ids \<and>
          (\<forall>i. i \<in> set ids \<longleftrightarrow> (\<exists>b. map_of (bm_bags m) i = Some b \<and> bag_quadrant b = q)))"

lemma bag_invD:
  assumes "bag_inv m"
  shows "distinct (map fst (bm_bags m))"
    and "map_of (bm_bags m) i = Some b \<Longrightarrow> db_id b = i"
    and "bm_spatial m q = None \<Longrightarrow> map_of (bm_bags m) i = Some b \<Longrightarrow> bag_quadrant b \<noteq> q"
    and "bm_spatial m q = Some ids \<Longrightarrow> ids \<noteq> [] \<and> distinct ids \<and>
      (\<forall>i. i \<in> set ids \<longleftrightarrow> (\<exists>b. map_of (bm_bags m) i = Some b \<and> bag_quadrant b = q))"
proof -
  have q: "case bm_spatial m q of
        None \<Rightarrow> (\<forall>i b. map_of (bm_bags m) i = Some b \<longrightarrow> bag_quadrant b \<noteq> q)
      | Some ids \<Rightarrow> ids \<noteq> [] \<and> distinct ids \<and>
          (\<forall>i. i \<in> set ids \<longleftrightarrow> (\<exists>b. map_of (bm_bags m) i = Some b \<and> bag_quadrant b = q))"
    using assms by (simp only: bag_inv_def)
  show "distinct (map fst (bm_bags m))" using assms by (simp only: bag_inv_def)
  show "map_of (bm_bags m) i = Some b \<Longrightarrow> db_id b = i" using assms by (simp only: bag_inv_def)
  show "bm_spatial m q = None \<Longrightarrow> map_of (bm_bags m) i = Some b \<Longrightarrow> bag_quadrant b \<noteq> q"
    using q by simp
  assume s: "bm_spatial m q = Some ids"
  from q show "ids \<noteq> [] \<and> distinct ids \<and>
      (\<forall>i. i \<in> set ids \<longleftrightarrow> (\<exists>b. map_of (bm_bags m) i = Some b \<and> bag_quadrant b = q))"
    unfolding s option.case .
qed

lemma bag_manager_new_inv: "bag_inv bag_manager_new"
  by (simp add: bag_inv_def bag_manager_new_def)

lemma spawn_bag_inv:
  assumes inv: "bag_inv m" and fresh: "map_of (bm_bags m) (db_id b) = None"
  shows "bag_inv (spawn_bag b m)"
  unfolding bag_inv_def
proof (intro conjI allI impI)
  fix q
  let ?old = "case bm_spatial m q of None \<Rightarrow> [] | Some ids \<Rightarrow> ids"
  have old: "distinct ?old \<and> (\<forall>i. i \<in> set ?old \<longleftrightarrow>
      (\<exists>b. map_of (bm_bags m) i = Some b \<and> bag_quadrant b = q))"
    using bag_invD(3,4) [OF inv] by (cases "bm_spatial m q") auto
  show "case bm_spatial (spawn_bag b m) q of
        None \<Rightarrow> (\<forall>i b'. map_of (bm_bags (spawn_bag b m)) i = Some b' \<longrightarrow> bag_quadrant b' \<noteq> q)
      | Some ids \<Rightarrow> ids \<noteq> [] \<and> distinct ids \<and>
          (\<forall>i. i \<in> set ids \<longleftrightarrow> (\<exists>b'. map_of (bm_bags (spawn_bag b m)) i = Some b' \<and> bag_quadrant b' = q))"
  proof (cases "q = bag_quadrant b")
    case True
    with old fresh show ?thesis by (auto simp: spawn_bag_def keyed_simps)
  next
    case False
    with bag_invD(3,4) [OF inv, of q] fresh show ?thesis
      by (auto simp: spawn_bag_def keyed_simps split: option.split)
  qed
qed (use bag_invD(1,2) [OF inv] in \<open>auto simp: spawn_bag_def keyed_simps split: if_splits\<close>)

lemma remove_expired_bag_inv:
  assumes inv: "bag_inv m"
  shows "bag_inv (remove_expired_bag i m)"
proof (cases "map_of (bm_bags m) i")
  case None
  with inv show ?thesis by (simp add: remove_expired_bag_def)
next
  case (Some b)
  then obtain ids where ids: "bm_spatial m (bag_quadrant b) = Some ids"
    using bag_invD(3) [OF inv _ Some] by (cases "bm_spatial m (bag_quadrant b)") blast+
  note I = bag_invD(4) [OF inv ids]
  have m': "remove_expired_bag i m = \<lparr>bm_bags = AList.delete i (bm_bags m),
      bm_spatial = (bm_spatial m)(bag_quadrant b :=
        (if filter (\<lambda>j. j \<noteq> i) ids = [] then None else Some (filter (\<lambda>j. j \<noteq> i) ids)))\<rparr>"
    by (simp add: remove_expired_bag_def Some ids Let_def)
  show ?thesis
    unfolding bag_inv_def
  proof (intro conjI allI impI)
    fix q
    show "case bm_spatial (remove_expired_bag i m) q of
        None \<Rightarrow> (\<forall>j b'. map_of (bm_bags (remove_expired_bag i m)) j = Some b' \<longrightarrow> bag_quadrant b' \<noteq> q)
      | Some ids \<Rightarrow> ids \<noteq> [] \<and> distinct ids \<and>
          (\<forall>j. j \<in> set ids \<longleftrightarrow> (\<exists>b'. map_of (bm_bags (remove_expired_bag i m)) j = Some b' \<and> bag_quadrant b' = q))"
    proof (cases "q = bag_quadrant b")
      case True
      show ?thesis
      proof (cases "filter (\<lambda>j. j \<noteq> i) ids = []")
        case empty: True
        then have "j = i" if "map_of (bm_bags m) j = Some b'" "bag_quadrant b' = q" for j b'
          using that I True by (auto simp: filter_empty_conv)
        with True empty show ?thesis by (auto simp: m' keyed_simps)
      next
        case False
        with True I show ?thesis by (auto simp: m' keyed_simps)
      qed
    next
      case False
      with bag_invD(3,4) [OF inv, of q] Some show ?thesis
        by (auto simp: m' keyed_simps split: option.split)
    qed
  qed (use bag_invD(1,2) [OF inv] in \<open>auto simp: m' keyed_simps split: if_splits\<close>)
qed

lemma fold_remove_expired_inv: "bag_inv m \<Longrightarrow> bag_inv (fold remove_expired_bag is m)"
  by (induction "is" arbitrary: m) (auto intro: remove_expired_bag_inv)

lemma fold_remove_expired_bags:
  "map_of (bm_bags (fold remove_expired_bag is m)) j =
     (if j \<in> set is then None else map_of (bm_bags m) j)"
  by (induction "is" arbitrary: m)
    (auto simp: remove_expired_bag_def keyed_simps split: option.splits)

lemma tick_decay_bags:
  assumes "bag_inv m" "tick_decay now m = (gone, m')"
  shows "bag_inv m'"
    and "map_of (bm_bags m') i =
      (case map_of (bm_bags m) i of
         None \<Rightarrow> None | Some b \<Rightarrow> if bag_is_expired b now then None else Some b)"
    and "i \<in> set gone \<longleftrightarrow> (\<exists>b. map_of (bm_bags m) i = Some b \<and> bag_is_expired b now)"
proof -
  have gone: "gone = map fst (filter (\<lambda>(i, b). bag_is_expired b now) (bm_bags m))"
    and m': "m' = fold remove_expired_bag gone m"
    using assms(2) by (auto simp: tick_decay_def Let_def)
  show mem: "i \<in> set gone \<longleftrightarrow> (\<exists>b. map_of (bm_bags m) i = Some b \<and> bag_is_expired b now)" for i
    using map_of_eq_Some_iff [OF bag_invD(1) [OF assms(1)]] by (force simp: gone)
  show "bag_inv m'" by (simp add: m' fold_remove_expired_inv assms(1))
  show "map_of (bm_bags m') i = (case map_of (bm_bags m) i of
      None \<Rightarrow> None | Some b \<Rightarrow> if bag_is_expired b now then None else Some b)"
    using mem [of i] by (auto simp: m' fold_remove_expired_bags split: option.split)
qed

text \<open>Looking up a quadrant finds its bags, each once.\<close>

lemma get_bags_in_quadrant_set:
  assumes "bag_inv m"
  shows "set (get_bags_in_quadrant m q) = {b. \<exists>i. map_of (bm_bags m) i = Some b \<and> bag_quadrant b = q}"
proof (cases "bm_spatial m q")
  case None
  with bag_invD(3) [OF assms None] show ?thesis by (auto simp: get_bags_in_quadrant_def)
next
  case (Some ids)
  have "i \<in> set ids \<longleftrightarrow> (\<exists>b. map_of (bm_bags m) i = Some b \<and> bag_quadrant b = q)" for i
    using bag_invD(4) [OF assms Some] by blast
  then show ?thesis
    by (auto simp: get_bags_in_quadrant_def Some List.map_filter_def image_iff) force+
qed

section \<open>The bags as a machine\<close>

text \<open>
  Bags are spawned under a new id, looted through the mutable reference \<open>get_bag_mut\<close> gives, and collected
  by the decay tick.
\<close>

datatype bag_op =
  SpawnBag dropped_bag
| TakeFromBag u64 u128
| DecayBags u64

fun bag_step :: "bag_manager \<Rightarrow> bag_op \<Rightarrow> bag_manager" where
  "bag_step m (SpawnBag b) = (if get_bag m (db_id b) = None then spawn_bag b m else m)"
| "bag_step m (TakeFromBag i item) =
     (case get_bag m i of
        None \<Rightarrow> m
      | Some b \<Rightarrow> m\<lparr>bm_bags := AList.update i (snd (bag_take_item b item)) (bm_bags m)\<rparr>)"
| "bag_step m (DecayBags now) = snd (tick_decay now m)"

lemma bag_take_item_frame:
  "db_id (snd (bag_take_item b item)) = db_id b" "bag_quadrant (snd (bag_take_item b item)) = bag_quadrant b"
  by (auto simp: bag_take_item_def bag_quadrant_def split: option.splits prod.splits)

lemma put_bag_inv:
  assumes inv: "bag_inv m" and b: "map_of (bm_bags m) i = Some b"
    and b': "db_id b' = db_id b" "bag_quadrant b' = bag_quadrant b"
  shows "bag_inv (m\<lparr>bm_bags := AList.update i b' (bm_bags m)\<rparr>)"
  unfolding bag_inv_def
proof (intro conjI allI impI)
  fix q
  show "case bm_spatial (m\<lparr>bm_bags := AList.update i b' (bm_bags m)\<rparr>) q of
        None \<Rightarrow> (\<forall>j c. map_of (bm_bags (m\<lparr>bm_bags := AList.update i b' (bm_bags m)\<rparr>)) j = Some c \<longrightarrow> bag_quadrant c \<noteq> q)
      | Some ids \<Rightarrow> ids \<noteq> [] \<and> distinct ids \<and> (\<forall>j. j \<in> set ids \<longleftrightarrow>
          (\<exists>c. map_of (bm_bags (m\<lparr>bm_bags := AList.update i b' (bm_bags m)\<rparr>)) j = Some c \<and> bag_quadrant c = q))"
    using bag_invD(3,4) [OF inv, of q] b b' by (auto simp: keyed_simps split: option.split)
qed (use bag_invD(1,2) [OF inv] b b' in \<open>auto simp: keyed_simps split: if_splits\<close>)

lemma bag_step_inv:
  assumes "bag_inv m"
  shows "bag_inv (bag_step m op)"
proof (cases op)
  case (TakeFromBag i item)
  with assms put_bag_inv [OF assms] bag_take_item_frame show ?thesis
    by (auto simp: get_bag_def split: option.split)
next
  case (DecayBags now)
  then show ?thesis using tick_decay_bags(1) [OF assms, of now] by (cases "tick_decay now m") simp
qed (use assms spawn_bag_inv in \<open>auto simp: get_bag_def\<close>)

interpretation bag_machine: invariant_machine bag_step bag_inv
  by unfold_locales (rule bag_step_inv)

section \<open>Properties\<close>

text \<open>
  Taking an item out of a dropped bag neither loses nor duplicates an item: the one asked for comes
  out and all others stay; an item that is not there leaves the bag as it is.
\<close>

theorem bag_take_item_conserves:
  "case bag_take_item b item of
     (None, b') \<Rightarrow> b' = b \<and> item \<notin> it_id ` set (db_items b)
   | (Some it, b') \<Rightarrow> it_id it = item \<and> mset (db_items b) = add_mset it (mset (db_items b'))"
  using bag_take_item_None [of b item] bag_take_item_mset [of b item] by (auto split: prod.split option.split)

text \<open>
  After any sequence of spawns, lootings and decay ticks, the spatial index of the dropped bags is exact:
  the bags listed for a quadrant are those whose coordinates are that quadrant's.
\<close>

theorem bag_index_exact:
  "set (get_bags_in_quadrant (foldl bag_step bag_manager_new ops) q) =
     {b. get_bag (foldl bag_step bag_manager_new ops) (db_id b) = Some b \<and> bag_quadrant b = q}"
proof -
  have inv: "bag_inv (foldl bag_step bag_manager_new ops)"
    by (rule bag_machine.inv_run) (rule bag_manager_new_inv)
  show ?thesis using get_bags_in_quadrant_set [OF inv] bag_invD(2) [OF inv] by (auto simp: get_bag_def)
qed

text \<open>
  A decay tick removes exactly the bags whose time has run out, and reports exactly those.
\<close>

theorem bag_decay_exact:
  assumes "m = foldl bag_step bag_manager_new ops" "tick_decay now m = (gone, m')"
  shows "get_bag m' i = (case get_bag m i of None \<Rightarrow> None | Some b \<Rightarrow> if bag_is_expired b now then None else Some b) \<and>
    (i \<in> set gone \<longleftrightarrow> get_bag m i \<noteq> None \<and> get_bag m' i = None)"
proof -
  have inv: "bag_inv m" unfolding assms(1) by (rule bag_machine.inv_run) (rule bag_manager_new_inv)
  show ?thesis using tick_decay_bags(2,3) [OF inv assms(2), of i] by (auto simp: get_bag_def split: option.splits)
qed

definition sample_bag :: "u64 \<Rightarrow> u64 \<Rightarrow> dropped_bag" where
  "sample_bag i ttl = \<lparr>db_id = i, db_original_owner = 1, db_quadrant_x = 0, db_quadrant_y = - 1, db_world_x = F32 0,
     db_world_y = F32 0, db_spawned_at_tick = 10, db_decay_after_ticks = ttl, db_items = []\<rparr>"

theorem bag_decay_exact_witness:
  "get_bag (snd (tick_decay 40 (foldl bag_step bag_manager_new [SpawnBag (sample_bag 1 20), SpawnBag (sample_bag 2 90)]))) 1 = None"
proof -
  let ?m = "foldl bag_step bag_manager_new [SpawnBag (sample_bag 1 20), SpawnBag (sample_bag 2 90)]"
  have "get_bag ?m 1 = Some (sample_bag 1 20)" by (simp add: get_bag_def bag_manager_new_def spawn_bag_def sample_bag_def)
  moreover have "bag_is_expired (sample_bag 1 20) 40" by (simp add: bag_is_expired_def sample_bag_def saturating_sub_def)
  ultimately show ?thesis
    using bag_decay_exact [OF refl prod.collapse [symmetric], of 40 "[SpawnBag (sample_bag 1 20), SpawnBag (sample_bag 2 90)]" 1]
    by (simp del: foldl_Cons)
qed

end
