(* ===== verification/Containers.thy ===== *)
theory Containers
  imports Items "HOL-Library.Monad_Syntax"
begin

text \<open>
  crates/domain/src/containers.rs: stored items with their place in a 2D grid, container instances,
  and the operations on the content of one container: quick insert with stack merging, the search
  for a free place, stack splitting, sorting, destroying and dropping. The outer \<open>None\<close> is the panic
  of an overflowing \<open>u8\<close> or \<open>u32\<close> addition; the error messages are constructors.
\<close>

section \<open>Data\<close>

datatype item_category = General | Herb | Ore | Gem | EquipmentCat | Hazardous

fun category_bit :: "item_category \<Rightarrow> u32" where
  "category_bit General = 1"
| "category_bit Herb = 2"
| "category_bit Ore = 4"
| "category_bit Gem = 8"
| "category_bit EquipmentCat = 16"
| "category_bit Hazardous = 32"

type_synonym category_filter = u32

definition filter_any :: category_filter where
  "filter_any = - 1"

definition filter_only :: "item_category \<Rightarrow> category_filter" where
  "filter_only c = category_bit c"

definition filter_allow :: "category_filter \<Rightarrow> item_category \<Rightarrow> category_filter" where
  "filter_allow f c = or f (category_bit c)"

definition filter_allows :: "category_filter \<Rightarrow> item_category \<Rightarrow> bool" where
  "filter_allows f c \<longleftrightarrow> and f (category_bit c) \<noteq> 0"

datatype container_affix = WeightReduction u8 | FoodPreservation f32 | Fireproof

datatype container_content = EmptyContent | Grid u8 u8 | Slots nat

record stored_item =
  si_id :: u64
  si_definition_id :: u32
  si_category :: item_category
  si_unit_weight_grams :: u32
  si_quantity :: u32
  si_max_stack :: u32
  si_width :: u8
  si_height :: u8
  si_x :: u8
  si_y :: u8
  si_rotated :: bool

definition stored_item_new ::
  "u64 \<Rightarrow> u32 \<Rightarrow> item_category \<Rightarrow> u32 \<Rightarrow> u32 \<Rightarrow> u32 \<Rightarrow> u8 \<Rightarrow> u8 \<Rightarrow> stored_item" where
  "stored_item_new i def_id cat weight quantity max_stack width height =
     \<lparr>si_id = i, si_definition_id = def_id, si_category = cat, si_unit_weight_grams = weight,
      si_quantity = quantity, si_max_stack = max_stack, si_width = width, si_height = height,
      si_x = 0, si_y = 0, si_rotated = False\<rparr>"

definition total_weight_grams :: "stored_item \<Rightarrow> u32" where
  "total_weight_grams it = saturating_mul (si_unit_weight_grams it) (si_quantity it)"

definition item_area :: "stored_item \<Rightarrow> u16" where
  "item_area it = ucast (si_width it) * ucast (si_height it)"

definition effective_width :: "stored_item \<Rightarrow> u8" where
  "effective_width it = (if si_rotated it then si_height it else si_width it)"

definition effective_height :: "stored_item \<Rightarrow> u8" where
  "effective_height it = (if si_rotated it then si_width it else si_height it)"

text \<open>The conjunction is evaluated from the left and stops at the first conjunct that fails.\<close>

definition collides_with :: "stored_item \<Rightarrow> stored_item \<Rightarrow> bool option" where
  "collides_with self other =
     do {
       right \<leftarrow> checked_add (si_x other) (effective_width other);
       if \<not> si_x self < right then Some False else do {
       self_right \<leftarrow> checked_add (si_x self) (effective_width self);
       if \<not> si_x other < self_right then Some False else do {
       bottom \<leftarrow> checked_add (si_y other) (effective_height other);
       if \<not> si_y self < bottom then Some False else do {
       self_bottom \<leftarrow> checked_add (si_y self) (effective_height self);
       Some (si_y other < self_bottom) }}}}"

type_synonym container_id = u64

record container_instance =
  ci_id :: container_id
  ci_parent :: "container_id option"
  ci_allowed_tags :: category_filter
  ci_content :: container_content
  ci_items :: "stored_item list"
  ci_base_weight_grams :: u32
  ci_affixes :: "container_affix list"
  ci_nesting_allowed :: bool

definition container_new_grid :: "container_id \<Rightarrow> u8 \<Rightarrow> u8 \<Rightarrow> u32 \<Rightarrow> container_instance" where
  "container_new_grid i columns rows weight =
     \<lparr>ci_id = i, ci_parent = None, ci_allowed_tags = filter_any, ci_content = Grid columns rows,
      ci_items = [], ci_base_weight_grams = weight, ci_affixes = [], ci_nesting_allowed = True\<rparr>"

definition container_new_specialized ::
  "container_id \<Rightarrow> u8 \<Rightarrow> u8 \<Rightarrow> u32 \<Rightarrow> item_category \<Rightarrow> container_instance" where
  "container_new_specialized i columns rows weight cat =
     \<lparr>ci_id = i, ci_parent = None, ci_allowed_tags = filter_only cat, ci_content = Grid columns rows,
      ci_items = [], ci_base_weight_grams = weight, ci_affixes = [], ci_nesting_allowed = False\<rparr>"

definition add_affix :: "container_affix \<Rightarrow> container_instance \<Rightarrow> container_instance" where
  "add_affix a c = c\<lparr>ci_affixes := ci_affixes c @ [a]\<rparr>"

text \<open>The sum is a \<open>u16\<close>; \<open>None\<close> when it overflows.\<close>

fun sum_reductions :: "u16 \<Rightarrow> container_affix list \<Rightarrow> u16 option" where
  "sum_reductions acc [] = Some acc"
| "sum_reductions acc (WeightReduction p # rest) =
     Option.bind (checked_add acc (ucast p)) (\<lambda>t. sum_reductions t rest)"
| "sum_reductions acc (_ # rest) = sum_reductions acc rest"

definition total_weight_reduction_percent :: "container_instance \<Rightarrow> u8 option" where
  "total_weight_reduction_percent c =
     map_option (\<lambda>t. ucast (min t 100)) (sum_reductions 0 (ci_affixes c))"

definition is_fireproof :: "container_instance \<Rightarrow> bool" where
  "is_fireproof c \<longleftrightarrow> list_ex (\<lambda>a. a = Fireproof) (ci_affixes c)"

datatype container_error =
  WouldCreateCycle
| DestinationNotFound
| NestingNotAllowed
| MaxDepthReached
| BagNotFound
| ContainerNotFound
| CategoryNotAllowed
| NeedsFireproof
| GridOnly
| NoSpace
| SourceItemNotFound
| SplitZero
| SplitTooMuch
| SortFailed
| ItemNotFound
| SameContainer
| SourceNotFound

section \<open>Free places\<close>

fun any_collision :: "stored_item \<Rightarrow> stored_item list \<Rightarrow> bool option" where
  "any_collision cand [] = Some False"
| "any_collision cand (e # es) =
     do { hit \<leftarrow> collides_with cand e; if hit then Some True else any_collision cand es }"

definition candidate_at :: "u8 \<Rightarrow> u8 \<Rightarrow> u8 \<Rightarrow> u8 \<Rightarrow> bool \<Rightarrow> stored_item" where
  "candidate_at width height x y rotated =
     (stored_item_new 0 0 General 0 1 1 width height)\<lparr>si_x := x, si_y := y, si_rotated := rotated\<rparr>"

definition candidate_free ::
  "u8 \<Rightarrow> u8 \<Rightarrow> stored_item list \<Rightarrow> stored_item \<Rightarrow> bool option" where
  "candidate_free columns rows existing cand =
     do {
       right \<leftarrow> checked_add (si_x cand) (effective_width cand);
       if \<not> right \<le> columns then Some False else do {
       bottom \<leftarrow> checked_add (si_y cand) (effective_height cand);
       if \<not> bottom \<le> rows then Some False else do {
       hit \<leftarrow> any_collision cand existing;
       Some (\<not> hit) }}}"

fun search_slots ::
  "u8 \<Rightarrow> u8 \<Rightarrow> stored_item list \<Rightarrow> u8 \<Rightarrow> u8 \<Rightarrow> bool \<Rightarrow> (u8 \<times> u8) list
     \<Rightarrow> (u8 \<times> u8 \<times> bool) option option" where
  "search_slots columns rows existing width height allow [] = Some None"
| "search_slots columns rows existing width height allow ((y, x) # rest) =
     do {
       free \<leftarrow> candidate_free columns rows existing (candidate_at width height x y False);
       if free then Some (Some (x, y, False)) else
       if allow \<and> width \<noteq> height then do {
         turned \<leftarrow> candidate_free columns rows existing (candidate_at width height x y True);
         if turned then Some (Some (x, y, True))
         else search_slots columns rows existing width height allow rest }
       else search_slots columns rows existing width height allow rest }"

definition find_free_slot ::
  "u8 \<Rightarrow> u8 \<Rightarrow> stored_item list \<Rightarrow> u8 \<Rightarrow> u8 \<Rightarrow> bool \<Rightarrow> (u8 \<times> u8 \<times> bool) option option" where
  "find_free_slot columns rows existing width height allow =
     search_slots columns rows existing width height allow
       (List.product (word_range rows) (word_range columns))"

section \<open>Operations on one container\<close>

text \<open>The merging loop: the updated stacks, the incoming item, and the stack to return if the item
  was used up.\<close>

fun merge_stacks ::
  "stored_item \<Rightarrow> stored_item list \<Rightarrow> stored_item list \<times> stored_item \<times> stored_item option" where
  "merge_stacks item [] = ([], item, None)"
| "merge_stacks item (e # es) =
     (if si_definition_id e = si_definition_id item \<and> si_quantity e < si_max_stack e
      then
        (let available = si_max_stack e - si_quantity e;
             amount = min (si_quantity item) available;
             e' = e\<lparr>si_quantity := si_quantity e + amount\<rparr>;
             item' = item\<lparr>si_quantity := si_quantity item - amount\<rparr>
         in if si_quantity item' = 0 then (e' # es, item', Some e')
            else (case merge_stacks item' es of (es', left, r) \<Rightarrow> (e' # es', left, r)))
      else (case merge_stacks item es of (es', left, r) \<Rightarrow> (e # es', left, r)))"

definition insert_into ::
  "container_instance \<Rightarrow> stored_item \<Rightarrow> bool
     \<Rightarrow> ((container_error + stored_item) \<times> container_instance) option" where
  "insert_into c item allow =
     (if \<not> filter_allows (ci_allowed_tags c) (si_category item) then Some (Inl CategoryNotAllowed, c)
      else if si_category item = Hazardous \<and> \<not> is_fireproof c then Some (Inl NeedsFireproof, c)
      else
        (case (if 1 < si_max_stack item then merge_stacks item (ci_items c)
               else (ci_items c, item, None)) of
           (items, left, Some e) \<Rightarrow> Some (Inr e, c\<lparr>ci_items := items\<rparr>)
         | (items, left, None) \<Rightarrow>
             (case ci_content c of
                Grid columns rows \<Rightarrow>
                  (case find_free_slot columns rows items (si_width left) (si_height left) allow of
                     None \<Rightarrow> None
                   | Some None \<Rightarrow> Some (Inl NoSpace, c\<lparr>ci_items := items\<rparr>)
                   | Some (Some (x, y, rotated)) \<Rightarrow>
                       (let placed = left\<lparr>si_x := x, si_y := y, si_rotated := rotated\<rparr>
                        in Some (Inr placed, c\<lparr>ci_items := items @ [placed]\<rparr>)))
              | _ \<Rightarrow> Some (Inl GridOnly, c\<lparr>ci_items := items\<rparr>))))"

definition split_in ::
  "container_instance \<Rightarrow> u64 \<Rightarrow> u32 \<Rightarrow> u64
     \<Rightarrow> ((container_error + stored_item) \<times> container_instance) option" where
  "split_in c source amount new_id =
     (case ci_content c of
        Grid columns rows \<Rightarrow>
          (case position (\<lambda>i. si_id i = source) (ci_items c) of
             None \<Rightarrow> Some (Inl SourceItemNotFound, c)
           | Some idx \<Rightarrow>
               (let original = ci_items c ! idx
                in if amount = 0 then Some (Inl SplitZero, c)
                   else if si_quantity original \<le> amount then Some (Inl SplitTooMuch, c)
                   else
                     (let new = stored_item_new new_id (si_definition_id original) (si_category original)
                                  (si_unit_weight_grams original) amount (si_max_stack original)
                                  (si_width original) (si_height original);
                          reduced = (ci_items c)[idx := original\<lparr>si_quantity := si_quantity original - amount\<rparr>]
                      in case find_free_slot columns rows reduced (si_width new) (si_height new) True of
                           None \<Rightarrow> None
                         | Some (Some (x, y, rotated)) \<Rightarrow>
                             (let placed = new\<lparr>si_x := x, si_y := y, si_rotated := rotated\<rparr>
                              in Some (Inr placed, c\<lparr>ci_items := reduced @ [placed]\<rparr>))
                         | Some None \<Rightarrow>
                             Some (Inl NoSpace,
                               c\<lparr>ci_items := reduced[idx := (reduced ! idx)\<lparr>si_quantity :=
                                   si_quantity (reduced ! idx) + amount\<rparr>]\<rparr>))))
      | _ \<Rightarrow> Some (Inl GridOnly, c))"

text \<open>\<open>sort_by\<close> is stable; the key is compared in descending order, component by component.\<close>

definition sort_rank :: "stored_item \<Rightarrow> int \<times> int \<times> int" where
  "sort_rank it =
     (- uint (item_area it), - uint (category_bit (si_category it)), - uint (si_definition_id it))"

fun place_sorted ::
  "u8 \<Rightarrow> u8 \<Rightarrow> stored_item list \<Rightarrow> stored_item list
     \<Rightarrow> ((container_error + unit) \<times> stored_item list) option" where
  "place_sorted columns rows placed [] = Some (Inr (), placed)"
| "place_sorted columns rows placed (it # rest) =
     (case find_free_slot columns rows placed (si_width it) (si_height it) True of
        None \<Rightarrow> None
      | Some (Some (x, y, rotated)) \<Rightarrow>
          place_sorted columns rows (placed @ [it\<lparr>si_x := x, si_y := y, si_rotated := rotated\<rparr>]) rest
      | Some None \<Rightarrow> Some (Inl SortFailed, placed))"

definition sort_in ::
  "container_instance \<Rightarrow> ((container_error + unit) \<times> container_instance) option" where
  "sort_in c =
     (case ci_content c of
        Grid columns rows \<Rightarrow>
          (case place_sorted columns rows [] (sort_key sort_rank (ci_items c)) of
             None \<Rightarrow> None
           | Some (r, items) \<Rightarrow> Some (r, c\<lparr>ci_items := items\<rparr>))
      | _ \<Rightarrow> Some (Inl GridOnly, c))"

definition remove_from ::
  "container_instance \<Rightarrow> u64 \<Rightarrow> (container_error + stored_item) \<times> container_instance" where
  "remove_from c item =
     (case position (\<lambda>i. si_id i = item) (ci_items c) of
        None \<Rightarrow> (Inl ItemNotFound, c)
      | Some idx \<Rightarrow>
          (Inr (ci_items c ! idx),
           c\<lparr>ci_items := take idx (ci_items c) @ drop (Suc idx) (ci_items c)\<rparr>))"

section \<open>Quantities\<close>

definition total_quantity :: "stored_item list \<Rightarrow> nat" where
  "total_quantity items = (\<Sum>it\<leftarrow>items. unat (si_quantity it))"

lemma total_quantity_simps [simp]:
  "total_quantity [] = 0"
  "total_quantity (it # items) = unat (si_quantity it) + total_quantity items"
  "total_quantity (xs @ ys) = total_quantity xs + total_quantity ys"
  by (simp_all add: total_quantity_def)

lemma total_quantity_update:
  "i < length items \<Longrightarrow> total_quantity (items[i := it]) + unat (si_quantity (items ! i)) =
     total_quantity items + unat (si_quantity it)"
  by (induction items arbitrary: i) (auto simp: nth_Cons' split: nat.split)

text \<open>Merging moves quantity from the incoming item into the stacks and loses none.\<close>

lemma merge_amount:
  fixes q m i :: u32
  assumes "q < m"
  shows "unat (q + min i (m - q)) = unat q + min (unat i) (unat m - unat q)"
    and "unat (i - min i (m - q)) = unat i - min (unat i) (unat m - unat q)"
    and "q + min i (m - q) \<le> m"
proof -
  have sub: "unat (m - q) = unat m - unat q" using assms by (simp add: unat_sub order_less_imp_le)
  have amount: "unat (min i (m - q)) = min (unat i) (unat m - unat q)"
    by (simp add: min_def word_le_nat_alt sub)
  have "unat q + min (unat i) (unat m - unat q) \<le> unat m" using assms by (simp add: word_less_nat_alt)
  moreover have "unat m < 2 ^ LENGTH(32)" by (rule unsigned_less)
  ultimately show s: "unat (q + min i (m - q)) = unat q + min (unat i) (unat m - unat q)"
    by (subst unat_add_fits) (simp_all add: amount)
  show "unat (i - min i (m - q)) = unat i - min (unat i) (unat m - unat q)"
    by (subst unat_sub) (simp_all add: amount)
  show "q + min i (m - q) \<le> m"
    using s assms by (simp add: word_le_nat_alt word_less_nat_alt)
qed

definition same_but_quantity :: "stored_item \<Rightarrow> stored_item \<Rightarrow> bool" where
  "same_but_quantity a b \<longleftrightarrow> (\<exists>q. b = a\<lparr>si_quantity := q\<rparr>)"

lemma same_but_quantity_refl [simp]: "same_but_quantity a a"
  unfolding same_but_quantity_def by (rule exI [of _ "si_quantity a"]) simp

lemma same_but_quantity_update [simp]: "same_but_quantity a (a\<lparr>si_quantity := q\<rparr>)"
  unfolding same_but_quantity_def by blast

lemma merge_stacks_conserves:
  assumes "merge_stacks item items = (items', left, r)"
  shows "total_quantity items' + unat (si_quantity left) = total_quantity items + unat (si_quantity item)
    \<and> same_but_quantity item left \<and> list_all2 same_but_quantity items items'
    \<and> (r \<noteq> None \<longrightarrow> si_quantity left = 0) \<and> unat (si_quantity left) \<le> unat (si_quantity item)"
  using assms
proof (induction item items arbitrary: items' left r rule: merge_stacks.induct)
  case (2 item e es)
  show ?case
  proof (cases "si_definition_id e = si_definition_id item \<and> si_quantity e < si_max_stack e")
    case True
    then have lt: "si_quantity e < si_max_stack e" by simp
    note m = merge_amount [OF lt, of "si_quantity item"]
    let ?a = "min (si_quantity item) (si_max_stack e - si_quantity e)"
    let ?item = "item\<lparr>si_quantity := si_quantity item - ?a\<rparr>"
    show ?thesis
    proof (cases "si_quantity ?item = 0")
      case zero: True
      with 2(3) True have "items' = e\<lparr>si_quantity := si_quantity e + ?a\<rparr> # es" "left = ?item"
        by (auto simp: Let_def)
      with m(1,2) zero show ?thesis by (simp add: list_all2_refl)
    next
      case False
      obtain es' left' r' where rec: "merge_stacks ?item es = (es', left', r')"
        by (cases "merge_stacks ?item es")
      with 2(3) True False have out: "items' = e\<lparr>si_quantity := si_quantity e + ?a\<rparr> # es'"
        "left = left'" "r = r'" by (auto simp: Let_def)
      have "total_quantity es' + unat (si_quantity left') = total_quantity es + unat (si_quantity ?item)
          \<and> same_but_quantity ?item left' \<and> list_all2 same_but_quantity es es'
          \<and> (r' \<noteq> None \<longrightarrow> si_quantity left' = 0) \<and> unat (si_quantity left') \<le> unat (si_quantity ?item)"
        using "2.IH"(1) [OF True refl refl refl refl False rec] .
      moreover from this have "same_but_quantity item left'" by (auto simp: same_but_quantity_def)
      ultimately show ?thesis using m(1,2) by (auto simp: out)
    qed
  next
    case False
    obtain es' left' r' where rec: "merge_stacks item es = (es', left', r')"
      by (cases "merge_stacks item es")
    with 2(3) False have "items' = e # es'" "left = left'" "r = r'" by auto
    with "2.IH"(2) [OF False rec] show ?thesis by simp
  qed
qed simp

end
