(* ===== verification/Container_Layout.thy ===== *)
theory Container_Layout
  imports Containers
begin

text \<open>
  What the operations of Containers guarantee: the search finds a free place whenever there is one
  and never a colliding one, the layout of a grid stays free of overlaps, and the quantity of the
  stacks is conserved.
\<close>

section \<open>Geometry\<close>

definition item_fits :: "u8 \<Rightarrow> u8 \<Rightarrow> stored_item \<Rightarrow> bool" where
  "item_fits columns rows it \<longleftrightarrow>
     unat (si_x it) + unat (effective_width it) \<le> unat columns \<and>
     unat (si_y it) + unat (effective_height it) \<le> unat rows"

definition overlap :: "stored_item \<Rightarrow> stored_item \<Rightarrow> bool" where
  "overlap a b \<longleftrightarrow>
     unat (si_x a) < unat (si_x b) + unat (effective_width b) \<and>
     unat (si_x b) < unat (si_x a) + unat (effective_width a) \<and>
     unat (si_y a) < unat (si_y b) + unat (effective_height b) \<and>
     unat (si_y b) < unat (si_y a) + unat (effective_height a)"

definition item_covers :: "stored_item \<Rightarrow> nat \<Rightarrow> nat \<Rightarrow> bool" where
  "item_covers it x y \<longleftrightarrow>
     unat (si_x it) \<le> x \<and> x < unat (si_x it) + unat (effective_width it) \<and>
     unat (si_y it) \<le> y \<and> y < unat (si_y it) + unat (effective_height it)"

text \<open>For items with an area, overlapping is having a cell in common.\<close>

lemma overlap_iff_common_cell:
  assumes "0 < effective_width a" "0 < effective_height a" "0 < effective_width b" "0 < effective_height b"
  shows "overlap a b \<longleftrightarrow> (\<exists>x y. item_covers a x y \<and> item_covers b x y)"
proof
  assume "overlap a b"
  then have "item_covers a (max (unat (si_x a)) (unat (si_x b))) (max (unat (si_y a)) (unat (si_y b))) \<and>
      item_covers b (max (unat (si_x a)) (unat (si_x b))) (max (unat (si_y a)) (unat (si_y b)))"
    using assms by (auto simp: overlap_def item_covers_def max_def word_less_nat_alt)
  then show "\<exists>x y. item_covers a x y \<and> item_covers b x y" by blast
qed (auto simp: overlap_def item_covers_def)

lemma overlap_sym: "overlap a b \<longleftrightarrow> overlap b a"
  by (auto simp: overlap_def)

lemma collides_with_Some: "collides_with a b = Some hit \<Longrightarrow> hit = overlap a b"
  by (auto simp: collides_with_def overlap_def bind_eq_Some_conv machine_arith word_less_nat_alt
      split: if_splits)

lemma item_fits_adds:
  assumes "item_fits columns rows it"
  shows "\<exists>r. checked_add (si_x it) (effective_width it) = Some r"
    and "\<exists>b. checked_add (si_y it) (effective_height it) = Some b"
  using assms unsigned_less [of columns, where ?'a = nat] unsigned_less [of rows, where ?'a = nat]
  by (simp_all add: item_fits_def checked_add_def)

lemma collides_with_total:
  assumes "item_fits columns rows a" "item_fits columns rows b"
  shows "collides_with a b \<noteq> None"
  using item_fits_adds [OF assms(1)] item_fits_adds [OF assms(2)]
  by (auto simp: collides_with_def)

lemma any_collision_Some: "any_collision cand es = Some hit \<Longrightarrow> hit \<longleftrightarrow> (\<exists>e\<in>set es. overlap cand e)"
  by (induction es arbitrary: hit)
    (auto simp: bind_eq_Some_conv dest: collides_with_Some split: if_splits)

lemma any_collision_total:
  assumes "item_fits columns rows cand" "list_all (item_fits columns rows) es"
  shows "any_collision cand es \<noteq> None"
  using assms(2)
proof (induction es)
  case (Cons e es)
  then obtain hit where "collides_with cand e = Some hit"
    using collides_with_total [OF assms(1), of e] by auto
  with Cons show ?case by auto
qed simp

definition free_place :: "u8 \<Rightarrow> u8 \<Rightarrow> stored_item list \<Rightarrow> stored_item \<Rightarrow> bool" where
  "free_place columns rows existing cand \<longleftrightarrow>
     item_fits columns rows cand \<and> (\<forall>e\<in>set existing. \<not> overlap cand e)"

lemma candidate_free_Some:
  "candidate_free columns rows existing cand = Some free \<Longrightarrow> free \<longleftrightarrow> free_place columns rows existing cand"
  by (auto simp: candidate_free_def free_place_def item_fits_def bind_eq_Some_conv machine_arith
      word_le_nat_alt dest: any_collision_Some split: if_splits)

lemma candidate_free_verdict:
  "candidate_free columns rows existing cand = Some True \<Longrightarrow> free_place columns rows existing cand"
  "candidate_free columns rows existing cand = Some False \<Longrightarrow> \<not> free_place columns rows existing cand"
  using candidate_free_Some by blast+

lemma candidate_free_total:
  assumes "unat (si_x cand) + unat (effective_width cand) < 256"
    "unat (si_y cand) + unat (effective_height cand) < 256" "list_all (item_fits columns rows) existing"
  shows "candidate_free columns rows existing cand \<noteq> None"
proof -
  obtain r b where r: "checked_add (si_x cand) (effective_width cand) = Some r"
    and b: "checked_add (si_y cand) (effective_height cand) = Some b"
    using assms(1,2) by (auto simp: checked_add_def)
  have "any_collision cand existing \<noteq> None" if "r \<le> columns" "b \<le> rows"
    using that r b assms(3) by (intro any_collision_total [of columns rows])
      (auto simp: item_fits_def machine_arith word_le_nat_alt)
  with r b show ?thesis by (auto simp: candidate_free_def)
qed

section \<open>The search\<close>

lemma search_slots_found:
  "search_slots columns rows existing width height allow ps = Some (Some (x, y, rotated)) \<Longrightarrow>
     (y, x) \<in> set ps \<and> (rotated \<longrightarrow> allow \<and> width \<noteq> height) \<and>
     free_place columns rows existing (candidate_at width height x y rotated)"
  by (induction ps)
    (auto simp: bind_eq_Some_conv split: if_splits, (blast dest: candidate_free_verdict(1))+)

lemma search_slots_none:
  "search_slots columns rows existing width height allow ps = Some None \<Longrightarrow> (y, x) \<in> set ps \<Longrightarrow>
     \<not> free_place columns rows existing (candidate_at width height x y False) \<and>
     (allow \<longrightarrow> width \<noteq> height \<longrightarrow>
        \<not> free_place columns rows existing (candidate_at width height x y True))"
  by (induction ps)
    (auto simp: bind_eq_Some_conv split: if_splits, (blast dest: candidate_free_verdict(2))+)

lemma search_slots_total:
  assumes "\<forall>(y, x)\<in>set ps. unat x + max (unat width) (unat height) < 256 \<and>
      unat y + max (unat width) (unat height) < 256"
    and "list_all (item_fits columns rows) existing"
  shows "search_slots columns rows existing width height allow ps \<noteq> None"
  using assms(1)
proof (induction ps)
  case (Cons p ps)
  obtain y x where p: "p = (y, x)" by (cases p)
  have "candidate_free columns rows existing (candidate_at width height x y r) \<noteq> None" for r
    using Cons.prems p by (intro candidate_free_total [OF _ _ assms(2)])
      (auto simp: candidate_at_def effective_width_def effective_height_def stored_item_new_def)
  then obtain f0 f1 where "candidate_free columns rows existing (candidate_at width height x y False) = Some f0"
    "candidate_free columns rows existing (candidate_at width height x y True) = Some f1"
    by (metis not_None_eq)
  with Cons show ?case by (auto simp: p)
qed simp

text \<open>The side length of a grid and of an item together stay within a byte.\<close>

definition grid_bounded :: "u8 \<Rightarrow> u8 \<Rightarrow> u8 \<Rightarrow> u8 \<Rightarrow> bool" where
  "grid_bounded columns rows width height \<longleftrightarrow>
     unat columns + max (unat width) (unat height) \<le> 256 \<and> unat rows + max (unat width) (unat height) \<le> 256"

lemma find_free_slot_total:
  assumes "grid_bounded columns rows width height" "list_all (item_fits columns rows) existing"
  shows "find_free_slot columns rows existing width height allow \<noteq> None"
  unfolding find_free_slot_def
  using assms(1) by (intro search_slots_total [OF _ assms(2)])
    (auto simp: grid_bounded_def word_less_nat_alt)

lemma find_free_slot_found:
  assumes "find_free_slot columns rows existing width height allow = Some (Some (x, y, rotated))"
  shows "free_place columns rows existing (candidate_at width height x y rotated)"
    and "rotated \<longrightarrow> allow \<and> width \<noteq> height"
  using search_slots_found [OF assms [unfolded find_free_slot_def]] by simp_all

lemma find_free_slot_none:
  assumes "find_free_slot columns rows existing width height allow = Some None"
    and "0 < width" "0 < height"
  shows "\<not> free_place columns rows existing (candidate_at width height x y False)"
    and "allow \<Longrightarrow> \<not> free_place columns rows existing (candidate_at width height x y True)"
proof -
  have inside: "(y, x) \<in> set (List.product (word_range rows) (word_range columns))"
    if "free_place columns rows existing (candidate_at width height x y r)" for r
    using that assms(2,3) by (auto simp: free_place_def item_fits_def candidate_at_def word_less_nat_alt
      effective_width_def effective_height_def stored_item_new_def split: if_splits)
  have same: "free_place columns rows existing (candidate_at width height x y True) \<longleftrightarrow>
      free_place columns rows existing (candidate_at width height x y False)" if "width = height"
    using that by (simp add: free_place_def item_fits_def overlap_def candidate_at_def
      effective_width_def effective_height_def stored_item_new_def)
  from search_slots_none [OF assms(1) [unfolded find_free_slot_def]] inside
  show "\<not> free_place columns rows existing (candidate_at width height x y False)"
    and "allow \<Longrightarrow> \<not> free_place columns rows existing (candidate_at width height x y True)"
    using same by blast+
qed

section \<open>Layout\<close>

definition layout_ok :: "u8 \<Rightarrow> u8 \<Rightarrow> stored_item list \<Rightarrow> bool" where
  "layout_ok columns rows items \<longleftrightarrow>
     list_all (item_fits columns rows) items \<and> sorted_wrt (\<lambda>a b. \<not> overlap a b) items"

text \<open>Only the place, the size and the rotation of an item matter to the layout.\<close>

definition same_place :: "stored_item \<Rightarrow> stored_item \<Rightarrow> bool" where
  "same_place a b \<longleftrightarrow> si_x a = si_x b \<and> si_y a = si_y b \<and>
     effective_width a = effective_width b \<and> effective_height a = effective_height b"

lemma same_place_quantity: "same_but_quantity a b \<Longrightarrow> same_place a b"
  by (auto simp: same_but_quantity_def same_place_def effective_width_def effective_height_def)

lemma layout_ok_same_place:
  assumes "list_all2 same_place items items'"
  shows "layout_ok columns rows items' = layout_ok columns rows items"
proof -
  have fits: "item_fits columns rows b = item_fits columns rows a" if "same_place a b" for a b
    using that by (simp add: same_place_def item_fits_def)
  have ov: "overlap b b' = overlap a a'" if "same_place a b" "same_place a' b'" for a b a' b'
    using that by (simp add: same_place_def overlap_def)
  have pairs: "(\<forall>b\<in>set ys. \<not> overlap y b) = (\<forall>b\<in>set xs. \<not> overlap x b)"
    if "same_place x y" "list_all2 same_place xs ys" for x y xs ys
    using that(2,1) by (induction rule: list_all2_induct) (auto simp: ov)
  show ?thesis
    using assms
  proof (induction rule: list_all2_induct)
    case (Cons x xs y ys)
    then show ?case using fits [OF Cons(1)] pairs [OF Cons(1,2)] by (auto simp: layout_ok_def)
  qed simp
qed

lemma layout_ok_append:
  assumes "layout_ok columns rows items" "free_place columns rows items it"
  shows "layout_ok columns rows (items @ [it])"
  using assms by (auto simp: layout_ok_def free_place_def sorted_wrt_append overlap_sym [of it])

lemma layout_ok_remove:
  "layout_ok columns rows (us @ it # vs) \<Longrightarrow> layout_ok columns rows (us @ vs)"
  by (auto simp: layout_ok_def sorted_wrt_append)

lemma free_place_candidate:
  assumes "free_place columns rows items (candidate_at (si_width it) (si_height it) x y rotated)"
  shows "free_place columns rows items (it\<lparr>si_x := x, si_y := y, si_rotated := rotated\<rparr>)"
  using assms by (auto simp: free_place_def item_fits_def overlap_def candidate_at_def
    effective_width_def effective_height_def stored_item_new_def split: if_splits)

section \<open>Quick insert\<close>

lemma insert_into_cases:
  assumes "insert_into c item allow = Some (r, c')"
  obtains (refused) e where "r = Inl e" "e = CategoryNotAllowed \<or> e = NeedsFireproof" "c' = c"
  | (merged) items left e where "r = Inr e" "1 < si_max_stack item"
      "merge_stacks item (ci_items c) = (items, left, Some e)" "c' = c\<lparr>ci_items := items\<rparr>"
  | (failed) items left e where "r = Inl e" "e = NoSpace \<or> e = GridOnly" "c' = c\<lparr>ci_items := items\<rparr>"
      "merge_stacks item (ci_items c) = (items, left, None) \<or> items = ci_items c \<and> left = item"
  | (stored) columns rows items left x y rotated where
      "ci_content c = Grid columns rows"
      "merge_stacks item (ci_items c) = (items, left, None) \<or> items = ci_items c \<and> left = item"
      "find_free_slot columns rows items (si_width left) (si_height left) allow = Some (Some (x, y, rotated))"
      "r = Inr (left\<lparr>si_x := x, si_y := y, si_rotated := rotated\<rparr>)"
      "c' = c\<lparr>ci_items := items @ [left\<lparr>si_x := x, si_y := y, si_rotated := rotated\<rparr>]\<rparr>"
proof (cases "\<not> filter_allows (ci_allowed_tags c) (si_category item) \<or>
    si_category item = Hazardous \<and> \<not> is_fireproof c")
  case True
  with assms refused show ?thesis by (auto simp: insert_into_def split: if_splits)
next
  case False
  obtain items left m where pre: "(if 1 < si_max_stack item then merge_stacks item (ci_items c)
      else (ci_items c, item, None)) = (items, left, m)"
    by (cases "if 1 < si_max_stack item then merge_stacks item (ci_items c) else (ci_items c, item, None)")
  have run: "Some (r, c') = (case m of
      Some e \<Rightarrow> Some (Inr e, c\<lparr>ci_items := items\<rparr>)
    | None \<Rightarrow>
        (case ci_content c of
           Grid columns rows \<Rightarrow>
             (case find_free_slot columns rows items (si_width left) (si_height left) allow of
                None \<Rightarrow> None
              | Some None \<Rightarrow> Some (Inl NoSpace, c\<lparr>ci_items := items\<rparr>)
              | Some (Some (x, y, rotated)) \<Rightarrow>
                  (let placed = left\<lparr>si_x := x, si_y := y, si_rotated := rotated\<rparr>
                   in Some (Inr placed, c\<lparr>ci_items := items @ [placed]\<rparr>)))
         | _ \<Rightarrow> Some (Inl GridOnly, c\<lparr>ci_items := items\<rparr>)))"
    unfolding assms [symmetric] insert_into_def pre using False by (cases m) auto
  show ?thesis
  proof (cases m)
    case (Some e)
    then have "1 < si_max_stack item" "merge_stacks item (ci_items c) = (items, left, Some e)"
      using pre by (simp_all split: if_splits)
    with run Some show ?thesis by (intro merged) simp_all
  next
    case None
    have left: "merge_stacks item (ci_items c) = (items, left, None) \<or> items = ci_items c \<and> left = item"
      using pre None by (auto split: if_splits)
    show ?thesis
    proof (cases "ci_content c")
      case (Grid columns rows)
      show ?thesis
      proof (cases "find_free_slot columns rows items (si_width left) (si_height left) allow")
        case find: (Some place)
        show ?thesis
        proof (cases place)
          case no_place: None
          show ?thesis
            by (rule failed [OF _ _ _ left, of NoSpace]) (use run None Grid find no_place in simp_all)
        next
          case (Some p)
          obtain x y rotated where p: "p = (x, y, rotated)" by (cases p)
          show ?thesis
            by (rule stored [OF Grid left, of x y rotated])
              (use run None Grid find Some p in \<open>simp_all add: Let_def\<close>)
        qed
      qed (use run None Grid in simp)
    next
      case EmptyContent
      show ?thesis
        by (rule failed [OF _ _ _ left, of GridOnly]) (use run None EmptyContent in simp_all)
    next
      case (Slots n)
      show ?thesis
        by (rule failed [OF _ _ _ left, of GridOnly]) (use run None Slots in simp_all)
    qed
  qed
qed

lemma merge_or_same:
  assumes "merge_stacks item its = (items, left, None) \<or> items = its \<and> left = item"
  shows "total_quantity items + unat (si_quantity left) = total_quantity its + unat (si_quantity item)"
    and "list_all2 same_but_quantity its items" and "same_but_quantity item left"
  using assms merge_stacks_conserves [of item its items left None]
  by (auto simp: list_all2_refl)

lemma insert_into_quantity:
  assumes "insert_into c item allow = Some (Inr it, c')"
  shows "total_quantity (ci_items c') = total_quantity (ci_items c) + unat (si_quantity item)"
  using assms
proof (cases rule: insert_into_cases)
  case (merged items left e)
  with merge_stacks_conserves [OF merged(3)] show ?thesis by auto
next
  case (stored columns rows items left x y rotated)
  with merge_or_same(1) [OF stored(2)] show ?thesis by simp
qed simp_all

lemma insert_into_layout:
  assumes "insert_into c item allow = Some (r, c')" "ci_content c = Grid columns rows"
    "layout_ok columns rows (ci_items c)"
  shows "layout_ok columns rows (ci_items c') \<and> ci_content c' = Grid columns rows"
proof -
  have kept: "layout_ok columns rows items" if "list_all2 same_but_quantity (ci_items c) items" for items
    using that assms(3) by (simp add: layout_ok_same_place [OF list_all2_mono [OF that same_place_quantity]])
  show ?thesis
    using assms(1)
  proof (cases rule: insert_into_cases)
    case refused
    then show ?thesis using assms by simp
  next
    case (merged items left e)
    then show ?thesis using kept [of items] merge_stacks_conserves [OF merged(3)] assms(2) by simp
  next
    case (failed items left e)
    then show ?thesis using kept [of items] merge_or_same(2) [OF failed(4)] assms(2) by simp
  next
    case (stored columns' rows' items left x y rotated)
    then have cr: "columns' = columns" "rows' = rows" using assms(2) by simp_all
    have "free_place columns rows items (left\<lparr>si_x := x, si_y := y, si_rotated := rotated\<rparr>)"
      using find_free_slot_found(1) [OF stored(3)] free_place_candidate by (simp add: cr)
    then show ?thesis
      using stored(5) kept [OF merge_or_same(2) [OF stored(2)]] assms(2) layout_ok_append by simp
  qed
qed

section \<open>Splitting, removing, sorting\<close>

lemma split_in_cases:
  assumes "split_in c source amount new_id = Some (r, c')"
  obtains (failed) e where "r = Inl e" "c' = c"
  | (done_split) columns rows idx x y rotated new where "ci_content c = Grid columns rows"
      "idx < length (ci_items c)" "si_id (ci_items c ! idx) = source"
      "0 < amount" "amount < si_quantity (ci_items c ! idx)"
      "new = (stored_item_new new_id (si_definition_id (ci_items c ! idx)) (si_category (ci_items c ! idx))
         (si_unit_weight_grams (ci_items c ! idx)) amount (si_max_stack (ci_items c ! idx))
         (si_width (ci_items c ! idx)) (si_height (ci_items c ! idx)))\<lparr>si_x := x, si_y := y, si_rotated := rotated\<rparr>"
      "r = Inr new"
      "free_place columns rows ((ci_items c)[idx := (ci_items c ! idx)\<lparr>si_quantity :=
         si_quantity (ci_items c ! idx) - amount\<rparr>]) new"
      "c' = c\<lparr>ci_items := (ci_items c)[idx := (ci_items c ! idx)\<lparr>si_quantity :=
         si_quantity (ci_items c ! idx) - amount\<rparr>] @ [new]\<rparr>"
proof (cases "ci_content c")
  case (Grid columns rows)
  show ?thesis
  proof (cases "position (\<lambda>i. si_id i = source) (ci_items c)")
    case None
    with assms Grid failed show ?thesis by (auto simp: split_in_def)
  next
    case (Some idx)
    note pos = position_Some [OF Some]
    show ?thesis
    proof (cases "amount = 0 \<or> si_quantity (ci_items c ! idx) \<le> amount")
      case True
      with assms Grid Some failed show ?thesis by (auto simp: split_in_def Let_def split: if_splits)
    next
      case False
      let ?o = "ci_items c ! idx"
      let ?reduced = "(ci_items c)[idx := ?o\<lparr>si_quantity := si_quantity ?o - amount\<rparr>]"
      let ?new = "stored_item_new new_id (si_definition_id ?o) (si_category ?o)
        (si_unit_weight_grams ?o) amount (si_max_stack ?o) (si_width ?o) (si_height ?o)"
      have run: "split_in c source amount new_id =
        (case find_free_slot columns rows ?reduced (si_width ?o) (si_height ?o) True of
           None \<Rightarrow> None
         | Some (Some (x, y, rotated)) \<Rightarrow>
             (let placed = ?new\<lparr>si_x := x, si_y := y, si_rotated := rotated\<rparr>
              in Some (Inr placed, c\<lparr>ci_items := ?reduced @ [placed]\<rparr>))
         | Some None \<Rightarrow> Some (Inl NoSpace, c\<lparr>ci_items := ?reduced[idx := (?reduced ! idx)\<lparr>si_quantity :=
               si_quantity (?reduced ! idx) + amount\<rparr>]\<rparr>))"
        using Grid Some False
        by (auto simp: split_in_def Let_def stored_item_new_def split: option.split)
      show ?thesis
      proof (cases "find_free_slot columns rows ?reduced (si_width ?o) (si_height ?o) True")
        case find: (Some place)
        show ?thesis
        proof (cases place)
          case None
          have "?reduced[idx := (?reduced ! idx)\<lparr>si_quantity := si_quantity (?reduced ! idx) + amount\<rparr>] =
              (ci_items c)[idx := ?o]" using pos by simp
          then have "?reduced[idx := (?reduced ! idx)\<lparr>si_quantity := si_quantity (?reduced ! idx) + amount\<rparr>] =
              ci_items c" by simp
          with assms run find None failed show ?thesis by auto
        next
          case (Some p)
          obtain x y rotated where p: "p = (x, y, rotated)" by (cases p)
          let ?placed = "?new\<lparr>si_x := x, si_y := y, si_rotated := rotated\<rparr>"
          have "free_place columns rows ?reduced
              (candidate_at (si_width ?new) (si_height ?new) x y rotated)"
            using find_free_slot_found(1) find by (simp add: Some p stored_item_new_def)
          from free_place_candidate [OF this] have "free_place columns rows ?reduced ?placed" .
          then show ?thesis
            using assms run find pos False Grid
            by (intro done_split [where columns = columns and rows = rows and idx = idx and new = ?placed
                and x = x and y = y and rotated = rotated])
              (simp_all add: Some p Let_def not_le word_gt_0)
        qed
      qed (use assms run in simp)
    qed
  qed
qed (use assms failed in \<open>auto simp: split_in_def\<close>)

lemma split_in_quantity:
  assumes "split_in c source amount new_id = Some (r, c')"
  shows "total_quantity (ci_items c') = total_quantity (ci_items c)"
  using assms
proof (cases rule: split_in_cases)
  case (done_split columns rows idx x y rotated new)
  have "unat (si_quantity (ci_items c ! idx) - amount) = unat (si_quantity (ci_items c ! idx)) - unat amount"
    using done_split(5) by (intro unat_sub) simp
  moreover have "unat amount \<le> unat (si_quantity (ci_items c ! idx))"
    using done_split(5) by (simp add: word_less_nat_alt)
  moreover have "unat (si_quantity new) = unat amount" by (simp add: done_split(6) stored_item_new_def)
  ultimately show ?thesis
    using total_quantity_update [OF done_split(2), of "(ci_items c ! idx)\<lparr>si_quantity :=
      si_quantity (ci_items c ! idx) - amount\<rparr>"] by (simp add: done_split(9))
qed simp

lemma split_in_layout:
  assumes "split_in c source amount new_id = Some (r, c')" "ci_content c = Grid columns rows"
    "layout_ok columns rows (ci_items c)"
  shows "layout_ok columns rows (ci_items c')"
  using assms(1)
proof (cases rule: split_in_cases)
  case (done_split columns' rows' idx x y rotated new)
  let ?reduced = "(ci_items c)[idx := (ci_items c ! idx)\<lparr>si_quantity :=
      si_quantity (ci_items c ! idx) - amount\<rparr>]"
  have same: "same_place a a" for a by (simp add: same_place_def)
  have changed: "same_place (ci_items c ! idx) ((ci_items c ! idx)\<lparr>si_quantity :=
      si_quantity (ci_items c ! idx) - amount\<rparr>)" by (rule same_place_quantity) simp
  have "list_all2 same_place (ci_items c) ?reduced"
    unfolding list_all2_conv_all_nth
  proof (intro conjI allI impI)
    fix i
    assume "i < length (ci_items c)"
    then show "same_place (ci_items c ! i) (?reduced ! i)"
      by (cases "i = idx") (simp_all add: same changed)
  qed simp
  then have "layout_ok columns rows ?reduced" using assms(3) layout_ok_same_place by blast
  moreover have "columns' = columns" "rows' = rows" using done_split(1) assms(2) by simp_all
  ultimately show ?thesis using done_split(8,9) by (simp add: layout_ok_append)
qed (use assms in simp)

lemma remove_from_Inr:
  assumes "remove_from c item = (Inr it, c')"
  shows "si_id it = item \<and> mset (ci_items c) = add_mset it (mset (ci_items c')) \<and>
    c' = c\<lparr>ci_items := ci_items c'\<rparr> \<and> (\<forall>columns rows. layout_ok columns rows (ci_items c) \<longrightarrow>
      layout_ok columns rows (ci_items c'))"
proof -
  from assms obtain idx where pos: "position (\<lambda>i. si_id i = item) (ci_items c) = Some idx"
    and it: "it = ci_items c ! idx"
    and c': "c' = c\<lparr>ci_items := take idx (ci_items c) @ drop (Suc idx) (ci_items c)\<rparr>"
    by (auto simp: remove_from_def split: option.splits)
  note p = position_Some [OF pos]
  then have split: "ci_items c = take idx (ci_items c) @ it # drop (Suc idx) (ci_items c)"
    using id_take_nth_drop it by blast
  have "layout_ok columns rows (take idx (ci_items c) @ drop (Suc idx) (ci_items c))"
    if "layout_ok columns rows (ci_items c)" for columns rows
    using layout_ok_remove that split by metis
  moreover have "mset (ci_items c) = add_mset it (mset (take idx (ci_items c)) + mset (drop (Suc idx) (ci_items c)))"
    by (subst split) (simp only: mset_append mset.simps union_mset_add_mset_right)
  ultimately show ?thesis using p it c' by simp
qed

text \<open>A successful sort keeps every item up to its place, and the result is a valid layout.\<close>

definition unplaced :: "stored_item \<Rightarrow> stored_item" where
  "unplaced it = it\<lparr>si_x := 0, si_y := 0, si_rotated := False\<rparr>"

lemma place_sorted_ok:
  assumes "place_sorted columns rows placed rest = Some (Inr (), items)" "layout_ok columns rows placed"
  shows "layout_ok columns rows items \<and> map unplaced items = map unplaced placed @ map unplaced rest"
  using assms
proof (induction rest arbitrary: placed)
  case (Cons it rest)
  from Cons.prems(1) obtain x y rotated where
    find: "find_free_slot columns rows placed (si_width it) (si_height it) True = Some (Some (x, y, rotated))"
    and rec: "place_sorted columns rows (placed @ [it\<lparr>si_x := x, si_y := y, si_rotated := rotated\<rparr>]) rest =
      Some (Inr (), items)" by (auto split: option.splits)
  have "layout_ok columns rows (placed @ [it\<lparr>si_x := x, si_y := y, si_rotated := rotated\<rparr>])"
    using Cons.prems(2) find_free_slot_found(1) [OF find] free_place_candidate layout_ok_append by blast
  from Cons.IH [OF rec this] show ?case by (simp add: unplaced_def)
qed simp

lemma sort_in_ok:
  assumes "sort_in c = Some (Inr (), c')"
  obtains columns rows where "ci_content c = Grid columns rows" "layout_ok columns rows (ci_items c')"
    "mset (map unplaced (ci_items c')) = mset (map unplaced (ci_items c))"
proof (cases "ci_content c")
  case (Grid columns rows)
  with assms have "place_sorted columns rows [] (sort_key sort_rank (ci_items c)) = Some (Inr (), ci_items c')"
    by (auto simp: sort_in_def split: option.splits prod.splits)
  from place_sorted_ok [OF this] have layout: "layout_ok columns rows (ci_items c')"
    and items: "map unplaced (ci_items c') = map unplaced (sort_key sort_rank (ci_items c))"
    by (simp_all add: layout_ok_def)
  have "mset (map unplaced (ci_items c')) = mset (map unplaced (ci_items c))"
    by (simp add: items)
  with Grid layout that show ?thesis by blast
qed (use assms in \<open>simp_all add: sort_in_def\<close>)

text \<open>Sorting never produces an overlap, also where it gives up half way.\<close>

lemma place_sorted_layout:
  assumes "place_sorted columns rows placed rest = Some (r, items)" "layout_ok columns rows placed"
  shows "layout_ok columns rows items"
  using assms
proof (induction rest arbitrary: placed)
  case (Cons it rest)
  show ?case
  proof (cases "find_free_slot columns rows placed (si_width it) (si_height it) True")
    case (Some found)
    show ?thesis
    proof (cases found)
      case None
      with Some Cons.prems show ?thesis by simp
    next
      case (Some place)
      obtain x y rotated where place: "place = (x, y, rotated)" by (cases place) auto
      with Some \<open>find_free_slot _ _ _ _ _ _ = Some found\<close> have
        find: "find_free_slot columns rows placed (si_width it) (si_height it) True = Some (Some (x, y, rotated))"
        by simp
      have "layout_ok columns rows (placed @ [it\<lparr>si_x := x, si_y := y, si_rotated := rotated\<rparr>])"
        using Cons.prems(2) find_free_slot_found(1) [OF find] free_place_candidate layout_ok_append by blast
      with Cons find show ?thesis by simp
    qed
  qed (use Cons.prems in simp)
qed simp

lemma sort_in_layout:
  assumes "sort_in c = Some (r, c')" "ci_content c = Grid columns rows"
  shows "layout_ok columns rows (ci_items c') \<and> ci_content c' = Grid columns rows"
proof -
  from assms obtain items where p: "place_sorted columns rows [] (sort_key sort_rank (ci_items c)) = Some (r, items)"
    and c': "c' = c\<lparr>ci_items := items\<rparr>"
    by (auto simp: sort_in_def split: option.splits prod.splits)
  have "layout_ok columns rows items" by (rule place_sorted_layout [OF p]) (simp add: layout_ok_def)
  with assms(2) c' show ?thesis by simp
qed

section \<open>Properties\<close>

text \<open>
  The search for a free slot is sound and complete: on a grid small enough for its \<open>u8\<close> sums it never panics, a
  slot it returns holds the item without overlap, turned only where that is allowed, and when it returns none
  the item fits nowhere.
\<close>

theorem find_free_slot_exact:
  assumes "grid_bounded columns rows width height" "list_all (item_fits columns rows) existing"
    and "0 < width" "0 < height"
  shows "case find_free_slot columns rows existing width height allow of
      None \<Rightarrow> False
    | Some (Some (x, y, rotated)) \<Rightarrow> (rotated \<longrightarrow> allow \<and> width \<noteq> height) \<and>
        free_place columns rows existing (candidate_at width height x y rotated)
    | Some None \<Rightarrow> \<not> (\<exists>x y rotated. (rotated \<longrightarrow> allow) \<and>
        free_place columns rows existing (candidate_at width height x y rotated))"
proof (cases "find_free_slot columns rows existing width height allow")
  case None
  with find_free_slot_total [OF assms(1,2), of allow] show ?thesis by simp
next
  case (Some found)
  show ?thesis
  proof (cases found)
    case none: None
    have "\<not> free_place columns rows existing (candidate_at width height x y rotated)" if "rotated \<longrightarrow> allow" for x y rotated
      using find_free_slot_none [OF Some [unfolded none] assms(3,4), of x y] that by (cases rotated) auto
    with Some none show ?thesis by auto
  next
    case (Some place)
    obtain x y rotated where place: "place = (x, y, rotated)" by (cases place) auto
    with Some \<open>find_free_slot columns rows existing width height allow = Some found\<close> have
      find: "find_free_slot columns rows existing width height allow = Some (Some (x, y, rotated))" by simp
    with find_free_slot_found [OF find] show ?thesis by simp
  qed
qed

theorem find_free_slot_exact_witness:
  "\<exists>x y. find_free_slot 3 2 [candidate_at 2 2 0 0 False] 2 1 True = Some (Some (x, y, True)) \<and>
    free_place 3 2 [candidate_at 2 2 0 0 False] (candidate_at 2 1 x y True)"
proof -
  have "grid_bounded 3 2 2 1" by (simp add: grid_bounded_def)
  moreover have "list_all (item_fits 3 2) [candidate_at 2 2 0 0 False]" by code_simp
  moreover have "find_free_slot 3 2 [candidate_at 2 2 0 0 False] 2 1 True = Some (Some (2, 0, True))" by code_simp
  ultimately show ?thesis
    using find_free_slot_exact [of 3 2 2 1 "[candidate_at 2 2 0 0 False]" True] by simp
qed

end
