(* ===== verification/Container_Tree.thy ===== *)
theory Container_Tree
  imports Container_Layout
begin

text \<open>
  crates/domain/src/containers.rs, the tree of a character's containers: nesting with its cycle and
  depth checks, recursive weight and encumbrance, and the operations addressed to a container by
  its id. \<open>containers\<close> is iterated over and so an association list. The loops that follow parents
  are partial functions, \<open>None\<close> being a run that does not end; the recursive weight takes fuel.
\<close>

section \<open>Model\<close>

record container_tree =
  ct_root :: "container_id option"
  ct_containers :: "(container_id \<times> container_instance) list"

definition tree_new :: container_tree where
  "tree_new = \<lparr>ct_root = None, ct_containers = []\<rparr>"

definition set_root :: "container_instance \<Rightarrow> container_tree \<Rightarrow> container_tree" where
  "set_root c t =
     t\<lparr>ct_root := Some (ci_id c), ct_containers := AList.update (ci_id c) c (ct_containers t)\<rparr>"

definition add_container :: "container_instance \<Rightarrow> container_tree \<Rightarrow> container_tree" where
  "add_container c t = t\<lparr>ct_containers := AList.update (ci_id c) c (ct_containers t)\<rparr>"

definition get_container :: "container_tree \<Rightarrow> container_id \<Rightarrow> container_instance option" where
  "get_container t c = map_of (ct_containers t) c"

definition put_container ::
  "container_id \<Rightarrow> container_instance \<Rightarrow> container_tree \<Rightarrow> container_tree" where
  "put_container cid c t = t\<lparr>ct_containers := AList.update cid c (ct_containers t)\<rparr>"

definition parent_of :: "container_tree \<Rightarrow> container_id \<Rightarrow> container_id option" where
  "parent_of t c = Option.bind (get_container t c) ci_parent"

partial_function (option) chain_hits ::
  "container_tree \<Rightarrow> container_id \<Rightarrow> container_id option \<Rightarrow> bool option" where
  "chain_hits t moving current_parent =
     (case current_parent of
        None \<Rightarrow> Some False
      | Some p \<Rightarrow> if p = moving then Some True else chain_hits t moving (parent_of t p))"

definition would_create_cycle ::
  "container_tree \<Rightarrow> container_id \<Rightarrow> container_id \<Rightarrow> bool option" where
  "would_create_cycle t moving target =
     (if moving = target then Some True else chain_hits t moving (parent_of t target))"

partial_function (option) depth_from ::
  "container_tree \<Rightarrow> container_id \<Rightarrow> u32 \<Rightarrow> u32 option" where
  "depth_from t c depth =
     (case parent_of t c of
        None \<Rightarrow> Some depth
      | Some p \<Rightarrow> Option.bind (checked_add depth 1) (\<lambda>d. depth_from t p d))"

definition get_depth :: "container_tree \<Rightarrow> container_id \<Rightarrow> u32 option" where
  "get_depth t c = depth_from t c 0"

definition attach_to_parent ::
  "container_tree \<Rightarrow> container_id \<Rightarrow> container_id \<Rightarrow> u32
     \<Rightarrow> ((container_error + unit) \<times> container_tree) option" where
  "attach_to_parent t bag target max_depth =
     do {
       cyclic \<leftarrow> would_create_cycle t bag target;
       if cyclic then Some (Inl WouldCreateCycle, t) else
       (case get_container t target of
          None \<Rightarrow> Some (Inl DestinationNotFound, t)
        | Some parent \<Rightarrow>
            if \<not> ci_nesting_allowed parent then Some (Inl NestingNotAllowed, t)
            else do {
              depth \<leftarrow> get_depth t target;
              next \<leftarrow> checked_add depth 1;
              if max_depth < next then Some (Inl MaxDepthReached, t)
              else (case get_container t bag of
                      None \<Rightarrow> Some (Inl BagNotFound, t)
                    | Some b \<Rightarrow> Some (Inr (), put_container bag (b\<lparr>ci_parent := Some target\<rparr>) t)) }) }"

section \<open>Weight\<close>

fun sum_item_weights :: "stored_item list \<Rightarrow> u32 \<Rightarrow> u32 option" where
  "sum_item_weights [] acc = Some acc"
| "sum_item_weights (it # rest) acc =
     Option.bind (checked_add acc (total_weight_grams it)) (sum_item_weights rest)"

fun sum_child_weights ::
  "(container_id \<Rightarrow> (container_error + u32) option) \<Rightarrow> container_id \<Rightarrow> container_instance list \<Rightarrow> u32
     \<Rightarrow> (container_error + u32) option" where
  "sum_child_weights weight c [] acc = Some (Inr acc)"
| "sum_child_weights weight c (child # rest) acc =
     (if ci_parent child = Some c
      then (case weight (ci_id child) of
              None \<Rightarrow> None
            | Some (Inl e) \<Rightarrow> Some (Inl e)
            | Some (Inr w) \<Rightarrow> sum_child_weights weight c rest (saturating_add acc w))
      else sum_child_weights weight c rest acc)"

definition reduced_weight :: "u32 \<Rightarrow> u8 \<Rightarrow> u32" where
  "reduced_weight content percent = saturating_sub content (of_nat (unat content * unat percent div 100))"

fun calculate_container_weight ::
  "nat \<Rightarrow> container_tree \<Rightarrow> container_id \<Rightarrow> (container_error + u32) option" where
  "calculate_container_weight 0 t c = None"
| "calculate_container_weight (Suc fuel) t c =
     (case get_container t c of
        None \<Rightarrow> Some (Inl ContainerNotFound)
      | Some inst \<Rightarrow>
          (case sum_item_weights (ci_items inst) 0 of
             None \<Rightarrow> None
           | Some direct \<Rightarrow>
               (case sum_child_weights (calculate_container_weight fuel t) c
                       (map snd (ct_containers t)) 0 of
                  None \<Rightarrow> None
                | Some (Inl e) \<Rightarrow> Some (Inl e)
                | Some (Inr children) \<Rightarrow>
                    (case total_weight_reduction_percent inst of
                       None \<Rightarrow> None
                     | Some percent \<Rightarrow>
                         Some (Inr (saturating_add (ci_base_weight_grams inst)
                           (reduced_weight (saturating_add direct children) percent)))))))"

definition calculate_total_weight :: "nat \<Rightarrow> container_tree \<Rightarrow> (container_error + u32) option" where
  "calculate_total_weight fuel t =
     (case ct_root t of None \<Rightarrow> Some (Inr 0) | Some r \<Rightarrow> calculate_container_weight fuel t r)"

datatype encumbrance_tier = Light | Medium | Heavy | Overburdened

definition tier_of_weight :: "u32 \<Rightarrow> u32 \<Rightarrow> encumbrance_tier" where
  "tier_of_weight current max_capacity =
     (if max_capacity = 0 then Overburdened
      else (let percentage = unat current * 100 div unat max_capacity
            in if percentage \<le> 50 then Light else if percentage \<le> 80 then Medium
               else if percentage \<le> 100 then Heavy else Overburdened))"

definition get_encumbrance_tier :: "nat \<Rightarrow> container_tree \<Rightarrow> u32 \<Rightarrow> encumbrance_tier option" where
  "get_encumbrance_tier fuel t max_capacity =
     map_option (\<lambda>r. tier_of_weight (case r of Inl _ \<Rightarrow> 0 | Inr w \<Rightarrow> w) max_capacity)
       (calculate_total_weight fuel t)"

section \<open>Operations by container id\<close>

definition quick_insert ::
  "container_tree \<Rightarrow> container_id \<Rightarrow> stored_item \<Rightarrow> bool
     \<Rightarrow> ((container_error + stored_item) \<times> container_tree) option" where
  "quick_insert t cid item allow =
     (case get_container t cid of
        None \<Rightarrow> Some (Inl DestinationNotFound, t)
      | Some c \<Rightarrow> map_option (\<lambda>(r, c'). (r, put_container cid c' t)) (insert_into c item allow))"

definition split_stack ::
  "container_tree \<Rightarrow> container_id \<Rightarrow> u64 \<Rightarrow> u32 \<Rightarrow> u64
     \<Rightarrow> ((container_error + stored_item) \<times> container_tree) option" where
  "split_stack t cid source amount new_id =
     (case get_container t cid of
        None \<Rightarrow> Some (Inl ContainerNotFound, t)
      | Some c \<Rightarrow> map_option (\<lambda>(r, c'). (r, put_container cid c' t)) (split_in c source amount new_id))"

definition auto_sort ::
  "container_tree \<Rightarrow> container_id \<Rightarrow> ((container_error + unit) \<times> container_tree) option" where
  "auto_sort t cid =
     (case get_container t cid of
        None \<Rightarrow> Some (Inl ContainerNotFound, t)
      | Some c \<Rightarrow> map_option (\<lambda>(r, c'). (r, put_container cid c' t)) (sort_in c))"

definition drop_item ::
  "container_tree \<Rightarrow> container_id \<Rightarrow> u64 \<Rightarrow> (container_error + stored_item) \<times> container_tree" where
  "drop_item t cid item =
     (case get_container t cid of
        None \<Rightarrow> (Inl ContainerNotFound, t)
      | Some c \<Rightarrow> (case remove_from c item of (r, c') \<Rightarrow> (r, put_container cid c' t)))"

definition destroy_item ::
  "container_tree \<Rightarrow> container_id \<Rightarrow> u64 \<Rightarrow> (container_error + unit) \<times> container_tree" where
  "destroy_item t cid item =
     (case drop_item t cid item of (r, t') \<Rightarrow> (map_sum id (\<lambda>_. ()) r, t'))"

fun deposit_loop ::
  "container_tree \<Rightarrow> container_id \<Rightarrow> container_id \<Rightarrow> u64 list \<Rightarrow> nat \<Rightarrow> (nat \<times> container_tree) option"
where
  "deposit_loop t source target [] moved = Some (moved, t)"
| "deposit_loop t source target (item # rest) moved =
     (case drop_item t source item of
        (Inl e, t') \<Rightarrow> deposit_loop t' source target rest moved
      | (Inr removed, t') \<Rightarrow>
          (case quick_insert t' target removed True of
             None \<Rightarrow> None
           | Some (Inr _, t'') \<Rightarrow> deposit_loop t'' source target rest (moved + 1)
           | Some (Inl e, t'') \<Rightarrow>
               (case get_container t'' source of
                  None \<Rightarrow> None
                | Some c \<Rightarrow>
                    Some (moved, put_container source (c\<lparr>ci_items := ci_items c @ [removed]\<rparr>) t''))))"

definition deposit_matching ::
  "container_tree \<Rightarrow> container_id \<Rightarrow> container_id
     \<Rightarrow> ((container_error + nat) \<times> container_tree) option" where
  "deposit_matching t source target =
     (if source = target then Some (Inl SameContainer, t)
      else
        (case get_container t target of
           None \<Rightarrow> Some (Inl DestinationNotFound, t)
         | Some tgt \<Rightarrow>
             (case get_container t source of
                None \<Rightarrow> Some (Inl SourceNotFound, t)
              | Some src \<Rightarrow>
                  (let definitions = map si_definition_id (ci_items tgt);
                       matching = map si_id (filter (\<lambda>i. si_definition_id i \<in> set definitions) (ci_items src))
                   in map_option (\<lambda>(n, t'). (Inr n, t')) (deposit_loop t source target matching 0)))))"

section \<open>Nesting\<close>

definition parent_rel :: "container_tree \<Rightarrow> (container_id \<times> container_id) set" where
  "parent_rel t = {(c, p). parent_of t c = Some p}"

lemma finite_parent_rel: "finite (parent_rel t)"
proof -
  have "(c, p) \<in> (\<lambda>c. (c, the (parent_of t c))) ` set (map fst (ct_containers t))"
    if "(c, p) \<in> parent_rel t" for c p
  proof -
    from that obtain inst where "map_of (ct_containers t) c = Some inst" "parent_of t c = Some p"
      by (auto simp: parent_rel_def parent_of_def get_container_def bind_eq_Some_conv)
    moreover from this(1) have "c \<in> set (map fst (ct_containers t))"
      using map_of_eq_Some_set by simp
    ultimately have "c \<in> set (map fst (ct_containers t))" "(c, p) = (c, the (parent_of t c))" by simp_all
    then show ?thesis by blast
  qed
  then have "parent_rel t \<subseteq> (\<lambda>c. (c, the (parent_of t c))) ` set (map fst (ct_containers t))" by auto
  then show ?thesis by (rule finite_subset) simp
qed

definition well_nested :: "container_tree \<Rightarrow> bool" where
  "well_nested t \<longleftrightarrow> acyclic (parent_rel t)"

lemma well_nested_wf: "well_nested t \<Longrightarrow> wf ((parent_rel t)\<inverse>)"
  unfolding well_nested_def by (rule finite_acyclic_wf_converse [OF finite_parent_rel])

lemma parent_rel_rtrancl:
  "parent_of t c = Some p \<Longrightarrow> (c, m) \<in> (parent_rel t)\<^sup>* \<longleftrightarrow> c = m \<or> (p, m) \<in> (parent_rel t)\<^sup>*"
proof
  assume p: "parent_of t c = Some p" and "(c, m) \<in> (parent_rel t)\<^sup>*"
  then show "c = m \<or> (p, m) \<in> (parent_rel t)\<^sup>*"
    by (auto simp: parent_rel_def elim: converse_rtranclE)
next
  assume "parent_of t c = Some p" "c = m \<or> (p, m) \<in> (parent_rel t)\<^sup>*"
  then show "(c, m) \<in> (parent_rel t)\<^sup>*"
    by (auto simp: parent_rel_def intro: converse_rtrancl_into_rtrancl)
qed

lemma chain_hits_ends:
  assumes "well_nested t"
  shows "chain_hits t moving (Some c) = Some ((c, moving) \<in> (parent_rel t)\<^sup>*)"
proof (induction c rule: wf_induct_rule [OF well_nested_wf [OF assms]])
  case (1 c)
  show ?case
  proof (cases "c = moving")
    case False
    show ?thesis
    proof (cases "parent_of t c")
      case None
      then have "(c, moving) \<notin> (parent_rel t)\<^sup>*"
        using False by (auto simp: parent_rel_def elim: converse_rtranclE)
      then show ?thesis using False None by (simp add: chain_hits.simps)
    next
      case (Some p)
      then have "chain_hits t moving (Some p) = Some ((p, moving) \<in> (parent_rel t)\<^sup>*)"
        by (intro 1) (simp add: parent_rel_def)
      then show ?thesis
        using False by (simp add: chain_hits.simps [of t moving "Some c"] Some parent_rel_rtrancl [OF Some])
    qed
  qed (simp add: chain_hits.simps)
qed

lemma would_create_cycle_ends:
  assumes "well_nested t"
  shows "would_create_cycle t moving target = Some ((target, moving) \<in> (parent_rel t)\<^sup>*)"
proof (cases "parent_of t target")
  case None
  then have "(target, moving) \<in> (parent_rel t)\<^sup>* \<longleftrightarrow> moving = target"
    by (auto simp: parent_rel_def elim: converse_rtranclE)
  with None show ?thesis by (simp add: would_create_cycle_def chain_hits.simps)
next
  case (Some p)
  with chain_hits_ends [OF assms] parent_rel_rtrancl [OF Some] show ?thesis
    by (auto simp: would_create_cycle_def)
qed

lemma depth_from_ends:
  assumes "well_nested t"
  shows "\<exists>n. \<forall>d. unat d + n < 2 ^ 32 \<longrightarrow> (\<exists>r. depth_from t c d = Some r \<and> unat r = unat d + n)"
proof (induction c rule: wf_induct_rule [OF well_nested_wf [OF assms]])
  case (1 c)
  show ?case
  proof (cases "parent_of t c")
    case None
    then show ?thesis by (intro exI [of _ 0]) (simp add: depth_from.simps)
  next
    case (Some p)
    then obtain n where n: "\<forall>d. unat d + n < 2 ^ 32 \<longrightarrow>
        (\<exists>r. depth_from t p d = Some r \<and> unat r = unat d + n)"
      using 1 [of p] by (auto simp: parent_rel_def)
    have "\<exists>r. depth_from t c d = Some r \<and> unat r = unat d + Suc n" if "unat d + Suc n < 2 ^ 32" for d
    proof -
      have "\<exists>d'. checked_add d 1 = Some d' \<and> unat d' = unat d + 1"
        using that by (simp add: checked_add_def unat_add_fits)
      then obtain d' where d': "checked_add d 1 = Some d'" "unat d' = unat d + 1" by blast
      then have "unat d' + n < 2 ^ 32" using that by simp
      then obtain r where "depth_from t p d' = Some r" "unat r = unat d' + n" using n by blast
      with d' show ?thesis by (simp add: depth_from.simps [of t c] Some)
    qed
    then show ?thesis by blast
  qed
qed

text \<open>A successful attachment sets the parent and keeps the nesting free of cycles.\<close>

lemma attach_to_parent_ok:
  assumes nested: "well_nested t" and ok: "attach_to_parent t bag target max_depth = Some (Inr (), t')"
  shows "parent_of t' bag = Some target" "well_nested t'"
    "\<exists>d. get_depth t target = Some d \<and> unat d + 1 \<le> unat max_depth"
    "\<exists>p. get_container t target = Some p \<and> ci_nesting_allowed p"
proof -
  from ok would_create_cycle_ends [OF nested, of bag target] obtain parent depth nx b where
    no_cycle: "(target, bag) \<notin> (parent_rel t)\<^sup>*"
    and parent: "get_container t target = Some parent" "ci_nesting_allowed parent"
    and depth: "get_depth t target = Some depth" "checked_add depth 1 = Some nx" "\<not> max_depth < nx"
    and bag: "get_container t bag = Some b"
    and t': "t' = put_container bag (b\<lparr>ci_parent := Some target\<rparr>) t"
    by (auto simp: attach_to_parent_def bind_eq_Some_conv split: if_splits option.splits)
  show "parent_of t' bag = Some target"
    by (simp add: t' parent_of_def get_container_def put_container_def keyed_simps)
  show "\<exists>d. get_depth t target = Some d \<and> unat d + 1 \<le> unat max_depth"
    using depth by (auto simp: machine_arith word_less_nat_alt)
  show "\<exists>p. get_container t target = Some p \<and> ci_nesting_allowed p" using parent by blast
  have "parent_rel t' \<subseteq> insert (bag, target) (parent_rel t)"
    by (auto simp: t' parent_rel_def parent_of_def get_container_def put_container_def keyed_simps
      split: if_splits)
  moreover have "acyclic (insert (bag, target) (parent_rel t))"
    using nested no_cycle by (simp add: well_nested_def acyclic_insert)
  ultimately show "well_nested t'" unfolding well_nested_def by (rule acyclic_subset [rotated])
qed

section \<open>Weight\<close>

lemma total_weight_reduction_le: "total_weight_reduction_percent c = Some p \<Longrightarrow> unat p \<le> 100"
proof -
  assume "total_weight_reduction_percent c = Some p"
  then obtain t :: u16 where p: "p = ucast (min t 100)"
    by (auto simp: total_weight_reduction_percent_def)
  have "unat (min t 100) \<le> unat (100 :: u16)" by (simp add: min_def word_le_nat_alt)
  then show ?thesis by (simp add: p unsigned_ucast_eq take_bit_nat_eq_self)
qed

lemma reduced_weight_value:
  assumes "unat percent \<le> 100"
  shows "unat (reduced_weight content percent) = unat content - unat content * unat percent div 100"
proof -
  have "unat content * unat percent div 100 \<le> unat content * 100 div 100"
    using assms by (intro div_le_mono mult_le_mono2)
  also have "\<dots> < 2 ^ LENGTH(32)" using unsigned_less [of content, where ?'a = nat] by simp
  finally have "unat (of_nat (unat content * unat percent div 100) :: u32) = unat content * unat percent div 100"
    by (simp add: unat_of_nat take_bit_nat_eq_self)
  then show ?thesis by (simp add: reduced_weight_def unat_saturating_sub)
qed

lemma sum_child_weights_mono:
  assumes "\<And>c r. f c = Some r \<Longrightarrow> g c = Some r" "sum_child_weights f c xs acc = Some r"
  shows "sum_child_weights g c xs acc = Some r"
  using assms(2)
proof (induction xs arbitrary: acc)
  case (Cons x xs)
  then show ?case
    using assms(1) [of "ci_id x"] by (auto split: if_splits option.splits sum.splits)
qed simp

lemma weight_fuel_mono:
  assumes "calculate_container_weight n t c = Some r" "n \<le> m"
  shows "calculate_container_weight m t c = Some r"
  using assms
proof (induction n arbitrary: m c r)
  case (Suc n)
  from Suc.prems(2) obtain m' where m: "m = Suc m'" "n \<le> m'" by (cases m) auto
  have "sum_child_weights (calculate_container_weight m' t) c xs acc = Some s"
    if "sum_child_weights (calculate_container_weight n t) c xs acc = Some s" for xs acc s
    using Suc.IH [OF _ m(2)] by (rule sum_child_weights_mono [OF _ that])
  then show ?case
    using Suc.prems(1) by (auto simp: m(1) split: option.splits sum.splits)
qed simp

text \<open>What \<open>add_container\<close> maintains: containers are stored under their own id.\<close>

definition keyed_by_id :: "container_tree \<Rightarrow> bool" where
  "keyed_by_id t \<longleftrightarrow> distinct (map fst (ct_containers t)) \<and>
     (\<forall>(k, c)\<in>set (ct_containers t). ci_id c = k)"

text \<open>No container's own sums leave their machine types.\<close>

definition sums_fit :: "container_tree \<Rightarrow> bool" where
  "sums_fit t \<longleftrightarrow> (\<forall>c\<in>set (map snd (ct_containers t)).
     sum_item_weights (ci_items c) 0 \<noteq> None \<and> total_weight_reduction_percent c \<noteq> None)"

lemma sum_child_weights_total:
  assumes "\<forall>x\<in>set xs. ci_parent x = Some c \<longrightarrow> (\<exists>w. f (ci_id x) = Some (Inr w))"
  shows "\<exists>w. sum_child_weights f c xs acc = Some (Inr w)"
  using assms by (induction xs arbitrary: acc) auto

lemma common_fuel:
  assumes "\<forall>x\<in>set xs. \<exists>n w. calculate_container_weight n t (g x) = Some (Inr w)"
  shows "\<exists>n. \<forall>x\<in>set xs. \<exists>w. calculate_container_weight n t (g x) = Some (Inr w)"
  using assms
proof (induction xs)
  case (Cons x xs)
  have "\<forall>x\<in>set xs. \<exists>n w. calculate_container_weight n t (g x) = Some (Inr w)"
    using Cons.prems by simp
  from Cons.IH [OF this] obtain n where
    n: "\<forall>x\<in>set xs. \<exists>w. calculate_container_weight n t (g x) = Some (Inr w)" by blast
  have "\<exists>k w. calculate_container_weight k t (g x) = Some (Inr w)" using Cons.prems by simp
  then obtain k w where k: "calculate_container_weight k t (g x) = Some (Inr w)" by blast
  have "\<forall>y\<in>set (x # xs). \<exists>w. calculate_container_weight (max n k) t (g y) = Some (Inr w)"
  proof
    fix y
    assume "y \<in> set (x # xs)"
    then consider "y = x" | "y \<in> set xs" by auto
    then show "\<exists>w. calculate_container_weight (max n k) t (g y) = Some (Inr w)"
    proof cases
      case 1
      have "calculate_container_weight (max n k) t (g x) = Some (Inr w)"
        by (rule weight_fuel_mono [OF k]) simp
      with 1 show ?thesis by blast
    next
      case 2
      with n obtain v where "calculate_container_weight n t (g y) = Some (Inr v)" by blast
      then have "calculate_container_weight (max n k) t (g y) = Some (Inr v)"
        by (rule weight_fuel_mono) simp
      then show ?thesis by blast
    qed
  qed
  then show ?case by blast
qed simp

lemma weight_returns:
  assumes nested: "well_nested t" and keyed: "keyed_by_id t" and fit: "sums_fit t"
    and c: "get_container t c = Some inst"
  shows "\<exists>n w. calculate_container_weight n t c = Some (Inr w)"
  using c
proof (induction c arbitrary: inst rule: wf_induct_rule [OF finite_acyclic_wf [OF finite_parent_rel
        nested [unfolded well_nested_def]]])
  case (1 c)
  let ?children = "filter (\<lambda>x. ci_parent x = Some c) (map snd (ct_containers t))"
  have "\<exists>n w. calculate_container_weight n t (ci_id x) = Some (Inr w)" if "x \<in> set ?children" for x
  proof -
    from that keyed have "(ci_id x, x) \<in> set (ct_containers t)" "ci_parent x = Some c"
      by (auto simp: keyed_by_id_def)
    then have x: "get_container t (ci_id x) = Some x"
      using keyed by (simp add: keyed_by_id_def get_container_def)
    then have "(ci_id x, c) \<in> parent_rel t"
      using \<open>ci_parent x = Some c\<close> by (simp add: parent_rel_def parent_of_def)
    from "1.IH" [OF this x] show ?thesis .
  qed
  then obtain n where n: "\<forall>x\<in>set ?children. \<exists>w. calculate_container_weight n t (ci_id x) = Some (Inr w)"
    using common_fuel [of ?children t ci_id] by blast
  then obtain children where
    "sum_child_weights (calculate_container_weight n t) c (map snd (ct_containers t)) 0 = Some (Inr children)"
    using sum_child_weights_total [of "map snd (ct_containers t)" c "calculate_container_weight n t" 0]
    by auto
  moreover have "inst \<in> set (map snd (ct_containers t))"
    using "1.prems" map_of_SomeD [of "ct_containers t" c inst] by (force simp: get_container_def)
  then obtain direct percent where "sum_item_weights (ci_items inst) 0 = Some direct"
    "total_weight_reduction_percent inst = Some percent" using fit by (auto simp: sums_fit_def)
  ultimately have "\<exists>w. calculate_container_weight (Suc n) t c = Some (Inr w)"
    using "1.prems" by simp
  then show ?case by blast
qed

lemma weight_at_least_base:
  assumes "calculate_container_weight n t c = Some (Inr w)" "get_container t c = Some inst"
  shows "ci_base_weight_grams inst \<le> w"
proof -
  have "unat (ci_base_weight_grams inst) \<le> unat (saturating_add (ci_base_weight_grams inst) x)" for x
    using unsigned_less [of "ci_base_weight_grams inst", where ?'a = nat] by (simp add: unat_saturating_add)
  then show ?thesis
    using assms by (cases n) (auto simp: word_le_nat_alt split: option.splits sum.splits)
qed

section \<open>Deposits\<close>

definition contents :: "container_tree \<Rightarrow> container_id \<Rightarrow> stored_item list" where
  "contents t c = (case get_container t c of None \<Rightarrow> [] | Some i \<Rightarrow> ci_items i)"

lemma contents_put [simp]:
  "contents (put_container c inst t) d = (if d = c then ci_items inst else contents t d)"
  by (simp add: contents_def get_container_def put_container_def keyed_simps)

lemma drop_item_contents:
  assumes "drop_item t c item = (r, t')"
  shows "(case r of Inl _ \<Rightarrow> \<forall>d. contents t' d = contents t d
    | Inr it \<Rightarrow> total_quantity (contents t c) = unat (si_quantity it) + total_quantity (contents t' c) \<and>
        (\<forall>d. d \<noteq> c \<longrightarrow> contents t' d = contents t d))"
proof (cases "get_container t c")
  case None
  with assms show ?thesis by (auto simp: drop_item_def)
next
  case (Some inst)
  obtain r' inst' where rem: "remove_from inst item = (r', inst')" by (cases "remove_from inst item")
  have t': "r' = r" "t' = put_container c inst' t" using assms by (auto simp: drop_item_def Some rem)
  show ?thesis
  proof (cases r)
    case (Inl e)
    then have "inst' = inst" using rem t' by (auto simp: remove_from_def split: option.splits)
    moreover have "contents t c = ci_items inst" by (simp add: contents_def Some)
    ultimately show ?thesis using Inl t' by auto
  next
    case (Inr it)
    with rem t' have "mset (ci_items inst) = add_mset it (mset (ci_items inst'))"
      using remove_from_Inr by blast
    then have "sum_mset (image_mset (\<lambda>it. unat (si_quantity it)) (mset (ci_items inst))) =
        unat (si_quantity it) + sum_mset (image_mset (\<lambda>it. unat (si_quantity it)) (mset (ci_items inst')))"
      by simp
    then have "total_quantity (ci_items inst) = unat (si_quantity it) + total_quantity (ci_items inst')"
      unfolding total_quantity_def by (simp only: mset_map [symmetric] sum_mset_sum_list)
    with Inr t' Some show ?thesis by (simp add: contents_def [of t])
  qed
qed

lemma quick_insert_contents:
  assumes "quick_insert t c item allow = Some (r, t')" "get_container t c \<noteq> None"
  shows "(\<forall>d. d \<noteq> c \<longrightarrow> contents t' d = contents t d) \<and>
    (case r of Inl _ \<Rightarrow> total_quantity (contents t c) \<le> total_quantity (contents t' c)
     | Inr _ \<Rightarrow> total_quantity (contents t' c) = total_quantity (contents t c) + unat (si_quantity item))"
proof -
  from assms obtain inst inst' where inst: "get_container t c = Some inst"
    and ins: "insert_into inst item allow = Some (r, inst')" and t': "t' = put_container c inst' t"
    by (auto simp: quick_insert_def)
  have c: "contents t c = ci_items inst" by (simp add: contents_def inst)
  show ?thesis
  proof (cases r)
    case (Inr it)
    with insert_into_quantity [of inst item allow it inst'] ins c t' show ?thesis by simp
  next
    case (Inl e)
    from ins have "total_quantity (ci_items inst) \<le> total_quantity (ci_items inst')"
    proof (cases rule: insert_into_cases)
      case (failed items left e')
      then show ?thesis
        using merge_stacks_conserves [of item "ci_items inst" items left None] by auto
    qed (use Inl in simp_all)
    with Inl c t' show ?thesis by simp
  qed
qed

lemma get_container_put [simp]:
  "get_container (put_container c inst t) d = (if d = c then Some inst else get_container t d)"
  by (simp add: get_container_def put_container_def keyed_simps)

lemma drop_item_exists: "drop_item t c item = (r, t') \<Longrightarrow> get_container t d \<noteq> None \<Longrightarrow> get_container t' d \<noteq> None"
  by (auto simp: drop_item_def split: option.splits prod.splits)

lemma quick_insert_exists:
  "quick_insert t c item allow = Some (r, t') \<Longrightarrow> get_container t d \<noteq> None \<Longrightarrow> get_container t' d \<noteq> None"
  by (auto simp: quick_insert_def split: option.splits)

text \<open>A deposit never loses quantity: what leaves the source is in the target or back in the source.\<close>

definition pair_quantity :: "container_tree \<Rightarrow> container_id \<Rightarrow> container_id \<Rightarrow> nat" where
  "pair_quantity t a b = total_quantity (contents t a) + total_quantity (contents t b)"

lemma deposit_loop_exact:
  assumes "deposit_loop t source target items moved = Some (n, t')" "source \<noteq> target"
    "get_container t source \<noteq> None" "get_container t target \<noteq> None"
  shows "n \<le> moved + length items \<and> pair_quantity t source target \<le> pair_quantity t' source target \<and>
    (n = moved + length items \<longrightarrow> pair_quantity t' source target = pair_quantity t source target) \<and>
    (\<forall>d. d \<noteq> source \<and> d \<noteq> target \<longrightarrow> contents t' d = contents t d)"
  using assms
proof (induction items arbitrary: t moved)
  case (Cons item items)
  obtain r t1 where drop: "drop_item t source item = (r, t1)" by (cases "drop_item t source item")
  note d = drop_item_contents [OF drop] and ex1 = drop_item_exists [OF drop]
  show ?case
  proof (cases r)
    case (Inl e)
    with Cons.prems drop have "deposit_loop t1 source target items moved = Some (n, t')" by simp
    from Cons.IH [OF this Cons.prems(2) ex1 ex1] Cons.prems(3,4) d Inl show ?thesis
      by (simp add: pair_quantity_def)
  next
    case (Inr removed)
    from Cons.prems(1) drop Inr obtain r2 t2 where ins: "quick_insert t1 target removed True = Some (r2, t2)"
      by (auto split: option.splits)
    note q = quick_insert_contents [OF ins ex1 [OF Cons.prems(4)]]
    note ex2 = quick_insert_exists [OF ins ex1]
    show ?thesis
    proof (cases r2)
      case ok: (Inr it)
      with Cons.prems(1) drop Inr ins have "deposit_loop t2 source target items (moved + 1) = Some (n, t')"
        by simp
      from Cons.IH [OF this Cons.prems(2) ex2 ex2] Cons.prems(2-4) d q Inr ok show ?thesis
        by (simp add: pair_quantity_def)
    next
      case (Inl e)
      with Cons.prems(1) drop Inr ins obtain c where c: "get_container t2 source = Some c"
        and t': "n = moved"
        "t' = put_container source (c\<lparr>ci_items := ci_items c @ [removed]\<rparr>) t2"
        by (auto split: option.splits)
      have "contents t2 source = ci_items c" by (simp add: contents_def c)
      with Cons.prems(2) d q Inr Inl show ?thesis
        by (simp add: pair_quantity_def t')
    qed
  qed
qed simp

section \<open>Two concrete runs\<close>

text \<open>
  A full target of one cell with 5 of at most 10 stones, and a source with 10 stones. The quick
  insert merges 5 stones, finds no place for the rest and fails; the deposit puts the whole stack
  back into the source.
\<close>

definition stones :: "u64 \<Rightarrow> u32 \<Rightarrow> stored_item" where
  "stones i n = stored_item_new i 500 Ore 100 n 10 1 1"

definition deposit_example :: container_tree where
  "deposit_example =
     add_container ((container_new_grid 2 1 1 0)\<lparr>ci_items := [stones 20 5]\<rparr>)
       (add_container ((container_new_grid 1 2 2 0)\<lparr>ci_items := [stones 10 10]\<rparr>) tree_new)"

lemma deposit_example_run:
  "deposit_matching deposit_example 1 2 = Some (Inr 0,
     add_container ((container_new_grid 2 1 1 0)\<lparr>ci_items := [stones 20 10]\<rparr>)
       (add_container ((container_new_grid 1 2 2 0)\<lparr>ci_items := [stones 10 10]\<rparr>) tree_new))"
  by code_simp

text \<open>
  A valid layout of a 4 by 4 grid with items of 4 by 1, 2 by 3 and 2 by 2 cells. Placed again in
  descending order of area, the last one no longer fits and is gone.
\<close>

definition sort_example :: container_instance where
  "sort_example = (container_new_grid 1 4 4 0)\<lparr>ci_items :=
     [(stored_item_new 1 9 General 1 1 1 4 1)\<lparr>si_x := 0, si_y := 0\<rparr>,
      (stored_item_new 2 8 General 1 1 1 2 3)\<lparr>si_x := 2, si_y := 1\<rparr>,
      (stored_item_new 3 7 General 1 1 1 2 2)\<lparr>si_x := 0, si_y := 1\<rparr>]\<rparr>"

lemma sort_example_layout: "layout_ok 4 4 (ci_items sort_example)"
  by code_simp

lemma sort_example_run:
  "sort_in sort_example = Some (Inl SortFailed, sort_example\<lparr>ci_items :=
     [(stored_item_new 2 8 General 1 1 1 2 3)\<lparr>si_x := 0, si_y := 0\<rparr>,
      (stored_item_new 1 9 General 1 1 1 4 1)\<lparr>si_x := 2, si_y := 0, si_rotated := True\<rparr>]\<rparr>)"
  by code_simp

section \<open>Properties\<close>

text \<open>The mutating operations a player can ask for inside one tree.\<close>

datatype tree_op =
  TreeInsert container_id stored_item bool
| TreeSplit container_id u64 u32 u64
| TreeSort container_id
| TreeDrop container_id u64
| TreeDestroy container_id u64
| TreeAttach container_id container_id u32

fun tree_step :: "container_tree \<Rightarrow> tree_op \<Rightarrow> container_tree" where
  "tree_step t (TreeInsert c item allow) = (case quick_insert t c item allow of None \<Rightarrow> t | Some (_, t') \<Rightarrow> t')"
| "tree_step t (TreeSplit c source amount new_id) =
     (case split_stack t c source amount new_id of None \<Rightarrow> t | Some (_, t') \<Rightarrow> t')"
| "tree_step t (TreeSort c) = (case auto_sort t c of None \<Rightarrow> t | Some (_, t') \<Rightarrow> t')"
| "tree_step t (TreeDrop c item) = snd (drop_item t c item)"
| "tree_step t (TreeDestroy c item) = snd (destroy_item t c item)"
| "tree_step t (TreeAttach bag target depth) =
     (case attach_to_parent t bag target depth of None \<Rightarrow> t | Some (_, t') \<Rightarrow> t')"

definition instance_layout :: "container_instance \<Rightarrow> bool" where
  "instance_layout c \<longleftrightarrow> (\<forall>columns rows. ci_content c = Grid columns rows \<longrightarrow> layout_ok columns rows (ci_items c))"

definition tree_layout :: "container_tree \<Rightarrow> bool" where
  "tree_layout t \<longleftrightarrow> (\<forall>c inst. get_container t c = Some inst \<longrightarrow> instance_layout inst)"

lemma tree_layout_put:
  "tree_layout t \<Longrightarrow> instance_layout inst \<Longrightarrow> tree_layout (put_container c inst t)"
  by (simp add: tree_layout_def)

lemma insert_into_instance_layout:
  assumes "insert_into c item allow = Some (r, c')" "instance_layout c"
  shows "instance_layout c'"
proof (cases "ci_content c")
  case (Grid columns rows)
  with insert_into_layout [OF assms(1) Grid] assms(2) show ?thesis by (simp add: instance_layout_def)
next
  case EmptyContent
  have "ci_content c' = ci_content c" using assms(1) by (cases rule: insert_into_cases) auto
  with EmptyContent show ?thesis by (simp add: instance_layout_def)
next
  case (Slots n)
  have "ci_content c' = ci_content c" using assms(1) by (cases rule: insert_into_cases) auto
  with Slots show ?thesis by (simp add: instance_layout_def)
qed

lemma split_in_instance_layout:
  assumes "split_in c source amount new_id = Some (r, c')" "instance_layout c"
  shows "instance_layout c'"
proof -
  have same: "ci_content c' = ci_content c" using assms(1) by (cases rule: split_in_cases) auto
  show ?thesis
    using split_in_layout [OF assms(1)] assms(2) same by (simp add: instance_layout_def)
qed

lemma sort_in_instance_layout:
  assumes "sort_in c = Some (r, c')" "instance_layout c"
  shows "instance_layout c'"
proof (cases "ci_content c")
  case (Grid columns rows)
  with sort_in_layout [OF assms(1) Grid] show ?thesis by (simp add: instance_layout_def)
qed (use assms in \<open>simp_all add: sort_in_def\<close>)

lemma remove_from_instance_layout:
  assumes "remove_from c item = (r, c')" "instance_layout c"
  shows "instance_layout c'"
proof (cases r)
  case (Inl e)
  with assms show ?thesis by (auto simp: remove_from_def split: option.splits)
next
  case (Inr it)
  from remove_from_Inr [OF assms(1) [unfolded Inr]]
  have c': "c' = c\<lparr>ci_items := ci_items c'\<rparr>"
    and keep: "layout_ok columns rows (ci_items c) \<Longrightarrow> layout_ok columns rows (ci_items c')" for columns rows
    by blast+
  have "ci_content c' = ci_content c" by (subst c') simp
  with assms(2) keep show ?thesis by (simp add: instance_layout_def)
qed

lemma drop_item_layout:
  assumes "tree_layout t"
  shows "tree_layout (snd (drop_item t c item))"
proof (cases "get_container t c")
  case (Some inst)
  obtain r inst' where rem: "remove_from inst item = (r, inst')" by (cases "remove_from inst item")
  have "instance_layout inst" using assms Some by (simp add: tree_layout_def)
  from remove_from_instance_layout [OF rem this] tree_layout_put [OF assms] Some rem show ?thesis
    by (simp add: drop_item_def)
qed (use assms in \<open>simp add: drop_item_def\<close>)

lemma attach_layout:
  assumes "tree_layout t" "attach_to_parent t bag target depth = Some (r, t')"
  shows "tree_layout t'"
proof -
  consider "t' = t" | b where "get_container t bag = Some b" "t' = put_container bag (b\<lparr>ci_parent := Some target\<rparr>) t"
    using assms(2) by (auto simp: attach_to_parent_def bind_eq_Some_conv split: if_splits option.splits)
  then show ?thesis
  proof cases
    case 2
    then have "instance_layout b" using assms(1) by (simp add: tree_layout_def)
    then have "instance_layout (b\<lparr>ci_parent := Some target\<rparr>)" by (simp add: instance_layout_def)
    with 2 tree_layout_put [OF assms(1)] show ?thesis by simp
  qed (use assms(1) in simp)
qed

lemma lift_layout:
  assumes t: "tree_layout t"
    and f: "\<And>inst r inst'. f inst = Some (r, inst') \<Longrightarrow> instance_layout inst \<Longrightarrow> instance_layout inst'"
    and g: "g = (case get_container t c of
        None \<Rightarrow> Some (e, t) | Some inst \<Rightarrow> map_option (\<lambda>(r, c'). (r, put_container c c' t)) (f inst))"
    and r: "g = Some (r, t')"
  shows "tree_layout t'"
proof (cases "get_container t c")
  case (Some inst)
  with g r obtain inst' where i: "f inst = Some (r, inst')" "t' = put_container c inst' t"
    by (cases "f inst") auto
  have "instance_layout inst" using t Some by (simp add: tree_layout_def)
  from f [OF i(1) this] i(2) tree_layout_put [OF t] show ?thesis by simp
qed (use t g r in simp)

lemma tree_step_layout:
  assumes "tree_layout t"
  shows "tree_layout (tree_step t op)"
proof (cases op)
  case (TreeInsert c item allow)
  with assms lift_layout [OF assms insert_into_instance_layout quick_insert_def] show ?thesis
    by (auto split: option.splits)
next
  case (TreeSplit c source amount new_id)
  with assms lift_layout [OF assms split_in_instance_layout split_stack_def] show ?thesis
    by (auto split: option.splits)
next
  case (TreeSort c)
  with assms lift_layout [OF assms sort_in_instance_layout auto_sort_def] show ?thesis
    by (auto split: option.splits)
next
  case (TreeDrop c item)
  with drop_item_layout [OF assms] show ?thesis by simp
next
  case (TreeDestroy c item)
  with drop_item_layout [OF assms, of c item] show ?thesis by (cases "drop_item t c item") (simp add: destroy_item_def)
next
  case (TreeAttach bag target depth)
  with assms attach_layout [OF assms] show ?thesis by (auto split: option.splits)
qed

interpretation tree_machine: invariant_machine tree_step tree_layout
  by unfold_locales (rule tree_step_layout)

text \<open>
  C9: inserting, splitting, sorting (also where it gives up), dropping, destroying and attaching, in any
  order, never make two items of one grid overlap or leave the grid.
\<close>

theorem container_items_never_overlap:
  assumes "tree_layout t"
    and "get_container (foldl tree_step t ops) c = Some inst" "ci_content inst = Grid columns rows"
  shows "list_all (item_fits columns rows) (ci_items inst) \<and>
    sorted_wrt (\<lambda>a b. \<not> overlap a b) (ci_items inst)"
proof -
  have "tree_layout (foldl tree_step t ops)" using assms(1) by (rule tree_machine.inv_run)
  with assms(2,3) show ?thesis by (simp add: tree_layout_def instance_layout_def layout_ok_def)
qed

theorem container_items_never_overlap_witness:
  "list_all (item_fits 1 2) [stones 10 10]"
proof -
  have "tree_layout (add_container ((container_new_grid 1 1 2 0)\<lparr>ci_items := [stones 10 10]\<rparr>) tree_new)"
    by (simp add: tree_layout_def instance_layout_def layout_ok_def get_container_def add_container_def tree_new_def
        container_new_grid_def stones_def stored_item_new_def item_fits_def effective_width_def effective_height_def)
  from container_items_never_overlap [OF this, of "[]" 1 "(container_new_grid 1 1 2 0)\<lparr>ci_items := [stones 10 10]\<rparr>" 1 2]
  show ?thesis
    by (simp add: get_container_def add_container_def tree_new_def container_new_grid_def)
qed

text \<open>
  C35: a quick insert that succeeds adds exactly the quantity of the item to the container, merged or stored, and
  no other container changes.
\<close>

theorem quick_insert_conserves:
  assumes "quick_insert t c item allow = Some (Inr it, t')"
  shows "total_quantity (contents t' c) = total_quantity (contents t c) + unat (si_quantity item) \<and>
    (\<forall>d. d \<noteq> c \<longrightarrow> contents t' d = contents t d)"
proof -
  have "get_container t c \<noteq> None" using assms by (cases "get_container t c") (auto simp: quick_insert_def)
  from quick_insert_contents [OF assms this] show ?thesis by simp
qed

theorem quick_insert_conserves_witness:
  "\<exists>it t'. quick_insert (add_container (container_new_grid 1 2 2 0) tree_new) 1 (stones 10 7) True = Some (Inr it, t') \<and>
    total_quantity (contents t' 1) = 7"
proof -
  let ?q = "quick_insert (add_container (container_new_grid 1 2 2 0) tree_new) 1 (stones 10 7) True"
  have "map_option (\<lambda>r. is_ok (fst r)) ?q = Some True" by code_simp
  then obtain it t' where q: "?q = Some (Inr it, t')" by (auto simp: is_ok_iff)
  with quick_insert_conserves [OF q] show ?thesis
    by (simp add: contents_def get_container_def add_container_def tree_new_def container_new_grid_def stones_def
        stored_item_new_def)
qed

text \<open>Splitting a stack, successful or not, changes the total quantity of no container.\<close>

theorem split_stack_conserves:
  assumes "split_stack t c source amount new_id = Some (r, t')"
  shows "total_quantity (contents t' d) = total_quantity (contents t d)"
proof (cases "get_container t c")
  case (Some inst)
  with assms obtain inst' where s: "split_in inst source amount new_id = Some (r, inst')"
    and t': "t' = put_container c inst' t"
    by (auto simp: split_stack_def)
  with split_in_quantity [OF s] Some show ?thesis by (simp add: contents_def)
qed (use assms in \<open>simp add: split_stack_def\<close>)

theorem split_stack_conserves_witness:
  "\<exists>r t'. split_stack (add_container ((container_new_grid 1 2 2 0)\<lparr>ci_items := [stones 10 7]\<rparr>) tree_new) 1 10 3 11 =
      Some (r, t') \<and> total_quantity (contents t' 1) = 7"
proof -
  let ?t = "add_container ((container_new_grid 1 2 2 0)\<lparr>ci_items := [stones 10 7]\<rparr>) tree_new"
  have "map_option (\<lambda>r. is_ok (fst r)) (split_stack ?t 1 10 3 11) = Some True" by code_simp
  then obtain r t' where s: "split_stack ?t 1 10 3 11 = Some (r, t')" by auto
  with split_stack_conserves [OF s, of 1] show ?thesis
    by (simp add: contents_def get_container_def add_container_def tree_new_def container_new_grid_def stones_def
        stored_item_new_def)
qed

text \<open>
  Automatic sorting can lose an item: in a valid 4 by 4 layout of three items it places two, reports
  failure, and the third is gone.
\<close>

theorem auto_sort_can_lose_item:
  "layout_ok 4 4 (ci_items sort_example) \<and> length (ci_items sort_example) = 3 \<and>
   (\<exists>t'. auto_sort (add_container sort_example tree_new) 1 = Some (Inl SortFailed, t') \<and>
      length (contents t' 1) = 2)"
proof -
  have c: "get_container (add_container sort_example tree_new) 1 = Some sort_example"
    by (simp add: get_container_def add_container_def tree_new_def sort_example_def container_new_grid_def)
  with sort_example_layout sort_example_run show ?thesis
    by (simp add: auto_sort_def contents_def) (simp add: sort_example_def)
qed

text \<open>
  Depositing matching items can create items: with five stones and a stack of ten they top up, the ten stones
  remain after the deposit and so do five more than before.
\<close>

lemma deposit_can_duplicate:
  "\<exists>t'. deposit_matching deposit_example 1 2 = Some (Inr 0, t') \<and>
     pair_quantity deposit_example 1 2 = 15 \<and> pair_quantity t' 1 2 = 20"
  unfolding deposit_example_run
  by (simp add: deposit_example_def pair_quantity_def contents_def get_container_def add_container_def
      tree_new_def container_new_grid_def stones_def stored_item_new_def)

text \<open>
  C37: depositing matching items conserves quantity when it succeeds as a whole: the deposit moves at most the items of the source
  whose definition the target holds, and if it reports that it moved all of them, the two containers together hold
  exactly what they held before. If it stops short they hold no less (the item that did not fit may have topped up a stack
  of the target and still be back in the source whole: \<open>deposit_can_duplicate\<close>). No other container changes.
\<close>

theorem deposit_never_loses:
  assumes "deposit_matching t source target = Some (Inr n, t')"
  shows "let movable = length (filter (\<lambda>i. si_definition_id i \<in> si_definition_id ` set (contents t target)) (contents t source))
    in n \<le> movable \<and> pair_quantity t source target \<le> pair_quantity t' source target \<and>
      (if n = movable then pair_quantity t' source target = pair_quantity t source target else True) \<and>
      (\<forall>d. d \<in> {source, target} \<or> contents t' d = contents t d)"
proof -
  let ?movable = "filter (\<lambda>i. si_definition_id i \<in> si_definition_id ` set (contents t target)) (contents t source)"
  from assms have "source \<noteq> target" "get_container t source \<noteq> None" "get_container t target \<noteq> None"
    and "deposit_loop t source target (map si_id ?movable) 0 = Some (n, t')"
    by (auto simp: deposit_matching_def Let_def contents_def split: if_splits option.splits)
  with deposit_loop_exact [of t source target "map si_id ?movable" 0 n t']
  show ?thesis by (auto simp: Let_def)
qed

theorem deposit_never_loses_witness:
  "\<exists>t'. deposit_matching deposit_example 1 2 = Some (Inr 0, t') \<and> pair_quantity deposit_example 1 2 \<le> pair_quantity t' 1 2"
  using deposit_never_loses [OF deposit_example_run] by (simp add: deposit_example_run Let_def)

text \<open>
  Attaching a bag keeps the containers free of cycles: in a well-nested tree the cycle check always ends, a
  successful attach makes the target the parent, and the tree is well nested again.
\<close>

theorem attach_keeps_well_nested:
  assumes "well_nested t"
  shows "would_create_cycle t bag target = Some ((target, bag) \<in> (parent_rel t)\<^sup>*) \<and>
    (case attach_to_parent t bag target depth of
       Some (Inr _, t') \<Rightarrow> well_nested t' \<and> parent_of t' bag = Some target
     | _ \<Rightarrow> True)"
  using would_create_cycle_ends [OF assms, of bag target] attach_to_parent_ok(1,2) [OF assms, of bag target depth]
  by (auto split: option.split sum.split)

theorem attach_keeps_well_nested_witness:
  "\<exists>t'. attach_to_parent (add_container (container_new_grid 2 1 1 0) (add_container (container_new_grid 1 2 2 0) tree_new))
      2 1 3 = Some (Inr (), t') \<and> well_nested t' \<and> parent_of t' 2 = Some 1"
proof -
  let ?t = "add_container (container_new_grid 2 1 1 0) (add_container (container_new_grid 1 2 2 0) tree_new)"
  have "parent_rel ?t = {}"
    by (auto simp: parent_rel_def parent_of_def get_container_def add_container_def tree_new_def container_new_grid_def
        bind_eq_Some_conv split: if_splits)
  then have nested: "well_nested ?t" by (simp add: well_nested_def acyclic_def)
  have "would_create_cycle ?t 2 1 = Some False"
    using would_create_cycle_ends [OF nested, of 2 1] \<open>parent_rel ?t = {}\<close> by simp
  moreover have "get_depth ?t 1 = Some 0"
    unfolding get_depth_def by (subst depth_from.simps)
      (simp add: parent_of_def get_container_def add_container_def tree_new_def container_new_grid_def)
  ultimately obtain u t' where a: "attach_to_parent ?t 2 1 3 = Some (Inr u, t')"
    by (auto simp: attach_to_parent_def get_container_def add_container_def tree_new_def container_new_grid_def
        checked_add_def)
  with attach_keeps_well_nested [OF nested, of 2 1 3] show ?thesis by simp
qed

text \<open>
  C36: the recursive weight of a container ends on every well-nested tree that lists its containers under their own ids
  (as it is built) and whose sums stay within range: from some fuel on
  the value is always the same, and it is never below the container's own weight.
\<close>

theorem container_weight_returns:
  assumes "well_nested t" "keyed_by_id t" "sums_fit t" "get_container t c = Some inst"
  shows "\<exists>n w. ci_base_weight_grams inst \<le> w \<and> (\<forall>m. calculate_container_weight (n + m) t c = Some (Inr w))"
proof -
  obtain n w where w: "calculate_container_weight n t c = Some (Inr w)" using weight_returns [OF assms] by blast
  have "calculate_container_weight (n + m) t c = Some (Inr w)" for m by (rule weight_fuel_mono [OF w]) simp
  with weight_at_least_base [OF w assms(4)] show ?thesis by blast
qed

theorem container_weight_returns_witness:
  "\<exists>n w. 300 \<le> w \<and> (\<forall>m. calculate_container_weight (n + m) (add_container (container_new_grid 1 2 2 300) tree_new) 1 = Some (Inr w))"
proof -
  let ?t = "add_container (container_new_grid 1 2 2 300) tree_new"
  have "parent_rel ?t = {}"
    by (auto simp: parent_rel_def parent_of_def get_container_def add_container_def tree_new_def container_new_grid_def
        bind_eq_Some_conv split: if_splits)
  then have "well_nested ?t" by (simp add: well_nested_def acyclic_def)
  moreover have "keyed_by_id ?t"
    by (simp add: keyed_by_id_def add_container_def tree_new_def container_new_grid_def)
  moreover have "sums_fit ?t"
    by (simp add: sums_fit_def add_container_def tree_new_def container_new_grid_def total_weight_reduction_percent_def)
  moreover have "get_container ?t 1 = Some (container_new_grid 1 2 2 300)"
    by (simp add: get_container_def add_container_def tree_new_def container_new_grid_def)
  ultimately show ?thesis
    using container_weight_returns [of ?t 1 "container_new_grid 1 2 2 300"] by (simp add: container_new_grid_def)
qed

end
