(* ===== verification/Movement.thy ===== *)
theory Movement
  imports World_Grid "HOL-Library.Signed_Division"
begin

text \<open>
  crates/simulation/src/movement.rs: fixed-point integration of a movement input into millimetres
  per tick, with the sub-millimetre remainder carried from tick to tick. \<open>sdiv\<close> and \<open>smod\<close> are
  Rust's truncating \<open>/\<close> and \<open>%\<close> on \<open>i64\<close>; the unsigned square root runs on naturals, below a bound
  that keeps its \<open>u64\<close> arithmetic from wrapping.
\<close>

section \<open>Definitions\<close>

definition movement_axis_scale :: int where
  "movement_axis_scale = 32767"

record movement_input =
  axis_x :: "16 word"
  axis_y :: "16 word"

definition input_zero :: movement_input where
  "input_zero = \<lparr>axis_x = 0, axis_y = 0\<rparr>"

definition input_from_axes :: "16 word \<Rightarrow> 16 word \<Rightarrow> movement_input option" where
  "input_from_axes ax ay =
     (if sint ax = - 32768 \<or> sint ay = - 32768 then None else Some \<lparr>axis_x = ax, axis_y = ay\<rparr>)"

definition input_is_zero :: "movement_input \<Rightarrow> bool" where
  "input_is_zero i \<longleftrightarrow> axis_x i = 0 \<and> axis_y i = 0"

datatype movement_error =
  ZeroSpeed
| ZeroInputTimeout
| ZeroRadius
| ZeroTickRate
| DenominatorOverflow
| NumeratorOverflow string
| RemainderOverflow string

record movement_settings =
  ms_speed_mm_per_second :: u32
  ms_input_timeout_ticks :: u64
  ms_character_radius_mm :: u32

definition movement_settings_new :: "u32 \<Rightarrow> u64 \<Rightarrow> u32 \<Rightarrow> movement_error + movement_settings" where
  "movement_settings_new speed timeout radius =
     (if speed = 0 then Inl ZeroSpeed
      else if timeout = 0 then Inl ZeroInputTimeout
      else if radius = 0 then Inl ZeroRadius
      else Inr \<lparr>ms_speed_mm_per_second = speed, ms_input_timeout_ticks = timeout,
                ms_character_radius_mm = radius\<rparr>)"

record movement_remainder =
  rem_x :: int
  rem_y :: int

definition remainder_default :: movement_remainder where
  "remainder_default = \<lparr>rem_x = 0, rem_y = 0\<rparr>"

record movement_delta =
  delta_x :: int
  delta_y :: int

record movement_rules =
  mr_speed_mm_per_second :: int
  mr_denominator :: int
  mr_input_timeout_ticks :: u64
  mr_character_radius_mm :: int

definition movement_rules_new :: "movement_settings \<Rightarrow> u32 \<Rightarrow> movement_error + movement_rules" where
  "movement_rules_new s tick_rate_hz =
     (if tick_rate_hz = 0 then Inl ZeroTickRate
      else (case ok_or DenominatorOverflow (checked_mul_i64 movement_axis_scale (uint tick_rate_hz)) of
              Inl e \<Rightarrow> Inl e
            | Inr denominator \<Rightarrow>
                Inr \<lparr>mr_speed_mm_per_second = uint (ms_speed_mm_per_second s),
                     mr_denominator = denominator,
                     mr_input_timeout_ticks = ms_input_timeout_ticks s,
                     mr_character_radius_mm = uint (ms_character_radius_mm s)\<rparr>))"

function sqrt_loop :: "nat \<Rightarrow> nat \<Rightarrow> nat \<Rightarrow> nat" where
  "sqrt_loop v current candidate =
     (if candidate < current then sqrt_loop v candidate ((candidate + v div candidate) div 2) else current)"
  by pat_completeness auto
termination by (relation "measure (\<lambda>(v, current, candidate). current)") auto

declare sqrt_loop.simps [simp del]

definition integer_sqrt_floor :: "nat \<Rightarrow> nat" where
  "integer_sqrt_floor v = (if v < 2 then v else sqrt_loop v v ((v + 1) div 2))"

definition integer_sqrt_ceil :: "nat \<Rightarrow> nat" where
  "integer_sqrt_ceil v =
     (let floor = integer_sqrt_floor v in if floor * floor = v then floor else floor + 1)"

definition normalized_axes :: "movement_input \<Rightarrow> int \<times> int" where
  "normalized_axes i =
     (let x = sint (axis_x i); y = sint (axis_y i);
          magnitude_squared = nat (x * x + y * y);
          scale_squared = nat (movement_axis_scale * movement_axis_scale)
      in if magnitude_squared \<le> scale_squared then (x, y)
         else (let magnitude = int (integer_sqrt_ceil magnitude_squared)
               in ((x * movement_axis_scale) sdiv magnitude, (y * movement_axis_scale) sdiv magnitude)))"

definition integrate ::
  "movement_rules \<Rightarrow> movement_input \<Rightarrow> movement_remainder
     \<Rightarrow> movement_error + movement_delta \<times> movement_remainder" where
  "integrate rules input r =
     (case normalized_axes input of
        (ax, ay) \<Rightarrow>
       (case ok_or (NumeratorOverflow ''X'') (checked_mul_i64 (mr_speed_mm_per_second rules) ax) of
          Inl e \<Rightarrow> Inl e | Inr px \<Rightarrow>
       (case ok_or (RemainderOverflow ''X'') (checked_add_i64 (rem_x r) px) of
          Inl e \<Rightarrow> Inl e | Inr numerator_x \<Rightarrow>
       (case ok_or (NumeratorOverflow ''Y'') (checked_mul_i64 (mr_speed_mm_per_second rules) ay) of
          Inl e \<Rightarrow> Inl e | Inr py \<Rightarrow>
       (case ok_or (RemainderOverflow ''Y'') (checked_add_i64 (rem_y r) py) of
          Inl e \<Rightarrow> Inl e | Inr numerator_y \<Rightarrow>
        Inr (\<lparr>delta_x = numerator_x sdiv mr_denominator rules,
              delta_y = numerator_y sdiv mr_denominator rules\<rparr>,
             \<lparr>rem_x = numerator_x smod mr_denominator rules,
              rem_y = numerator_y smod mr_denominator rules\<rparr>))))))"

section \<open>The square root\<close>

text \<open>One Newton step from above stays above the square root.\<close>

lemma newton_step:
  fixes v c :: nat
  assumes "0 < c"
  shows "v < ((c + v div c) div 2 + 1) * ((c + v div c) div 2 + 1)"
proof -
  let ?q = "v div c" and ?n = "(c + v div c) div 2"
  have v: "v < c * (?q + 1)"
    using assms by (metis add.commute dividend_less_times_div mult_Suc_right plus_1_eq_Suc)
  have n: "c + ?q \<le> 2 * ?n + 1" by linarith
  have sq: "4 * (c * (?q + 1)) \<le> (c + (?q + 1)) * (c + (?q + 1))"
  proof -
    have "int (4 * (c * (?q + 1))) \<le> int ((c + (?q + 1)) * (c + (?q + 1)))"
      using sum_squares_ge_zero [of "int c - (int ?q + 1)" 0] by (simp add: algebra_simps)
    then show ?thesis by (simp only: of_nat_le_iff)
  qed
  have "c + (?q + 1) \<le> 2 * (?n + 1)" using n by simp
  then have "(c + (?q + 1)) * (c + (?q + 1)) \<le> (2 * (?n + 1)) * (2 * (?n + 1))"
    by (intro mult_le_mono)
  also have "\<dots> = 4 * ((?n + 1) * (?n + 1))" by simp
  finally show ?thesis using v sq by linarith
qed

lemma sqrt_loop_correct:
  assumes "0 < current" "v < (current + 1) * (current + 1)"
    and "candidate = (current + v div current) div 2" "1 \<le> v"
  shows "sqrt_loop v current candidate * sqrt_loop v current candidate \<le> v \<and>
    v < (sqrt_loop v current candidate + 1) * (sqrt_loop v current candidate + 1)"
  using assms
proof (induction v current candidate rule: sqrt_loop.induct)
  case (1 v current candidate)
  show ?case
  proof (cases "candidate < current")
    case True
    have step: "v < (candidate + 1) * (candidate + 1)"
      using newton_step [OF "1.prems"(1), of v] by (simp add: "1.prems"(3))
    with "1.prems"(4) have "0 < candidate" by (cases candidate) auto
    from "1.IH" [OF True this step refl "1.prems"(4)] True show ?thesis
      by (simp add: sqrt_loop.simps [of v current])
  next
    case False
    then have "current \<le> v div current" using "1.prems"(3) by linarith
    then have "current * current \<le> current * (v div current)" by (rule mult_le_mono2)
    also have "\<dots> \<le> v" by simp
    finally show ?thesis using False "1.prems"(2) by (simp add: sqrt_loop.simps [of v current])
  qed
qed

lemma integer_sqrt_floor_correct:
  "integer_sqrt_floor v * integer_sqrt_floor v \<le> v \<and>
     v < (integer_sqrt_floor v + 1) * (integer_sqrt_floor v + 1)"
proof (cases "v < 2")
  case True
  then have "v = 0 \<or> v = 1" by auto
  then show ?thesis by (auto simp: integer_sqrt_floor_def)
next
  case False
  have "v < (v + 1) * (v + 1)" by simp
  then show ?thesis
    using sqrt_loop_correct [of v v "(v + 1) div 2"] False by (simp add: integer_sqrt_floor_def)
qed

lemma integer_sqrt_ceil_correct:
  "v \<le> integer_sqrt_ceil v * integer_sqrt_ceil v"
  "n < integer_sqrt_ceil v \<Longrightarrow> n * n < v"
proof -
  note f = integer_sqrt_floor_correct [of v]
  show "v \<le> integer_sqrt_ceil v * integer_sqrt_ceil v"
    using f by (auto simp: integer_sqrt_ceil_def Let_def)
  show "n * n < v" if "n < integer_sqrt_ceil v"
  proof (cases "integer_sqrt_floor v * integer_sqrt_floor v = v")
    case True
    then have "n < integer_sqrt_floor v" using that by (simp add: integer_sqrt_ceil_def)
    then have "n * n < integer_sqrt_floor v * integer_sqrt_floor v" by (intro mult_strict_mono) auto
    with True show ?thesis by simp
  next
    case False
    then have "n \<le> integer_sqrt_floor v" using that by (simp add: integer_sqrt_ceil_def Let_def)
    then have "n * n \<le> integer_sqrt_floor v * integer_sqrt_floor v" by (intro mult_le_mono)
    with f False show ?thesis by linarith
  qed
qed

section \<open>Normalised axes\<close>

lemma sdiv_square_le:
  fixes a d :: int
  assumes "0 < d"
  shows "(a sdiv d) * (a sdiv d) * (d * d) \<le> a * a"
proof -
  have "\<bar>a\<bar> div d * d \<le> \<bar>a\<bar>"
    using assms pos_mod_sign [of d "\<bar>a\<bar>"] div_mult_mod_eq [of "\<bar>a\<bar>" d] by linarith
  then have le: "\<bar>a sdiv d * d\<bar> \<le> \<bar>a\<bar>" using assms by (simp add: abs_mult sdiv_abs)
  have "(a sdiv d * d)\<^sup>2 \<le> a\<^sup>2" using le by (simp only: abs_le_square_iff)
  then show ?thesis by (simp only: power2_eq_square mult.assoc mult.left_commute [of d])
qed

text \<open>The normalised vector is never longer than a full deflection along one axis.\<close>

lemma normalized_axes_length:
  assumes "normalized_axes i = (x, y)"
  shows "x * x + y * y \<le> movement_axis_scale * movement_axis_scale"
proof -
  let ?x = "sint (axis_x i)" and ?y = "sint (axis_y i)" and ?S = movement_axis_scale
  let ?m2 = "nat (?x * ?x + ?y * ?y)"
  let ?m = "int (integer_sqrt_ceil ?m2)"
  have m2: "int ?m2 = ?x * ?x + ?y * ?y" by simp
  show ?thesis
  proof (cases "?m2 \<le> nat (?S * ?S)")
    case True
    then have "int ?m2 \<le> ?S * ?S" by (simp add: movement_axis_scale_def)
    with assms True m2 show ?thesis by (simp add: normalized_axes_def Let_def)
  next
    case False
    then have xy: "x = (?x * ?S) sdiv ?m" "y = (?y * ?S) sdiv ?m"
      using assms by (simp_all add: normalized_axes_def Let_def)
    have big: "int ?m2 \<le> ?m * ?m"
      using integer_sqrt_ceil_correct(1) [of ?m2] by (metis of_nat_le_iff of_nat_mult)
    have "0 < int ?m2" using False by (simp add: movement_axis_scale_def)
    with big have m: "0 < ?m" by (cases "integer_sqrt_ceil ?m2") auto
    have "(x * x + y * y) * (?m * ?m) \<le> (?x * ?x + ?y * ?y) * (?S * ?S)"
      using sdiv_square_le [OF m, of "?x * ?S"] sdiv_square_le [OF m, of "?y * ?S"]
      by (simp add: xy algebra_simps)
    also have "\<dots> \<le> (?m * ?m) * (?S * ?S)"
      using big m2 by (intro mult_right_mono) (simp_all add: movement_axis_scale_def)
    finally have "(x * x + y * y) * (?m * ?m) \<le> (?S * ?S) * (?m * ?m)" by (simp only: mult.commute)
    then show ?thesis using m by (simp add: mult_le_cancel_right)
  qed
qed

lemma square_bound_abs:
  fixes x y s :: int
  assumes "x * x + y * y \<le> s * s" "0 \<le> s"
  shows "\<bar>x\<bar> \<le> s"
proof -
  have "0 \<le> y * y" by simp
  then have "x * x \<le> s * s" using assms(1) by linarith
  then have "x\<^sup>2 \<le> s\<^sup>2" by (simp add: power2_eq_square)
  then show ?thesis using assms(2) by (metis abs_le_square_iff abs_of_nonneg)
qed

lemma normalized_axes_bound:
  assumes "normalized_axes i = (x, y)"
  shows "\<bar>x\<bar> \<le> movement_axis_scale" "\<bar>y\<bar> \<le> movement_axis_scale"
  using square_bound_abs [of x y movement_axis_scale] square_bound_abs [of y x movement_axis_scale]
    normalized_axes_length [OF assms] by (simp_all add: movement_axis_scale_def add.commute)

section \<open>Integration\<close>

text \<open>The rules of a validated configuration, and the remainders they leave.\<close>

definition rules_ok :: "movement_rules \<Rightarrow> bool" where
  "rules_ok rules \<longleftrightarrow> 0 < mr_speed_mm_per_second rules \<and> mr_speed_mm_per_second rules < 2 ^ 32 \<and>
     0 < mr_denominator rules \<and> mr_denominator rules < 2 ^ 47 \<and>
     0 < mr_character_radius_mm rules \<and> mr_character_radius_mm rules < 2 ^ 32 \<and>
     mr_input_timeout_ticks rules \<noteq> 0"

definition remainder_ok :: "movement_rules \<Rightarrow> movement_remainder \<Rightarrow> bool" where
  "remainder_ok rules r \<longleftrightarrow> \<bar>rem_x r\<bar> < mr_denominator rules \<and> \<bar>rem_y r\<bar> < mr_denominator rules"

lemma uint_gt_0: "w \<noteq> 0 \<Longrightarrow> 0 < uint (w :: 'a::len word)"
  using uint_ge_0 [of w] unsigned_eq_0_iff [of w, where ?'a = int] by linarith

lemma remainder_default_ok: "rules_ok rules \<Longrightarrow> remainder_ok rules remainder_default"
  by (simp add: rules_ok_def remainder_ok_def remainder_default_def)

lemma movement_rules_new_ok:
  assumes "movement_settings_new speed timeout radius = Inr s" "movement_rules_new s hz = Inr rules"
  shows "rules_ok rules"
proof -
  have s: "speed \<noteq> 0" "timeout \<noteq> 0" "radius \<noteq> 0" "s = \<lparr>ms_speed_mm_per_second = speed,
      ms_input_timeout_ticks = timeout, ms_character_radius_mm = radius\<rparr>"
    using assms(1) by (auto simp: movement_settings_new_def split: if_splits)
  have u: "uint w < 2 ^ 32" for w :: u32
    using uint_bounded [of w] by simp
  from assms(2) have "hz \<noteq> 0" and r: "rules = \<lparr>mr_speed_mm_per_second = uint speed,
      mr_denominator = movement_axis_scale * uint hz, mr_input_timeout_ticks = timeout,
      mr_character_radius_mm = uint radius\<rparr>"
    by (auto simp: movement_rules_new_def s(4) machine_arith split: if_splits sum.splits)
  have "movement_axis_scale * uint hz < 32768 * 2 ^ 32"
    using u [of hz] uint_ge_0 [of hz] by (simp add: movement_axis_scale_def)
  then show ?thesis
    using s(2) u uint_gt_0 [OF s(1)] uint_gt_0 [OF s(3)] uint_gt_0 [OF \<open>hz \<noteq> 0\<close>]
    by (simp add: rules_ok_def r movement_axis_scale_def)
qed

lemma integrate_axis_fits:
  assumes "rules_ok rules" "\<bar>r\<bar> < mr_denominator rules" "\<bar>a\<bar> \<le> movement_axis_scale"
  shows "in_i64 (mr_speed_mm_per_second rules * a)" "in_i64 (r + mr_speed_mm_per_second rules * a)"
proof -
  have "\<bar>mr_speed_mm_per_second rules * a\<bar> \<le> 2 ^ 32 * 32767"
    using assms(1,3) by (simp only: abs_mult, intro mult_mono)
      (auto simp: rules_ok_def movement_axis_scale_def)
  moreover have "\<bar>r\<bar> < 2 ^ 47" using assms(1,2) by (simp add: rules_ok_def)
  ultimately show "in_i64 (mr_speed_mm_per_second rules * a)" "in_i64 (r + mr_speed_mm_per_second rules * a)"
    by (auto simp: in_i64_def abs_le_iff abs_less_iff)
qed

lemma smod_abs_less: "0 < d \<Longrightarrow> \<bar>a smod d\<bar> < (d :: int)"
  by (auto simp: signed_modulo_int_def abs_mult sgn_if)

text \<open>
  Integration never fails and loses nothing: the distance covered so far, in units of the
  denominator, plus the remainder is exactly speed times input.
\<close>

lemma integrate_exact:
  assumes "rules_ok rules" "remainder_ok rules r" "normalized_axes input = (ax, ay)"
  obtains d r' where "integrate rules input r = Inr (d, r')" "remainder_ok rules r'"
    "delta_x d * mr_denominator rules + rem_x r' = rem_x r + mr_speed_mm_per_second rules * ax"
    "delta_y d * mr_denominator rules + rem_y r' = rem_y r + mr_speed_mm_per_second rules * ay"
proof -
  let ?D = "mr_denominator rules" and ?v = "mr_speed_mm_per_second rules"
  let ?d = "\<lparr>delta_x = (rem_x r + ?v * ax) sdiv ?D, delta_y = (rem_y r + ?v * ay) sdiv ?D\<rparr>"
  let ?r = "\<lparr>rem_x = (rem_x r + ?v * ax) smod ?D, rem_y = (rem_y r + ?v * ay) smod ?D\<rparr>"
  note b = normalized_axes_bound [OF assms(3)]
  have fits: "in_i64 (?v * ax)" "in_i64 (rem_x r + ?v * ax)" "in_i64 (?v * ay)" "in_i64 (rem_y r + ?v * ay)"
    using integrate_axis_fits [OF assms(1), of "rem_x r" ax] integrate_axis_fits [OF assms(1), of "rem_y r" ay]
      assms(2) b by (simp_all add: remainder_ok_def)
  have run: "integrate rules input r = Inr (?d, ?r)"
    using fits by (simp add: integrate_def assms(3) checked_mul_i64_def checked_add_i64_def ok_or_def)
  show ?thesis
  proof (rule that [OF run])
    show "remainder_ok rules ?r"
      using assms(1) by (simp add: remainder_ok_def smod_abs_less rules_ok_def)
  qed (simp_all add: sdiv_mult_smod_eq)
qed

fun integrate_run ::
  "movement_rules \<Rightarrow> movement_input list \<Rightarrow> movement_remainder
     \<Rightarrow> movement_error + movement_delta list \<times> movement_remainder" where
  "integrate_run rules [] r = Inr ([], r)"
| "integrate_run rules (i # is) r =
     (case integrate rules i r of
        Inl e \<Rightarrow> Inl e
      | Inr (d, r') \<Rightarrow>
          (case integrate_run rules is r' of
             Inl e \<Rightarrow> Inl e
           | Inr (ds, r'') \<Rightarrow> Inr (d # ds, r'')))"

lemma integrate_run_exact:
  assumes "rules_ok rules" "remainder_ok rules r"
  shows "\<exists>ds r'. integrate_run rules is r = Inr (ds, r') \<and> remainder_ok rules r' \<and> length ds = length is \<and>
    (\<Sum>d\<leftarrow>ds. delta_x d) * mr_denominator rules + rem_x r' =
      rem_x r + mr_speed_mm_per_second rules * (\<Sum>i\<leftarrow>is. fst (normalized_axes i)) \<and>
    (\<Sum>d\<leftarrow>ds. delta_y d) * mr_denominator rules + rem_y r' =
      rem_y r + mr_speed_mm_per_second rules * (\<Sum>i\<leftarrow>is. snd (normalized_axes i))"
  using assms(2)
proof (induction "is" arbitrary: r)
  case (Cons i "is")
  obtain ax ay where n: "normalized_axes i = (ax, ay)" by (cases "normalized_axes i")
  obtain d r1 where step: "integrate rules i r = Inr (d, r1)" "remainder_ok rules r1"
    "delta_x d * mr_denominator rules + rem_x r1 = rem_x r + mr_speed_mm_per_second rules * ax"
    "delta_y d * mr_denominator rules + rem_y r1 = rem_y r + mr_speed_mm_per_second rules * ay"
    by (rule integrate_exact [OF assms(1) Cons.prems n])
  from Cons.IH [OF step(2)] obtain ds r2 where rest: "integrate_run rules is r1 = Inr (ds, r2)"
    "remainder_ok rules r2" "length ds = length is"
    "(\<Sum>d\<leftarrow>ds. delta_x d) * mr_denominator rules + rem_x r2 =
      rem_x r1 + mr_speed_mm_per_second rules * (\<Sum>i\<leftarrow>is. fst (normalized_axes i))"
    "(\<Sum>d\<leftarrow>ds. delta_y d) * mr_denominator rules + rem_y r2 =
      rem_y r1 + mr_speed_mm_per_second rules * (\<Sum>i\<leftarrow>is. snd (normalized_axes i))" by blast
  show ?case
    using step rest by (intro exI [of _ "d # ds"] exI [of _ r2]) (simp add: n algebra_simps)
qed simp

section \<open>Properties\<close>

text \<open>
  The integer square roots of the input normalisation are the mathematical ones: the loop of Newton's method
  computes the greatest number whose square does not exceed the argument, and the rounding up the least one whose
  square reaches it.
\<close>

theorem integer_sqrt_exact:
  "integer_sqrt_floor v = (GREATEST n. n * n \<le> v) \<and> integer_sqrt_ceil v = (LEAST n. v \<le> n * n)"
proof
  note f = integer_sqrt_floor_correct [of v]
  show "integer_sqrt_floor v = (GREATEST n. n * n \<le> v)"
  proof (rule Greatest_equality [symmetric])
    fix n assume "n * n \<le> v"
    with f have "n * n < (integer_sqrt_floor v + 1) * (integer_sqrt_floor v + 1)" by linarith
    then have "n < integer_sqrt_floor v + 1" by (metis mult_le_mono not_less)
    then show "n \<le> integer_sqrt_floor v" by simp
  qed (use f in simp)
  show "integer_sqrt_ceil v = (LEAST n. v \<le> n * n)"
    by (rule Least_equality [symmetric], rule integer_sqrt_ceil_correct(1)) (meson integer_sqrt_ceil_correct(2) not_less)
qed

text \<open>
  Normalising a movement input never makes it longer than the unit of the axis scale, so that no diagonal
  input moves faster than a straight one.
\<close>

theorem normalized_input_bounded:
  "(case normalized_axes i of (x, y) \<Rightarrow> x * x + y * y) \<le> movement_axis_scale * movement_axis_scale"
  using normalized_axes_length by (auto split: prod.split)

text \<open>
  C7: integrating any sequence of inputs under rules the constructors admit never overflows and loses nothing to
  rounding: the millimetres moved, together with the remainder carried, are exactly the sum of the inputs.
\<close>

theorem movement_integration_exact:
  assumes "movement_settings_new speed timeout radius = Inr s" "movement_rules_new s hz = Inr rules"
  shows "\<exists>ds r. integrate_run rules is remainder_default = Inr (ds, r) \<and> length ds = length is \<and>
    \<bar>rem_x r\<bar> < mr_denominator rules \<and> \<bar>rem_y r\<bar> < mr_denominator rules \<and>
    (\<Sum>d\<leftarrow>ds. delta_x d) * mr_denominator rules + rem_x r =
      mr_speed_mm_per_second rules * (\<Sum>i\<leftarrow>is. fst (normalized_axes i)) \<and>
    (\<Sum>d\<leftarrow>ds. delta_y d) * mr_denominator rules + rem_y r =
      mr_speed_mm_per_second rules * (\<Sum>i\<leftarrow>is. snd (normalized_axes i))"
proof -
  have ok: "rules_ok rules" by (rule movement_rules_new_ok [OF assms])
  then have "remainder_ok rules remainder_default"
    by (simp add: remainder_ok_def remainder_default_def rules_ok_def)
  from integrate_run_exact [OF ok this, of "is"] show ?thesis
    by (auto simp: remainder_ok_def remainder_default_def)
qed

theorem movement_integration_exact_witness:
  "\<exists>ds r. integrate_run \<lparr>mr_speed_mm_per_second = 4500, mr_denominator = 655340, mr_input_timeout_ticks = 5,
       mr_character_radius_mm = 250\<rparr> [\<lparr>axis_x = 16384, axis_y = 0\<rparr>, \<lparr>axis_x = 32767, axis_y = - 32767\<rparr>]
       remainder_default = Inr (ds, r) \<and> length ds = 2"
proof -
  let ?s = "\<lparr>ms_speed_mm_per_second = 4500, ms_input_timeout_ticks = 5, ms_character_radius_mm = 250\<rparr>"
  have "movement_settings_new 4500 5 250 = Inr ?s" by (simp add: movement_settings_new_def)
  moreover have "movement_rules_new ?s 20 = Inr \<lparr>mr_speed_mm_per_second = 4500, mr_denominator = 655340,
      mr_input_timeout_ticks = 5, mr_character_radius_mm = 250\<rparr>"
    by (simp add: movement_rules_new_def movement_axis_scale_def checked_mul_i64_def in_i64_def ok_or_def)
  ultimately show ?thesis
    using movement_integration_exact [of 4500 5 250 ?s 20 _ "[\<lparr>axis_x = 16384, axis_y = 0\<rparr>, \<lparr>axis_x = 32767, axis_y = - 32767\<rparr>]"]
    by fastforce
qed

end
