(* ===== verification/Traversal.thy ===== *)
theory Traversal
  imports Movement
begin

text \<open>
  crates/simulation/src/traversal.rs: axis-separated collision of a character, a square of the
  traversal radius, with static axis-aligned blockers.
\<close>

section \<open>Definitions\<close>

record traversal_blocker =
  tb_min_x :: int
  tb_max_x :: int
  tb_min_y :: int
  tb_max_y :: int

datatype traversal_error =
  BlockerBounds string
| RadiusNotPositive
| OverlapsBlocker int int
| TraversalOverflow string

definition blocker_new :: "int \<Rightarrow> int \<Rightarrow> int \<Rightarrow> int \<Rightarrow> traversal_error + traversal_blocker" where
  "blocker_new min_x max_x min_y max_y =
     (if max_x \<le> min_x then Inl (BlockerBounds ''X'')
      else if max_y \<le> min_y then Inl (BlockerBounds ''Y'')
      else Inr \<lparr>tb_min_x = min_x, tb_max_x = max_x, tb_min_y = min_y, tb_max_y = max_y\<rparr>)"

type_synonym traversal_world = "traversal_blocker list"

definition add_static_blocker :: "traversal_blocker \<Rightarrow> traversal_world \<Rightarrow> traversal_world" where
  "add_static_blocker b w = w @ [b]"

definition validate_radius :: "int \<Rightarrow> traversal_error + unit" where
  "validate_radius radius = (if radius \<le> 0 then Inl RadiusNotPositive else Inr ())"

text \<open>The expanded blocker is a blocker again.\<close>

definition expanded_blocker :: "traversal_blocker \<Rightarrow> int \<Rightarrow> traversal_error + traversal_blocker" where
  "expanded_blocker b radius =
     (case validate_radius radius of Inl e \<Rightarrow> Inl e | Inr _ \<Rightarrow>
      (case ok_or (TraversalOverflow ''min X'') (checked_sub_i64 (tb_min_x b) radius) of
         Inl e \<Rightarrow> Inl e | Inr min_x \<Rightarrow>
      (case ok_or (TraversalOverflow ''max X'') (checked_add_i64 (tb_max_x b) radius) of
         Inl e \<Rightarrow> Inl e | Inr max_x \<Rightarrow>
      (case ok_or (TraversalOverflow ''min Y'') (checked_sub_i64 (tb_min_y b) radius) of
         Inl e \<Rightarrow> Inl e | Inr min_y \<Rightarrow>
      (case ok_or (TraversalOverflow ''max Y'') (checked_add_i64 (tb_max_y b) radius) of
         Inl e \<Rightarrow> Inl e | Inr max_y \<Rightarrow>
       Inr \<lparr>tb_min_x = min_x, tb_max_x = max_x, tb_min_y = min_y, tb_max_y = max_y\<rparr>)))))"

definition contains_x_strict :: "traversal_blocker \<Rightarrow> int \<Rightarrow> bool" where
  "contains_x_strict b x \<longleftrightarrow> tb_min_x b < x \<and> x < tb_max_x b"

definition contains_y_strict :: "traversal_blocker \<Rightarrow> int \<Rightarrow> bool" where
  "contains_y_strict b y \<longleftrightarrow> tb_min_y b < y \<and> y < tb_max_y b"

definition contains_strict :: "traversal_blocker \<Rightarrow> int \<Rightarrow> int \<Rightarrow> bool" where
  "contains_strict b x y \<longleftrightarrow> contains_x_strict b x \<and> contains_y_strict b y"

fun validate_placement ::
  "traversal_world \<Rightarrow> world_position \<Rightarrow> int \<Rightarrow> traversal_error + unit" where
  "validate_placement [] p radius = validate_radius radius"
| "validate_placement (b # bs) p radius =
     (case validate_radius radius of Inl e \<Rightarrow> Inl e | Inr _ \<Rightarrow>
      (case expanded_blocker b radius of Inl e \<Rightarrow> Inl e | Inr expanded \<Rightarrow>
       if contains_strict expanded (pos_x p) (pos_y p) then Inl (OverlapsBlocker (pos_x p) (pos_y p))
       else validate_placement bs p radius))"

fun resolve_x ::
  "traversal_world \<Rightarrow> int \<Rightarrow> int \<Rightarrow> int \<Rightarrow> int \<Rightarrow> int \<Rightarrow> traversal_error + int" where
  "resolve_x [] current desired y radius resolved = Inr resolved"
| "resolve_x (b # bs) current desired y radius resolved =
     (case expanded_blocker b radius of Inl e \<Rightarrow> Inl e | Inr expanded \<Rightarrow>
      if \<not> contains_y_strict expanded y then resolve_x bs current desired y radius resolved
      else if current < desired \<and> current \<le> tb_min_x expanded \<and> tb_min_x expanded < desired
      then resolve_x bs current desired y radius (min resolved (tb_min_x expanded))
      else if desired < current \<and> tb_max_x expanded \<le> current \<and> desired < tb_max_x expanded
      then resolve_x bs current desired y radius (max resolved (tb_max_x expanded))
      else resolve_x bs current desired y radius resolved)"

fun resolve_y ::
  "traversal_world \<Rightarrow> int \<Rightarrow> int \<Rightarrow> int \<Rightarrow> int \<Rightarrow> int \<Rightarrow> traversal_error + int" where
  "resolve_y [] current desired x radius resolved = Inr resolved"
| "resolve_y (b # bs) current desired x radius resolved =
     (case expanded_blocker b radius of Inl e \<Rightarrow> Inl e | Inr expanded \<Rightarrow>
      if \<not> contains_x_strict expanded x then resolve_y bs current desired x radius resolved
      else if current < desired \<and> current \<le> tb_min_y expanded \<and> tb_min_y expanded < desired
      then resolve_y bs current desired x radius (min resolved (tb_min_y expanded))
      else if desired < current \<and> tb_max_y expanded \<le> current \<and> desired < tb_max_y expanded
      then resolve_y bs current desired x radius (max resolved (tb_max_y expanded))
      else resolve_y bs current desired x radius resolved)"

record traversal_resolution =
  tr_position :: world_position
  tr_desired :: movement_delta
  tr_actual :: movement_delta
  tr_constrained_x :: bool
  tr_constrained_y :: bool

definition resolve_horizontal ::
  "traversal_world \<Rightarrow> world_position \<Rightarrow> movement_delta \<Rightarrow> int \<Rightarrow> traversal_error + traversal_resolution"
where
  "resolve_horizontal w p desired radius =
     (case validate_placement w p radius of Inl e \<Rightarrow> Inl e | Inr _ \<Rightarrow>
      (case ok_or (TraversalOverflow ''candidate X'') (checked_add_i64 (pos_x p) (delta_x desired)) of
         Inl e \<Rightarrow> Inl e | Inr desired_x \<Rightarrow>
      (case resolve_x w (pos_x p) desired_x (pos_y p) radius desired_x of
         Inl e \<Rightarrow> Inl e | Inr resolved_x \<Rightarrow>
      (case ok_or (TraversalOverflow ''candidate Y'') (checked_add_i64 (pos_y p) (delta_y desired)) of
         Inl e \<Rightarrow> Inl e | Inr desired_y \<Rightarrow>
      (case resolve_y w (pos_y p) desired_y resolved_x radius desired_y of
         Inl e \<Rightarrow> Inl e | Inr resolved_y \<Rightarrow>
      (let resolved = WorldPositionMm resolved_x resolved_y (pos_z p)
       in case validate_placement w resolved radius of Inl e \<Rightarrow> Inl e | Inr _ \<Rightarrow>
      (case ok_or (TraversalOverflow ''delta X'') (checked_sub_i64 resolved_x (pos_x p)) of
         Inl e \<Rightarrow> Inl e | Inr actual_x \<Rightarrow>
      (case ok_or (TraversalOverflow ''delta Y'') (checked_sub_i64 resolved_y (pos_y p)) of
         Inl e \<Rightarrow> Inl e | Inr actual_y \<Rightarrow>
       Inr \<lparr>tr_position = resolved, tr_desired = desired,
            tr_actual = \<lparr>delta_x = actual_x, delta_y = actual_y\<rparr>,
            tr_constrained_x = (actual_x \<noteq> delta_x desired),
            tr_constrained_y = (actual_y \<noteq> delta_y desired)\<rparr>))))))))"

section \<open>Reading the checks\<close>

text \<open>The expansion in plain integers, and when it exists.\<close>

definition grown :: "traversal_blocker \<Rightarrow> int \<Rightarrow> traversal_blocker" where
  "grown b radius = \<lparr>tb_min_x = tb_min_x b - radius, tb_max_x = tb_max_x b + radius,
     tb_min_y = tb_min_y b - radius, tb_max_y = tb_max_y b + radius\<rparr>"

definition expandable :: "traversal_blocker \<Rightarrow> int \<Rightarrow> bool" where
  "expandable b radius \<longleftrightarrow> in_i64 (tb_min_x b - radius) \<and> in_i64 (tb_max_x b + radius) \<and>
     in_i64 (tb_min_y b - radius) \<and> in_i64 (tb_max_y b + radius)"

lemma expanded_blocker_Inr:
  "expanded_blocker b radius = Inr e \<longleftrightarrow> 0 < radius \<and> expandable b radius \<and> e = grown b radius"
  by (auto simp: expanded_blocker_def validate_radius_def expandable_def grown_def machine_arith
      checked_add_i64_def checked_sub_i64_def ok_or_def split: if_splits)

definition clear_at :: "traversal_world \<Rightarrow> int \<Rightarrow> int \<Rightarrow> int \<Rightarrow> bool" where
  "clear_at w radius x y \<longleftrightarrow> (\<forall>b\<in>set w. \<not> contains_strict (grown b radius) x y)"

lemma validate_placement_Inr:
  "validate_placement w p radius = Inr u \<longleftrightarrow>
     0 < radius \<and> (\<forall>b\<in>set w. expandable b radius) \<and> clear_at w radius (pos_x p) (pos_y p)"
proof (induction w)
  case Nil
  then show ?case by (simp add: validate_radius_def clear_at_def)
next
  case (Cons b w)
  show ?case
  proof (cases "expanded_blocker b radius")
    case (Inl e)
    then have "\<not> (0 < radius \<and> expandable b radius)" using expanded_blocker_Inr [of b radius] by auto
    with Inl show ?thesis by (auto simp: validate_radius_def)
  next
    case (Inr e)
    then have "0 < radius" "expandable b radius" "e = grown b radius"
      by (simp_all add: expanded_blocker_Inr)
    with Cons Inr show ?thesis by (auto simp: validate_radius_def clear_at_def)
  qed
qed

section \<open>One axis\<close>

text \<open>
  The resolved coordinate lies between the current and the desired one, and no blocker that is in
  the way on the other axis lies between the current and the resolved one.
\<close>

definition between :: "int \<Rightarrow> int \<Rightarrow> int \<Rightarrow> bool" where
  "between a b x \<longleftrightarrow> min a b \<le> x \<and> x \<le> max a b"

definition passes :: "int \<Rightarrow> int \<Rightarrow> int \<Rightarrow> int \<Rightarrow> bool" where
  "passes lo hi a b \<longleftrightarrow> (\<exists>x. between a b x \<and> lo < x \<and> x < hi)"

text \<open>
  What one blocker does to the resolved coordinate, the same on both axes: \<^term>\<open>active\<close> says that
  the blocker is in the way on the other axis.
\<close>

definition axis_step :: "bool \<Rightarrow> int \<Rightarrow> int \<Rightarrow> int \<Rightarrow> int \<Rightarrow> int \<Rightarrow> int" where
  "axis_step active lo hi current desired resolved =
     (if \<not> active then resolved
      else if current < desired \<and> current \<le> lo \<and> lo < desired then min resolved lo
      else if desired < current \<and> hi \<le> current \<and> desired < hi then max resolved hi
      else resolved)"

abbreviation axis_fold ::
  "('b \<Rightarrow> bool) \<Rightarrow> ('b \<Rightarrow> int) \<Rightarrow> ('b \<Rightarrow> int) \<Rightarrow> int \<Rightarrow> int \<Rightarrow> 'b list \<Rightarrow> int \<Rightarrow> int" where
  "axis_fold active lo hi current desired w \<equiv>
     fold (\<lambda>b. axis_step (active b) (lo b) (hi b) current desired) w"

lemma resolve_x_fold:
  "resolve_x w current desired y radius resolved = Inr r \<longleftrightarrow>
     (\<forall>b\<in>set w. \<exists>e. expanded_blocker b radius = Inr e) \<and>
     r = axis_fold (\<lambda>b. contains_y_strict (grown b radius) y) (\<lambda>b. tb_min_x (grown b radius))
       (\<lambda>b. tb_max_x (grown b radius)) current desired w resolved"
proof (induction w arbitrary: resolved)
  case (Cons b w)
  show ?case
  proof (cases "expanded_blocker b radius")
    case (Inr e)
    then have "e = grown b radius" by (simp add: expanded_blocker_Inr)
    with Inr Cons.IH show ?thesis by (simp add: axis_step_def)
  qed simp
qed auto

lemma resolve_y_fold:
  "resolve_y w current desired x radius resolved = Inr r \<longleftrightarrow>
     (\<forall>b\<in>set w. \<exists>e. expanded_blocker b radius = Inr e) \<and>
     r = axis_fold (\<lambda>b. contains_x_strict (grown b radius) x) (\<lambda>b. tb_min_y (grown b radius))
       (\<lambda>b. tb_max_y (grown b radius)) current desired w resolved"
proof (induction w arbitrary: resolved)
  case (Cons b w)
  show ?case
  proof (cases "expanded_blocker b radius")
    case (Inr e)
    then have "e = grown b radius" by (simp add: expanded_blocker_Inr)
    with Inr Cons.IH show ?thesis by (simp add: axis_step_def)
  qed simp
qed auto

lemma between_trans: "between a b x \<Longrightarrow> between a x z \<Longrightarrow> between a b z"
  unfolding between_def by linarith

lemma axis_step_between:
  "between a d res \<Longrightarrow> between a res (axis_step active lo hi a d res)"
  unfolding between_def axis_step_def by (simp add: min_def max_def)

lemma axis_fold_between:
  "between a d res \<Longrightarrow> between a res (axis_fold active lo hi a d w res)"
proof (induction w arbitrary: res)
  case (Cons b w)
  let ?s = "axis_step (active b) (lo b) (hi b) a d res"
  have "between a res ?s" using Cons.prems by (rule axis_step_between)
  moreover from this Cons.prems have "between a d ?s" by (rule between_trans [rotated])
  ultimately show ?case using Cons.IH [of ?s] between_trans by auto
qed (simp add: between_def)

lemma axis_step_stops:
  assumes "between a d res" "active" "\<not> (lo < a \<and> a < hi)" "between a (axis_step active lo hi a d res) x"
  shows "\<not> (lo < x \<and> x < hi)"
  using assms unfolding between_def axis_step_def by (auto split: if_splits)

lemma axis_fold_blocks:
  assumes "between a d res" "b \<in> set w" "active b" "\<not> (lo b < a \<and> a < hi b)"
    and "between a (axis_fold active lo hi a d w res) x"
  shows "\<not> (lo b < x \<and> x < hi b)"
  using assms
proof (induction w arbitrary: res)
  case (Cons c w)
  let ?s = "axis_step (active c) (lo c) (hi c) a d res"
  have "between a res ?s" using Cons.prems(1) by (rule axis_step_between)
  from between_trans [OF Cons.prems(1) this] have s: "between a d ?s" .
  show ?case
  proof (cases "b = c")
    case True
    have "between a ?s x"
      using between_trans [OF axis_fold_between [OF s]] Cons.prems(5) by simp
    with True Cons.prems(1,3,4) show ?thesis using axis_step_stops by blast
  qed (use Cons.IH [OF s] Cons.prems in simp)
qed simp

lemma axis_step_free:
  assumes "lo + 1 < hi" "active \<Longrightarrow> \<not> passes lo hi a d"
  shows "axis_step active lo hi a d d = d"
proof (cases active)
  case True
  have "\<not> (a < d \<and> a \<le> lo \<and> lo < d)"
  proof
    assume "a < d \<and> a \<le> lo \<and> lo < d"
    with assms(1) have "passes lo hi a d"
      unfolding passes_def between_def by (intro exI [of _ "lo + 1"]) auto
    with assms(2) True show False by simp
  qed
  moreover have "\<not> (d < a \<and> hi \<le> a \<and> d < hi)"
  proof
    assume "d < a \<and> hi \<le> a \<and> d < hi"
    with assms(1) have "passes lo hi a d"
      unfolding passes_def between_def by (intro exI [of _ "hi - 1"]) auto
    with assms(2) True show False by simp
  qed
  ultimately show ?thesis using True by (auto simp: axis_step_def)
qed (simp add: axis_step_def)

lemma axis_fold_free:
  assumes "\<And>b. b \<in> set w \<Longrightarrow> lo b + 1 < hi b"
    and "\<And>b. b \<in> set w \<Longrightarrow> active b \<Longrightarrow> \<not> passes (lo b) (hi b) a d"
  shows "axis_fold active lo hi a d w d = d"
  using assms by (induction w) (simp_all add: axis_step_free)

section \<open>Resolution\<close>

lemma resolve_horizontal_cases:
  assumes "resolve_horizontal w p desired radius = Inr r"
  obtains rx ry where "validate_placement w p radius = Inr ()"
    and "in_i64 (pos_x p + delta_x desired)" "in_i64 (pos_y p + delta_y desired)"
    and "resolve_x w (pos_x p) (pos_x p + delta_x desired) (pos_y p) radius (pos_x p + delta_x desired) = Inr rx"
    and "resolve_y w (pos_y p) (pos_y p + delta_y desired) rx radius (pos_y p + delta_y desired) = Inr ry"
    and "validate_placement w (WorldPositionMm rx ry (pos_z p)) radius = Inr ()"
    and "r = \<lparr>tr_position = WorldPositionMm rx ry (pos_z p), tr_desired = desired,
            tr_actual = \<lparr>delta_x = rx - pos_x p, delta_y = ry - pos_y p\<rparr>,
            tr_constrained_x = (rx - pos_x p \<noteq> delta_x desired),
            tr_constrained_y = (ry - pos_y p \<noteq> delta_y desired)\<rparr>"
  using assms unfolding resolve_horizontal_def
  by (auto simp: Let_def checked_add_i64_def checked_sub_i64_def ok_or_def
      split: sum.splits if_splits)

text \<open>
  The path the character takes: along X at the old Y, then along Y at the new X. No point of it
  is strictly inside an expanded blocker.
\<close>

definition on_path :: "int \<Rightarrow> int \<Rightarrow> int \<Rightarrow> int \<Rightarrow> int \<Rightarrow> int \<Rightarrow> bool" where
  "on_path x0 y0 x1 y1 x y \<longleftrightarrow> (y = y0 \<and> between x0 x1 x) \<or> (x = x1 \<and> between y0 y1 y)"

lemma resolve_x_clear:
  assumes "clear_at w radius a y"
    and "resolve_x w a d y radius d = Inr r" "between a r x"
  shows "clear_at w radius x y"
  unfolding clear_at_def contains_strict_def
proof
  fix b assume b: "b \<in> set w"
  show "\<not> (contains_x_strict (grown b radius) x \<and> contains_y_strict (grown b radius) y)"
  proof
    assume h: "contains_x_strict (grown b radius) x \<and> contains_y_strict (grown b radius) y"
    have "\<not> contains_x_strict (grown b radius) a"
      using assms(1) b h by (auto simp: clear_at_def contains_strict_def)
    with axis_fold_blocks [of a d d b w "\<lambda>b. contains_y_strict (grown b radius) y"
        "\<lambda>b. tb_min_x (grown b radius)" "\<lambda>b. tb_max_x (grown b radius)" x] b h assms(2,3)
    show False by (simp add: resolve_x_fold contains_x_strict_def between_def)
  qed
qed

lemma resolve_y_clear:
  assumes "clear_at w radius x a"
    and "resolve_y w a d x radius d = Inr r" "between a r y"
  shows "clear_at w radius x y"
  unfolding clear_at_def contains_strict_def
proof
  fix b assume b: "b \<in> set w"
  show "\<not> (contains_x_strict (grown b radius) x \<and> contains_y_strict (grown b radius) y)"
  proof
    assume h: "contains_x_strict (grown b radius) x \<and> contains_y_strict (grown b radius) y"
    have "\<not> contains_y_strict (grown b radius) a"
      using assms(1) b h by (auto simp: clear_at_def contains_strict_def)
    with axis_fold_blocks [of a d d b w "\<lambda>b. contains_x_strict (grown b radius) x"
        "\<lambda>b. tb_min_y (grown b radius)" "\<lambda>b. tb_max_y (grown b radius)" y] b h assms(2,3)
    show False by (simp add: resolve_y_fold contains_y_strict_def between_def)
  qed
qed

lemma between_ends: "between a b a" "between a b b"
  by (simp_all add: between_def)

lemma resolve_path_clear:
  assumes "resolve_horizontal w p desired radius = Inr r"
    and "on_path (pos_x p) (pos_y p) (pos_x (tr_position r)) (pos_y (tr_position r)) x y"
  shows "clear_at w radius x y"
proof -
  from resolve_horizontal_cases [OF assms(1)] obtain rx ry where
    p: "validate_placement w p radius = Inr ()" and
    x: "resolve_x w (pos_x p) (pos_x p + delta_x desired) (pos_y p) radius (pos_x p + delta_x desired) = Inr rx" and
    y: "resolve_y w (pos_y p) (pos_y p + delta_y desired) rx radius (pos_y p + delta_y desired) = Inr ry" and
    r: "tr_position r = WorldPositionMm rx ry (pos_z p)" by (metis traversal_resolution.select_convs(1))
  have c0: "clear_at w radius (pos_x p) (pos_y p)" using p by (simp add: validate_placement_Inr)
  have cx: "clear_at w radius rx (pos_y p)" by (rule resolve_x_clear [OF c0 x]) (simp add: between_ends)
  show ?thesis
    using assms(2) resolve_x_clear [OF c0 x] resolve_y_clear [OF cx y]
    by (auto simp: on_path_def r)
qed

text \<open>
  Once the start is admitted and the desired coordinates are in range, the search on the axes
  succeeds and the final placement is admitted: the only late failures are the two differences.
\<close>

lemma resolve_horizontal_succeeds:
  assumes p: "validate_placement w p radius = Inr ()"
    and rng: "in_i64 (pos_x p + delta_x desired)" "in_i64 (pos_y p + delta_y desired)"
    and del: "in_i64 (delta_x desired)" "in_i64 (delta_y desired)"
  shows "\<exists>r. resolve_horizontal w p desired radius = Inr r"
proof -
  from p have rad: "0 < radius" and ex: "\<forall>b\<in>set w. expandable b radius"
    and c0: "clear_at w radius (pos_x p) (pos_y p)" by (simp_all add: validate_placement_Inr)
  then have exp: "\<forall>b\<in>set w. \<exists>e. expanded_blocker b radius = Inr e" by (simp add: expanded_blocker_Inr)
  obtain rx where x: "resolve_x w (pos_x p) (pos_x p + delta_x desired) (pos_y p) radius (pos_x p + delta_x desired) = Inr rx"
    using exp by (simp add: resolve_x_fold)
  obtain ry where y: "resolve_y w (pos_y p) (pos_y p + delta_y desired) rx radius (pos_y p + delta_y desired) = Inr ry"
    using exp by (simp add: resolve_y_fold)
  have bx: "between (pos_x p) (pos_x p + delta_x desired) rx"
    using x by (simp add: resolve_x_fold axis_fold_between between_ends)
  have b_y: "between (pos_y p) (pos_y p + delta_y desired) ry"
    using y by (simp add: resolve_y_fold axis_fold_between between_ends)
  have cx: "clear_at w radius rx (pos_y p)" by (rule resolve_x_clear [OF c0 x]) (simp add: between_ends)
  have "clear_at w radius rx ry" by (rule resolve_y_clear [OF cx y]) (simp add: between_ends)
  then have v: "validate_placement w (WorldPositionMm rx ry (pos_z p)) radius = Inr ()"
    using rad ex by (simp add: validate_placement_Inr)
  have dx: "in_i64 (rx - pos_x p)" using bx del(1) unfolding in_i64_def between_def by auto
  have dy: "in_i64 (ry - pos_y p)" using b_y del(2) unfolding in_i64_def between_def by auto
  show ?thesis
    unfolding resolve_horizontal_def
    using p rng x y v dx dy by (simp add: checked_add_i64_def checked_sub_i64_def ok_or_def Let_def)
qed

lemma resolve_horizontal_between:
  assumes "resolve_horizontal w p desired radius = Inr r"
  shows "between 0 (delta_x desired) (delta_x (tr_actual r))"
    and "between 0 (delta_y desired) (delta_y (tr_actual r))"
    and "tr_position r = WorldPositionMm (pos_x p + delta_x (tr_actual r)) (pos_y p + delta_y (tr_actual r)) (pos_z p)"
proof -
  from resolve_horizontal_cases [OF assms] obtain rx ry where
    x: "resolve_x w (pos_x p) (pos_x p + delta_x desired) (pos_y p) radius (pos_x p + delta_x desired) = Inr rx" and
    y: "resolve_y w (pos_y p) (pos_y p + delta_y desired) rx radius (pos_y p + delta_y desired) = Inr ry" and
    r: "tr_position r = WorldPositionMm rx ry (pos_z p)"
       "tr_actual r = \<lparr>delta_x = rx - pos_x p, delta_y = ry - pos_y p\<rparr>"
    by (metis traversal_resolution.select_convs(1,3))
  have bx: "between (pos_x p) (pos_x p + delta_x desired) rx"
    using x by (simp add: resolve_x_fold axis_fold_between between_ends)
  have b_y: "between (pos_y p) (pos_y p + delta_y desired) ry"
    using y by (simp add: resolve_y_fold axis_fold_between between_ends)
  show "between 0 (delta_x desired) (delta_x (tr_actual r))" using bx r by (auto simp: between_def)
  show "between 0 (delta_y desired) (delta_y (tr_actual r))" using b_y r by (auto simp: between_def)
  show "tr_position r = WorldPositionMm (pos_x p + delta_x (tr_actual r)) (pos_y p + delta_y (tr_actual r)) (pos_z p)"
    using r by simp
qed

section \<open>Properties\<close>

text \<open>
  C6: a character never passes through a blocker: on the whole path it takes, along X and then along Y, its centre is
  never strictly inside a blocker grown by its radius.
\<close>

theorem traversal_never_tunnels:
  assumes "resolve_horizontal w p desired radius = Inr r"
    and "on_path (pos_x p) (pos_y p) (pos_x (tr_position r)) (pos_y (tr_position r)) x y"
    and "b \<in> set w"
  shows "\<not> contains_strict (grown b radius) x y"
  using resolve_path_clear [OF assms(1,2)] assms(3) by (simp add: clear_at_def)

text \<open>
  From an admitted position, a desired movement within range is always resolved; the character moves no
  further than desired on either axis, never backwards, and keeps its height.
\<close>

theorem traversal_resolves:
  assumes "validate_placement w p radius = Inr ()"
    and "in_i64 (pos_x p + delta_x desired)" "in_i64 (pos_y p + delta_y desired)"
    and "in_i64 (delta_x desired)" "in_i64 (delta_y desired)"
  shows "\<exists>r. resolve_horizontal w p desired radius = Inr r \<and>
    between 0 (delta_x desired) (delta_x (tr_actual r)) \<and> between 0 (delta_y desired) (delta_y (tr_actual r)) \<and>
    tr_position r = WorldPositionMm (pos_x p + delta_x (tr_actual r)) (pos_y p + delta_y (tr_actual r)) (pos_z p)"
  using resolve_horizontal_succeeds [OF assms] resolve_horizontal_between by blast

text \<open>The wall of the witnesses, in the way of a movement along X.\<close>

definition sample_wall :: traversal_blocker where
  "sample_wall = \<lparr>tb_min_x = 650, tb_max_x = 750, tb_min_y = - 2000, tb_max_y = 2000\<rparr>"

lemma sample_wall_run: "resolve_horizontal [sample_wall] (WorldPositionMm 337 0 0) \<lparr>delta_x = 5000, delta_y = 100\<rparr> 250 =
    Inr \<lparr>tr_position = WorldPositionMm 400 100 0, tr_desired = \<lparr>delta_x = 5000, delta_y = 100\<rparr>,
         tr_actual = \<lparr>delta_x = 63, delta_y = 100\<rparr>, tr_constrained_x = True, tr_constrained_y = False\<rparr>"
  by code_simp

theorem traversal_never_tunnels_witness: "\<not> contains_strict (grown sample_wall 250) 400 37"
  by (rule traversal_never_tunnels [OF sample_wall_run]) (simp_all add: on_path_def between_def)

theorem traversal_resolves_witness:
  "\<exists>r. resolve_horizontal [sample_wall] (WorldPositionMm 337 0 0) \<lparr>delta_x = 5000, delta_y = 100\<rparr> 250 = Inr r \<and>
    between 0 5000 (delta_x (tr_actual r))"
proof -
  have "validate_placement [sample_wall] (WorldPositionMm 337 0 0) 250 = Inr ()" by code_simp
  from traversal_resolves [OF this, of "\<lparr>delta_x = 5000, delta_y = 100\<rparr>"] show ?thesis
    by (auto simp: in_i64_def)
qed

end
