(* ===== verification/Encumbrance.thy ===== *)
theory Encumbrance
  imports Container_Tree Movement Float32
begin

text \<open>
  crates/simulation/src/encumbrance.rs: the weight of a character's containers as a movement
  penalty, and the scaling of a movement step by it, which crates/simulation/src/character.rs
  computes in \<open>f32\<close>.
\<close>

section \<open>The effects of a load\<close>

text \<open>A multiplier is its significand, in units of \<open>2\<^sup>-\<^sup>2\<^sup>4\<close>: those of 1.0, 0.9, 0.6 and 0.25 in single precision.\<close>

definition f32_fraction :: "int \<Rightarrow> f32" where
  "f32_fraction m = F32 (m * 2 ^ 125)"

record movement_effect =
  me_tier :: encumbrance_tier
  me_speed_multiplier :: f32
  me_can_sprint :: bool
  me_can_dodge :: bool

fun effect_from_tier :: "encumbrance_tier \<Rightarrow> movement_effect" where
  "effect_from_tier Light =
     \<lparr>me_tier = Light, me_speed_multiplier = f32_fraction 16777216, me_can_sprint = True, me_can_dodge = True\<rparr>"
| "effect_from_tier Medium =
     \<lparr>me_tier = Medium, me_speed_multiplier = f32_fraction 15099494, me_can_sprint = True, me_can_dodge = True\<rparr>"
| "effect_from_tier Heavy =
     \<lparr>me_tier = Heavy, me_speed_multiplier = f32_fraction 10066330, me_can_sprint = False, me_can_dodge = True\<rparr>"
| "effect_from_tier Overburdened =
     \<lparr>me_tier = Overburdened, me_speed_multiplier = f32_fraction 4194304, me_can_sprint = False, me_can_dodge = False\<rparr>"

record character_containers =
  cc_tree :: container_tree
  cc_max_capacity_grams :: u32

definition capacity_or_default :: "u32 \<Rightarrow> u32" where
  "capacity_or_default capacity = (if capacity = 0 then 30000 else capacity)"

definition default_starting :: "u32 \<Rightarrow> character_containers" where
  "default_starting capacity =
     \<lparr>cc_tree = set_root (container_new_grid 1 10 6 0) tree_new,
      cc_max_capacity_grams = capacity_or_default capacity\<rparr>"

text \<open>The weight recursion runs on a fuel; running out of it, or a panic, is \<^term>\<open>None\<close>.\<close>

definition current_tier :: "nat \<Rightarrow> character_containers \<Rightarrow> encumbrance_tier option" where
  "current_tier fuel cc = get_encumbrance_tier fuel (cc_tree cc) (cc_max_capacity_grams cc)"

definition evaluate_movement_effects :: "nat \<Rightarrow> character_containers \<Rightarrow> movement_effect option" where
  "evaluate_movement_effects fuel cc = map_option effect_from_tier (current_tier fuel cc)"

datatype pickup_error = NoRootContainer | PickupRefused container_error

definition pickup_item ::
  "nat \<Rightarrow> character_containers \<Rightarrow> stored_item
     \<Rightarrow> ((pickup_error + movement_effect) \<times> character_containers) option" where
  "pickup_item fuel cc item =
     (case ct_root (cc_tree cc) of
        None \<Rightarrow> Some (Inl NoRootContainer, cc)
      | Some target \<Rightarrow>
          (case quick_insert (cc_tree cc) target item True of
             None \<Rightarrow> None
           | Some (Inl e, t) \<Rightarrow> Some (Inl (PickupRefused e), cc\<lparr>cc_tree := t\<rparr>)
           | Some (Inr _, t) \<Rightarrow>
               map_option (\<lambda>effect. (Inr effect, cc\<lparr>cc_tree := t\<rparr>))
                 (evaluate_movement_effects fuel (cc\<lparr>cc_tree := t\<rparr>))))"

text \<open>The step of character.rs, scaled on both axes.\<close>

definition weighted_delta :: "movement_effect \<Rightarrow> movement_delta \<Rightarrow> movement_delta" where
  "weighted_delta effect d =
     \<lparr>delta_x = f32_round_i64 (f32_mul (f32_of_i64 (delta_x d)) (me_speed_multiplier effect)),
      delta_y = f32_round_i64 (f32_mul (f32_of_i64 (delta_y d)) (me_speed_multiplier effect))\<rparr>"

definition apply_to_speed :: "movement_effect \<Rightarrow> f32 \<Rightarrow> f32" where
  "apply_to_speed effect base_speed = f32_mul base_speed (me_speed_multiplier effect)"

record calculated_tick =
  ct_effective_speed :: f32
  ct_is_sprinting :: bool
  ct_dodge_allowed :: bool

definition process_movement_tick ::
  "nat \<Rightarrow> character_containers \<Rightarrow> bool \<Rightarrow> bool \<Rightarrow> f32 \<Rightarrow> f32 \<Rightarrow> calculated_tick option" where
  "process_movement_tick fuel cc wants_to_sprint wants_to_dodge base_walk_speed sprint_bonus =
     map_option (\<lambda>effect.
       (let is_sprinting = wants_to_sprint \<and> me_can_sprint effect;
            speed = (if is_sprinting then f32_mul base_walk_speed sprint_bonus else base_walk_speed)
        in \<lparr>ct_effective_speed = apply_to_speed effect speed, ct_is_sprinting = is_sprinting,
            ct_dodge_allowed = (wants_to_dodge \<and> me_can_dodge effect)\<rparr>))
       (evaluate_movement_effects fuel cc)"

section \<open>Scaling a step\<close>

fun significand :: "encumbrance_tier \<Rightarrow> int" where
  "significand Light = 16777216"
| "significand Medium = 15099494"
| "significand Heavy = 10066330"
| "significand Overburdened = 4194304"

lemma significand_bounds: "0 < significand tier" "significand tier \<le> 16777216"
  by (cases tier; simp)+

lemma effect_multiplier: "me_speed_multiplier (effect_from_tier tier) = f32_fraction (significand tier)"
  by (cases tier) simp_all

lemma f32_of_small:
  assumes "\<bar>x\<bar> \<le> 16777216"
  shows "f32_of_i64 x = F32 (x * f32_one)"
proof -
  have "\<bar>x * 2 ^ 149\<bar> \<le> 16777216 * 2 ^ 149" using assms by (simp add: abs_mult)
  also have "\<dots> < 2 ^ 277" by simp
  finally have "\<not> 2 ^ 277 \<le> \<bar>x * 2 ^ 149\<bar>" by simp
  then show ?thesis
    unfolding f32_of_i64_def f32_one_def f32_round_scale f32_round_id [OF assms] f32_finite_def by (rule if_not_P)
qed

lemma f32_mul_fraction:
  assumes x: "\<bar>x\<bar> \<le> 16777216" and m: "0 < m" "m \<le> 16777216"
  shows "f32_mul (f32_of_i64 x) (f32_fraction m) = F32 (f32_round (x * m) * 2 ^ 125)"
proof -
  have one: "0 < f32_one" by (simp add: f32_one_def)
  have "\<bar>x * m\<bar> \<le> \<bar>x\<bar> * 16777216" using m by (simp add: abs_mult mult_left_mono)
  then have "\<bar>f32_round (x * m)\<bar> \<le> \<bar>x\<bar> * 16777216" by (rule f32_round_bounded) (use x in auto)
  also have "\<dots> \<le> 16777216 * 16777216" using x by simp
  finally have "\<bar>f32_round (x * m) * 2 ^ 125\<bar> \<le> 16777216 * 16777216 * 2 ^ 125" by (simp add: abs_mult)
  also have "\<dots> < 2 ^ 277" by simp
  finally have fits: "\<not> 2 ^ 277 \<le> \<bar>f32_round (x * m) * 2 ^ 125\<bar>" by simp
  have e: "x * f32_one * (m * 2 ^ 125) = (x * m * 2 ^ 125) * f32_one" by (simp add: mult_ac)
  have "f32_of_ratio ((x * m * 2 ^ 125) * f32_one) f32_one = f32_finite (f32_round (x * m * 2 ^ 125))"
    using one f32_round_ratio_whole [of "\<bar>x * m * 2 ^ 125\<bar>" f32_one] f32_round_sgn [of "x * m * 2 ^ 125"]
    by (simp add: f32_of_ratio_def abs_mult sgn_mult)
  also have "\<dots> = F32 (f32_round (x * m) * 2 ^ 125)"
    unfolding f32_round_scale f32_finite_def using fits by (rule if_not_P)
  finally show ?thesis by (simp only: f32_of_small [OF x] f32_fraction_def f32_mul.simps e)
qed

text \<open>
  One axis of the scaled step: within a millimetre of the exact product, and never further than
  the step itself.
\<close>

lemma scaled_axis_value:
  assumes x: "\<bar>x\<bar> \<le> 16777216" and m: "0 < m" "m \<le> 16777216"
  shows "f32_round_i64 (f32_mul (f32_of_i64 x) (f32_fraction m)) =
      sgn (f32_round (x * m)) * ((\<bar>f32_round (x * m)\<bar> + 8388608) div 16777216)"
    and "\<bar>f32_round (x * m)\<bar> \<le> \<bar>x\<bar> * 16777216"
proof -
  let ?v = "f32_round (x * m)"
  let ?a = "(\<bar>?v\<bar> + 8388608) div 16777216"
  have p: "\<bar>x * m\<bar> \<le> \<bar>x\<bar> * 16777216"
    using m by (simp add: abs_mult mult_left_mono)
  show v: "\<bar>?v\<bar> \<le> \<bar>x\<bar> * 16777216" by (rule f32_round_bounded [OF p]) (use x in auto)
  have a: "?a \<le> \<bar>x\<bar>" "0 \<le> ?a" using v by (simp_all add: pos_imp_zdiv_nonneg_iff)
  have num: "2 * \<bar>?v * 2 ^ 125\<bar> + f32_one = (\<bar>?v\<bar> + 8388608) * 2 ^ 126" "2 * f32_one = 16777216 * 2 ^ 126"
    by (simp_all add: f32_one_def abs_mult)
  have "(2 * \<bar>?v * 2 ^ 125\<bar> + f32_one) div (2 * f32_one) = ?a"
    unfolding num by (rule div_mult_mult2) simp
  then have "f32_round_i64 (f32_mul (f32_of_i64 x) (f32_fraction m)) = saturate_i64 (sgn ?v * ?a)"
    unfolding f32_mul_fraction [OF x m] by (simp add: sgn_mult)
  then show "f32_round_i64 (f32_mul (f32_of_i64 x) (f32_fraction m)) = sgn ?v * ?a"
    using x a unfolding saturate_i64_def by (cases "?v = 0") (auto simp: sgn_if)
qed

lemma scaled_axis:
  assumes x: "\<bar>x\<bar> \<le> 16777216" and m: "0 < m" "m \<le> 16777216"
  defines "w \<equiv> f32_round_i64 (f32_mul (f32_of_i64 x) (f32_fraction m))"
  shows "\<bar>w\<bar> \<le> \<bar>x\<bar>" and "\<bar>16777216 * w - x * m\<bar> \<le> 16777216"
proof -
  let ?v = "f32_round (x * m)"
  let ?a = "(\<bar>?v\<bar> + 8388608) div 16777216"
  note val = scaled_axis_value [OF x m]
  have w: "w = sgn ?v * ?a" unfolding w_def by (rule val(1))
  have a: "?a \<le> \<bar>x\<bar>" "0 \<le> ?a" using val(2) by (simp_all add: pos_imp_zdiv_nonneg_iff)
  show "\<bar>w\<bar> \<le> \<bar>x\<bar>" using a unfolding w by (auto simp: abs_mult sgn_if)
  have "\<bar>x * m\<bar> \<le> \<bar>x\<bar> * 16777216" using m by (simp add: abs_mult mult_left_mono)
  also have "\<dots> \<le> 2 ^ 48" using x by simp
  finally have ve: "\<bar>?v - x * m\<bar> \<le> 8388608" by (rule f32_round_error)
  have "\<bar>16777216 * ?a - \<bar>?v\<bar>\<bar> \<le> 8388608"
    using div_mult_mod_eq [of "\<bar>?v\<bar> + 8388608" 16777216] pos_mod_bound [of 16777216 "\<bar>?v\<bar> + 8388608"]
      pos_mod_sign [of 16777216 "\<bar>?v\<bar> + 8388608"] by linarith
  then have "\<bar>16777216 * w - ?v\<bar> \<le> 8388608" unfolding w by (cases "0 \<le> ?v") (auto simp: sgn_if)
  with ve show "\<bar>16777216 * w - x * m\<bar> \<le> 16777216" by linarith
qed

lemma weighted_delta_axes:
  "delta_x (weighted_delta (effect_from_tier tier) d) =
    f32_round_i64 (f32_mul (f32_of_i64 (delta_x d)) (f32_fraction (significand tier)))"
  "delta_y (weighted_delta (effect_from_tier tier) d) =
    f32_round_i64 (f32_mul (f32_of_i64 (delta_y d)) (f32_fraction (significand tier)))"
  by (simp_all add: weighted_delta_def effect_multiplier)

lemma weighted_delta_shorter:
  "\<bar>delta_x d\<bar> \<le> 16777216 \<Longrightarrow> \<bar>delta_x (weighted_delta (effect_from_tier tier) d)\<bar> \<le> \<bar>delta_x d\<bar>"
  "\<bar>delta_y d\<bar> \<le> 16777216 \<Longrightarrow> \<bar>delta_y (weighted_delta (effect_from_tier tier) d)\<bar> \<le> \<bar>delta_y d\<bar>"
  unfolding weighted_delta_axes by (rule scaled_axis(1) [OF _ significand_bounds], assumption)+

text \<open>Without a load the step is the step.\<close>

lemma light_axis:
  assumes "\<bar>x\<bar> \<le> 16777216"
  shows "f32_round_i64 (f32_mul (f32_of_i64 x) (f32_fraction 16777216)) = x"
proof -
  have "f32_round (x * 16777216) = x * 16777216"
    using f32_round_scale [of x 24] f32_round_id [OF assms] by simp
  moreover have "(\<bar>x * 16777216\<bar> + 8388608) div 16777216 = \<bar>x\<bar>" by (simp add: abs_mult)
  ultimately show ?thesis
    using scaled_axis_value(1) [OF assms, of 16777216] by (simp add: sgn_mult sgn_mult_abs)
qed

lemma weighted_delta_light:
  assumes "\<bar>delta_x d\<bar> \<le> 16777216" "\<bar>delta_y d\<bar> \<le> 16777216"
  shows "weighted_delta (effect_from_tier Light) d = d"
  using light_axis [OF assms(1)] light_axis [OF assms(2)] by (simp add: weighted_delta_def)

section \<open>Properties\<close>

text \<open>
  Scaling a step by the penalty of any load never lengthens it, and stays within a millimetre of the exact
  product of the step and the multiplier, on both axes, although it is computed in single precision.
\<close>

theorem weighted_delta_never_longer:
  assumes "\<bar>delta_x d\<bar> \<le> 16777216" "\<bar>delta_y d\<bar> \<le> 16777216"
    and "w = weighted_delta (effect_from_tier tier) d"
  shows "\<bar>delta_x w\<bar> \<le> \<bar>delta_x d\<bar> \<and> \<bar>delta_y w\<bar> \<le> \<bar>delta_y d\<bar> \<and>
    \<bar>16777216 * delta_x w - delta_x d * significand tier\<bar> \<le> 16777216 \<and>
    \<bar>16777216 * delta_y w - delta_y d * significand tier\<bar> \<le> 16777216"
  unfolding assms(3) weighted_delta_axes
  using scaled_axis [OF assms(1) significand_bounds [of tier]]
    scaled_axis [OF assms(2) significand_bounds [of tier]] by simp

theorem weighted_delta_never_longer_witness:
  "\<bar>delta_x (weighted_delta (effect_from_tier Heavy) \<lparr>delta_x = 250, delta_y = - 7\<rparr>)\<bar> \<le> 250"
  using weighted_delta_never_longer [of "\<lparr>delta_x = 250, delta_y = - 7\<rparr>"
      "weighted_delta (effect_from_tier Heavy) \<lparr>delta_x = 250, delta_y = - 7\<rparr>" Heavy] by simp

end
