(* ===== verification/Character.thy ===== *)
theory Character
  imports Encumbrance Traversal
begin

text \<open>
  crates/simulation/src/character.rs: a character of the simulation. Movement inputs arrive with
  strictly increasing sequences; a tick expires an input that is too old, integrates the input,
  scales the step by the load carried, and asks the traversal world where the step ends.

  The resolver is an argument of the tick, as in the code; the error of a tick keeps what the tick
  had already changed (the expired input, the remainder), so a failing tick also returns the state.
\<close>

section \<open>Definitions\<close>

record character_state =
  ch_character_id :: u64
  ch_position :: world_position
  ch_movement_input :: movement_input
  ch_last_input_sequence :: "u64 option"
  ch_last_input_tick :: "u64 option"
  ch_movement_remainder :: movement_remainder
  ch_last_simulated_tick :: u64
  ch_containers :: character_containers

datatype 'e character_error =
  ZeroCharacterId
| NonMonotonicSequence u64 u64
| StaleInputTick u64 u64
| TickNotAfter u64 u64
| NoReceiveTick
| ReceiveTickAhead
| NoInputSequence
| IntegrationFailed movement_error
| ResolverFailed 'e

definition character_spawn :: "u64 \<Rightarrow> world_position \<Rightarrow> u64 \<Rightarrow> 'e character_error + character_state" where
  "character_spawn character_id p spawn_tick =
     (if character_id = 0 then Inl ZeroCharacterId
      else Inr \<lparr>ch_character_id = character_id, ch_position = p,
                ch_movement_input = input_zero, ch_last_input_sequence = None,
                ch_last_input_tick = None, ch_movement_remainder = remainder_default,
                ch_last_simulated_tick = spawn_tick, ch_containers = default_starting 30000\<rparr>)"

definition active_movement_sequence :: "character_state \<Rightarrow> u64 option" where
  "active_movement_sequence c =
     (if input_is_zero (ch_movement_input c) then None else ch_last_input_sequence c)"

definition encumbrance_effects :: "nat \<Rightarrow> character_state \<Rightarrow> movement_effect option" where
  "encumbrance_effects fuel c = evaluate_movement_effects fuel (ch_containers c)"

definition apply_movement_input ::
  "character_state \<Rightarrow> u64 \<Rightarrow> movement_input \<Rightarrow> u64
     \<Rightarrow> ('e character_error + unit) \<times> character_state" where
  "apply_movement_input c sequence input received_tick =
     (if (case ch_last_input_sequence c of Some previous \<Rightarrow> sequence \<le> previous | None \<Rightarrow> False)
      then (Inl (NonMonotonicSequence sequence (the (ch_last_input_sequence c))), c)
      else if received_tick < ch_last_simulated_tick c
      then (Inl (StaleInputTick received_tick (ch_last_simulated_tick c)), c)
      else (Inr (), c\<lparr>ch_last_input_sequence := Some sequence,
                     ch_last_input_tick := Some received_tick,
                     ch_movement_input := input,
                     ch_movement_remainder :=
                       (if input_is_zero input then remainder_default else ch_movement_remainder c)\<rparr>))"

definition expire_stale_input ::
  "character_state \<Rightarrow> u64 \<Rightarrow> movement_rules \<Rightarrow> ('e character_error + u64 option) \<times> character_state" where
  "expire_stale_input c tick rules =
     (if input_is_zero (ch_movement_input c) then (Inr None, c)
      else (case ch_last_input_tick c of
        None \<Rightarrow> (Inl NoReceiveTick, c)
      | Some received_tick \<Rightarrow>
          (case checked_sub tick received_tick of
             None \<Rightarrow> (Inl ReceiveTickAhead, c)
           | Some age_ticks \<Rightarrow>
               if age_ticks < mr_input_timeout_ticks rules then (Inr None, c)
               else (case ch_last_input_sequence c of
                       None \<Rightarrow> (Inl NoInputSequence, c)
                     | Some sequence \<Rightarrow>
                         (Inr (Some sequence),
                          c\<lparr>ch_movement_input := input_zero,
                            ch_movement_remainder := remainder_default\<rparr>)))))"

record step_outcome =
  so_traversal :: traversal_resolution
  so_expired_sequence :: "u64 option"

definition simulate_tick ::
  "nat \<Rightarrow> character_state \<Rightarrow> u64 \<Rightarrow> movement_rules
     \<Rightarrow> (world_position \<Rightarrow> movement_delta \<Rightarrow> 'e + traversal_resolution)
     \<Rightarrow> (('e character_error + step_outcome) \<times> character_state) option" where
  "simulate_tick fuel c tick rules resolve =
     (if tick \<le> ch_last_simulated_tick c
      then Some (Inl (TickNotAfter tick (ch_last_simulated_tick c)), c)
      else (case expire_stale_input c tick rules of
        (Inl e, c1) \<Rightarrow> Some (Inl e, c1)
      | (Inr expired, c1) \<Rightarrow>
          (case integrate rules (ch_movement_input c1) (ch_movement_remainder c1) of
             Inl e \<Rightarrow> Some (Inl (IntegrationFailed e), c1)
           | Inr (desired, remainder) \<Rightarrow>
               (let c2 = c1\<lparr>ch_movement_remainder := remainder\<rparr>
                in (case encumbrance_effects fuel c2 of
                      None \<Rightarrow> None
                    | Some effect \<Rightarrow>
                        (case resolve (ch_position c2) (weighted_delta effect desired) of
                           Inl e \<Rightarrow> Some (Inl (ResolverFailed e), c2)
                         | Inr traversal \<Rightarrow>
                             Some (Inr \<lparr>so_traversal = traversal, so_expired_sequence = expired\<rparr>,
                                   c2\<lparr>ch_position := tr_position traversal,
                                      ch_last_simulated_tick := tick\<rparr>)))))))"

section \<open>A character in a traversal world\<close>

text \<open>
  The character of the zone: inputs and ticks in any order, the step resolved in a traversal world
  with the radius of the rules. A stack overflow or a panic of the weight recursion is a run that
  stops there.
\<close>

datatype character_op =
  InputOp u64 movement_input u64
| TickOp u64

definition resolver ::
  "traversal_world \<Rightarrow> movement_rules \<Rightarrow> world_position \<Rightarrow> movement_delta
     \<Rightarrow> traversal_error + traversal_resolution" where
  "resolver w rules p d = resolve_horizontal w p d (mr_character_radius_mm rules)"

fun character_step ::
  "nat \<Rightarrow> traversal_world \<Rightarrow> movement_rules \<Rightarrow> character_state option \<Rightarrow> character_op
     \<Rightarrow> character_state option" where
  "character_step fuel w rules None op = None"
| "character_step fuel w rules (Some c) (InputOp sequence input received) =
     Some (snd (apply_movement_input c sequence input received :: (traversal_error character_error + unit) \<times> _))"
| "character_step fuel w rules (Some c) (TickOp tick) =
     map_option snd (simulate_tick fuel c tick rules (resolver w rules))"

text \<open>
  The invariant: the character stands clear of every blocker, its remainder is below a millimetre,
  and a live input has the sequence and the tick it came with.
\<close>

definition live_input_known :: "character_state \<Rightarrow> bool" where
  "live_input_known c \<longleftrightarrow> input_is_zero (ch_movement_input c) \<or>
     (ch_last_input_sequence c \<noteq> None \<and> ch_last_input_tick c \<noteq> None)"

definition character_inv :: "traversal_world \<Rightarrow> movement_rules \<Rightarrow> character_state \<Rightarrow> bool" where
  "character_inv w rules c \<longleftrightarrow>
     validate_placement w (ch_position c) (mr_character_radius_mm rules) = Inr () \<and>
     remainder_ok rules (ch_movement_remainder c) \<and> live_input_known c"

text \<open>Sequences and ticks only move forward: \<open>later\<close> compares a state with an earlier one.\<close>

definition sequence_le :: "u64 option \<Rightarrow> u64 option \<Rightarrow> bool" where
  "sequence_le a b \<longleftrightarrow> (case a of None \<Rightarrow> True | Some x \<Rightarrow> (case b of None \<Rightarrow> False | Some y \<Rightarrow> x \<le> y))"

definition later :: "character_state \<Rightarrow> character_state \<Rightarrow> bool" where
  "later c c' \<longleftrightarrow> sequence_le (ch_last_input_sequence c) (ch_last_input_sequence c') \<and>
     ch_last_simulated_tick c \<le> ch_last_simulated_tick c' \<and> ch_character_id c' = ch_character_id c"

section \<open>Operations\<close>

lemma input_is_zero_zero [simp]: "input_is_zero input_zero"
  by (simp add: input_is_zero_def input_zero_def)

lemma expire_Inl: "expire_stale_input c tick rules = (Inl e, c1) \<Longrightarrow> c1 = c"
  by (auto simp: expire_stale_input_def split: if_splits option.splits)

lemma expire_Inr:
  assumes "expire_stale_input c tick rules = (Inr ex, c1)"
  shows "c1 = c \<and> ex = None \<or> ch_last_input_sequence c = ex \<and>
    c1 = c\<lparr>ch_movement_input := input_zero, ch_movement_remainder := remainder_default\<rparr>"
  using assms by (auto simp: expire_stale_input_def split: if_splits option.splits)

text \<open>What a tick leaves behind, and what it takes for it to move the character.\<close>

definition ticked ::
  "nat \<Rightarrow> character_state \<Rightarrow> u64 \<Rightarrow> movement_rules \<Rightarrow> character_state \<Rightarrow> u64 option
     \<Rightarrow> movement_delta \<Rightarrow> movement_remainder \<Rightarrow> movement_effect \<Rightarrow> bool" where
  "ticked fuel c tick rules c1 ex d m effect \<longleftrightarrow> ch_last_simulated_tick c < tick \<and>
     expire_stale_input c tick rules = ((Inr ex :: unit character_error + u64 option), c1) \<and>
     integrate rules (ch_movement_input c1) (ch_movement_remainder c1) = Inr (d, m) \<and>
     encumbrance_effects fuel (c1\<lparr>ch_movement_remainder := m\<rparr>) = Some effect"

lemma expire_any_error:
  assumes "expire_stale_input c tick rules = ((Inr ex :: 'a character_error + u64 option), c1)"
  shows "expire_stale_input c tick rules = ((Inr ex :: 'b character_error + u64 option), c1)"
  using assms by (auto simp: expire_stale_input_def split: if_splits option.splits)

lemma simulate_tick_cases:
  fixes resolve :: "world_position \<Rightarrow> movement_delta \<Rightarrow> 'e + traversal_resolution"
  assumes run: "simulate_tick fuel c tick rules resolve = Some (r, c')"
  obtains (unchanged) e where "r = Inl e" "c' = c"
  | (not_integrated) e ex where "r = Inl e"
      "(expire_stale_input c tick rules :: ('e character_error + u64 option) \<times> _) = (Inr ex, c')"
  | (not_resolved) e ex c1 d m effect where "r = Inl e" "ticked fuel c tick rules c1 ex d m effect"
      "c' = c1\<lparr>ch_movement_remainder := m\<rparr>"
  | (stepped) ex c1 d m effect tr where
      "r = Inr \<lparr>so_traversal = tr, so_expired_sequence = ex\<rparr>" "ticked fuel c tick rules c1 ex d m effect"
      "resolve (ch_position c1) (weighted_delta effect d) = Inr tr"
      "c' = c1\<lparr>ch_movement_remainder := m, ch_position := tr_position tr, ch_last_simulated_tick := tick\<rparr>"
proof (cases "tick \<le> ch_last_simulated_tick c")
  case True
  with run have "r = Inl (TickNotAfter tick (ch_last_simulated_tick c))" "c' = c" by (auto simp: simulate_tick_def)
  then show ?thesis by (rule unchanged)
next
  case False
  obtain er c1 where x: "(expire_stale_input c tick rules :: ('e character_error + u64 option) \<times> _) = (er, c1)"
    by fastforce
  show ?thesis
  proof (cases er)
    case (Inl e)
    with x expire_Inl have "c1 = c" by blast
    with run False x Inl show ?thesis by (auto simp: simulate_tick_def intro: unchanged)
  next
    case (Inr ex)
    note x' = x [unfolded Inr]
    show ?thesis
    proof (cases "integrate rules (ch_movement_input c1) (ch_movement_remainder c1)")
      case (Inl e)
      with run False x' have "r = Inl (IntegrationFailed e)" "c' = c1" by (auto simp: simulate_tick_def)
      with x' show ?thesis by (auto intro: not_integrated)
    next
      case (Inr dm)
      obtain d m where dm: "integrate rules (ch_movement_input c1) (ch_movement_remainder c1) = Inr (d, m)"
        using Inr by (cases dm) auto
      from run False x' dm obtain effect where
        ef: "encumbrance_effects fuel (c1\<lparr>ch_movement_remainder := m\<rparr>) = Some effect"
        by (auto simp: simulate_tick_def Let_def split: option.splits)
      have t: "ticked fuel c tick rules c1 ex d m effect"
        using False expire_any_error [OF x'] dm ef by (auto simp: ticked_def)
      show ?thesis
      proof (cases "resolve (ch_position c1) (weighted_delta effect d)")
        case (Inl e)
        with run False x' dm ef t show ?thesis by (auto simp: simulate_tick_def Let_def intro: not_resolved)
      next
        case (Inr tr)
        with run False x' dm ef t show ?thesis by (auto simp: simulate_tick_def Let_def intro: stepped)
      qed
    qed
  qed
qed

section \<open>Runs\<close>

lemma sequence_le_refl [simp]: "sequence_le a a"
  by (simp add: sequence_le_def split: option.splits)

lemma sequence_le_trans: "sequence_le a b \<Longrightarrow> sequence_le b c \<Longrightarrow> sequence_le a c"
  by (auto simp: sequence_le_def split: option.splits)

lemma later_refl: "later c c"
  by (simp add: later_def)

lemma later_trans: "later a b \<Longrightarrow> later b c \<Longrightarrow> later a c"
  by (auto simp: later_def intro: sequence_le_trans order_trans)

lemma expire_keeps:
  assumes "expire_stale_input c tick rules = (Inr ex, c1)" "character_inv w rules c" "rules_ok rules"
  shows "character_inv w rules c1" "later c c1" "ch_containers c1 = ch_containers c"
    "ch_position c1 = ch_position c" "ch_last_simulated_tick c1 = ch_last_simulated_tick c"
    "ch_last_input_sequence c1 = ch_last_input_sequence c"
  using expire_Inr [OF assms(1)] assms(2) remainder_default_ok [OF assms(3)]
  by (auto simp: character_inv_def live_input_known_def later_def)

lemma resolver_admits:
  assumes "resolver w rules p d = Inr tr"
  shows "validate_placement w (tr_position tr) (mr_character_radius_mm rules) = Inr ()"
  using assms unfolding resolver_def resolve_horizontal_def Let_def
  by (auto split: sum.splits)

lemma input_keeps:
  assumes "apply_movement_input c s i t = (r, c')" "character_inv w rules c" "rules_ok rules"
  shows "character_inv w rules c' \<and> later c c' \<and> ch_containers c' = ch_containers c"
  using assms remainder_default_ok [OF assms(3)]
  by (auto simp: apply_movement_input_def character_inv_def live_input_known_def later_def sequence_le_def
      split: if_splits option.splits)

lemma tick_keeps:
  assumes run: "simulate_tick fuel c tick rules (resolver w rules) = Some (r, c')"
    and inv: "character_inv w rules c" and ok: "rules_ok rules"
  shows "character_inv w rules c' \<and> later c c' \<and> ch_containers c' = ch_containers c"
  using run
proof (cases rule: simulate_tick_cases)
  case unchanged
  with inv show ?thesis by (simp add: later_refl)
next
  case not_integrated
  with expire_keeps [OF _ inv ok] show ?thesis by blast
next
  case (not_resolved e ex c1 d m effect)
  have x: "expire_stale_input c tick rules = (Inr ex :: unit character_error + _, c1)"
    and i: "integrate rules (ch_movement_input c1) (ch_movement_remainder c1) = Inr (d, m)"
    using not_resolved(2) by (simp_all add: ticked_def)
  note k = expire_keeps [OF x inv ok]
  with i have "remainder_ok rules m"
    using integrate_exact [OF ok, of "ch_movement_remainder c1" "ch_movement_input c1"]
    by (metis character_inv_def sum.inject(2) prod.inject surj_pair)
  with k not_resolved(3) show ?thesis by (simp add: character_inv_def later_def live_input_known_def)
next
  case (stepped ex c1 d m effect tr)
  have x: "expire_stale_input c tick rules = (Inr ex :: unit character_error + _, c1)"
    and i: "integrate rules (ch_movement_input c1) (ch_movement_remainder c1) = Inr (d, m)"
    and t: "ch_last_simulated_tick c < tick"
    using stepped(2) by (simp_all add: ticked_def)
  note k = expire_keeps [OF x inv ok]
  with i have "remainder_ok rules m"
    using integrate_exact [OF ok, of "ch_movement_remainder c1" "ch_movement_input c1"]
    by (metis character_inv_def sum.inject(2) prod.inject surj_pair)
  with k t resolver_admits [OF stepped(3)] stepped(4) show ?thesis
    by (simp add: character_inv_def later_def live_input_known_def)
qed

text \<open>The starting inventory weighs nothing: the weight recursion ends and the tier is light.\<close>

lemma default_starting_light:
  "evaluate_movement_effects (Suc fuel) (default_starting 30000) = Some (effect_from_tier Light)"
  by (simp add: evaluate_movement_effects_def current_tier_def default_starting_def get_encumbrance_tier_def
      calculate_total_weight_def set_root_def tree_new_def container_new_grid_def get_container_def
      total_weight_reduction_percent_def capacity_or_default_def tier_of_weight_def reduced_weight_def
      saturating_add_def saturating_sub_def)

lemma simulate_tick_ends:
  assumes "ch_containers c = default_starting 30000"
  shows "\<exists>r c'. simulate_tick (Suc fuel) c tick rules resolve = Some (r, c')"
proof -
  have c1: "ch_containers c1 = default_starting 30000" if "expire_stale_input c tick rules = (er, c1)"
    for er :: "'a character_error + u64 option" and c1
    using that assms by (auto simp: expire_stale_input_def split: if_splits option.splits)
  show ?thesis
    unfolding simulate_tick_def Let_def encumbrance_effects_def
    by (auto split: prod.splits sum.splits dest!: c1 simp: default_starting_light)
qed

definition character_since ::
  "traversal_world \<Rightarrow> movement_rules \<Rightarrow> character_state \<Rightarrow> character_state option \<Rightarrow> bool" where
  "character_since w rules c0 s \<longleftrightarrow> rules_ok rules \<and> (\<exists>c. s = Some c \<and> character_inv w rules c \<and> later c0 c \<and>
     ch_containers c = default_starting 30000)"

lemma character_since_step:
  assumes "character_since w rules c0 s"
  shows "character_since w rules c0 (character_step (Suc fuel) w rules s op)"
proof -
  from assms obtain c where ok: "rules_ok rules" and c: "s = Some c" "character_inv w rules c" "later c0 c"
    "ch_containers c = default_starting 30000" by (auto simp: character_since_def)
  show ?thesis
  proof (cases op)
    case (InputOp q i t)
    obtain r c' where r: "(apply_movement_input c q i t :: (traversal_error character_error + unit) \<times> _) = (r, c')"
      by fastforce
    from input_keeps [OF r c(2) ok] c InputOp r ok show ?thesis
      by (auto simp: character_since_def intro: later_trans)
  next
    case (TickOp t)
    obtain r c' where r: "simulate_tick (Suc fuel) c t rules (resolver w rules) = Some (r, c')"
      using simulate_tick_ends [OF c(4)] by blast
    from tick_keeps [OF r c(2) ok] c TickOp r ok show ?thesis
      by (auto simp: character_since_def intro: later_trans)
  qed
qed

interpretation character: invariant_machine "character_step (Suc fuel) w rules" "character_since w rules c0"
  by unfold_locales (rule character_since_step)

section \<open>The speed of a character\<close>

lemma rules_new_denominator:
  assumes "movement_settings_new speed timeout radius = Inr s" "movement_rules_new s hz = Inr rules"
  shows "mr_denominator rules = movement_axis_scale * uint hz" "mr_speed_mm_per_second rules = uint speed" "hz \<noteq> 0"
  using assms by (auto simp: movement_settings_new_def movement_rules_new_def ok_or_def checked_mul_i64_def
      split: if_splits)

lemma axis_step_bound:
  fixes d r r0 v a :: int
  assumes e: "d * (movement_axis_scale * hz) + r = r0 + v * a"
    and r: "\<bar>r\<bar> < movement_axis_scale * hz" "\<bar>r0\<bar> < movement_axis_scale * hz"
    and a: "\<bar>a\<bar> \<le> movement_axis_scale" and v: "0 < v" "0 < hz"
  shows "\<bar>d\<bar> * hz < v + 2 * hz"
proof -
  have "\<bar>v * a\<bar> \<le> v * movement_axis_scale" using a v by (simp add: abs_mult mult_left_mono)
  moreover have "\<bar>d * (movement_axis_scale * hz)\<bar> < 2 * (movement_axis_scale * hz) + \<bar>v * a\<bar>"
    using e r by linarith
  ultimately have "\<bar>d * (movement_axis_scale * hz)\<bar> < 2 * (movement_axis_scale * hz) + v * movement_axis_scale"
    by linarith
  then have "(\<bar>d\<bar> * hz) * movement_axis_scale < (2 * hz + v) * movement_axis_scale"
    using v by (simp add: abs_mult movement_axis_scale_def algebra_simps)
  then show ?thesis by (simp add: movement_axis_scale_def)
qed

lemma axis_step_small:
  fixes d v hz :: int
  assumes "\<bar>d\<bar> * hz < v + 2 * hz" "v \<le> 16777214" "0 < hz"
  shows "\<bar>d\<bar> \<le> 16777216"
proof (rule ccontr)
  assume "\<not> \<bar>d\<bar> \<le> 16777216"
  then have "16777217 * hz \<le> \<bar>d\<bar> * hz" using assms(3) by (intro mult_right_mono) auto
  with assms show False by linarith
qed

lemma between_abs: "between 0 a x \<Longrightarrow> \<bar>a\<bar> \<le> b \<Longrightarrow> \<bar>x\<bar> \<le> b"
  by (auto simp: between_def min_def max_def abs_le_iff split: if_splits)

lemma tick_step_bounds:
  assumes "movement_settings_new speed timeout radius = Inr s" "movement_rules_new s hz = Inr rules"
    and "uint speed \<le> 16777214" "remainder_ok rules m0" "integrate rules i m0 = Inr (d, m)"
  shows "\<bar>delta_x d\<bar> * uint hz < uint speed + 2 * uint hz" "\<bar>delta_x d\<bar> \<le> 16777216"
    "\<bar>delta_y d\<bar> * uint hz < uint speed + 2 * uint hz" "\<bar>delta_y d\<bar> \<le> 16777216"
proof -
  have ok: "rules_ok rules" by (rule movement_rules_new_ok [OF assms(1,2)])
  note n = rules_new_denominator [OF assms(1,2)]
  have pos: "0 < uint hz" "0 < uint speed" using n ok by (auto simp: uint_gt_0 rules_ok_def)
  obtain ax ay where a: "normalized_axes i = (ax, ay)" by fastforce
  obtain d' m' where st: "integrate rules i m0 = Inr (d', m')" "remainder_ok rules m'"
    "delta_x d' * mr_denominator rules + rem_x m' = rem_x m0 + mr_speed_mm_per_second rules * ax"
    "delta_y d' * mr_denominator rules + rem_y m' = rem_y m0 + mr_speed_mm_per_second rules * ay"
    by (rule integrate_exact [OF ok assms(4) a])
  have d: "d' = d" "m' = m" using st(1) assms(5) by simp_all
  note b = normalized_axes_bound [OF a]
  have r: "\<bar>rem_x m\<bar> < movement_axis_scale * uint hz" "\<bar>rem_y m\<bar> < movement_axis_scale * uint hz"
    "\<bar>rem_x m0\<bar> < movement_axis_scale * uint hz" "\<bar>rem_y m0\<bar> < movement_axis_scale * uint hz"
    using st(2) assms(4) by (simp_all add: remainder_ok_def d n)
  show x: "\<bar>delta_x d\<bar> * uint hz < uint speed + 2 * uint hz"
    by (rule axis_step_bound [OF st(3) [unfolded d n] r(1,3) b(1) pos(2,1)])
  show y: "\<bar>delta_y d\<bar> * uint hz < uint speed + 2 * uint hz"
    by (rule axis_step_bound [OF st(4) [unfolded d n] r(2,4) b(2) pos(2,1)])
  show "\<bar>delta_x d\<bar> \<le> 16777216" by (rule axis_step_small [OF x assms(3) pos(1)])
  show "\<bar>delta_y d\<bar> \<le> 16777216" by (rule axis_step_small [OF y assms(3) pos(1)])
qed

section \<open>Properties\<close>

text \<open>
  C28: a character spawned on a clear spot survives every sequence of movement inputs and ticks, accepted or refused: it
  never stops being simulated, and at every moment it stands clear of every blocker of the world, its remainder stays below
  a millimetre and a live input has its sequence and tick. From any moment on to any later one neither its accepted
  input sequence nor its simulated tick ever goes back, and its identity stays.
\<close>

theorem character_run_safe:
  assumes "rules_ok rules" "(character_spawn cid p t :: traversal_error character_error + _) = Inr c0"
    and "validate_placement w p (mr_character_radius_mm rules) = Inr ()"
  shows "\<exists>c c'. foldl (character_step (Suc fuel) w rules) (Some c0) ops = Some c \<and>
    foldl (character_step (Suc fuel) w rules) (Some c0) (ops @ later_ops) = Some c' \<and>
    character_inv w rules c \<and> later c0 c \<and> character_inv w rules c' \<and> later c c'"
proof -
  let ?step = "character_step (Suc fuel) w rules"
  have "character_since w rules c0 (Some c0)"
    using assms remainder_default_ok [OF assms(1)]
    by (auto simp: character_since_def character_spawn_def character_inv_def live_input_known_def later_refl
        split: if_splits)
  from character.inv_run [OF this, where fuel = fuel and ops = ops]
  obtain c where c: "foldl ?step (Some c0) ops = Some c" "rules_ok rules" "character_inv w rules c" "later c0 c"
    by (auto simp: character_since_def)
  from character.inv_run [OF \<open>character_since w rules c0 (Some c0)\<close>, where fuel = fuel and ops = ops] c
  have "character_since w rules c (Some c)" by (simp add: character_since_def later_refl)
  from character.inv_run [OF this, where fuel = fuel and ops = later_ops]
  obtain c' where "foldl ?step (Some c) later_ops = Some c'" "character_inv w rules c'" "later c c'"
    by (auto simp: character_since_def)
  with c show ?thesis by simp
qed

text \<open>
  The dead-man switch: a tick at which the live input is at least the timeout old reports its sequence as
  expired, asks the resolver for no movement at all, and leaves a zero input and no remainder behind, for every load.
\<close>

theorem stale_input_stops:
  assumes "simulate_tick fuel c tick rules resolve = Some (Inr out, c')"
    and "\<not> input_is_zero (ch_movement_input c)" "ch_last_input_tick c = Some received"
    and "unat received + unat (mr_input_timeout_ticks rules) \<le> unat tick"
  shows "so_expired_sequence out = ch_last_input_sequence c \<and> ch_last_input_sequence c \<noteq> None \<and>
    resolve (ch_position c) \<lparr>delta_x = 0, delta_y = 0\<rparr> = Inr (so_traversal out) \<and>
    ch_movement_input c' = input_zero \<and> ch_movement_remainder c' = remainder_default"
  using assms(1)
proof (cases rule: simulate_tick_cases)
  case (stepped ex c1 d m effect tr)
  have x: "expire_stale_input c tick rules = (Inr ex :: unit character_error + _, c1)"
    and i: "integrate rules (ch_movement_input c1) (ch_movement_remainder c1) = Inr (d, m)"
    and e: "encumbrance_effects fuel (c1\<lparr>ch_movement_remainder := m\<rparr>) = Some effect"
    using stepped(2) by (simp_all add: ticked_def)
  have age: "checked_sub tick received = Some (tick - received)" "\<not> tick - received < mr_input_timeout_ticks rules"
    using assms(4) by (auto simp: checked_sub_def word_le_nat_alt word_less_nat_alt unat_sub_le)
  from x age assms(2,3) have c1: "ex = ch_last_input_sequence c" "ex \<noteq> None"
    "c1 = c\<lparr>ch_movement_input := input_zero, ch_movement_remainder := remainder_default\<rparr>"
    by (auto simp: expire_stale_input_def split: option.splits dest!: sym [of "Some _"])
  have z: "normalized_axes input_zero = (0, 0)"
    by (simp add: normalized_axes_def input_zero_def movement_axis_scale_def)
  with i c1 have d: "d = \<lparr>delta_x = 0, delta_y = 0\<rparr>" "m = remainder_default"
    by (auto simp: integrate_def remainder_default_def checked_mul_i64_def checked_add_i64_def ok_or_def in_i64_def)
  obtain tier where tier: "effect = effect_from_tier tier"
    using e by (auto simp: encumbrance_effects_def evaluate_movement_effects_def)
  have "weighted_delta effect d = \<lparr>delta_x = 0, delta_y = 0\<rparr>"
    by (rule movement_delta.equality) (use weighted_delta_shorter [of d tier] in \<open>simp_all add: d tier\<close>)
  with stepped c1 d show ?thesis by auto
qed auto

text \<open>
  C29: no character outruns the speed rule: with a configured speed of at most 16777214 mm/s (some 60000 km/h; up to
  there the weighting by the load, which goes through a 32-bit float, is exact enough) it moves in one tick, on
  each axis, less than the configured speed divided by the tick rate plus two millimetres, whatever its input, its remainder
  and its load. Above that bound, which the settings do not check, the float may round a delta up.
\<close>

theorem character_speed_bounded:
  assumes "movement_settings_new speed timeout radius = Inr s" "movement_rules_new s hz = Inr rules"
    and "uint speed \<le> 16777214" "character_inv w rules c"
    and "simulate_tick fuel c tick rules (resolver w rules) = Some (Inr out, c')"
  shows "\<bar>pos_x (ch_position c') - pos_x (ch_position c)\<bar> * uint hz < uint speed + 2 * uint hz \<and>
    \<bar>pos_y (ch_position c') - pos_y (ch_position c)\<bar> * uint hz < uint speed + 2 * uint hz \<and>
    pos_z (ch_position c') = pos_z (ch_position c)"
  using assms(5)
proof (cases rule: simulate_tick_cases)
  case (stepped ex c1 d m effect tr)
  have ok: "rules_ok rules" by (rule movement_rules_new_ok [OF assms(1,2)])
  have x: "expire_stale_input c tick rules = (Inr ex :: unit character_error + _, c1)"
    and i: "integrate rules (ch_movement_input c1) (ch_movement_remainder c1) = Inr (d, m)"
    and "\<exists>tier. effect = effect_from_tier tier"
    using stepped(2) by (auto simp: ticked_def encumbrance_effects_def evaluate_movement_effects_def)
  then obtain tier where e: "effect = effect_from_tier tier" by blast
  note k = expire_keeps [OF x assms(4) ok]
  then have r: "remainder_ok rules (ch_movement_remainder c1)" by (simp add: character_inv_def)
  note b = tick_step_bounds [OF assms(1,2,3) r i]
  note sx = weighted_delta_shorter(1) [OF b(2), of tier]
  note sy = weighted_delta_shorter(2) [OF b(4), of tier]
  note tr = resolve_horizontal_between [OF stepped(3) [unfolded resolver_def]]
  have "\<bar>delta_x (tr_actual tr)\<bar> \<le> \<bar>delta_x d\<bar>" "\<bar>delta_y (tr_actual tr)\<bar> \<le> \<bar>delta_y d\<bar>"
    using between_abs [OF tr(1)] between_abs [OF tr(2)] sx sy by (simp_all add: e)
  then have "\<bar>delta_x (tr_actual tr)\<bar> * uint hz < uint speed + 2 * uint hz"
    "\<bar>delta_y (tr_actual tr)\<bar> * uint hz < uint speed + 2 * uint hz"
    using b(1,3) mult_right_mono [of "\<bar>delta_x (tr_actual tr)\<bar>" "\<bar>delta_x d\<bar>" "uint hz"]
      mult_right_mono [of "\<bar>delta_y (tr_actual tr)\<bar>" "\<bar>delta_y d\<bar>" "uint hz"]
    by (auto intro: le_less_trans)
  then show ?thesis using stepped(4) k(4) tr(3) by simp
qed simp_all

text \<open>A walking character in an open world, at 5 m/s and 20 ticks per second.\<close>

definition sample_settings :: movement_settings where
  "sample_settings = \<lparr>ms_speed_mm_per_second = 5000, ms_input_timeout_ticks = 10, ms_character_radius_mm = 250\<rparr>"

definition sample_rules :: movement_rules where
  "sample_rules = \<lparr>mr_speed_mm_per_second = 5000, mr_denominator = 655340, mr_input_timeout_ticks = 10,
     mr_character_radius_mm = 250\<rparr>"

definition sample_walker :: character_state where
  "sample_walker = \<lparr>ch_character_id = 7, ch_position = WorldPositionMm 0 0 0,
     ch_movement_input = \<lparr>axis_x = 32767, axis_y = 0\<rparr>, ch_last_input_sequence = Some 3,
     ch_last_input_tick = Some 5, ch_movement_remainder = remainder_default,
     ch_last_simulated_tick = 5, ch_containers = default_starting 30000\<rparr>"

lemma sample_rules_new:
  "movement_settings_new 5000 10 250 = Inr sample_settings" "movement_rules_new sample_settings 20 = Inr sample_rules"
  by (simp_all add: movement_settings_new_def sample_settings_def movement_rules_new_def sample_rules_def ok_or_def
      checked_mul_i64_def movement_axis_scale_def in_i64_def)

lemma sample_rules_ok: "rules_ok sample_rules"
  by (rule movement_rules_new_ok [OF sample_rules_new])

lemma starting_load_light:
  "ch_containers c = default_starting 30000 \<Longrightarrow> encumbrance_effects (Suc 0) c = Some (effect_from_tier Light)"
  using default_starting_light [of 0] by (simp add: encumbrance_effects_def)

lemma open_world_step:
  assumes "in_i64 (delta_x d)" "in_i64 (delta_y d)"
  shows "resolver [] sample_rules (WorldPositionMm 0 0 0) d =
    Inr \<lparr>tr_position = WorldPositionMm (delta_x d) (delta_y d) 0, tr_desired = d, tr_actual = d,
         tr_constrained_x = False, tr_constrained_y = False\<rparr>"
  using assms by (simp add: resolver_def sample_rules_def resolve_horizontal_def validate_radius_def
      checked_add_i64_def checked_sub_i64_def ok_or_def)

lemma sample_walk:
  "simulate_tick 1 sample_walker 6 sample_rules (resolver [] sample_rules) =
     Some (Inr \<lparr>so_traversal = \<lparr>tr_position = WorldPositionMm 250 0 0, tr_desired = \<lparr>delta_x = 250, delta_y = 0\<rparr>,
       tr_actual = \<lparr>delta_x = 250, delta_y = 0\<rparr>, tr_constrained_x = False, tr_constrained_y = False\<rparr>,
       so_expired_sequence = None\<rparr>,
     sample_walker\<lparr>ch_position := WorldPositionMm 250 0 0, ch_last_simulated_tick := 6\<rparr>)"
proof -
  have a: "normalized_axes \<lparr>axis_x = 32767, axis_y = 0\<rparr> = (32767, 0)"
    by (simp add: normalized_axes_def movement_axis_scale_def)
  have x: "expire_stale_input sample_walker 6 sample_rules = (Inr None, sample_walker)"
    by (simp add: expire_stale_input_def sample_walker_def input_is_zero_def checked_sub_def sample_rules_def)
  have i: "integrate sample_rules (ch_movement_input sample_walker) (ch_movement_remainder sample_walker) =
      Inr (\<lparr>delta_x = 250, delta_y = 0\<rparr>, remainder_default)"
    by (simp add: integrate_def sample_walker_def a sample_rules_def remainder_default_def
        checked_mul_i64_def checked_add_i64_def ok_or_def in_i64_def signed_divide_int_def signed_modulo_int_def)
  have w: "weighted_delta (effect_from_tier Light) \<lparr>delta_x = 250, delta_y = 0\<rparr> = \<lparr>delta_x = 250, delta_y = 0\<rparr>"
    by (rule weighted_delta_light) simp_all
  show ?thesis
    by (simp add: simulate_tick_def x i Let_def starting_load_light del: effect_from_tier.simps)
      (simp add: sample_walker_def starting_load_light w open_world_step in_i64_def del: effect_from_tier.simps)
qed

lemma sample_stop:
  "simulate_tick 1 sample_walker 15 sample_rules (resolver [] sample_rules) =
     Some (Inr \<lparr>so_traversal = \<lparr>tr_position = WorldPositionMm 0 0 0, tr_desired = \<lparr>delta_x = 0, delta_y = 0\<rparr>,
       tr_actual = \<lparr>delta_x = 0, delta_y = 0\<rparr>, tr_constrained_x = False, tr_constrained_y = False\<rparr>,
       so_expired_sequence = Some 3\<rparr>,
     sample_walker\<lparr>ch_movement_input := input_zero, ch_last_simulated_tick := 15\<rparr>)"
proof -
  have z: "normalized_axes input_zero = (0, 0)"
    by (simp add: normalized_axes_def input_zero_def movement_axis_scale_def)
  have x: "expire_stale_input sample_walker 15 sample_rules = (Inr (Some 3),
      sample_walker\<lparr>ch_movement_input := input_zero, ch_movement_remainder := remainder_default\<rparr>)"
    by (simp add: expire_stale_input_def sample_walker_def input_is_zero_def checked_sub_def sample_rules_def)
  have i: "integrate sample_rules input_zero remainder_default = Inr (\<lparr>delta_x = 0, delta_y = 0\<rparr>, remainder_default)"
    by (simp add: integrate_def z sample_rules_def remainder_default_def
        checked_mul_i64_def checked_add_i64_def ok_or_def in_i64_def)
  have w: "weighted_delta (effect_from_tier Light) \<lparr>delta_x = 0, delta_y = 0\<rparr> = \<lparr>delta_x = 0, delta_y = 0\<rparr>"
    by (rule weighted_delta_light) simp_all
  show ?thesis
    by (simp add: simulate_tick_def x i Let_def starting_load_light del: effect_from_tier.simps)
      (simp add: sample_walker_def starting_load_light w open_world_step in_i64_def del: effect_from_tier.simps)
qed

theorem character_run_safe_witness:
  "\<exists>c c'. foldl (character_step 1 [] sample_rules) (Some (sample_walker\<lparr>ch_movement_input := input_zero,
      ch_last_input_sequence := None, ch_last_input_tick := None\<rparr>)) [TickOp 6, InputOp 9 input_zero 8] = Some c \<and>
    foldl (character_step 1 [] sample_rules) (Some (sample_walker\<lparr>ch_movement_input := input_zero,
      ch_last_input_sequence := None, ch_last_input_tick := None\<rparr>))
      ([TickOp 6, InputOp 9 input_zero 8] @ [InputOp 8 input_zero 9, TickOp 7]) = Some c' \<and>
    character_inv [] sample_rules c' \<and> later c c'"
proof -
  let ?c = "sample_walker\<lparr>ch_movement_input := input_zero, ch_last_input_sequence := None, ch_last_input_tick := None\<rparr>"
  have "(character_spawn 7 (WorldPositionMm 0 0 0) 5 :: traversal_error character_error + _) = Inr ?c"
    by (simp add: character_spawn_def sample_walker_def)
  moreover have "validate_placement [] (WorldPositionMm 0 0 0) (mr_character_radius_mm sample_rules) = Inr ()"
    by (simp add: validate_radius_def sample_rules_def)
  ultimately show ?thesis
    using character_run_safe [OF sample_rules_ok, of 7 "WorldPositionMm 0 0 0" 5 ?c "[]" 0
        "[TickOp 6, InputOp 9 input_zero 8]" "[InputOp 8 input_zero 9, TickOp 7]"] unfolding One_nat_def by blast
qed

theorem stale_input_stops_witness:
  "resolver [] sample_rules (WorldPositionMm 0 0 0) \<lparr>delta_x = 0, delta_y = 0\<rparr> =
    Inr \<lparr>tr_position = WorldPositionMm 0 0 0, tr_desired = \<lparr>delta_x = 0, delta_y = 0\<rparr>,
       tr_actual = \<lparr>delta_x = 0, delta_y = 0\<rparr>, tr_constrained_x = False, tr_constrained_y = False\<rparr>"
  using stale_input_stops [OF sample_stop, of 5]
  by (simp add: sample_walker_def sample_rules_def input_is_zero_def)

theorem character_speed_bounded_witness:
  "\<bar>pos_x (ch_position (sample_walker\<lparr>ch_position := WorldPositionMm 250 0 0, ch_last_simulated_tick := 6\<rparr>)) - 0\<bar> * 20 < (5040 :: int)"
  using character_speed_bounded [OF sample_rules_new _ _ sample_walk]
  by (simp add: sample_walker_def sample_rules_def character_inv_def live_input_known_def remainder_ok_def
      remainder_default_def validate_radius_def)

end
