(* ===== verification/Character_Inventory.thy ===== *)
theory Character_Inventory
  imports Items Inventory_Grid
begin

text \<open>
  \<open>CharacterInventoryState\<close> of crates/domain/src/items.rs: a character's grid, worn equipment and items, with
  the insertions and removals on its item map that the zone performs. The stock of a list of items counts
  the units of one definition.
\<close>

section \<open>Definitions\<close>

record character_inventory =
  inv_grid :: inventory_grid
  inv_equipment :: equipment
  inv_items :: "(u128 \<times> item_instance) list"

definition inventory_new :: "u8 \<Rightarrow> u8 \<Rightarrow> character_inventory" where
  "inventory_new columns rows = \<lparr>inv_grid = grid_new columns rows, inv_equipment = Map.empty, inv_items = []\<rparr>"

definition put_item :: "item_instance \<Rightarrow> character_inventory \<Rightarrow> character_inventory" where
  "put_item item iv = iv\<lparr>inv_items := AList.update (it_id item) item (inv_items iv)\<rparr>"

definition take_item :: "u128 \<Rightarrow> character_inventory \<Rightarrow> character_inventory" where
  "take_item i iv = iv\<lparr>inv_items := AList.delete i (inv_items iv)\<rparr>"

section \<open>Held items\<close>

text \<open>The items of the map, each under its own id and once.\<close>

definition map_values :: "('k \<times> 'v) list \<Rightarrow> 'v multiset" where
  "map_values al = mset (map snd al)"

definition held :: "character_inventory \<Rightarrow> item_instance multiset" where
  "held iv = map_values (inv_items iv)"

definition keyed :: "(u128 \<times> item_instance) list \<Rightarrow> bool" where
  "keyed al \<longleftrightarrow> distinct (map fst al) \<and> (\<forall>(i, item)\<in>set al. it_id item = i)"

definition ids_of :: "item_instance multiset \<Rightarrow> u128 multiset" where
  "ids_of M = image_mset it_id M"

text \<open>The units of one item definition.\<close>

definition stock :: "u32 \<Rightarrow> item_instance multiset \<Rightarrow> nat" where
  "stock d M = sum_mset (image_mset (\<lambda>i. if it_definition_id i = d then unat (it_quantity i) else 0) M)"

lemma stock_simps [simp]:
  "stock d {#} = 0" "stock d (M + N) = stock d M + stock d N"
  "stock d (add_mset i M) = (if it_definition_id i = d then unat (it_quantity i) else 0) + stock d M"
  by (simp_all add: stock_def)

lemma ids_of_simps [simp]:
  "ids_of {#} = {#}" "ids_of (M + N) = ids_of M + ids_of N" "ids_of (add_mset i M) = add_mset (it_id i) (ids_of M)"
  by (simp_all add: ids_of_def)

lemma keyed_Nil [simp]: "keyed []"
  by (simp add: keyed_def)

lemma held_simps [simp]:
  "held (iv\<lparr>inv_grid := g\<rparr>) = held iv" "held (iv\<lparr>inv_equipment := e\<rparr>) = held iv"
  "held (iv\<lparr>inv_items := al\<rparr>) = map_values al"
  by (simp_all add: held_def)

lemma keyed_update:
  assumes "keyed al" "it_id item = i"
  shows "keyed (AList.update i item al)"
  using assms set_alist_update [of al i item] by (auto simp: keyed_def)

lemma keyed_delete:
  assumes "keyed al"
  shows "keyed (AList.delete i al)"
  using assms by (auto simp: keyed_def AList.delete_eq split_def distinct_map_filter)

lemma keyed_lookup: "keyed al \<Longrightarrow> map_of al i = Some item \<Longrightarrow> it_id item = i"
  by (auto simp: keyed_def dest: map_of_SomeD)

lemma map_values_delete:
  "distinct (map fst al) \<Longrightarrow> map_of al i = Some item \<Longrightarrow>
    map_values al = add_mset item (map_values (AList.delete i al))"
proof (induction al)
  case (Cons p al)
  obtain k v where p: "p = (k, v)" by (cases p)
  show ?case
  proof (cases "k = i")
    case True
    then have "AList.delete i al = al" using Cons.prems(1) by (simp add: p delete_idem)
    with True Cons.prems show ?thesis by (simp add: p map_values_def)
  next
    case False
    with Cons show ?thesis by (simp add: p map_values_def)
  qed
qed simp

lemma map_values_update_new: "map_of al i = None \<Longrightarrow> map_values (AList.update i item al) = add_mset item (map_values al)"
  by (induction al) (auto simp: map_values_def split: if_splits)

lemma map_values_update_old:
  "distinct (map fst al) \<Longrightarrow> map_of al i = Some old \<Longrightarrow>
    add_mset old (map_values (AList.update i item al)) = add_mset item (map_values al)"
proof (induction al)
  case (Cons p al)
  obtain k v where p: "p = (k, v)" by (cases p)
  show ?case
  proof (cases "k = i")
    case True
    with Cons.prems show ?thesis by (simp add: p map_values_def add_mset_commute)
  next
    case False
    with Cons p have "add_mset old (map_values (AList.update i item al)) = add_mset item (map_values al)"
      by simp
    with False show ?thesis by (simp add: p map_values_def add_mset_commute)
  qed
qed simp

text \<open>A key that is not in the map is no id of a held item.\<close>

lemma keyed_absent: "keyed al \<Longrightarrow> map_of al i = None \<longleftrightarrow> i \<notin># ids_of (map_values al)"
  by (force simp: map_values_def keyed_def ids_of_def map_of_eq_None_iff)

end
