(* ===== verification/Systems.thy ===== *)
theory Systems
  imports Traversal Character_Inventory
begin

text \<open>
  crates/simulation/src/systems.rs: the systems that a simulation tick runs over the entities of
  the world. The world (a \<open>hecs::World\<close>, a third-party container) is the list of its entities, each
  with the components it carries; a query visits, in the order of the list, the entities that carry
  the components it names. A panic (an \<open>i64\<close> or \<open>i128\<close> overflow of the distance) is \<^term>\<open>None\<close>.
\<close>

section \<open>Definitions\<close>

record rock_node =
  rock_health :: u32
  rock_max_health :: u32

definition rock_node_new :: "u32 \<Rightarrow> rock_node" where
  "rock_node_new health = \<lparr>rock_health = health, rock_max_health = health\<rparr>"

record mine_component =
  mi_miner :: u64
  mi_power :: u32

record entity =
  en_id :: u64
  en_identity :: "u64 option"
  en_position :: "world_position option"
  en_move_intent :: "movement_input option"
  en_remainder :: "movement_remainder option"
  en_dirty :: bool
  en_rock :: "rock_node option"
  en_mine_intent :: "mine_component option"
  en_inventory :: "character_inventory option"

type_synonym world = "entity list"

datatype system_error = MoveIntegration movement_error | MoveTraversal traversal_error

definition carried_remainder :: "entity \<Rightarrow> movement_remainder" where
  "carried_remainder e = (case en_remainder e of Some r \<Rightarrow> r | None \<Rightarrow> remainder_default)"

text \<open>The movement system moves row by row; an error leaves the rows before it moved.\<close>

fun move_rows ::
  "traversal_world \<Rightarrow> movement_rules \<Rightarrow> world \<Rightarrow> (system_error + u64 list) \<times> world" where
  "move_rows tw rules [] = (Inr [], [])"
| "move_rows tw rules (e # es) =
     (case (en_position e, en_move_intent e) of
        (Some p, Some intent) \<Rightarrow>
          (case integrate rules intent (carried_remainder e) of
             Inl err \<Rightarrow> (Inl (MoveIntegration err), e # es)
           | Inr (delta, r) \<Rightarrow>
               (let e1 = e\<lparr>en_remainder := map_option (\<lambda>_. r) (en_remainder e)\<rparr>
                in if delta_x delta \<noteq> 0 \<or> delta_y delta \<noteq> 0
                   then (case resolve_horizontal tw p delta (mr_character_radius_mm rules) of
                           Inl err \<Rightarrow> (Inl (MoveTraversal err), e1 # es)
                         | Inr res \<Rightarrow>
                             (case move_rows tw rules es of
                                (rest, es') \<Rightarrow>
                                  if tr_position res \<noteq> p
                                  then (map_sum id ((#) (en_id e)) rest,
                                        e1\<lparr>en_position := Some (tr_position res)\<rparr> # es')
                                  else (rest, e1 # es')))
                   else (case move_rows tw rules es of (rest, es') \<Rightarrow> (rest, e1 # es'))))
      | _ \<Rightarrow> (case move_rows tw rules es of (rest, es') \<Rightarrow> (rest, e # es')))"

definition mark_dirty :: "u64 list \<Rightarrow> world \<Rightarrow> world" where
  "mark_dirty ids w = map (\<lambda>e. if en_id e \<in> set ids then e\<lparr>en_dirty := True\<rparr> else e) w"

definition movement_tick_system ::
  "traversal_world \<Rightarrow> movement_rules \<Rightarrow> world \<Rightarrow> (system_error + unit) \<times> world" where
  "movement_tick_system tw rules w =
     (case move_rows tw rules w of
        (Inl err, w') \<Rightarrow> (Inl err, w')
      | (Inr modified, w') \<Rightarrow> (Inr (), mark_dirty modified w'))"

section \<open>Mining\<close>

record rock_destroyed_event =
  rd_resource_id :: u32
  rd_position :: world_position
  rd_active :: bool

type_synonym miner_row = "u64 \<times> world_position \<times> u32"
type_synonym rock_row = "u64 \<times> u32 \<times> world_position \<times> u32"

definition saturating_add_i64 :: "int \<Rightarrow> int \<Rightarrow> int" where
  "saturating_add_i64 a b = max (- (2 ^ 63)) (min (2 ^ 63 - 1) (a + b))"

definition max_reach_sq :: "int \<Rightarrow> int" where
  "max_reach_sq reach_distance_mm = (saturating_add_i64 reach_distance_mm 1500)\<^sup>2"

definition distance_sq :: "world_position \<Rightarrow> world_position \<Rightarrow> int option" where
  "distance_sq rock miner =
     (let dx = pos_x rock - pos_x miner; dy = pos_y rock - pos_y miner; sq = dx * dx + dy * dy
      in if in_i64 dx \<and> in_i64 dy \<and> sq < 2 ^ 127 then Some sq else None)"

fun mine_intents :: "world \<Rightarrow> miner_row list" where
  "mine_intents [] = []"
| "mine_intents (e # es) =
     (case (en_position e, en_mine_intent e) of
        (Some p, Some intent) \<Rightarrow> (en_id e, p, mi_power intent) # mine_intents es
      | _ \<Rightarrow> mine_intents es)"

fun rock_rows :: "world \<Rightarrow> rock_row list" where
  "rock_rows [] = []"
| "rock_rows (e # es) =
     (case (en_position e, en_rock e) of
        (Some p, Some rock) \<Rightarrow> (en_id e, ucast (en_id e), p, rock_health rock) # rock_rows es
      | _ \<Rightarrow> rock_rows es)"

fun closest_rock ::
  "int \<Rightarrow> world_position \<Rightarrow> rock_row list \<Rightarrow> (rock_row \<times> int) option \<Rightarrow> (rock_row \<times> int) option option" where
  "closest_rock reach miner [] best = Some best"
| "closest_rock reach miner (r # rs) best =
     (case r of (_, _, p, _) \<Rightarrow>
       (case distance_sq p miner of
          None \<Rightarrow> None
        | Some d \<Rightarrow>
            closest_rock reach miner rs
              (if d \<le> reach
               then (case best of
                       Some (_, best_dist) \<Rightarrow> if d < best_dist then Some (r, d) else best
                     | None \<Rightarrow> Some (r, d))
               else best)))"

text \<open>The events, the rocks to despawn and the damages, in the order of the miners.\<close>

fun evaluate_miners ::
  "int \<Rightarrow> rock_row list \<Rightarrow> miner_row list
     \<Rightarrow> (rock_destroyed_event list \<times> u64 list \<times> (u64 \<times> u32) list) option" where
  "evaluate_miners reach rocks [] = Some ([], [], [])"
| "evaluate_miners reach rocks ((_, miner, force) # ms) =
     (case closest_rock reach miner rocks None of
        None \<Rightarrow> None
      | Some best \<Rightarrow>
          (case evaluate_miners reach rocks ms of
             None \<Rightarrow> None
           | Some (events, gone, damages) \<Rightarrow>
               (case best of
                  None \<Rightarrow> Some (events, gone, damages)
                | Some ((target, resource, p, health), _) \<Rightarrow>
                    (if health \<le> force
                     then Some (\<lparr>rd_resource_id = resource, rd_position = p, rd_active = False\<rparr> # events,
                                target # gone, (target, force) # damages)
                     else Some (events, gone, (target, force) # damages)))))"

definition damage_entity :: "u64 \<times> u32 \<Rightarrow> entity \<Rightarrow> entity" where
  "damage_entity d e =
     (case d of (target, damage) \<Rightarrow>
        if en_id e = target
        then e\<lparr>en_rock := map_option (\<lambda>r. r\<lparr>rock_health := saturating_sub (rock_health r) damage\<rparr>) (en_rock e)\<rparr>
        else e)"

definition apply_damages :: "(u64 \<times> u32) list \<Rightarrow> world \<Rightarrow> world" where
  "apply_damages damages w = foldl (\<lambda>w d. map (damage_entity d) w) w damages"

definition clear_intents :: "u64 list \<Rightarrow> world \<Rightarrow> world" where
  "clear_intents ids w = map (\<lambda>e. if en_id e \<in> set ids then e\<lparr>en_mine_intent := None\<rparr> else e) w"

definition despawn_all :: "u64 list \<Rightarrow> world \<Rightarrow> world" where
  "despawn_all ids w = [e \<leftarrow> w. en_id e \<notin> set ids]"

definition mining_tick_system :: "int \<Rightarrow> world \<Rightarrow> (rock_destroyed_event list \<times> world) option" where
  "mining_tick_system reach_distance_mm w =
     (let intents = mine_intents w
      in if intents = [] then Some ([], w)
         else (case evaluate_miners (max_reach_sq reach_distance_mm) (rock_rows w) intents of
                 None \<Rightarrow> None
               | Some (events, gone, damages) \<Rightarrow>
                   Some (events, despawn_all gone (clear_intents (map fst intents) (apply_damages damages w)))))"

section \<open>The tick\<close>

fun spatial_updates :: "world \<Rightarrow> (u64 \<times> world_position) list" where
  "spatial_updates [] = []"
| "spatial_updates (e # es) =
     (case (en_identity e, en_position e) of
        (Some i, Some p) \<Rightarrow> if en_dirty e then (i, p) # spatial_updates es else spatial_updates es
      | _ \<Rightarrow> spatial_updates es)"

definition clear_dirty :: "world \<Rightarrow> world" where
  "clear_dirty w =
     map (\<lambda>e. if en_identity e \<noteq> None \<and> en_position e \<noteq> None then e\<lparr>en_dirty := False\<rparr> else e) w"

definition simulation_tick ::
  "traversal_world \<Rightarrow> movement_rules \<Rightarrow> world
     \<Rightarrow> ((system_error + (u64 \<times> world_position) list \<times> rock_destroyed_event list) \<times> world) option" where
  "simulation_tick tw rules w =
     (case movement_tick_system tw rules w of
        (Inl err, w1) \<Rightarrow> Some (Inl err, w1)
      | (Inr _, w1) \<Rightarrow>
          (case mining_tick_system (mr_character_radius_mm rules) w1 of
             None \<Rightarrow> None
           | Some (destroyed, w2) \<Rightarrow> Some (Inr (spatial_updates w2, destroyed), clear_dirty w2)))"

section \<open>Movement\<close>

text \<open>The rows as the system leaves them: the same entities, each moved, or not, as the resolver says.\<close>

definition standing_ok :: "traversal_world \<Rightarrow> movement_rules \<Rightarrow> entity \<Rightarrow> bool" where
  "standing_ok tw rules e \<longleftrightarrow> (\<forall>p r. en_move_intent e \<noteq> None \<or> en_identity e \<noteq> None \<longrightarrow>
     (en_position e = Some p \<longrightarrow> validate_placement tw p (mr_character_radius_mm rules) = Inr ()) \<and>
     (en_remainder e = Some r \<longrightarrow> remainder_ok rules r))"

lemma standing_moves:
  assumes "rules_ok rules" "standing_ok tw rules e" "en_position e = Some p" "en_move_intent e = Some i"
    and "integrate rules i (carried_remainder e) = Inr (d, r')"
  shows "standing_ok tw rules (e\<lparr>en_remainder := map_option (\<lambda>_. r') (en_remainder e)\<rparr>)"
    and "resolve_horizontal tw p d (mr_character_radius_mm rules) = Inr res \<Longrightarrow>
      standing_ok tw rules (e\<lparr>en_remainder := map_option (\<lambda>_. r') (en_remainder e),
        en_position := Some (tr_position res)\<rparr>)"
proof -
  let ?r = "carried_remainder e"
  have d: "remainder_ok rules remainder_default"
    using assms(1) by (simp add: remainder_ok_def remainder_default_def rules_ok_def)
  have "remainder_ok rules ?r" using assms(2,4) d by (auto simp: standing_ok_def carried_remainder_def split: option.splits)
  then have r': "remainder_ok rules r'"
    using integrate_exact [OF assms(1), of ?r i] assms(5) by (metis sum.inject(2) prod.inject surj_pair)
  with assms(2) show "standing_ok tw rules (e\<lparr>en_remainder := map_option (\<lambda>_. r') (en_remainder e)\<rparr>)"
    by (auto simp: standing_ok_def)
  assume "resolve_horizontal tw p d (mr_character_radius_mm rules) = Inr res"
  then have "validate_placement tw (tr_position res) (mr_character_radius_mm rules) = Inr ()"
    unfolding resolve_horizontal_def Let_def by (auto split: sum.splits)
  with r' show "standing_ok tw rules (e\<lparr>en_remainder := map_option (\<lambda>_. r') (en_remainder e),
      en_position := Some (tr_position res)\<rparr>)"
    by (auto simp: standing_ok_def)
qed

text \<open>Two entities that differ at most in position and remainder.\<close>

definition same_entity :: "entity \<Rightarrow> entity \<Rightarrow> bool" where
  "same_entity e e' \<longleftrightarrow> en_id e' = en_id e \<and> en_identity e' = en_identity e \<and> en_dirty e' = en_dirty e \<and>
     en_move_intent e' = en_move_intent e \<and> en_rock e' = en_rock e \<and> en_mine_intent e' = en_mine_intent e \<and>
     en_inventory e' = en_inventory e"

lemma same_entity_refl [simp]: "same_entity e e"
  by (simp add: same_entity_def)

lemma same_entity_update [simp]:
  "same_entity e (e\<lparr>en_remainder := r\<rparr>)" "same_entity e (e\<lparr>en_remainder := r, en_position := p\<rparr>)"
  by (simp_all add: same_entity_def)

lemma list_all2_same_entity_refl: "list_all2 same_entity es es"
  by (simp add: list_all2_refl)

lemma move_rows_same: "move_rows tw rules w = (r, w') \<Longrightarrow> list_all2 same_entity w w'"
proof (induction w arbitrary: r w')
  case (Cons e es)
  obtain rest es' where rec: "move_rows tw rules es = (rest, es')" by fastforce
  note ih = Cons.IH [OF rec]
  from Cons.prems rec ih show ?case
    by (auto simp: Let_def list_all2_same_entity_refl split: option.splits sum.splits if_splits prod.splits)
qed simp

lemma move_rows_standing:
  assumes "rules_ok rules"
  shows "move_rows tw rules w = (r, w') \<Longrightarrow> list_all (standing_ok tw rules) w \<Longrightarrow>
    list_all (standing_ok tw rules) w'"
proof (induction w arbitrary: r w')
  case (Cons e es)
  obtain rest es' where rec: "move_rows tw rules es = (rest, es')" by fastforce
  have e: "standing_ok tw rules e" "list_all (standing_ok tw rules) es" using Cons.prems(2) by simp_all
  note ih = Cons.IH [OF rec e(2)]
  note mv = standing_moves [OF assms e(1)]
  from Cons.prems(1) rec ih e show ?case
    by (auto simp: Let_def split: option.splits sum.splits if_splits prod.splits intro: mv)
qed simp

text \<open>The entities reported as modified are those whose position changed.\<close>

lemma move_rows_modified:
  "move_rows tw rules w = (Inr ids, w') \<Longrightarrow>
    ids = map (en_id \<circ> fst) (filter (\<lambda>q. en_position (snd q) \<noteq> en_position (fst q)) (zip w w'))"
proof (induction w arbitrary: ids w')
  case (Cons e es)
  obtain rest es' where rec: "move_rows tw rules es = (rest, es')" by fastforce
  show ?case
  proof (cases rest)
    case (Inl err)
    with Cons.prems rec show ?thesis
      by (auto simp: Let_def split: option.splits sum.splits if_splits prod.splits)
  next
    case (Inr ids')
    note ih = Cons.IH [OF rec [unfolded Inr]]
    from Cons.prems rec Inr ih show ?thesis
      by (auto simp: Let_def split: option.splits sum.splits if_splits prod.splits)
  qed
qed simp

lemma map_of_zip_moved:
  assumes "list_all2 same_entity w w'" "distinct (map en_id w)"
    and "ids = map (en_id \<circ> fst) (filter (\<lambda>q. en_position (snd q) \<noteq> en_position (fst q)) (zip w w'))"
    and "e' \<in> set w'"
  shows "en_id e' \<in> set ids \<longleftrightarrow> (\<exists>e\<in>set w. en_id e = en_id e' \<and> en_position e \<noteq> en_position e')"
    and "\<exists>e\<in>set w. same_entity e e'"
proof -
  obtain k where k: "k < length w'" "w' ! k = e'" using assms(4) by (auto simp: in_set_conv_nth)
  define e where "e = w ! k"
  have e: "(e, e') \<in> set (zip w w')" "same_entity e e'"
    using assms(1) k by (auto simp: list_all2_conv_all_nth e_def in_set_zip)
  have ew: "e \<in> set w" using e(1) by (rule in_set_zipE)
  have len: "length w = length w'" using assms(1) by (rule list_all2_lengthD)
  have uniq: "q = (e, e')" if q: "q \<in> set (zip w w')" "en_id (fst q) = en_id e'" for q
  proof -
    obtain j where j: "j < length w" "q = (w ! j, w' ! j)" using q(1) len by (auto simp: in_set_zip prod_eq_iff)
    have "map en_id w ! j = map en_id w ! k"
      using j k q(2) e(2) len by (simp add: e_def same_entity_def)
    then have "j = k" using nth_eq_iff_index_eq [OF assms(2), of j k] j(1) k(1) len by simp
    with j k show ?thesis by (simp add: e_def)
  qed
  have one: "a = e" if "a \<in> set w" "en_id a = en_id e'" for a
    using that ew e(2) assms(2) by (auto simp: same_entity_def distinct_map inj_on_def)
  show "en_id e' \<in> set ids \<longleftrightarrow> (\<exists>e\<in>set w. en_id e = en_id e' \<and> en_position e \<noteq> en_position e')"
  proof
    assume "en_id e' \<in> set ids"
    then obtain q where q: "q \<in> set (zip w w')" "en_id (fst q) = en_id e'"
      "en_position (snd q) \<noteq> en_position (fst q)" by (auto simp: assms(3))
    with uniq have "q = (e, e')" by blast
    with q ew show "\<exists>e\<in>set w. en_id e = en_id e' \<and> en_position e \<noteq> en_position e'" by auto
  next
    assume "\<exists>e\<in>set w. en_id e = en_id e' \<and> en_position e \<noteq> en_position e'"
    with one have "en_position e \<noteq> en_position e'" by auto
    with e show "en_id e' \<in> set ids" by (force simp: assms(3) same_entity_def)
  qed
  show "\<exists>e\<in>set w. same_entity e e'" using ew e(2) by blast
qed

section \<open>Mining\<close>

text \<open>What the search for the closest rock promises.\<close>

definition closest_of :: "int \<Rightarrow> world_position \<Rightarrow> rock_row list \<Rightarrow> (rock_row \<times> int) option \<Rightarrow> bool" where
  "closest_of reach miner rocks best \<longleftrightarrow>
     (case best of
        None \<Rightarrow> \<forall>r\<in>set rocks. \<forall>d. distance_sq (fst (snd (snd r))) miner = Some d \<longrightarrow> reach < d
      | Some (r, d) \<Rightarrow> r \<in> set rocks \<and> distance_sq (fst (snd (snd r))) miner = Some d \<and> d \<le> reach \<and>
          (\<forall>r'\<in>set rocks. \<forall>d'. distance_sq (fst (snd (snd r'))) miner = Some d' \<longrightarrow> d \<le> d'))"

lemma closest_of_None: "closest_of reach miner rocks None \<longleftrightarrow>
  (\<forall>r\<in>set rocks. \<forall>d. distance_sq (fst (snd (snd r))) miner = Some d \<longrightarrow> reach < d)"
  by (simp add: closest_of_def)

lemma closest_rock_invariant:
  "closest_rock reach miner rs best = Some best' \<Longrightarrow> closest_of reach miner seen best \<Longrightarrow>
    closest_of reach miner (seen @ rs) best'"
proof (induction rs arbitrary: best seen)
  case (Cons r rs)
  obtain i q p h where r: "r = (i, q, p, h)" by (cases r)
  from Cons.prems(1) r obtain d where d: "distance_sq p miner = Some d"
    by (auto split: option.splits)
  let ?next = "if d \<le> reach then (case best of Some (_, best_dist) \<Rightarrow> if d < best_dist then Some (r, d) else best
      | None \<Rightarrow> Some (r, d)) else best"
  have rest: "closest_rock reach miner rs ?next = Some best'"
    using Cons.prems(1) unfolding r by (simp add: d split del: if_split)
  have "closest_of reach miner (seen @ [r]) ?next"
  proof (cases best)
    case None
    with Cons.prems(2) d show ?thesis by (fastforce simp: closest_of_def r)
  next
    case (Some b)
    obtain rb db where b: "b = (rb, db)" by (cases b)
    with Cons.prems(2) d Some show ?thesis by (fastforce simp: closest_of_def r)
  qed
  from Cons.IH [OF rest this] show ?case by simp
qed simp

lemma closest_rock_correct:
  "closest_rock reach miner rocks None = Some best \<Longrightarrow> closest_of reach miner rocks best"
  using closest_rock_invariant [of reach miner rocks None best "[]"] by (simp add: closest_of_def)

text \<open>The three lists the miners produce.\<close>

definition hit_by :: "int \<Rightarrow> rock_row list \<Rightarrow> miner_row list \<Rightarrow> rock_row \<Rightarrow> u32 \<Rightarrow> bool" where
  "hit_by reach rocks ms r force \<longleftrightarrow>
     (\<exists>i p d. (i, p, force) \<in> set ms \<and> closest_of reach p rocks (Some (r, d)))"

lemma evaluate_miners_correct:
  assumes "evaluate_miners reach rocks ms = Some (events, gone, damages)"
  shows "\<forall>x\<in>set damages. \<exists>q p h. hit_by reach rocks ms (fst x, q, p, h) (snd x)"
    and "\<forall>i\<in>set gone. \<exists>q p h force. hit_by reach rocks ms (i, q, p, h) force \<and> h \<le> force"
    and "length events = length gone"
    and "\<forall>k<length gone. \<exists>p h force. hit_by reach rocks ms (gone ! k, rd_resource_id (events ! k), p, h) force \<and>
      h \<le> force \<and> rd_position (events ! k) = p \<and> \<not> rd_active (events ! k)"
proof -
  have "(\<forall>x\<in>set damages. \<exists>q p h. hit_by reach rocks ms (fst x, q, p, h) (snd x)) \<and>
    list_all2 (\<lambda>i ev. \<exists>h force. hit_by reach rocks ms (i, rd_resource_id ev, rd_position ev, h) force \<and>
      h \<le> force \<and> \<not> rd_active ev) gone events"
    using assms
  proof (induction ms arbitrary: events gone damages)
    case (Cons m ms)
    obtain i miner force where m: "m = (i, miner, force)" by (cases m)
    from Cons.prems m obtain best events' gone' damages' where
      best: "closest_rock reach miner rocks None = Some best" and
      rec: "evaluate_miners reach rocks ms = Some (events', gone', damages')"
      by (auto split: option.splits prod.splits)
    have mono: "hit_by reach rocks (m # ms) r f" if "hit_by reach rocks ms r f" for r f
      using that by (auto simp: hit_by_def)
    have hd: "hit_by reach rocks (m # ms) r force" if "best = Some (r, d)" for r d
      using closest_rock_correct [OF best] that by (auto simp: hit_by_def m)
    note ih = Cons.IH [OF rec]
    have ih1: "\<forall>x\<in>set damages'. \<exists>q p h. hit_by reach rocks (m # ms) (fst x, q, p, h) (snd x)"
      using ih mono by blast
    have ih2: "list_all2 (\<lambda>i ev. \<exists>h force. hit_by reach rocks (m # ms) (i, rd_resource_id ev, rd_position ev, h) force \<and>
      h \<le> force \<and> \<not> rd_active ev) gone' events'"
      using ih mono by (fast elim!: list.rel_mono_strong)
    show ?case
    proof (cases best)
      case None
      with Cons.prems m best rec ih1 ih2 show ?thesis by simp
    next
      case (Some b)
      obtain t q p h d where b: "best = Some ((t, q, p, h), d)" using Some by (metis surj_pair)
      have "hit_by reach rocks (m # ms) (t, q, p, h) force" by (rule hd [OF b])
      with Cons.prems m best rec b ih1 ih2 show ?thesis by (auto split: if_splits) fastforce+
    qed
  qed simp
  then have d: "\<forall>x\<in>set damages. \<exists>q p h. hit_by reach rocks ms (fst x, q, p, h) (snd x)"
    and l: "list_all2 (\<lambda>i ev. \<exists>h force. hit_by reach rocks ms (i, rd_resource_id ev, rd_position ev, h) force \<and>
      h \<le> force \<and> \<not> rd_active ev) gone events" by blast+
  show "\<forall>x\<in>set damages. \<exists>q p h. hit_by reach rocks ms (fst x, q, p, h) (snd x)" by (rule d)
  show len: "length events = length gone" using l by (simp add: list_all2_lengthD)
  show "\<forall>k<length gone. \<exists>p h force. hit_by reach rocks ms (gone ! k, rd_resource_id (events ! k), p, h) force \<and>
      h \<le> force \<and> rd_position (events ! k) = p \<and> \<not> rd_active (events ! k)"
    using l by (auto simp: list_all2_conv_all_nth)
  then show "\<forall>i\<in>set gone. \<exists>q p h force. hit_by reach rocks ms (i, q, p, h) force \<and> h \<le> force"
    by (auto simp: in_set_conv_nth) blast
qed

lemma fold_damage_same:
  "map en_id (apply_damages ds w) = map en_id w" "map en_position (apply_damages ds w) = map en_position w"
proof -
  have "map en_id (foldl (\<lambda>w d. map (damage_entity d) w) w ds) = map en_id w \<and>
    map en_position (foldl (\<lambda>w d. map (damage_entity d) w) w ds) = map en_position w"
    by (induction ds arbitrary: w) (simp_all add: damage_entity_def comp_def split: prod.splits if_splits)
  then show "map en_id (apply_damages ds w) = map en_id w" "map en_position (apply_damages ds w) = map en_position w"
    by (simp_all add: apply_damages_def)
qed

text \<open>What mining may change of an entity: its health and its intent.\<close>

definition mined :: "(u64 \<times> u32) list \<Rightarrow> entity \<Rightarrow> entity \<Rightarrow> bool" where
  "mined ds e e' \<longleftrightarrow> en_id e' = en_id e \<and> en_identity e' = en_identity e \<and> en_dirty e' = en_dirty e \<and>
     en_position e' = en_position e \<and> en_move_intent e' = en_move_intent e \<and>
     en_remainder e' = en_remainder e \<and> en_inventory e' = en_inventory e \<and>
     (en_mine_intent e' \<noteq> None \<longrightarrow> en_mine_intent e' = en_mine_intent e) \<and> (en_id e \<notin> fst ` set ds \<longrightarrow> en_rock e' = en_rock e) \<and>
     (en_rock e = None \<longrightarrow> en_rock e' = None)"

lemma apply_damages_mined: "list_all2 (mined ds) w (apply_damages ds w)"
proof -
  have "list_all2 (mined ds) w (foldl (\<lambda>w d. map (damage_entity d) w) w ds)"
  proof (induction ds arbitrary: w)
    case Nil
    then show ?case by (simp add: list_all2_refl mined_def)
  next
    case (Cons d ds)
    have a: "list_all2 (mined [d]) w (map (damage_entity d) w)"
      by (auto simp: list_all2_conv_all_nth mined_def damage_entity_def split: prod.splits)
    have "list_all2 (mined (d # ds)) w (foldl (\<lambda>w d. map (damage_entity d) w) (map (damage_entity d) w) ds)"
      by (rule list_all2_trans [OF _ a Cons.IH]) (auto simp: mined_def)
    then show ?case by simp
  qed
  then show ?thesis by (simp add: apply_damages_def)
qed

text \<open>A tick with and without miners, in one form.\<close>

lemma mining_run:
  assumes "mining_tick_system reach w = Some (events, w')"
  obtains gone ds where
    "evaluate_miners (max_reach_sq reach) (rock_rows w) (mine_intents w) = Some (events, gone, ds)"
    "w' = despawn_all gone (clear_intents (map fst (mine_intents w)) (apply_damages ds w))"
proof (cases "mine_intents w = []")
  case True
  with assms show ?thesis
    by (intro that [of "[]" "[]"])
      (auto simp: mining_tick_system_def despawn_all_def clear_intents_def apply_damages_def)
next
  case False
  with assms that show ?thesis by (auto simp: mining_tick_system_def Let_def split: option.splits)
qed

lemma mine_intents_id:
  "e \<in> set w \<Longrightarrow> en_position e = Some p \<Longrightarrow> en_mine_intent e = Some i \<Longrightarrow> en_id e \<in> set (map fst (mine_intents w))"
  by (induction w) (auto split: option.splits)

lemma mining_survivor:
  assumes w': "w' = despawn_all gone (clear_intents ids (apply_damages ds w))" and e': "e' \<in> set w'"
  obtains e where "e \<in> set w" "mined ds e e'" "en_id e' \<notin> set gone" "en_id e \<in> set ids \<longrightarrow> en_mine_intent e' = None"
    "en_mine_intent e' \<noteq> None \<longrightarrow> en_mine_intent e' = en_mine_intent e"
proof -
  from e' obtain m where m: "m \<in> set (apply_damages ds w)" "en_id e' \<notin> set gone"
    "e' = (if en_id m \<in> set ids then m\<lparr>en_mine_intent := None\<rparr> else m)"
    unfolding w' despawn_all_def clear_intents_def set_filter set_map by blast
  from m(1) obtain k where k: "k < length (apply_damages ds w)" "apply_damages ds w ! k = m"
    by (auto simp: in_set_conv_nth)
  have "mined ds (w ! k) m" "k < length w"
    using apply_damages_mined [of ds w] k by (auto simp: list_all2_conv_all_nth)
  with m show ?thesis by (intro that [of "w ! k"]) (auto simp: mined_def)
qed

section \<open>Properties\<close>

text \<open>
  C30: mining hits only the rock closest to a miner, within its reach: every event is such a rock, with no more health
  than the miner's power, and the rock is gone; every surviving entity keeps its place and, unless it is such a rock, its
  health; and no intent outlives the tick.
\<close>

theorem mining_hits_closest_in_reach:
  assumes "mining_tick_system reach w = Some (events, w')"
    and "hit = hit_by (max_reach_sq reach) (rock_rows w) (mine_intents w)"
  shows "(\<forall>ev\<in>set events. \<exists>i h force. hit (i, rd_resource_id ev, rd_position ev, h) force \<and> h \<le> force \<and>
      i \<notin> en_id ` set w') \<and>
    (\<forall>e'\<in>set w'. (en_position e' = None \<or> en_mine_intent e' = None) \<and>
      (\<exists>e\<in>set w. en_id e = en_id e' \<and> en_position e = en_position e' \<and>
        (en_rock e' = en_rock e \<or> (\<exists>q p h force. hit (en_id e, q, p, h) force))))"
proof -
  obtain gone ds where ev:
    "evaluate_miners (max_reach_sq reach) (rock_rows w) (mine_intents w) = Some (events, gone, ds)"
    and w': "w' = despawn_all gone (clear_intents (map fst (mine_intents w)) (apply_damages ds w))"
    by (rule mining_run [OF assms(1)])
  note c = evaluate_miners_correct [OF ev, folded assms(2)]
  have absent: "i \<notin> en_id ` set w'" if "i \<in> set gone" for i
    using that unfolding w' by (auto simp: despawn_all_def)
  have events: "\<exists>i h force. hit (i, rd_resource_id e, rd_position e, h) force \<and> h \<le> force \<and> i \<notin> en_id ` set w'"
    if "e \<in> set events" for e
    using that c(3,4) absent by (metis in_set_conv_nth)
  have entities: "(en_position e' = None \<or> en_mine_intent e' = None) \<and>
      (\<exists>e\<in>set w. en_id e = en_id e' \<and> en_position e = en_position e' \<and>
        (en_rock e' = en_rock e \<or> (\<exists>q p h force. hit (en_id e, q, p, h) force)))" if "e' \<in> set w'" for e'
  proof -
    obtain e where e: "e \<in> set w" "mined ds e e'"
      "en_id e \<in> set (map fst (mine_intents w)) \<longrightarrow> en_mine_intent e' = None"
      "en_mine_intent e' \<noteq> None \<longrightarrow> en_mine_intent e' = en_mine_intent e"
      by (rule mining_survivor [OF w' \<open>e' \<in> set w'\<close>])
    have "en_position e' = None \<or> en_mine_intent e' = None"
    proof (rule ccontr)
      assume "\<not> ?thesis"
      then obtain p i where p: "en_position e' = Some p" "en_mine_intent e' = Some i" by auto
      with e(2,4) have "en_position e = Some p" "en_mine_intent e = Some i" by (auto simp: mined_def)
      from mine_intents_id [OF e(1) this] e(3) p show False by simp
    qed
    moreover have "en_rock e' = en_rock e \<or> (\<exists>q p h force. hit (en_id e, q, p, h) force)"
      using e(2) c(1) by (auto simp: mined_def)
    ultimately show ?thesis using e(1,2) by (auto simp: mined_def)
  qed
  show ?thesis by (intro conjI [OF ballI ballI]) (rule events entities, assumption)+
qed

definition sample_rock :: "u32 \<Rightarrow> entity" where
  "sample_rock h = \<lparr>en_id = 1, en_identity = None, en_position = Some (WorldPositionMm 0 0 0), en_move_intent = None,
     en_remainder = None, en_dirty = False, en_rock = Some (rock_node_new h), en_mine_intent = None,
     en_inventory = None\<rparr>"

definition sample_miner :: "u64 \<Rightarrow> u32 \<Rightarrow> entity" where
  "sample_miner i force = \<lparr>en_id = i, en_identity = Some i, en_position = Some (WorldPositionMm 1000 0 0),
     en_move_intent = None, en_remainder = None, en_dirty = False, en_rock = None,
     en_mine_intent = Some \<lparr>mi_miner = i, mi_power = force\<rparr>, en_inventory = None\<rparr>"

text \<open>
  What a tick does not promise: two miners who share a rock and whose powers only together cover its health
  leave it in the world with no health and no event, and two miners who could each destroy it report it destroyed twice.
\<close>

theorem mining_leaves_spent_rock:
  "(\<exists>w'. mining_tick_system 250 [sample_rock 100, sample_miner 2 60, sample_miner 3 60] = Some ([], w') \<and>
      (\<exists>e\<in>set w'. map_option rock_health (en_rock e) = Some 0)) \<and>
    (\<exists>ev w'. mining_tick_system 250 [sample_rock 50, sample_miner 2 60, sample_miner 3 60] = Some ([ev, ev], w'))"
  by (simp add: mining_tick_system_def sample_rock_def sample_miner_def rock_node_new_def max_reach_sq_def
      saturating_add_i64_def distance_sq_def in_i64_def apply_damages_def damage_entity_def clear_intents_def
      despawn_all_def saturating_sub_def Let_def)

theorem mining_hits_closest_in_reach_witness:
  "\<exists>i h force. hit_by (max_reach_sq 250) (rock_rows [sample_rock 50, sample_miner 2 60])
     (mine_intents [sample_rock 50, sample_miner 2 60]) (i, 1, WorldPositionMm 0 0 0, h) force \<and> h \<le> force"
proof -
  have "mining_tick_system 250 [sample_rock 50, sample_miner 2 60] =
      Some ([\<lparr>rd_resource_id = 1, rd_position = WorldPositionMm 0 0 0, rd_active = False\<rparr>],
        [sample_miner 2 60\<lparr>en_mine_intent := None\<rparr>])"
    by (simp add: mining_tick_system_def sample_rock_def sample_miner_def rock_node_new_def max_reach_sq_def
        saturating_add_i64_def distance_sq_def in_i64_def apply_damages_def damage_entity_def clear_intents_def
        despawn_all_def saturating_sub_def Let_def)
  from mining_hits_closest_in_reach [OF this refl] show ?thesis by auto
qed

text \<open>
  The movement system keeps every moving entity clear of every blocker and every remainder below a
  millimetre, for every world and also when an entity fails half-way, and moves no entity that has no intent.
\<close>

theorem movement_system_safe:
  assumes "rules_ok rules" "list_all (standing_ok tw rules) w"
    and "movement_tick_system tw rules w = (r, w')"
  shows "list_all (standing_ok tw rules) w' \<and> map en_id w' = map en_id w \<and>
    map en_move_intent w' = map en_move_intent w"
proof -
  obtain r1 w1 where m: "move_rows tw rules w = (r1, w1)" by fastforce
  have s: "list_all (standing_ok tw rules) w1" by (rule move_rows_standing [OF assms(1) m assms(2)])
  have same: "map en_id w1 = map en_id w" "map en_move_intent w1 = map en_move_intent w"
    using move_rows_same [OF m] by (auto simp: list_all2_conv_all_nth same_entity_def intro!: nth_equalityI)
  show ?thesis
  proof (cases r1)
    case (Inl err)
    with assms(3) m s same show ?thesis by (simp add: movement_tick_system_def)
  next
    case (Inr ids)
    with assms(3) m have w': "w' = mark_dirty ids w1" by (simp add: movement_tick_system_def)
    show ?thesis
      using s same unfolding w' mark_dirty_def
      by (auto simp: list_all_iff standing_ok_def comp_def if_distrib cong: if_cong)
  qed
qed

theorem movement_system_safe_witness:
  "list_all (standing_ok [] \<lparr>mr_speed_mm_per_second = 5000, mr_denominator = 655340,
     mr_input_timeout_ticks = 10, mr_character_radius_mm = 250\<rparr>)
     (snd (movement_tick_system [] \<lparr>mr_speed_mm_per_second = 5000, mr_denominator = 655340,
     mr_input_timeout_ticks = 10, mr_character_radius_mm = 250\<rparr> [sample_rock 5]))"
  using movement_system_safe [of "\<lparr>mr_speed_mm_per_second = 5000, mr_denominator = 655340,
     mr_input_timeout_ticks = 10, mr_character_radius_mm = 250\<rparr>" "[]" "[sample_rock 5]"]
  by (simp add: rules_ok_def standing_ok_def sample_rock_def movement_tick_system_def mark_dirty_def)

definition moved_report :: "world \<Rightarrow> entity \<Rightarrow> (u64 \<times> world_position) list" where
  "moved_report w e =
     (case (en_identity e, en_position e) of
        (Some i, Some p) \<Rightarrow> if \<exists>e0\<in>set w. en_id e0 = en_id e \<and> en_position e0 \<noteq> Some p then [(i, p)] else []
      | _ \<Rightarrow> [])"

lemma spatial_updates_map:
  assumes "\<And>e. e \<in> set w2 \<Longrightarrow> en_dirty e \<longleftrightarrow> (\<exists>e0\<in>set w. en_id e0 = en_id e \<and> en_position e0 \<noteq> en_position e)"
  shows "spatial_updates w2 = concat (map (moved_report w) w2)"
  using assms by (induction w2) (auto simp: moved_report_def split: option.splits)

lemma movement_marks_moved:
  assumes "distinct (map en_id w)" "\<forall>e\<in>set w. \<not> en_dirty e" "movement_tick_system tw rules w = (Inr (), w1)"
    and "e \<in> set w1"
  shows "en_dirty e \<longleftrightarrow> (\<exists>e0\<in>set w. en_id e0 = en_id e \<and> en_position e0 \<noteq> en_position e)"
proof -
  obtain ids w0 where m: "move_rows tw rules w = (Inr ids, w0)" and w1: "w1 = mark_dirty ids w0"
    using assms(3) by (auto simp: movement_tick_system_def split: prod.splits sum.splits)
  from assms(4) w1 obtain f where f: "f \<in> set w0" "e = (if en_id f \<in> set ids then f\<lparr>en_dirty := True\<rparr> else f)"
    by (auto simp: mark_dirty_def)
  note z = map_of_zip_moved [OF move_rows_same [OF m] assms(1) move_rows_modified [OF m] f(1)]
  have "\<not> en_dirty f" using z(2) assms(2) by (auto simp: same_entity_def)
  with f(2) z(1) show ?thesis by auto
qed

text \<open>
  A tick reports exactly the entities it moved: from a world with no pending report, the spatial updates are
  the identities and places of the surviving entities whose position changed, in the order of the world, and no
  report is left pending.
\<close>

theorem tick_reports_moved_entities:
  assumes "distinct (map en_id w)" "\<forall>e\<in>set w. \<not> en_dirty e"
    and "simulation_tick tw rules w = Some (Inr (updates, destroyed), w')"
  shows "updates = concat (map (moved_report w) w') \<and>
    (\<forall>e\<in>set w'. en_identity e \<noteq> None \<and> en_position e \<noteq> None \<longrightarrow> \<not> en_dirty e)"
proof -
  obtain w1 w2 where m: "movement_tick_system tw rules w = (Inr (), w1)"
    and mine: "mining_tick_system (mr_character_radius_mm rules) w1 = Some (destroyed, w2)"
    and out: "updates = spatial_updates w2" "w' = clear_dirty w2"
    using assms(3) by (auto simp: simulation_tick_def split: prod.splits sum.splits option.splits)
  obtain gone ds where "w2 = despawn_all gone (clear_intents (map fst (mine_intents w1)) (apply_damages ds w1))"
    by (rule mining_run [OF mine])
  then have "\<exists>e1\<in>set w1. mined ds e1 e2" if "e2 \<in> set w2" for e2
    using mining_survivor [OF _ that] by metis
  then have "en_dirty e2 \<longleftrightarrow> (\<exists>e0\<in>set w. en_id e0 = en_id e2 \<and> en_position e0 \<noteq> en_position e2)" if "e2 \<in> set w2" for e2
    using that movement_marks_moved [OF assms(1,2) m] by (fastforce simp: mined_def)
  then have u: "updates = concat (map (moved_report w) w2)" unfolding out(1) by (rule spatial_updates_map)
  have "moved_report w (if b then e\<lparr>en_dirty := False\<rparr> else e) = moved_report w e" for e b
    by (cases b) (simp_all add: moved_report_def split: option.split)
  then have "map (moved_report w) w' = map (moved_report w) w2"
    by (simp add: out(2) clear_dirty_def comp_def)
  with u have "updates = concat (map (moved_report w) w')" by simp
  moreover have "\<forall>e\<in>set w'. en_identity e \<noteq> None \<and> en_position e \<noteq> None \<longrightarrow> \<not> en_dirty e"
    by (auto simp: out(2) clear_dirty_def)
  ultimately show ?thesis ..
qed

theorem tick_reports_moved_entities_witness:
  "concat (map (moved_report [sample_rock 50, sample_miner 2 60]) [sample_miner 2 60\<lparr>en_mine_intent := None\<rparr>]) = []"
proof -
  let ?rules = "\<lparr>mr_speed_mm_per_second = 5000, mr_denominator = 655340,
     mr_input_timeout_ticks = 10, mr_character_radius_mm = 250\<rparr>"
  have "simulation_tick [] ?rules [sample_rock 50, sample_miner 2 60] =
      Some (Inr ([], [\<lparr>rd_resource_id = 1, rd_position = WorldPositionMm 0 0 0, rd_active = False\<rparr>]),
        [sample_miner 2 60\<lparr>en_mine_intent := None\<rparr>])"
    by (simp add: simulation_tick_def movement_tick_system_def mark_dirty_def clear_dirty_def mining_tick_system_def
        sample_rock_def sample_miner_def rock_node_new_def max_reach_sq_def
        saturating_add_i64_def distance_sq_def in_i64_def apply_damages_def damage_entity_def clear_intents_def
        despawn_all_def saturating_sub_def Let_def)
  from tick_reports_moved_entities [OF _ _ this] show ?thesis by (simp add: sample_rock_def sample_miner_def)
qed

end
