(* ===== verification/Preparation_Worker.thy ===== *)
theory Preparation_Worker
  imports Quadrant_Preparation "HOL-Library.Multiset"
begin

text \<open>
  crates/preparation/src/lib.rs: the worker that prepares quadrants in the background. Submitters,
  the worker's loop and the reader of its results run concurrently; the model is a machine whose
  actions are the atomic steps of the code between two synchronisations (a lock of \<open>outstanding\<close>, a
  channel operation, an await), in any order.

  The channels are bounded queues (tokio's \<open>mpsc\<close>): a send on a full queue waits, or fails for
  \<open>try_send\<close>; a send fails when the receiver is gone; a receive on an empty queue ends when all
  senders are gone. The executor, a trait object of the code, is an argument.
\<close>

section \<open>Settings\<close>

definition max_preparation_queue_capacity :: nat where
  "max_preparation_queue_capacity = 65536"

definition max_preparation_concurrency :: nat where
  "max_preparation_concurrency = 64"

datatype worker_settings_error = ZeroCapacity string | CapacityTooLarge string nat nat

record worker_settings =
  ws_request_capacity :: nat
  ws_result_capacity :: nat
  ws_max_in_flight :: nat

definition validate_capacity :: "string \<Rightarrow> nat \<Rightarrow> nat \<Rightarrow> worker_settings_error + unit" where
  "validate_capacity field v maximum =
     (if v = 0 then Inl (ZeroCapacity field)
      else if maximum < v then Inl (CapacityTooLarge field v maximum)
      else Inr ())"

definition worker_settings_new :: "nat \<Rightarrow> nat \<Rightarrow> nat \<Rightarrow> worker_settings_error + worker_settings" where
  "worker_settings_new requests results in_flight =
     (case validate_capacity ''request_queue_capacity'' requests max_preparation_queue_capacity of
        Inl e \<Rightarrow> Inl e | Inr _ \<Rightarrow>
      (case validate_capacity ''result_queue_capacity'' results max_preparation_queue_capacity of
        Inl e \<Rightarrow> Inl e | Inr _ \<Rightarrow>
      (case validate_capacity ''max_in_flight'' in_flight max_preparation_concurrency of
        Inl e \<Rightarrow> Inl e | Inr _ \<Rightarrow>
        Inr \<lparr>ws_request_capacity = requests, ws_result_capacity = results, ws_max_in_flight = in_flight\<rparr>)))"

section \<open>State\<close>

datatype worker_event = Completed prepared_artifact | Failed preparation_identity string

fun worker_event_identity :: "worker_event \<Rightarrow> preparation_identity" where
  "worker_event_identity (Completed a) = pa_identity a"
| "worker_event_identity (Failed i e) = i"

type_synonym executor = "preparation_identity \<Rightarrow> string + prepared_artifact"

datatype submission_outcome = Submitted | Duplicate | QueueFull | QueueClosed

text \<open>
  Where the loop stands: at the select, with an event to send, with the event sent or refused and
  its identity to release, about to clear \<open>outstanding\<close>, about to return, or ended.
\<close>

datatype worker_phase =
  Selecting
| SendingEvent preparation_identity worker_event
| EventSent preparation_identity bool
| Clearing
| Returning
| Aborted
| Finished

record worker =
  wk_submitting :: "preparation_identity list"
  wk_requests :: "preparation_identity list"
  wk_ingress_open :: bool
  wk_tasks :: "preparation_identity list"
  wk_input_closed :: bool
  wk_phase :: worker_phase
  wk_results :: "worker_event list"
  wk_results_open :: bool
  wk_outstanding :: "preparation_identity set"

definition worker_new :: worker where
  "worker_new = \<lparr>wk_submitting = [], wk_requests = [], wk_ingress_open = True, wk_tasks = [],
     wk_input_closed = False, wk_phase = Selecting, wk_results = [], wk_results_open = True, wk_outstanding = {}\<rparr>"

definition receiver_gone :: "worker \<Rightarrow> bool" where
  "receiver_gone s \<longleftrightarrow> wk_phase s = Aborted \<or> wk_phase s = Finished"

section \<open>Submission\<close>

text \<open>The two critical sections of \<open>try_submit\<close>, between which the worker may run.\<close>

definition submit_begin :: "preparation_identity \<Rightarrow> worker \<Rightarrow> submission_outcome option \<times> worker" where
  "submit_begin i s =
     (if i \<in> wk_outstanding s then (Some Duplicate, s)
      else (None, s\<lparr>wk_outstanding := insert i (wk_outstanding s), wk_submitting := i # wk_submitting s\<rparr>))"

definition submit_send ::
  "worker_settings \<Rightarrow> preparation_identity \<Rightarrow> worker \<Rightarrow> submission_outcome \<times> worker" where
  "submit_send ws i s =
     (let s1 = s\<lparr>wk_submitting := remove1 i (wk_submitting s)\<rparr>
      in if receiver_gone s then (QueueClosed, s1\<lparr>wk_outstanding := wk_outstanding s - {i}\<rparr>)
         else if ws_request_capacity ws \<le> length (wk_requests s)
         then (QueueFull, s1\<lparr>wk_outstanding := wk_outstanding s - {i}\<rparr>)
         else (Submitted, s1\<lparr>wk_requests := wk_requests s @ [i]\<rparr>))"

definition try_submit ::
  "worker_settings \<Rightarrow> worker \<Rightarrow> preparation_identity \<Rightarrow> submission_outcome \<times> worker" where
  "try_submit ws s i =
     (case submit_begin i s of
        (Some out, s1) \<Rightarrow> (out, s1)
      | (None, s1) \<Rightarrow> submit_send ws i s1)"

section \<open>The worker's loop\<close>

datatype worker_action =
  SubmitBegin preparation_identity
| SubmitSend preparation_identity
| CloseIngress
| RecvRequest
| RecvClosed
| TaskJoined preparation_identity bool
| TaskLost
| DeliverEvent
| ReleaseIdentity
| ClearOutstanding
| Return
| Finish
| TakeResult
| CloseResults

definition task_result :: "executor \<Rightarrow> preparation_identity \<Rightarrow> bool \<Rightarrow> worker_event" where
  "task_result execute i alive =
     (if alive then (case execute i of Inr a \<Rightarrow> Completed a | Inl e \<Rightarrow> Failed i e)
      else Failed i ''quadrant preparation blocking task failed'')"

text \<open>One action, \<^term>\<open>None\<close> where the code cannot take it.\<close>

fun worker_act :: "worker_settings \<Rightarrow> executor \<Rightarrow> worker \<Rightarrow> worker_action \<Rightarrow> worker option" where
  "worker_act ws execute s (SubmitBegin i) =
     (if wk_ingress_open s then Some (snd (submit_begin i s)) else None)"
| "worker_act ws execute s (SubmitSend i) =
     (if i \<in> set (wk_submitting s) then Some (snd (submit_send ws i s)) else None)"
| "worker_act ws execute s CloseIngress =
     (if wk_submitting s = [] then Some (s\<lparr>wk_ingress_open := False\<rparr>) else None)"
| "worker_act ws execute s RecvRequest =
     (if wk_phase s = Selecting \<and> \<not> wk_input_closed s \<and> length (wk_tasks s) < ws_max_in_flight ws
      then (case wk_requests s of
              [] \<Rightarrow> None
            | i # rest \<Rightarrow> Some (s\<lparr>wk_requests := rest, wk_tasks := wk_tasks s @ [i]\<rparr>))
      else None)"
| "worker_act ws execute s RecvClosed =
     (if wk_phase s = Selecting \<and> \<not> wk_input_closed s \<and> length (wk_tasks s) < ws_max_in_flight ws \<and>
         wk_requests s = [] \<and> \<not> wk_ingress_open s
      then Some (s\<lparr>wk_input_closed := True\<rparr>) else None)"
| "worker_act ws execute s (TaskJoined i alive) =
     (if wk_phase s = Selecting \<and> i \<in> set (wk_tasks s)
      then Some (s\<lparr>wk_tasks := remove1 i (wk_tasks s), wk_phase := SendingEvent i (task_result execute i alive)\<rparr>)
      else None)"
| "worker_act ws execute s TaskLost =
     (if wk_phase s = Selecting \<and> wk_tasks s \<noteq> [] then Some (s\<lparr>wk_phase := Clearing\<rparr>) else None)"
| "worker_act ws execute s DeliverEvent =
     (case wk_phase s of
        SendingEvent i ev \<Rightarrow>
          (if \<not> wk_results_open s then Some (s\<lparr>wk_phase := EventSent i False\<rparr>)
           else if length (wk_results s) < ws_result_capacity ws
           then Some (s\<lparr>wk_results := wk_results s @ [ev], wk_phase := EventSent i True\<rparr>)
           else None)
      | _ \<Rightarrow> None)"
| "worker_act ws execute s ReleaseIdentity =
     (case wk_phase s of
        EventSent i delivered \<Rightarrow>
          Some (s\<lparr>wk_outstanding := wk_outstanding s - {i},
                  wk_phase := (if delivered then Selecting else Clearing)\<rparr>)
      | _ \<Rightarrow> None)"
| "worker_act ws execute s ClearOutstanding =
     (if wk_phase s = Clearing then Some (s\<lparr>wk_outstanding := {}, wk_phase := Returning\<rparr>) else None)"
| "worker_act ws execute s Return =
     (if wk_phase s = Returning then Some (s\<lparr>wk_phase := Aborted, wk_requests := [], wk_tasks := []\<rparr>) else None)"
| "worker_act ws execute s Finish =
     (if wk_phase s = Selecting \<and> wk_input_closed s \<and> wk_tasks s = []
      then Some (s\<lparr>wk_phase := Finished\<rparr>) else None)"
| "worker_act ws execute s TakeResult =
     (if wk_results_open s \<and> wk_results s \<noteq> [] then Some (s\<lparr>wk_results := tl (wk_results s)\<rparr>) else None)"
| "worker_act ws execute s CloseResults = Some (s\<lparr>wk_results_open := False\<rparr>)"

section \<open>Runs\<close>

text \<open>
  A run keeps two logs: the identities whose submission was accepted, and the identities whose event
  reached the result queue, with the event. An action the code cannot take leaves everything as it is.
\<close>

record worker_run =
  wr_worker :: worker
  wr_accepted :: "preparation_identity list"
  wr_emitted :: "(preparation_identity \<times> worker_event) list"

definition run_new :: worker_run where
  "run_new = \<lparr>wr_worker = worker_new, wr_accepted = [], wr_emitted = []\<rparr>"

fun newly_accepted :: "worker_settings \<Rightarrow> worker \<Rightarrow> worker_action \<Rightarrow> preparation_identity list" where
  "newly_accepted ws s (SubmitSend i) = (if fst (submit_send ws i s) = Submitted then [i] else [])"
| "newly_accepted ws s _ = []"

fun newly_emitted :: "worker \<Rightarrow> worker_action \<Rightarrow> (preparation_identity \<times> worker_event) list" where
  "newly_emitted s DeliverEvent =
     (case wk_phase s of SendingEvent i ev \<Rightarrow> if wk_results_open s then [(i, ev)] else [] | _ \<Rightarrow> [])"
| "newly_emitted s _ = []"

definition run_step :: "worker_settings \<Rightarrow> executor \<Rightarrow> worker_run \<Rightarrow> worker_action \<Rightarrow> worker_run" where
  "run_step ws execute r a =
     (case worker_act ws execute (wr_worker r) a of
        None \<Rightarrow> r
      | Some s \<Rightarrow> \<lparr>wr_worker = s,
          wr_accepted = wr_accepted r @ newly_accepted ws (wr_worker r) a,
          wr_emitted = wr_emitted r @ newly_emitted (wr_worker r) a\<rparr>)"

section \<open>Invariant\<close>

fun phase_holds :: "worker_phase \<Rightarrow> preparation_identity list" where
  "phase_holds (SendingEvent i ev) = [i]"
| "phase_holds (EventSent i d) = [i]"
| "phase_holds _ = []"

fun phase_unsent :: "worker_phase \<Rightarrow> preparation_identity list" where
  "phase_unsent (SendingEvent i ev) = [i]"
| "phase_unsent (EventSent i d) = (if d then [] else [i])"
| "phase_unsent _ = []"

fun phase_live :: "worker_phase \<Rightarrow> bool" where
  "phase_live Clearing = False"
| "phase_live Returning = False"
| "phase_live Aborted = False"
| "phase_live Finished = False"
| "phase_live _ = True"

text \<open>Every place an identity can be in.\<close>

definition places :: "worker \<Rightarrow> preparation_identity list" where
  "places s = wk_submitting s @ wk_requests s @ wk_tasks s @ phase_holds (wk_phase s)"

definition worker_bounded :: "worker_settings \<Rightarrow> worker \<Rightarrow> bool" where
  "worker_bounded ws s \<longleftrightarrow> length (wk_requests s) \<le> ws_request_capacity ws \<and>
     length (wk_results s) \<le> ws_result_capacity ws \<and> length (wk_tasks s) \<le> ws_max_in_flight ws"

definition outstanding_exact :: "worker \<Rightarrow> bool" where
  "outstanding_exact s \<longleftrightarrow>
     (phase_live (wk_phase s) \<longrightarrow> distinct (places s) \<and> wk_outstanding s = set (places s))"

text \<open>What a closed input leaves behind.\<close>

definition closing_ok :: "worker \<Rightarrow> bool" where
  "closing_ok s \<longleftrightarrow>
     (wk_input_closed s \<longrightarrow> wk_requests s = [] \<and> \<not> wk_ingress_open s) \<and>
     (\<not> wk_ingress_open s \<longrightarrow> wk_submitting s = []) \<and>
     (wk_phase s = Finished \<longrightarrow> wk_tasks s = [] \<and> wk_input_closed s)"

text \<open>No accepted identity is lost: each is still queued, running, about to be sent, or was sent.\<close>

definition conserved :: "worker_run \<Rightarrow> bool" where
  "conserved r \<longleftrightarrow>
     (let s = wr_worker r
      in phase_live (wk_phase s) \<or> wk_phase s = Finished \<longrightarrow>
           mset (wr_accepted r) = mset (wk_requests s) + mset (wk_tasks s) + mset (phase_unsent (wk_phase s)) +
             mset (map fst (wr_emitted r)))"

definition run_inv :: "worker_settings \<Rightarrow> worker_run \<Rightarrow> bool" where
  "run_inv ws r \<longleftrightarrow> worker_bounded ws (wr_worker r) \<and> outstanding_exact (wr_worker r) \<and>
     closing_ok (wr_worker r) \<and> conserved r"

lemma phase_unsent_holds: "set (phase_unsent p) \<subseteq> set (phase_holds p)"
  by (cases p) auto

lemma run_new_inv: "run_inv ws run_new"
  by (simp add: run_inv_def run_new_def worker_new_def worker_bounded_def outstanding_exact_def places_def
      closing_ok_def conserved_def)

lemma submit_begin_fresh:
  "submit_begin i s = (None, s') \<Longrightarrow> i \<notin> wk_outstanding s \<and>
     s' = s\<lparr>wk_outstanding := insert i (wk_outstanding s), wk_submitting := i # wk_submitting s\<rparr>"
  by (auto simp: submit_begin_def split: if_splits)

lemma length_filter_le_bound: "length xs \<le> n \<Longrightarrow> length (remove1 x xs) \<le> n"
  by (rule order_trans [OF _ _]) (auto simp: length_remove1)

text \<open>The bounds, and the exactness of \<open>outstanding\<close>, hold after each single action.\<close>

lemma worker_act_bounded:
  assumes "worker_act ws execute s a = Some s'" "worker_bounded ws s"
  shows "worker_bounded ws s'"
  using assms
  by (cases a)
    (auto simp: worker_bounded_def submit_begin_def submit_send_def Let_def length_filter_le_bound
      split: if_splits list.splits worker_phase.splits)

lemma worker_act_exact:
  assumes "worker_act ws execute s a = Some s'" "outstanding_exact s"
  shows "outstanding_exact s'"
proof (cases a)
  case (SubmitSend i)
  with assms show ?thesis
    by (auto simp: outstanding_exact_def places_def submit_send_def Let_def receiver_gone_def
        set_remove1_eq split: if_splits)
next
  case (TaskJoined i b)
  with assms show ?thesis
    by (auto simp: outstanding_exact_def places_def set_remove1_eq split: if_splits)
qed (use assms in \<open>auto simp: outstanding_exact_def places_def submit_begin_def
      split: if_splits list.splits worker_phase.splits\<close>)

lemma worker_act_closing:
  assumes "worker_act ws execute s a = Some s'" "closing_ok s"
  shows "closing_ok s'"
proof (cases a)
  case (SubmitSend i)
  with assms show ?thesis
    by (simp add: closing_ok_def submit_send_def Let_def receiver_gone_def split: if_splits)
      (clarsimp; fastforce)+
qed (use assms in \<open>auto simp: closing_ok_def submit_begin_def split: if_splits list.splits worker_phase.splits\<close>)

lemma mset_remove1_add: "i \<in> set xs \<Longrightarrow> mset (remove1 i xs) + {#i#} = mset xs"
  by (induction xs) auto

lemma run_step_conserved:
  assumes act: "worker_act ws execute (wr_worker r) a = Some s'"
    and closing: "closing_ok (wr_worker r)" and con: "conserved r"
  shows "conserved (run_step ws execute r a)"
proof (cases a)
  case (SubmitSend i)
  have s': "s' = snd (submit_send ws i (wr_worker r))" using act SubmitSend by (simp split: if_splits)
  show ?thesis
    using con act unfolding SubmitSend conserved_def run_step_def Let_def s'
    by (cases "receiver_gone (wr_worker r)") (simp_all add: submit_send_def Let_def receiver_gone_def split: if_splits)
next
  case (TaskJoined i al)
  with act con mset_remove1_add [of i "wk_tasks (wr_worker r)"] show ?thesis
    by (auto simp: conserved_def Let_def run_step_def split: if_splits)
qed (use act con in \<open>auto simp: conserved_def Let_def run_step_def submit_begin_def
      split: if_splits list.splits worker_phase.splits\<close>)

lemma run_step_inv:
  assumes inv: "run_inv ws r"
  shows "run_inv ws (run_step ws execute r a)"
proof (cases "worker_act ws execute (wr_worker r) a")
  case None
  with inv show ?thesis by (simp add: run_step_def)
next
  case (Some s')
  from inv have parts: "worker_bounded ws (wr_worker r)" "outstanding_exact (wr_worker r)"
    "closing_ok (wr_worker r)" "conserved r" by (simp_all add: run_inv_def)
  have "wr_worker (run_step ws execute r a) = s'" by (simp add: run_step_def Some)
  with worker_act_bounded [OF Some parts(1)] worker_act_exact [OF Some parts(2)]
    worker_act_closing [OF Some parts(3)] run_step_conserved [OF Some parts(3,4)]
  show ?thesis by (simp add: run_inv_def)
qed

interpretation worker_machine: invariant_machine "run_step ws execute" "run_inv ws"
  by unfold_locales (rule run_step_inv)

section \<open>Progress\<close>

text \<open>The actions of the worker itself; with them, a reader that takes results.\<close>

fun worker_own :: "worker_action \<Rightarrow> bool" where
  "worker_own RecvRequest = True"
| "worker_own RecvClosed = True"
| "worker_own (TaskJoined i alive) = True"
| "worker_own DeliverEvent = True"
| "worker_own ReleaseIdentity = True"
| "worker_own ClearOutstanding = True"
| "worker_own Return = True"
| "worker_own Finish = True"
| "worker_own _ = False"

definition draining :: "worker \<Rightarrow> bool" where
  "draining s \<longleftrightarrow> \<not> wk_ingress_open s \<and> wk_results_open s \<and>
     (case wk_phase s of Selecting \<Rightarrow> True | SendingEvent i ev \<Rightarrow> True | EventSent i d \<Rightarrow> d | _ \<Rightarrow> False)"

fun phase_work :: "worker_phase \<Rightarrow> nat" where
  "phase_work Finished = 0"
| "phase_work (SendingEvent i ev) = 4"
| "phase_work (EventSent i d) = 2"
| "phase_work _ = 1"

definition work_left :: "worker \<Rightarrow> nat" where
  "work_left s = 5 * length (wk_requests s) + 4 * length (wk_tasks s) + phase_work (wk_phase s) +
     length (wk_results s) + (if wk_input_closed s then 0 else 1)"

definition settings_ok :: "worker_settings \<Rightarrow> bool" where
  "settings_ok ws \<longleftrightarrow> 0 < ws_request_capacity ws \<and> 0 < ws_result_capacity ws \<and> 0 < ws_max_in_flight ws"

lemma worker_settings_new_ok:
  "worker_settings_new a b c = Inr ws \<Longrightarrow> settings_ok ws \<and> ws_max_in_flight ws \<le> max_preparation_concurrency"
  by (auto simp: worker_settings_new_def validate_capacity_def settings_ok_def split: if_splits)

text \<open>What a worker without submitters does while its reader stays.\<close>

definition serving :: "worker_action \<Rightarrow> bool" where
  "serving a \<longleftrightarrow> worker_own a \<or> a = TakeResult"

definition drains :: "worker \<Rightarrow> bool" where
  "drains s \<longleftrightarrow> draining s \<or> wk_phase s = Finished"

text \<open>Every such action the worker or its reader can take leaves less work, and one of them can be taken until the end.\<close>

lemma serving_step:
  assumes "drains s" "serving a" "worker_act ws execute s a = Some s'"
  shows "drains s'" and "work_left s' < work_left s"
proof -
  have "drains s' \<and> work_left s' < work_left s"
  proof (cases a)
    case RecvRequest
    with assms show ?thesis
      by (cases "wk_requests s") (simp_all add: drains_def draining_def work_left_def split: if_splits, auto)
  next
    case RecvClosed
    with assms show ?thesis by (simp add: drains_def draining_def work_left_def split: if_splits) auto
  next
    case (TaskJoined i alive)
    with assms have "s' = s\<lparr>wk_tasks := remove1 i (wk_tasks s), wk_phase := SendingEvent i (task_result execute i alive)\<rparr>"
      "i \<in> set (wk_tasks s)" "wk_phase s = Selecting" by (simp_all split: if_splits)
    moreover from this(2) have "0 < length (wk_tasks s)" by auto
    then have "3 + 4 * (length (wk_tasks s) - Suc 0) < 4 * length (wk_tasks s)" by linarith
    ultimately show ?thesis
      using assms(1) by (simp add: drains_def draining_def work_left_def length_remove1)
  next
    case DeliverEvent
    with assms show ?thesis
      by (cases "wk_phase s") (auto simp: drains_def draining_def work_left_def split: if_splits)
  next
    case ReleaseIdentity
    with assms show ?thesis
      by (cases "wk_phase s") (auto simp: drains_def draining_def work_left_def)
  next
    case Finish
    with assms show ?thesis by (auto simp: drains_def work_left_def split: if_splits)
  next
    case TakeResult
    with assms show ?thesis
      by (cases "wk_results s") (auto simp: drains_def draining_def work_left_def split: if_splits)
  qed (use assms in \<open>auto simp: serving_def drains_def draining_def split: if_splits\<close>)
  then show "drains s'" and "work_left s' < work_left s" by simp_all
qed

lemma draining_enabled:
  assumes "draining s" "settings_ok ws" "closing_ok s"
  obtains a where "serving a" "worker_act ws execute s a \<noteq> None"
proof (cases "wk_phase s")
  case (SendingEvent i ev)
  show ?thesis
  proof (cases "length (wk_results s) < ws_result_capacity ws")
    case True
    with SendingEvent assms show ?thesis by (intro that [of DeliverEvent]) (auto simp: draining_def serving_def)
  next
    case False
    with assms(2) have "wk_results s \<noteq> []" by (auto simp: settings_ok_def)
    with SendingEvent assms show ?thesis by (intro that [of TakeResult]) (auto simp: draining_def serving_def)
  qed
next
  case (EventSent i d)
  then show ?thesis by (intro that [of ReleaseIdentity]) (auto simp: serving_def)
next
  case Selecting
  show ?thesis
  proof (cases "wk_tasks s")
    case (Cons i rest)
    with Selecting show ?thesis by (intro that [of "TaskJoined i True"]) (auto simp: serving_def)
  next
    case Nil
    consider "wk_input_closed s" | "\<not> wk_input_closed s" "wk_requests s = []"
      | i rest where "\<not> wk_input_closed s" "wk_requests s = i # rest"
      by (cases "wk_requests s") auto
    then show ?thesis
    proof cases
      case 1
      with Nil Selecting show ?thesis by (intro that [of Finish]) (auto simp: serving_def)
    next
      case 2
      with Nil Selecting assms show ?thesis
        by (intro that [of RecvClosed]) (auto simp: draining_def serving_def settings_ok_def)
    next
      case 3
      with Nil Selecting assms show ?thesis
        by (intro that [of RecvRequest]) (auto simp: serving_def settings_ok_def)
    qed
  qed
qed (use assms(1) in \<open>simp_all add: draining_def\<close>)

text \<open>How many actions of a schedule are taken; the others are not possible when their turn comes.\<close>

fun steps_taken :: "worker_settings \<Rightarrow> executor \<Rightarrow> worker_run \<Rightarrow> worker_action list \<Rightarrow> nat" where
  "steps_taken ws execute r [] = 0"
| "steps_taken ws execute r (a # as) =
     (if worker_act ws execute (wr_worker r) a = None then 0 else 1) + steps_taken ws execute (run_step ws execute r a) as"

lemma serving_run:
  "drains (wr_worker r) \<Longrightarrow> \<forall>a\<in>set bs. serving a \<Longrightarrow>
    drains (wr_worker (foldl (run_step ws execute) r bs)) \<and>
    steps_taken ws execute r bs + work_left (wr_worker (foldl (run_step ws execute) r bs)) \<le> work_left (wr_worker r)"
proof (induction bs arbitrary: r)
  case (Cons a bs)
  show ?case
  proof (cases "worker_act ws execute (wr_worker r) a")
    case None
    with Cons show ?thesis by (simp add: run_step_def)
  next
    case (Some s')
    then have w: "wr_worker (run_step ws execute r a) = s'" by (simp add: run_step_def)
    from Cons.prems(2) have "serving a" by simp
    note step = serving_step [OF Cons.prems(1) this Some]
    from Cons.IH [of "run_step ws execute r a"] Cons.prems(2) step w Some show ?thesis by auto
  qed
qed simp

text \<open>Reader and worker change no acceptance.\<close>

lemma own_run_accepted:
  "\<forall>a\<in>set as. serving a \<Longrightarrow>
    wr_accepted (foldl (run_step ws execute) r as) = wr_accepted r"
proof (induction as arbitrary: r)
  case (Cons a as)
  then have "newly_accepted ws s a = []" for s by (cases a) (auto simp: serving_def)
  with Cons show ?case by (auto simp: run_step_def split: option.split)
qed simp

section \<open>The executor's contract\<close>

definition events_honest :: "worker_run \<Rightarrow> bool" where
  "events_honest r \<longleftrightarrow> (\<forall>x\<in>set (wr_emitted r). worker_event_identity (snd x) = fst x) \<and>
     (\<forall>i ev. wk_phase (wr_worker r) = SendingEvent i ev \<longrightarrow> worker_event_identity ev = i)"

text \<open>An executor answers for the identity it was given.\<close>

locale preparation_executor =
  fixes execute :: executor
  assumes execute_identity: "execute i = Inr a \<Longrightarrow> pa_identity a = i"
begin

lemma task_result_identity: "worker_event_identity (task_result execute i alive) = i"
  using execute_identity by (auto simp: task_result_def split: sum.splits)

lemma events_honest_step: "events_honest r \<Longrightarrow> events_honest (run_step ws execute r a)"
proof (cases "worker_act ws execute (wr_worker r) a")
  case (Some s')
  assume h: "events_honest r"
  show ?thesis
  proof (cases a)
    case (SubmitSend i)
    with Some have "s' = snd (submit_send ws i (wr_worker r))" by (simp split: if_splits)
    then have "wk_phase s' = wk_phase (wr_worker r)" by (auto simp: submit_send_def Let_def)
    with h Some SubmitSend show ?thesis by (simp add: events_honest_def run_step_def)
  qed (use h Some in \<open>auto simp: events_honest_def run_step_def submit_begin_def task_result_identity
      split: if_splits list.splits worker_phase.splits\<close>)
qed (simp add: run_step_def)

lemma events_honest_run: "events_honest r \<Longrightarrow> events_honest (foldl (run_step ws execute) r as)"
  by (induction as arbitrary: r) (simp_all add: events_honest_step)

end

lemma run_new_honest: "events_honest run_new"
  by (simp add: events_honest_def run_new_def worker_new_def)

section \<open>Properties\<close>

text \<open>
  C13: the background worker in every interleaving of its submitters, its loop and its reader: the queues and the
  tasks in flight stay within their bounds and, until the worker begins to stop, no identity is in two places at
  once and \<open>outstanding\<close> is exactly the set of identities being submitted, queued, prepared or delivered.
\<close>

theorem worker_tracks_each_identity_once:
  assumes "s = wr_worker (foldl (run_step ws execute) run_new as)"
  shows "length (wk_requests s) \<le> ws_request_capacity ws \<and> length (wk_tasks s) \<le> ws_max_in_flight ws \<and>
    length (wk_results s) \<le> ws_result_capacity ws \<and>
    (phase_live (wk_phase s) \<longrightarrow> distinct (places s) \<and> wk_outstanding s = set (places s))"
  using worker_machine.inv_run [OF run_new_inv, of ws execute as]
  by (simp add: assms run_inv_def worker_bounded_def outstanding_exact_def)

text \<open>
  C12: accepted work is never lost or done twice: once its submitters are gone and while its reader stays, every schedule
  of the worker's actions and the reader's takes at most as many steps as there is work left, leaves the worker draining
  or ended, always leaves it a possible step until it has ended, and when it has ended the events it sent are
  exactly one for each accepted submission, failed tasks included.
\<close>

theorem worker_delivers_exactly_once:
  assumes "worker_settings_new a b c = Inr ws" "r = foldl (run_step ws execute) run_new as"
    and "draining (wr_worker r)" "\<forall>x\<in>set bs. serving x" "r' = foldl (run_step ws execute) r bs"
  shows "steps_taken ws execute r bs \<le> work_left (wr_worker r) \<and>
    (if wk_phase (wr_worker r') = Finished then mset (map fst (wr_emitted r')) = mset (wr_accepted r)
     else draining (wr_worker r') \<and> (\<exists>x. serving x \<and> worker_act ws execute (wr_worker r') x \<noteq> None))"
proof -
  have "run_inv ws r" unfolding assms(2) by (rule worker_machine.inv_run [OF run_new_inv])
  then have "run_inv ws r'" unfolding assms(5) by (rule worker_machine.inv_run)
  then have inv: "conserved r'" "closing_ok (wr_worker r')" by (simp_all add: run_inv_def)
  have "drains (wr_worker r)" using assms(3) by (simp add: drains_def)
  note run = serving_run [OF this assms(4), of ws execute, folded assms(5)]
  show ?thesis
  proof (cases "wk_phase (wr_worker r') = Finished")
    case True
    with inv have "mset (wr_accepted r') = mset (map fst (wr_emitted r'))" by (simp add: conserved_def closing_ok_def)
    with True run own_run_accepted [OF assms(4), of ws execute r, folded assms(5)] show ?thesis by simp
  next
    case False
    with run have d: "draining (wr_worker r')" by (simp add: drains_def)
    obtain x where "serving x" "worker_act ws execute (wr_worker r') x \<noteq> None"
      by (rule draining_enabled [OF d _ inv(2)]) (use worker_settings_new_ok [OF assms(1)] in blast)
    with False run d show ?thesis by auto
  qed
qed

text \<open>
  The worker never gets stuck: until it begins to stop, it can always take a step of its own, unless it has
  nothing to do and waits for a submission, or its result queue is full and it waits for the reader.
\<close>

theorem worker_never_stuck:
  assumes "worker_settings_new a b c = Inr ws" "s = wr_worker (foldl (run_step ws execute) run_new as)"
    and "\<forall>x. worker_own x \<longrightarrow> worker_act ws execute s x = None" "phase_live (wk_phase s)"
  shows "(wk_phase s = Selecting \<and> wk_tasks s = [] \<and> wk_requests s = [] \<and> wk_ingress_open s) \<or>
    (\<exists>i ev. wk_phase s = SendingEvent i ev \<and> wk_results_open s \<and> length (wk_results s) = ws_result_capacity ws)"
proof (cases "wk_phase s")
  case Selecting
  have off: "worker_act ws execute s x = None" if "worker_own x" for x using assms(3) that by blast
  have ws: "0 < ws_max_in_flight ws" using worker_settings_new_ok [OF assms(1)] by (simp add: settings_ok_def)
  have t: "wk_tasks s = []"
    using off [of "TaskJoined (hd (wk_tasks s)) True"] Selecting by (cases "wk_tasks s") simp_all
  then have i: "\<not> wk_input_closed s" using off [of Finish] Selecting by auto
  then have q: "wk_requests s = []"
    using off [of RecvRequest] Selecting t ws by (cases "wk_requests s") simp_all
  then show ?thesis using off [of RecvClosed] Selecting t i ws by (auto split: if_splits)
next
  case (SendingEvent i ev)
  have "worker_bounded ws s"
    using worker_machine.inv_run [OF run_new_inv, of ws execute as] by (simp add: assms(2) run_inv_def)
  with assms(3) [rule_format, of DeliverEvent] SendingEvent show ?thesis
    by (auto simp: worker_bounded_def split: if_splits)
next
  case (EventSent i d)
  with assms(3) [rule_format, of ReleaseIdentity] show ?thesis by simp
qed (use assms(4) in simp_all)

definition sample_worker_settings :: worker_settings where
  "sample_worker_settings = \<lparr>ws_request_capacity = 4, ws_result_capacity = 4, ws_max_in_flight = 1\<rparr>"

definition sample_identity :: preparation_identity where
  "sample_identity = \<lparr>pi_coord = QuadrantCoord 1 0, pi_generator_version = 7, pi_inputs_fingerprint = [1]\<rparr>"

lemma sample_worker_settings_new: "worker_settings_new 4 4 1 = Inr sample_worker_settings"
  by (simp add: worker_settings_new_def validate_capacity_def max_preparation_queue_capacity_def
      max_preparation_concurrency_def sample_worker_settings_def)

text \<open>One submission, after which the submitter goes away.\<close>

definition sample_submissions :: "worker_action list" where
  "sample_submissions = [SubmitBegin sample_identity, SubmitSend sample_identity, CloseIngress]"

lemma sample_submissions_run:
  "foldl (run_step sample_worker_settings execute) run_new sample_submissions =
    \<lparr>wr_worker = worker_new\<lparr>wk_requests := [sample_identity], wk_ingress_open := False,
       wk_outstanding := {sample_identity}\<rparr>, wr_accepted = [sample_identity], wr_emitted = []\<rparr>"
  by (simp add: sample_submissions_def run_step_def run_new_def worker_new_def submit_begin_def submit_send_def
      receiver_gone_def sample_worker_settings_def)

text \<open>A full run: the request is received, prepared, delivered and released, and the worker ends.\<close>

definition sample_service :: "worker_action list" where
  "sample_service = [RecvRequest, TaskJoined sample_identity True, DeliverEvent, ReleaseIdentity, RecvClosed, Finish]"

theorem worker_delivers_exactly_once_witness:
  "wk_phase (wr_worker (foldl (run_step sample_worker_settings (\<lambda>i. Inl ''no''))
      (foldl (run_step sample_worker_settings (\<lambda>i. Inl ''no'')) run_new sample_submissions) sample_service)) = Finished \<and>
   mset (map fst (wr_emitted (foldl (run_step sample_worker_settings (\<lambda>i. Inl ''no''))
      (foldl (run_step sample_worker_settings (\<lambda>i. Inl ''no'')) run_new sample_submissions) sample_service))) =
     {#sample_identity#}"
proof -
  let ?r = "foldl (run_step sample_worker_settings (\<lambda>i. Inl ''no'')) run_new sample_submissions"
  let ?f = "foldl (run_step sample_worker_settings (\<lambda>i. Inl ''no'')) ?r sample_service"
  have d: "draining (wr_worker ?r)" "wr_accepted ?r = [sample_identity]"
    by (simp_all only: sample_submissions_run) (simp_all add: draining_def worker_new_def)
  have f: "wk_phase (wr_worker ?f) = Finished"
    by (simp only: sample_submissions_run)
      (simp add: sample_service_def run_step_def worker_new_def sample_worker_settings_def task_result_def)
  have "\<forall>x\<in>set sample_service. serving x" by (simp add: sample_service_def serving_def)
  from worker_delivers_exactly_once [OF sample_worker_settings_new refl d(1) this refl] f d(2) show ?thesis by simp
qed

theorem worker_tracks_each_identity_once_witness:
  "wk_outstanding (wr_worker (foldl (run_step sample_worker_settings (\<lambda>i. Inl ''no'')) run_new sample_submissions)) =
     set (places (wr_worker (foldl (run_step sample_worker_settings (\<lambda>i. Inl ''no'')) run_new sample_submissions)))"
proof -
  let ?s = "wr_worker (foldl (run_step sample_worker_settings (\<lambda>i. Inl ''no'')) run_new sample_submissions)"
  have "phase_live (wk_phase ?s)" by (simp only: sample_submissions_run) (simp add: worker_new_def)
  with worker_tracks_each_identity_once [OF refl, of sample_worker_settings "\<lambda>i. Inl ''no''" sample_submissions]
  show ?thesis by simp
qed

theorem worker_never_stuck_witness:
  "wk_ingress_open (wr_worker (foldl (run_step sample_worker_settings (\<lambda>i. Inl ''no'')) run_new []))"
proof -
  have "worker_act sample_worker_settings (\<lambda>i. Inl ''no'') (wr_worker run_new) x = None" if "worker_own x" for x
    using that by (cases x) (simp_all add: run_new_def worker_new_def)
  then show ?thesis
    using worker_never_stuck [OF sample_worker_settings_new refl, of "\<lambda>i. Inl ''no''" "[]"]
    by (simp add: run_new_def worker_new_def)
qed

end
