(* ===== verification/Preparation_Scheduler.thy ===== *)
theory Preparation_Scheduler
  imports Preparation_Worker Frontier_Runtime
begin

text \<open>
  apps/world-server/src/preparation_scheduler.rs: what the server does with the frontier on each
  evaluation: it takes the results of the worker, commits or abandons the preparations, and submits
  new candidates within a budget, with a bounded number of retries per quadrant.

  The terrain of a quadrant, of a type \<open>'c\<close>, is generated elsewhere: its generator, and the keyed
  hash of the quadrant seeds, are arguments. The results waiting in the worker's queue are a list;
  the submission is a function on a state \<open>'w\<close>, so that the results below hold for any behaviour of the
  queue. Instants and durations are naturals, far from the end of the clock.
\<close>

section \<open>Settings and state\<close>

record scheduler_settings =
  ss_evaluation_interval :: nat
  ss_max_submissions_per_tick :: nat
  ss_max_prepared_quadrants :: nat
  ss_retry_backoff :: nat
  ss_max_retry_attempts :: u32

definition scheduler_settings_new ::
  "nat \<Rightarrow> nat \<Rightarrow> nat \<Rightarrow> nat \<Rightarrow> u32 \<Rightarrow> string + scheduler_settings" where
  "scheduler_settings_new interval submissions prepared backoff attempts =
     (if interval = 0 then Inl ''evaluation interval''
      else if submissions = 0 then Inl ''max submissions per tick''
      else if prepared = 0 then Inl ''prepared budget''
      else if backoff = 0 then Inl ''retry backoff''
      else if attempts = 0 then Inl ''max retry attempts''
      else Inr \<lparr>ss_evaluation_interval = interval, ss_max_submissions_per_tick = submissions,
                ss_max_prepared_quadrants = prepared, ss_retry_backoff = backoff,
                ss_max_retry_attempts = attempts\<rparr>)"

record scheduler_report =
  rp_completed :: nat
  rp_failed :: nat
  rp_submitted :: nat
  rp_backpressure :: nat
  rp_exhausted :: nat
  rp_prepared_private :: nat
  rp_in_flight :: nat

definition report_default :: scheduler_report where
  "report_default = \<lparr>rp_completed = 0, rp_failed = 0, rp_submitted = 0, rp_backpressure = 0,
     rp_exhausted = 0, rp_prepared_private = 0, rp_in_flight = 0\<rparr>"

definition has_activity :: "scheduler_report \<Rightarrow> bool" where
  "has_activity r \<longleftrightarrow> 0 < rp_completed r \<or> 0 < rp_failed r \<or> 0 < rp_submitted r \<or>
     0 < rp_backpressure r \<or> 0 < rp_exhausted r"

record retry_state =
  rs_failures :: u32
  rs_retry_after :: nat
  rs_exhausted :: bool

record 'c retained_terrain =
  rn_contract :: 'c
  rn_fingerprint :: fingerprint
  rn_byte_len :: u64

text \<open>The store of artifacts is shared with the executor, and iterated over.\<close>

record 'c scheduler =
  sc_settings :: scheduler_settings
  sc_universe_seed :: universe_seed
  sc_quadrant_size_mm :: int
  sc_generator_version :: u32
  sc_retries :: "quadrant_coord \<rightharpoonup> retry_state"
  sc_retained :: "(preparation_identity \<times> 'c retained_terrain) list"

definition scheduler_spawn :: "scheduler_settings \<Rightarrow> universe_seed \<Rightarrow> int \<Rightarrow> u32 \<Rightarrow> 'c scheduler" where
  "scheduler_spawn settings seed size_mm gen = \<lparr>sc_settings = settings, sc_universe_seed = seed,
     sc_quadrant_size_mm = size_mm, sc_generator_version = gen, sc_retries = Map.empty, sc_retained = []\<rparr>"

datatype scheduler_error =
  ResultsDisconnected
| NotRetained
| RetainedFingerprintZero preparation_error
| RetainedFingerprintDiffers
| RetainedLengthDiffers
| SchedulerRuntime runtime_error
| FailureWithoutReservation quadrant_coord
| FailureOfPrepared quadrant_coord
| RevisionMutated
| SeedFingerprintZero preparation_error
| BackpressureRollback quadrant_coord
| RequestsClosed

section \<open>The executor\<close>

text \<open>
  \<open>TerrainPreparationExecutor::execute\<close>: the contract of a quadrant with its fingerprint and length,
  retained under its identity.
\<close>

definition terrain_execute ::
  "(quadrant_coord \<Rightarrow> u32 \<Rightarrow> string + 'c retained_terrain) \<Rightarrow> preparation_identity
     \<Rightarrow> string + prepared_artifact \<times> 'c retained_terrain" where
  "terrain_execute generate i =
     (case generate (pi_coord i) (pi_generator_version i) of
        Inl e \<Rightarrow> Inl e
      | Inr terrain \<Rightarrow>
          (case fingerprint_new (rn_fingerprint terrain) of
             Inl _ \<Rightarrow> Inl ''zero fingerprint''
           | Inr fp \<Rightarrow>
               (case prepared_artifact_new i fp (rn_byte_len terrain) of
                  Inl _ \<Rightarrow> Inl ''empty artifact''
                | Inr a \<Rightarrow> Inr (a, terrain))))"

definition executor_result ::
  "(quadrant_coord \<Rightarrow> u32 \<Rightarrow> string + 'c retained_terrain) \<Rightarrow> executor" where
  "executor_result generate i = map_sum id fst (terrain_execute generate i)"

definition executor_retain ::
  "(quadrant_coord \<Rightarrow> u32 \<Rightarrow> string + 'c retained_terrain) \<Rightarrow> preparation_identity
     \<Rightarrow> 'c scheduler \<Rightarrow> 'c scheduler" where
  "executor_retain generate i sc =
     (case terrain_execute generate i of
        Inl _ \<Rightarrow> sc
      | Inr (a, terrain) \<Rightarrow> sc\<lparr>sc_retained := AList.update i terrain (sc_retained sc)\<rparr>)"

section \<open>Results\<close>

definition verify_retained :: "'c scheduler \<Rightarrow> prepared_artifact \<Rightarrow> scheduler_error + unit" where
  "verify_retained sc a =
     (case map_of (sc_retained sc) (pa_identity a) of
        None \<Rightarrow> Inl NotRetained
      | Some terrain \<Rightarrow>
          (case fingerprint_new (rn_fingerprint terrain) of
             Inl e \<Rightarrow> Inl (RetainedFingerprintZero e)
           | Inr fp \<Rightarrow>
               if fp \<noteq> pa_fingerprint a then Inl RetainedFingerprintDiffers
               else if rn_byte_len terrain \<noteq> pa_bytes a then Inl RetainedLengthDiffers
               else Inr ()))"

definition remove_retained :: "preparation_identity \<Rightarrow> 'c scheduler \<Rightarrow> 'c scheduler" where
  "remove_retained i sc = sc\<lparr>sc_retained := AList.delete i (sc_retained sc)\<rparr>"

text \<open>The retry record of a failure, and whether it exhausts the attempts.\<close>

definition retry_after_failure :: "scheduler_settings \<Rightarrow> nat \<Rightarrow> retry_state option \<Rightarrow> retry_state" where
  "retry_after_failure settings now previous =
     (let retry = (case previous of Some r \<Rightarrow> r
                   | None \<Rightarrow> \<lparr>rs_failures = 0, rs_retry_after = now, rs_exhausted = False\<rparr>);
          retry = retry\<lparr>rs_failures := saturating_add (rs_failures retry) 1\<rparr>
      in if ss_max_retry_attempts settings < rs_failures retry
         then retry\<lparr>rs_exhausted := True\<rparr>
         else retry\<lparr>rs_retry_after := now + ss_retry_backoff settings\<rparr>)"

type_synonym 'c evaluation = "'c scheduler \<times> frontier_runtime \<times> scheduler_report"

definition consume_completed ::
  "prepared_artifact \<Rightarrow> 'c evaluation \<Rightarrow> (scheduler_error + unit) \<times> 'c evaluation" where
  "consume_completed a ev =
     (case ev of (sc, rt, report) \<Rightarrow>
       (case verify_retained sc a of
          Inl e \<Rightarrow> (Inl e, ev)
        | Inr _ \<Rightarrow>
            (case complete_preparation rt a of
               Inl e \<Rightarrow> (Inl (SchedulerRuntime e), ev)
             | Inr (_, rt') \<Rightarrow>
                 (let sc' = sc\<lparr>sc_retries := (sc_retries sc)(pi_coord (pa_identity a) := None)\<rparr>;
                      report' = report\<lparr>rp_completed := rp_completed report + 1\<rparr>
                  in if revision (rt_state rt') \<noteq> revision (rt_state rt)
                     then (Inl RevisionMutated, sc', rt', report')
                     else (Inr (), sc', rt', report')))))"

definition consume_failed ::
  "preparation_identity \<Rightarrow> nat \<Rightarrow> 'c evaluation \<Rightarrow> (scheduler_error + unit) \<times> 'c evaluation" where
  "consume_failed i now ev =
     (case ev of (sc, rt, report) \<Rightarrow>
       (let coord = pi_coord i; sc1 = remove_retained i sc
        in case fail_preparation rt i of
             Inl e \<Rightarrow> (Inl (SchedulerRuntime e), sc1, rt, report)
           | Inr (AbandonNotFound, rt') \<Rightarrow> (Inl (FailureWithoutReservation coord), sc1, rt', report)
           | Inr (AbandonAlreadyPrepared, rt') \<Rightarrow> (Inl (FailureOfPrepared coord), sc1, rt', report)
           | Inr (AbandonRemoved, rt') \<Rightarrow>
               (let retry = retry_after_failure (sc_settings sc) now (sc_retries sc coord);
                    sc2 = sc1\<lparr>sc_retries := (sc_retries sc1)(coord \<mapsto> retry)\<rparr>;
                    exhausted = ss_max_retry_attempts (sc_settings sc) < rs_failures retry;
                    report' = report\<lparr>rp_exhausted := rp_exhausted report + (if exhausted then 1 else 0),
                                     rp_failed := rp_failed report + 1\<rparr>
                in if revision (rt_state rt') \<noteq> revision (rt_state rt)
                   then (Inl RevisionMutated, sc2, rt', report')
                   else (Inr (), sc2, rt', report'))))"

fun consume_event ::
  "worker_event \<Rightarrow> nat \<Rightarrow> 'c evaluation \<Rightarrow> (scheduler_error + unit) \<times> 'c evaluation" where
  "consume_event (Completed a) now ev = consume_completed a ev"
| "consume_event (Failed i e) now ev = consume_failed i now ev"

text \<open>The events waiting in the queue, and whether the worker had gone when it was found empty.\<close>

fun consume_results ::
  "worker_event list \<Rightarrow> bool \<Rightarrow> nat \<Rightarrow> 'c evaluation \<Rightarrow> (scheduler_error + unit) \<times> 'c evaluation" where
  "consume_results [] disconnected now ev = (if disconnected then Inl ResultsDisconnected else Inr (), ev)"
| "consume_results (x # xs) disconnected now ev =
     (case consume_event x now ev of
        (Inl e, ev') \<Rightarrow> (Inl e, ev')
      | (Inr _, ev') \<Rightarrow> consume_results xs disconnected now ev')"

section \<open>Submissions\<close>

definition retry_allows :: "'c scheduler \<Rightarrow> quadrant_coord \<Rightarrow> nat \<Rightarrow> bool" where
  "retry_allows sc coord now =
     (case sc_retries sc coord of None \<Rightarrow> True | Some retry \<Rightarrow> \<not> rs_exhausted retry \<and> rs_retry_after retry \<le> now)"

definition candidate_identity ::
  "(u8 list \<Rightarrow> u8 list \<Rightarrow> u8 list) \<Rightarrow> 'c scheduler \<Rightarrow> frontier_runtime \<Rightarrow> quadrant_coord
     \<Rightarrow> scheduler_error + preparation_identity" where
  "candidate_identity hash sc rt coord =
     (case fingerprint_new (quadrant_seed hash (sc_universe_seed sc) coord (sc_generator_version sc)) of
        Inl e \<Rightarrow> Inl (SeedFingerprintZero e)
      | Inr fp \<Rightarrow> map_sum SchedulerRuntime id (runtime_preparation_identity rt coord fp))"

text \<open>A reservation whose submission did not go through is taken back.\<close>

definition roll_back ::
  "preparation_identity \<Rightarrow> frontier_runtime \<Rightarrow> scheduler_error + abandon_outcome \<times> frontier_runtime" where
  "roll_back i rt = map_sum SchedulerRuntime id (cancel_preparation rt i)"

fun schedule_loop ::
  "('w \<Rightarrow> preparation_identity \<Rightarrow> submission_outcome \<times> 'w) \<Rightarrow> (u8 list \<Rightarrow> u8 list \<Rightarrow> u8 list) \<Rightarrow> nat \<Rightarrow> nat
     \<Rightarrow> quadrant_coord list \<Rightarrow> nat \<Rightarrow> 'c evaluation \<times> 'w \<Rightarrow> (scheduler_error + unit) \<times> 'c evaluation \<times> 'w" where
  "schedule_loop submit hash now budget [] admitted (ev, w) = (Inr (), ev, w)"
| "schedule_loop submit hash now budget (coord # coords) admitted ((sc, rt, report), w) =
     (if budget \<le> admitted then (Inr (), (sc, rt, report), w)
      else if \<not> retry_allows sc coord now
      then schedule_loop submit hash now budget coords admitted ((sc, rt, report), w)
      else (case candidate_identity hash sc rt coord of
        Inl e \<Rightarrow> (Inl e, (sc, rt, report), w)
      | Inr i \<Rightarrow>
          (case request_preparation rt i of
             Inl e \<Rightarrow> (Inl (SchedulerRuntime e), (sc, rt, report), w)
           | Inr (RequestStarted, rt1) \<Rightarrow>
               (case submit w i of
                  (Submitted, w1) \<Rightarrow>
                    schedule_loop submit hash now budget coords (admitted + 1)
                      ((sc, rt1, report\<lparr>rp_submitted := rp_submitted report + 1\<rparr>), w1)
                | (Duplicate, w1) \<Rightarrow>
                    schedule_loop submit hash now budget coords (admitted + 1) ((sc, rt1, report), w1)
                | (QueueFull, w1) \<Rightarrow>
                    (case roll_back i rt1 of
                       Inl e \<Rightarrow> (Inl e, (sc, rt1, report), w1)
                     | Inr (out, rt2) \<Rightarrow>
                         if out \<noteq> AbandonRemoved then (Inl (BackpressureRollback coord), (sc, rt2, report), w1)
                         else (Inr (), (sc, rt2, report\<lparr>rp_backpressure := rp_backpressure report + 1\<rparr>), w1))
                | (QueueClosed, w1) \<Rightarrow>
                    (case roll_back i rt1 of
                       Inl e \<Rightarrow> (Inl e, (sc, rt1, report), w1)
                     | Inr (_, rt2) \<Rightarrow> (Inl RequestsClosed, (sc, rt2, report), w1)))
           | Inr (_, rt1) \<Rightarrow> schedule_loop submit hash now budget coords admitted ((sc, rt1, report), w))))"

definition occupied_slots :: "frontier_runtime \<Rightarrow> nat" where
  "occupied_slots rt = runtime_prepared_len rt + runtime_in_flight_len rt"

definition schedule_candidates ::
  "('w \<Rightarrow> preparation_identity \<Rightarrow> submission_outcome \<times> 'w) \<Rightarrow> (u8 list \<Rightarrow> u8 list \<Rightarrow> u8 list) \<Rightarrow> nat
     \<Rightarrow> 'c evaluation \<times> 'w \<Rightarrow> (scheduler_error + unit) \<times> 'c evaluation \<times> 'w" where
  "schedule_candidates submit hash now st =
     (case st of ((sc, rt, report), w) \<Rightarrow>
       (let occupied = occupied_slots rt; limit = ss_max_prepared_quadrants (sc_settings sc)
        in if limit \<le> occupied then (Inr (), st)
           else (let budget = min (limit - occupied) (ss_max_submissions_per_tick (sc_settings sc))
                 in if budget = 0 then (Inr (), st)
                    else schedule_loop submit hash now budget (runtime_candidate_quadrants rt) 0 st)))"

definition evaluate ::
  "('w \<Rightarrow> preparation_identity \<Rightarrow> submission_outcome \<times> 'w) \<Rightarrow> (u8 list \<Rightarrow> u8 list \<Rightarrow> u8 list)
     \<Rightarrow> worker_event list \<Rightarrow> bool \<Rightarrow> nat \<Rightarrow> 'c scheduler \<Rightarrow> frontier_runtime \<Rightarrow> 'w
     \<Rightarrow> (scheduler_error + scheduler_report) \<times> 'c scheduler \<times> frontier_runtime \<times> 'w" where
  "evaluate submit hash events disconnected now sc rt w =
     (case consume_results events disconnected now (sc, rt, report_default) of
        (Inl e, (sc1, rt1, _)) \<Rightarrow> (Inl e, sc1, rt1, w)
      | (Inr _, ev1) \<Rightarrow>
          (case schedule_candidates submit hash now (ev1, w) of
             (Inl e, (sc2, rt2, _), w2) \<Rightarrow> (Inl e, sc2, rt2, w2)
           | (Inr _, (sc2, rt2, report), w2) \<Rightarrow>
               (Inr (report\<lparr>rp_prepared_private := runtime_prepared_len rt2,
                            rp_in_flight := runtime_in_flight_len rt2\<rparr>), sc2, rt2, w2)))"

section \<open>The runtime's part of an evaluation\<close>

text \<open>Every operation of the runtime that an evaluation uses is a step of its machine.\<close>

lemma request_is_step: "request_preparation rt i = Inr (out, rt') \<Longrightarrow> rt' = runtime_step rt (RequestPrep i)"
  by simp

lemma complete_is_step: "complete_preparation rt a = Inr (out, rt') \<Longrightarrow> rt' = runtime_step rt (CompletePrep a)"
  by simp

lemma cancel_is_step: "cancel_preparation rt i = Inr (out, rt') \<Longrightarrow> rt' = runtime_step rt (CancelPrep i)"
  by simp

lemma fail_is_step: "fail_preparation rt i = Inr (out, rt') \<Longrightarrow> rt' = runtime_step rt (FailPrep i)"
  by simp

text \<open>What these steps keep: the runtime's invariant, and all that clients see.\<close>

definition private_change :: "quadrant_coord list \<Rightarrow> frontier_runtime \<Rightarrow> frontier_runtime \<Rightarrow> bool" where
  "private_change init rt rt' \<longleftrightarrow> runtime_inv init rt' \<and> revision (rt_state rt') = revision (rt_state rt) \<and>
     revealed_quadrants (rt_state rt') = revealed_quadrants (rt_state rt) \<and>
     rt_generator_version rt' = rt_generator_version rt \<and> rt_quadrant_size_mm rt' = rt_quadrant_size_mm rt"

lemma private_change_refl: "runtime_inv init rt \<Longrightarrow> private_change init rt rt"
  by (simp add: private_change_def)

lemma private_change_trans: "private_change init a b \<Longrightarrow> private_change init b c \<Longrightarrow> private_change init a c"
  by (simp add: private_change_def)

lemma prep_complete_private:
  assumes "prep_complete f a slots = Inr (out, slots', f')"
  shows "revision f' = revision f \<and> revealed_quadrants f' = revealed_quadrants f"
  using assms
proof (cases rule: prep_complete_cases)
  case (first t)
  from first(4) show ?thesis by (cases rule: transition_cases) auto
qed simp

lemma private_steps:
  assumes inv: "runtime_inv init rt"
  shows "request_preparation rt i = Inr (out, rt') \<Longrightarrow> private_change init rt rt'"
    and "complete_preparation rt a = Inr (out2, rt') \<Longrightarrow> private_change init rt rt'"
    and "cancel_preparation rt i = Inr (out3, rt') \<Longrightarrow> private_change init rt rt'"
    and "fail_preparation rt i = Inr (out3, rt') \<Longrightarrow> private_change init rt rt'"
proof -
  show "private_change init rt rt'" if "request_preparation rt i = Inr (out, rt')"
    using runtime_inv_step [OF inv, of "RequestPrep i"] that
    by (auto simp: private_change_def request_preparation_Inr)
  show "private_change init rt rt'" if "complete_preparation rt a = Inr (out2, rt')"
    using runtime_inv_step [OF inv, of "CompletePrep a"] that
    by (auto simp: private_change_def complete_preparation_Inr dest: prep_complete_private)
  show "private_change init rt rt'" if "cancel_preparation rt i = Inr (out3, rt')"
    using runtime_inv_step [OF inv, of "CancelPrep i"] that
    by (auto simp: private_change_def abandon_preparation_Inr)
  show "private_change init rt rt'" if "fail_preparation rt i = Inr (out3, rt')"
    using runtime_inv_step [OF inv, of "FailPrep i"] that
    by (auto simp: private_change_def abandon_preparation_Inr)
qed

section \<open>Counting slots\<close>

definition in_flight_at :: "preparation_slots \<Rightarrow> quadrant_coord set" where
  "in_flight_at slots = {c. \<exists>i. map_of slots c = Some (InFlight i)}"

lemma finite_in_flight_at: "finite (in_flight_at slots)"
  by (rule finite_subset [OF _ finite_dom_map_of [of slots]]) (auto simp: in_flight_at_def)

lemma in_flight_len_card:
  assumes "distinct (map fst slots)"
  shows "in_flight_len slots = card (in_flight_at slots)"
proof -
  have "in_flight_at slots = fst ` set (filter (\<lambda>(_, slot). slot_in_flight slot) slots)"
    using assms by (auto simp: in_flight_at_def image_iff split: preparation_slot.splits
        dest!: map_of_SomeD elim!: slot_in_flight.elims) (force dest: map_of_is_SomeI)
  moreover have "distinct (map fst (filter (\<lambda>(_, slot). slot_in_flight slot) slots))"
    using assms by (rule distinct_map_filter)
  ultimately show ?thesis
    by (metis (no_types, lifting) distinct_card in_flight_len_def length_map list.set_map)
qed

definition prepared_at :: "frontier_state \<Rightarrow> quadrant_coord set" where
  "prepared_at f = {c. quadrant_state f c = Prepared}"

lemma prepared_len_card:
  assumes "frontier_inv f"
  shows "length (quadrants_in_state f Prepared) = card (prepared_at f)" "finite (prepared_at f)"
  using distinct_card [OF distinct_quadrants_in_state [OF assms, of Prepared]]
    set_quadrants_in_state [OF assms, of Prepared]
  by (simp_all add: prepared_at_def) (metis finite_set)

lemma occupied_card:
  assumes "runtime_inv init rt"
  shows "occupied_slots rt = card (prepared_at (rt_state rt)) + card (in_flight_at (rt_preparations rt))"
  using assms in_flight_len_card [of "rt_preparations rt"] prepared_len_card [of "rt_state rt"]
  by (simp add: occupied_slots_def runtime_prepared_len_def runtime_in_flight_len_def runtime_inv_def
      preparation_inv_def)

lemma request_occupied:
  assumes inv: "runtime_inv init rt" and req: "request_preparation rt i = Inr (out, rt')"
  shows "occupied_slots rt' = occupied_slots rt + (if out = RequestStarted then 1 else 0)"
    and "in_flight_at (rt_preparations rt') =
      (if out = RequestStarted then insert (pi_coord i) (in_flight_at (rt_preparations rt))
       else in_flight_at (rt_preparations rt))"
    and "out = RequestStarted \<Longrightarrow> map_of (rt_preparations rt') (pi_coord i) = Some (InFlight i)"
proof -
  have inv': "runtime_inv init rt'" using private_steps(1) [OF inv req] by (simp add: private_change_def)
  from req obtain slots where s: "prep_request (rt_state rt) i (rt_preparations rt) = Inr (out, slots)"
    "rt' = rt\<lparr>rt_preparations := slots\<rparr>" by (auto simp: request_preparation_Inr)
  show started: "map_of (rt_preparations rt') (pi_coord i) = Some (InFlight i)" if "out = RequestStarted"
    using s that by (auto simp: prep_request_def Let_def keyed_simps split: option.splits if_splits preparation_slot.splits)
  have old: "out = RequestStarted \<Longrightarrow> pi_coord i \<notin> in_flight_at (rt_preparations rt)"
    using s by (auto simp: prep_request_def Let_def in_flight_at_def split: option.splits if_splits preparation_slot.splits)
  show at: "in_flight_at (rt_preparations rt') =
      (if out = RequestStarted then insert (pi_coord i) (in_flight_at (rt_preparations rt))
       else in_flight_at (rt_preparations rt))"
    using s by (auto simp: prep_request_def Let_def in_flight_at_def keyed_simps
        split: option.splits if_splits preparation_slot.splits)
  show "occupied_slots rt' = occupied_slots rt + (if out = RequestStarted then 1 else 0)"
    unfolding occupied_card [OF inv] occupied_card [OF inv'] at
    using old s(2) finite_in_flight_at by simp
qed

lemma abandon_occupied:
  assumes inv: "runtime_inv init rt"
    and ab: "cancel_preparation rt i = Inr (out, rt') \<or> fail_preparation rt i = Inr (out, rt')"
  shows "occupied_slots rt = occupied_slots rt' + (if out = AbandonRemoved then 1 else 0)"
    and "in_flight_at (rt_preparations rt') =
      (if out = AbandonRemoved then in_flight_at (rt_preparations rt) - {pi_coord i}
       else in_flight_at (rt_preparations rt))"
    and "out = AbandonRemoved \<Longrightarrow> pi_coord i \<in> in_flight_at (rt_preparations rt)"
proof -
  have inv': "runtime_inv init rt'"
    using private_steps(3,4) [OF inv] ab by (auto simp: private_change_def)
  from ab obtain slots where s: "prep_abandon i (rt_preparations rt) = Inr (out, slots)"
    "rt' = rt\<lparr>rt_preparations := slots\<rparr>" by (auto simp: abandon_preparation_Inr)
  show was: "pi_coord i \<in> in_flight_at (rt_preparations rt)" if "out = AbandonRemoved"
    using s that by (auto simp: prep_abandon_def Let_def in_flight_at_def split: option.splits if_splits preparation_slot.splits)
  show at: "in_flight_at (rt_preparations rt') =
      (if out = AbandonRemoved then in_flight_at (rt_preparations rt) - {pi_coord i}
       else in_flight_at (rt_preparations rt))"
    using s by (auto simp: prep_abandon_def Let_def in_flight_at_def keyed_simps
        split: option.splits if_splits preparation_slot.splits)
  show "occupied_slots rt = occupied_slots rt' + (if out = AbandonRemoved then 1 else 0)"
    unfolding occupied_card [OF inv] occupied_card [OF inv'] at
    using was s(2) card_Suc_Diff1 [OF finite_in_flight_at, of "pi_coord i" "rt_preparations rt"] by auto
qed

lemma complete_occupied:
  assumes inv: "runtime_inv init rt" and comp: "complete_preparation rt a = Inr (out, rt')"
  shows "occupied_slots rt' = occupied_slots rt"
    and "in_flight_at (rt_preparations rt') \<subseteq> in_flight_at (rt_preparations rt)"
proof -
  have inv': "runtime_inv init rt'" using private_steps(2) [OF inv comp] by (simp add: private_change_def)
  have finv: "frontier_inv (rt_state rt)" using inv by (simp add: runtime_inv_def)
  let ?c = "pi_coord (pa_identity a)"
  from comp obtain slots f' where s: "prep_complete (rt_state rt) a (rt_preparations rt) = Inr (out, slots, f')"
    "rt' = rt\<lparr>rt_state := f', rt_preparations := slots\<rparr>" by (auto simp: complete_preparation_Inr)
  show "occupied_slots rt' = occupied_slots rt"
    using s(1)
  proof (cases rule: prep_complete_cases)
    case again
    with s(2) show ?thesis by simp
  next
    case (first t)
    have "prepared_at f' = insert ?c (prepared_at (rt_state rt))" "?c \<notin> prepared_at (rt_state rt)"
      using transition_state [OF finv first(4)] first(2) by (auto simp: prepared_at_def)
    moreover have "in_flight_at slots = in_flight_at (rt_preparations rt) - {?c}"
      "?c \<in> in_flight_at (rt_preparations rt)"
      using first(1,5) by (auto simp: in_flight_at_def keyed_simps)
    ultimately show ?thesis
      using occupied_card [OF inv] occupied_card [OF inv'] prepared_len_card(2) [OF finv]
        card_Suc_Diff1 [OF finite_in_flight_at, of ?c "rt_preparations rt"] by (simp add: s(2))
  qed
  show "in_flight_at (rt_preparations rt') \<subseteq> in_flight_at (rt_preparations rt)"
    using s(1) by (cases rule: prep_complete_cases) (auto simp: s(2) in_flight_at_def keyed_simps)
qed

lemma cancel_after_request:
  assumes "request_preparation rt i = Inr (RequestStarted, rt1)"
  shows "\<exists>rt2. cancel_preparation rt1 i = Inr (AbandonRemoved, rt2)"
proof -
  have "map_of (rt_preparations rt1) (pi_coord i) = Some (InFlight i)"
    "pi_generator_version i = rt_generator_version rt1"
    using assms by (auto simp: request_preparation_Inr prep_request_def Let_def keyed_simps
        split: option.splits if_splits preparation_slot.splits)
  then show ?thesis
    by (simp add: cancel_preparation_def validate_preparation_generator_def prep_cancel_def prep_abandon_def Let_def)
qed

section \<open>The scheduler's invariant\<close>

text \<open>
  A quadrant whose attempts are exhausted is not in flight, so it cannot fail again: the failures
  recorded never pass the maximum by more than one.
\<close>

definition retry_ok :: "'c scheduler \<Rightarrow> frontier_runtime \<Rightarrow> bool" where
  "retry_ok sc rt \<longleftrightarrow> (\<forall>c r. sc_retries sc c = Some r \<longrightarrow>
     unat (rs_failures r) \<le> unat (ss_max_retry_attempts (sc_settings sc)) + 1 \<and>
     (rs_exhausted r \<longleftrightarrow> ss_max_retry_attempts (sc_settings sc) < rs_failures r) \<and>
     (rs_exhausted r \<longrightarrow> c \<notin> in_flight_at (rt_preparations rt)))"

definition evaluation_keeps ::
  "quadrant_coord list \<Rightarrow> 'c scheduler \<Rightarrow> frontier_runtime \<Rightarrow> 'c scheduler \<Rightarrow> frontier_runtime \<Rightarrow> bool" where
  "evaluation_keeps init sc rt sc' rt' \<longleftrightarrow>
     private_change init rt rt' \<and> retry_ok sc' rt' \<and> sc_settings sc' = sc_settings sc"

lemma evaluation_keeps_trans:
  "evaluation_keeps init sc rt sc1 rt1 \<Longrightarrow> evaluation_keeps init sc1 rt1 sc2 rt2 \<Longrightarrow>
    evaluation_keeps init sc rt sc2 rt2"
  by (auto simp: evaluation_keeps_def intro: private_change_trans)

lemma evaluation_keeps_refl:
  "runtime_inv init rt \<Longrightarrow> retry_ok sc rt \<Longrightarrow> evaluation_keeps init sc rt sc rt"
  by (simp add: evaluation_keeps_def private_change_refl)

lemma retry_ok_shrink:
  assumes "retry_ok sc rt" "in_flight_at (rt_preparations rt') \<subseteq> in_flight_at (rt_preparations rt)"
    and "sc_retries sc' = sc_retries sc \<or> (\<exists>c. sc_retries sc' = (sc_retries sc)(c := None))"
    and "sc_settings sc' = sc_settings sc"
  shows "retry_ok sc' rt'"
  using assms unfolding retry_ok_def by (metis fun_upd_apply option.distinct(1) subsetD)

lemma consume_completed_keeps:
  assumes inv: "runtime_inv init rt" and ok: "retry_ok sc rt"
    and run: "consume_completed a (sc, rt, rep) = (r, sc', rt', rep')"
  shows "evaluation_keeps init sc rt sc' rt' \<and> occupied_slots rt' \<le> occupied_slots rt \<and> r \<noteq> Inl RevisionMutated"
proof (cases "\<exists>out rt1. verify_retained sc a = Inr () \<and> complete_preparation rt a = Inr (out, rt1)")
  case True
  then obtain out rt1 where c: "verify_retained sc a = Inr ()" "complete_preparation rt a = Inr (out, rt1)" by blast
  note p = private_steps(2) [OF inv c(2)] and o = complete_occupied [OF inv c(2)]
  from p have rev: "revision (rt_state rt1) = revision (rt_state rt)" by (simp add: private_change_def)
  with run c have e: "r = Inr ()" "rt' = rt1"
    "sc' = sc\<lparr>sc_retries := (sc_retries sc)(pi_coord (pa_identity a) := None)\<rparr>"
    by (auto simp: consume_completed_def Let_def)
  have "retry_ok sc' rt1" by (rule retry_ok_shrink [OF ok o(2)]) (auto simp: e)
  with p o e show ?thesis by (simp add: evaluation_keeps_def)
next
  case False
  then have "rt' = rt \<and> sc' = sc \<and> r \<noteq> Inl RevisionMutated"
    using run by (auto simp: consume_completed_def Let_def verify_retained_def split: sum.splits option.splits
        prod.splits if_splits)
  with evaluation_keeps_refl [OF inv ok] show ?thesis by simp
qed

lemma consume_failed_keeps:
  assumes inv: "runtime_inv init rt" and ok: "retry_ok sc rt"
    and run: "consume_failed i now (sc, rt, rep) = (r, sc', rt', rep')"
  shows "evaluation_keeps init sc rt sc' rt' \<and> occupied_slots rt' \<le> occupied_slots rt \<and> r \<noteq> Inl RevisionMutated"
proof (cases "fail_preparation rt i")
  case (Inl e)
  with run have e: "r = Inl (SchedulerRuntime e)" "rt' = rt" "sc' = remove_retained i sc"
    by (auto simp: consume_failed_def Let_def)
  have "retry_ok sc' rt" by (rule retry_ok_shrink [OF ok]) (auto simp: e remove_retained_def)
  with private_change_refl [OF inv] show ?thesis by (simp add: evaluation_keeps_def e remove_retained_def)
next
  case (Inr p)
  obtain out rt1 where f: "fail_preparation rt i = Inr (out, rt1)" using Inr by (cases p) auto
  note pc = private_steps(4) [OF inv f]
  note o = abandon_occupied [OF inv disjI2 [OF f]]
  from pc have rev: "revision (rt_state rt1) = revision (rt_state rt)" by (simp add: private_change_def)
  show ?thesis
  proof (cases "out = AbandonRemoved")
    case False
    with run f have e: "r \<noteq> Inl RevisionMutated" "rt' = rt1" "sc' = remove_retained i sc"
      by (cases out; auto simp: consume_failed_def Let_def)+
    have "retry_ok sc' rt1" by (rule retry_ok_shrink [OF ok]) (auto simp: e remove_retained_def o False)
    with pc o e show ?thesis by (simp add: evaluation_keeps_def remove_retained_def)
  next
    case True
    let ?max = "ss_max_retry_attempts (sc_settings sc)"
    let ?retry = "retry_after_failure (sc_settings sc) now (sc_retries sc (pi_coord i))"
    from run f True rev have e: "r = Inr ()" "rt' = rt1" "sc_settings sc' = sc_settings sc"
      "sc_retries sc' = (sc_retries sc)(pi_coord i \<mapsto> ?retry)"
      by (auto simp: consume_failed_def Let_def remove_retained_def)
    have in_flight: "pi_coord i \<in> in_flight_at (rt_preparations rt)" by (rule o(3) [OF True])
    have old: "unat (rs_failures r) \<le> unat ?max \<and> \<not> rs_exhausted r"
      if "sc_retries sc (pi_coord i) = Some r" for r
      using ok that in_flight unfolding retry_ok_def by (metis linorder_not_less word_le_nat_alt)
    have new: "unat (rs_failures ?retry) \<le> unat ?max + 1 \<and> (rs_exhausted ?retry \<longleftrightarrow> ?max < rs_failures ?retry)"
      using old by (auto simp: retry_after_failure_def Let_def unat_saturating_add split: option.splits)
    have "retry_ok sc' rt1"
      using ok new unfolding retry_ok_def e o(2)
      by (auto simp: True)
    with pc o e show ?thesis by (simp add: evaluation_keeps_def)
  qed
qed

lemma consume_results_keeps:
  "runtime_inv init rt \<Longrightarrow> retry_ok sc rt \<Longrightarrow>
    consume_results xs disc now (sc, rt, rep) = (r, sc', rt', rep') \<Longrightarrow>
    evaluation_keeps init sc rt sc' rt' \<and> occupied_slots rt' \<le> occupied_slots rt \<and> r \<noteq> Inl RevisionMutated"
proof (induction xs arbitrary: sc rt rep)
  case Nil
  then show ?case by (auto simp: evaluation_keeps_refl split: if_splits)
next
  case (Cons x xs)
  obtain r1 sc1 rt1 rep1 where x: "consume_event x now (sc, rt, rep) = (r1, sc1, rt1, rep1)" by (metis surj_pair)
  have k: "evaluation_keeps init sc rt sc1 rt1 \<and> occupied_slots rt1 \<le> occupied_slots rt \<and> r1 \<noteq> Inl RevisionMutated"
    using x consume_completed_keeps [OF Cons.prems(1,2)] consume_failed_keeps [OF Cons.prems(1,2)]
    by (cases x) simp_all
  show ?case
  proof (cases r1)
    case (Inl e)
    with Cons.prems(3) x k show ?thesis by auto
  next
    case (Inr u)
    with Cons.prems(3) x have rest: "consume_results xs disc now (sc1, rt1, rep1) = (r, sc', rt', rep')" by simp
    from k have "runtime_inv init rt1" "retry_ok sc1 rt1" by (simp_all add: evaluation_keeps_def private_change_def)
    from Cons.IH [OF this rest] k show ?thesis by (auto intro: evaluation_keeps_trans)
  qed
qed

lemma request_keeps:
  assumes inv: "runtime_inv init rt" and ok: "retry_ok sc rt" and allows: "retry_allows sc (pi_coord i) now"
    and req: "request_preparation rt i = Inr (out, rt1)"
  shows "evaluation_keeps init sc rt sc rt1"
proof -
  note o = request_occupied [OF inv req]
  have "\<not> rs_exhausted r" if "sc_retries sc (pi_coord i) = Some r" for r
    using allows that by (simp add: retry_allows_def)
  then have "retry_ok sc rt1" using ok unfolding retry_ok_def o(2) by auto
  with private_steps(1) [OF inv req] show ?thesis by (simp add: evaluation_keeps_def)
qed

lemma cancel_keeps:
  assumes inv: "runtime_inv init rt" and ok: "retry_ok sc rt"
    and "cancel_preparation rt i = Inr (out, rt1)"
  shows "evaluation_keeps init sc rt sc rt1"
proof -
  have "in_flight_at (rt_preparations rt1) \<subseteq> in_flight_at (rt_preparations rt)"
    unfolding abandon_occupied(2) [OF inv disjI1 [OF assms(3)]] by auto
  then have "retry_ok sc rt1" by (rule retry_ok_shrink [OF ok]) auto
  with private_steps(3) [OF inv assms(3)] show ?thesis by (simp add: evaluation_keeps_def)
qed

lemma candidate_identity_coord:
  "candidate_identity hash sc rt coord = Inr i \<Longrightarrow> pi_coord i = coord"
  by (auto simp: candidate_identity_def runtime_preparation_identity_def preparation_identity_new_def
      split: sum.splits if_splits)

text \<open>The loop spends at most what is left of its budget.\<close>

lemma schedule_loop_keeps:
  "runtime_inv init rt \<Longrightarrow> retry_ok sc rt \<Longrightarrow>
    schedule_loop submit hash now budget coords admitted ((sc, rt, rep), w) = (r, (sc', rt', rep'), w') \<Longrightarrow>
    evaluation_keeps init sc rt sc' rt' \<and> occupied_slots rt' \<le> occupied_slots rt + (budget - admitted)"
proof (induction coords arbitrary: admitted rt rep w)
  case Nil
  then show ?case by (auto simp: evaluation_keeps_refl)
next
  case (Cons c cs)
  note inv = Cons.prems(1) and ok = Cons.prems(2) and run = Cons.prems(3)
  show ?case
  proof (cases "budget \<le> admitted \<or> \<not> retry_allows sc c now \<or> (\<forall>i. candidate_identity hash sc rt c = Inr i \<longrightarrow>
      (\<forall>out rt1. request_preparation rt i \<noteq> Inr (out, rt1)))")
    case True
    show ?thesis
    proof (cases "admitted < budget \<and> \<not> retry_allows sc c now")
      case skip: True
      show ?thesis by (rule Cons.IH [OF inv ok]) (use run skip in simp)
    next
      case False
      with True run evaluation_keeps_refl [OF inv ok] show ?thesis by (auto split: if_splits sum.splits)
    qed
  next
    case False
    then obtain i out rt1 where lt: "admitted < budget" and allow: "retry_allows sc c now"
      and i: "candidate_identity hash sc rt c = Inr i" and req: "request_preparation rt i = Inr (out, rt1)" by auto
    note k1 = request_keeps [OF inv ok _ req, of now] and o1 = request_occupied(1) [OF inv req]
    have k1: "evaluation_keeps init sc rt sc rt1" using k1 allow candidate_identity_coord [OF i] by simp
    then have inv1: "runtime_inv init rt1" and ok1: "retry_ok sc rt1"
      by (simp_all add: evaluation_keeps_def private_change_def)
    note ih = Cons.IH [OF inv1 ok1]
    show ?thesis
    proof (cases "out = RequestStarted")
      case False
      have rest: "schedule_loop submit hash now budget cs admitted ((sc, rt1, rep), w) = (r, (sc', rt', rep'), w')"
        using run lt allow i req False by (cases out) simp_all
      from ih [OF rest] k1 o1 False show ?thesis by (auto intro: evaluation_keeps_trans)
    next
      case True
      obtain sub w1 where sub: "submit w i = (sub, w1)" by fastforce
      obtain rt2 where can: "cancel_preparation rt1 i = Inr (AbandonRemoved, rt2)"
        using cancel_after_request req True by blast
      note k2 = evaluation_keeps_trans [OF k1 cancel_keeps [OF inv1 ok1 can]]
      have o2: "occupied_slots rt2 = occupied_slots rt"
        using abandon_occupied(1) [OF inv1 disjI1 [OF can]] o1 True by simp
      show ?thesis
      proof (cases "sub = Submitted \<or> sub = Duplicate")
        case True
        then obtain rep1 where rest:
          "schedule_loop submit hash now budget cs (admitted + 1) ((sc, rt1, rep1), w1) = (r, (sc', rt', rep'), w')"
          using run lt allow i req \<open>out = RequestStarted\<close> sub by fastforce
        from ih [OF rest] k1 o1 lt \<open>out = RequestStarted\<close> show ?thesis by (auto intro: evaluation_keeps_trans)
      next
        case False
        then have "rt' = rt2 \<and> sc' = sc"
          using run lt allow i req \<open>out = RequestStarted\<close> sub can
          by (cases sub) (simp_all add: roll_back_def)
        with k2 o2 show ?thesis by simp
      qed
    qed
  qed
qed

lemma evaluate_keeps:
  assumes inv: "runtime_inv init rt" and ok: "retry_ok sc rt"
    and run: "evaluate submit hash events disc now sc rt w = (r, sc', rt', w')"
  shows "evaluation_keeps init sc rt sc' rt'"
    and "occupied_slots rt' \<le> max (occupied_slots rt) (ss_max_prepared_quadrants (sc_settings sc))"
proof -
  obtain r1 sc1 rt1 rep1 where c: "consume_results events disc now (sc, rt, report_default) = (r1, sc1, rt1, rep1)"
    by (metis surj_pair)
  note k1 = consume_results_keeps [OF inv ok c]
  have inv1: "runtime_inv init rt1" "retry_ok sc1 rt1" "sc_settings sc1 = sc_settings sc"
    using k1 by (simp_all add: evaluation_keeps_def private_change_def)
  have "evaluation_keeps init sc rt sc' rt' \<and>
    occupied_slots rt' \<le> max (occupied_slots rt) (ss_max_prepared_quadrants (sc_settings sc))"
  proof (cases r1)
    case (Inl e)
    with run c k1 show ?thesis by (auto simp: evaluate_def)
  next
    case (Inr u)
    obtain r2 sc2 rt2 rep2 w2 where s: "schedule_candidates submit hash now ((sc1, rt1, rep1), w) = (r2, (sc2, rt2, rep2), w2)"
      by (metis surj_pair)
    have out: "sc' = sc2" "rt' = rt2"
      using run c Inr s by (auto simp: evaluate_def split: sum.splits)
    let ?limit = "ss_max_prepared_quadrants (sc_settings sc)"
    show ?thesis
    proof (cases "\<exists>budget. occupied_slots rt1 + budget \<le> ?limit \<and>
        schedule_loop submit hash now budget (runtime_candidate_quadrants rt1) 0 ((sc1, rt1, rep1), w) = (r2, (sc2, rt2, rep2), w2)")
      case True
      then obtain budget where b: "occupied_slots rt1 + budget \<le> ?limit"
        "schedule_loop submit hash now budget (runtime_candidate_quadrants rt1) 0 ((sc1, rt1, rep1), w) = (r2, (sc2, rt2, rep2), w2)"
        by blast
      from schedule_loop_keeps [OF inv1(1,2) b(2)] b(1) k1 out show ?thesis by (auto intro: evaluation_keeps_trans)
    next
      case False
      from s have "sc2 = sc1 \<and> rt2 = rt1"
        by (auto simp: schedule_candidates_def Let_def inv1(3) split: if_splits)
          (use False in \<open>auto simp: inv1(3)\<close>)
      with k1 out show ?thesis by auto
    qed
  qed
  then show "evaluation_keeps init sc rt sc' rt'"
    "occupied_slots rt' \<le> max (occupied_slots rt) (ss_max_prepared_quadrants (sc_settings sc))" by simp_all
qed

section \<open>The scheduler at work\<close>

text \<open>
  What happens to the scheduler and the frontier while the server runs: evaluations, reveals, and
  artifacts the executor retains, in any order.
\<close>

datatype scheduler_op =
  Evaluate nat "worker_event list" bool
| RevealQuadrant unlock_requirements requirement_resolver
| ExecutorRetains preparation_identity

fun scheduler_step ::
  "('w \<Rightarrow> preparation_identity \<Rightarrow> submission_outcome \<times> 'w) \<Rightarrow> (u8 list \<Rightarrow> u8 list \<Rightarrow> u8 list)
     \<Rightarrow> (quadrant_coord \<Rightarrow> u32 \<Rightarrow> string + 'c retained_terrain)
     \<Rightarrow> 'c scheduler \<times> frontier_runtime \<times> 'w \<Rightarrow> scheduler_op \<Rightarrow> 'c scheduler \<times> frontier_runtime \<times> 'w" where
  "scheduler_step submit hash generate (sc, rt, w) (Evaluate now events disc) =
     snd (evaluate submit hash events disc now sc rt w)"
| "scheduler_step submit hash generate (sc, rt, w) (RevealQuadrant reqs res) =
     (sc, runtime_step rt (CommitReveal reqs res), w)"
| "scheduler_step submit hash generate (sc, rt, w) (ExecutorRetains i) = (executor_retain generate i sc, rt, w)"

definition scheduler_inv :: "quadrant_coord list \<Rightarrow> scheduler_settings \<Rightarrow> 'c scheduler \<times> frontier_runtime \<times> 'w \<Rightarrow> bool" where
  "scheduler_inv init settings s \<longleftrightarrow>
     (case s of (sc, rt, w) \<Rightarrow> runtime_inv init rt \<and> retry_ok sc rt \<and> sc_settings sc = settings \<and>
        occupied_slots rt \<le> ss_max_prepared_quadrants settings)"

lemma reveal_occupied:
  assumes inv: "runtime_inv init rt"
  shows "occupied_slots (runtime_step rt (CommitReveal reqs res)) \<le> occupied_slots rt"
    and "rt_preparations (runtime_step rt (CommitReveal reqs res)) = rt_preparations rt"
proof -
  let ?rt' = "runtime_step rt (CommitReveal reqs res)"
  have inv': "runtime_inv init ?rt'" by (rule runtime_inv_step [OF inv])
  have finv: "frontier_inv (rt_state rt)" using inv by (simp add: runtime_inv_def)
  show same: "rt_preparations ?rt' = rt_preparations rt"
    by (auto simp: commit_reveal_def split: option.splits)
  have "prepared_at (rt_state ?rt') \<subseteq> prepared_at (rt_state rt)"
    using finv
  proof (cases rule: runtime_step_cases [where op = "CommitReveal reqs res"])
    case (reveal reqs' res' t d f')
    note after = reveal_commit_done [OF finv reveal(3)]
    show ?thesis unfolding reveal(1) prepared_at_def using after(3) by (auto split: if_splits)
  next
    case (completed a out slots f')
    from completed(1) same have "rt_preparations rt = slots" by simp
    with completed(2) have "f' = rt_state rt"
    proof (cases rule: prep_complete_cases)
      case (first t)
      have "map_of slots (pi_coord (pa_identity a)) = Some (PreparedSlot a)" by (simp add: first(5) keyed_simps)
      with first(1) \<open>rt_preparations rt = slots\<close> show ?thesis by simp
    qed simp
    then show ?thesis unfolding completed(1) by simp
  qed simp_all
  then have "card (prepared_at (rt_state ?rt')) \<le> card (prepared_at (rt_state rt))"
    by (rule card_mono [OF prepared_len_card(2) [OF finv]])
  then show "occupied_slots ?rt' \<le> occupied_slots rt"
    unfolding occupied_card [OF inv] occupied_card [OF inv'] same by simp
qed

lemma scheduler_inv_step:
  assumes "scheduler_inv init settings s"
  shows "scheduler_inv init settings (scheduler_step submit hash generate s op)"
proof -
  obtain sc rt w where s: "s = (sc, rt, w)" by (cases s)
  from assms s have inv: "runtime_inv init rt" and ok: "retry_ok sc rt" and st: "sc_settings sc = settings"
    and oc: "occupied_slots rt \<le> ss_max_prepared_quadrants settings" by (simp_all add: scheduler_inv_def)
  show ?thesis
  proof (cases op)
    case (Evaluate now events disc)
    obtain r sc' rt' w' where e: "evaluate submit hash events disc now sc rt w = (r, sc', rt', w')" by (metis surj_pair)
    from evaluate_keeps [OF inv ok e] st oc Evaluate e s show ?thesis
      by (simp add: scheduler_inv_def evaluation_keeps_def private_change_def)
  next
    case (RevealQuadrant reqs res)
    have "retry_ok sc (runtime_step rt (CommitReveal reqs res))"
      by (rule retry_ok_shrink [OF ok]) (auto simp: reveal_occupied(2) [OF inv] simp del: runtime_step.simps)
    with reveal_occupied(1) [OF inv, of reqs res] runtime_inv_step [OF inv, of "CommitReveal reqs res"] RevealQuadrant s st oc
    show ?thesis by (simp add: scheduler_inv_def del: runtime_step.simps)
  next
    case (ExecutorRetains i)
    have "retry_ok (executor_retain generate i sc) rt" "sc_settings (executor_retain generate i sc) = settings"
      using ok st by (auto simp: executor_retain_def retry_ok_def split: sum.splits)
    with ExecutorRetains s inv oc show ?thesis by (simp add: scheduler_inv_def)
  qed
qed

interpretation scheduler_machine:
  invariant_machine "scheduler_step submit hash generate" "scheduler_inv init settings"
  by unfold_locales (rule scheduler_inv_step)

lemma executor_result_identity: "executor_result generate i = Inr a \<Longrightarrow> pa_identity a = i"
  by (auto simp: executor_result_def terrain_execute_def prepared_artifact_new_def split: sum.splits if_splits)

interpretation terrain_executor: preparation_executor "executor_result generate"
  by unfold_locales (rule executor_result_identity)

lemma executor_verifies:
  assumes "executor_result generate i = Inr a"
  shows "verify_retained (executor_retain generate i sc) a = Inr ()"
proof -
  from assms obtain terrain where t: "terrain_execute generate i = Inr (a, terrain)"
    by (auto simp: executor_result_def map_sum_def split: sum.splits)
  then have "fingerprint_new (rn_fingerprint terrain) = Inr (pa_fingerprint a)" "rn_byte_len terrain = pa_bytes a"
    "pa_identity a = i"
    by (auto simp: terrain_execute_def prepared_artifact_new_def split: sum.splits if_splits)
  with t show ?thesis by (simp add: verify_retained_def executor_retain_def keyed_simps)
qed

section \<open>Properties\<close>

text \<open>
  C11: the preparation budget and the retry limit hold for ever: from the start of the server, after any
  sequence of evaluations, reveals and retained artifacts, with any behaviour of the worker's queues, the prepared and
  the pending quadrants together never exceed the budget, and no quadrant fails more than once past its attempts.
\<close>

theorem scheduler_respects_budget:
  assumes "rectangular m wd ht = Inr i" "runtime_new i rev0 gen size_mm = Some (Inr rt)"
    and "(sc, rt', w') = foldl (scheduler_step submit hash generate) (scheduler_spawn settings seed size_mm gen, rt, w) ops"
  shows "occupied_slots rt' \<le> ss_max_prepared_quadrants settings \<and>
    (\<forall>c r. sc_retries sc c = Some r \<longrightarrow>
      unat (rs_failures r) \<le> unat (ss_max_retry_attempts settings) + 1)"
proof -
  have inv: "runtime_inv (initial_quadrants i) rt" by (rule runtime_new_inv [OF assms(1,2)])
  have preps: "rt_preparations rt = []" and no_prep: "occupied_slots rt = 0"
  proof -
    from assms(2) show preps: "rt_preparations rt = []"
      by (auto simp: runtime_new_def Let_def split: sum.splits option.splits)
    then have "prepared_at (rt_state rt) = {}"
      using inv preparation_invD(3) [of "rt_state rt" "[]"] by (auto simp: runtime_inv_def prepared_at_def)
    then show "occupied_slots rt = 0" unfolding occupied_card [OF inv] by (simp add: preps in_flight_at_def)
  qed
  have "scheduler_inv (initial_quadrants i) settings (scheduler_spawn settings seed size_mm gen, rt, w)"
    using inv by (simp add: scheduler_inv_def scheduler_spawn_def retry_ok_def no_prep)
  from scheduler_machine.inv_run [OF this, of submit hash generate ops] show ?thesis
    unfolding assms(3) [symmetric] by (auto simp: scheduler_inv_def retry_ok_def)
qed

text \<open>
  Preparation is private: an evaluation, whatever results it takes and however it ends, publishes nothing. The
  manifest clients see, the revision and the revealed quadrants stay as they are, and its own check for a changed
  revision never fires while it takes results.
\<close>

theorem evaluation_is_private:
  assumes "runtime_inv init rt" "retry_ok sc rt"
    and "evaluate submit hash events disc now sc rt w = (r, sc', rt', w')"
  shows "runtime_manifest rt' = runtime_manifest rt \<and> runtime_inv init rt' \<and>
    fst (consume_results events disc now (sc, rt, report_default)) \<noteq> Inl RevisionMutated"
proof -
  obtain r1 sc1 rt1 rep1 where c: "consume_results events disc now (sc, rt, report_default) = (r1, sc1, rt1, rep1)"
    by (metis surj_pair)
  from evaluate_keeps(1) [OF assms] consume_results_keeps [OF assms(1,2) c] c show ?thesis
    by (simp add: evaluation_keeps_def private_change_def runtime_manifest_def build_manifest_def)
qed

text \<open>
  What the executor prepares is committed: for a quadrant whose preparation is in flight, the artifact the executor
  retains and reports passes every check of the evaluation and becomes the quadrant's prepared artifact.
\<close>

theorem executor_result_commits:
  assumes "runtime_inv init rt" "pi_generator_version i = rt_generator_version rt"
    and "map_of (rt_preparations rt) (pi_coord i) = Some (InFlight i)"
    and "executor_result generate i = Inr a"
  shows "\<exists>sc' rt' report'.
    consume_event (Completed a) now (executor_retain generate i sc, rt, report) = (Inr (), sc', rt', report') \<and>
    prep_prepared_artifact (rt_preparations rt') i = Some a \<and> rp_completed report' = rp_completed report + 1"
proof -
  have ida: "pa_identity a = i" by (rule terrain_executor.execute_identity [OF assms(4)])
  have pinv: "preparation_inv (rt_state rt) (rt_preparations rt)" using assms(1) by (simp add: runtime_inv_def)
  from prep_complete_succeeds [OF pinv, of a] obtain t f' where
    p: "prep_complete (rt_state rt) a (rt_preparations rt) = Inr (CompletionPrepared t,
      AList.update (pi_coord i) (PreparedSlot a) (rt_preparations rt), f')"
    using assms(3) ida by auto
  have "complete_preparation rt a = Inr (CompletionPrepared t, rt\<lparr>rt_state := f',
      rt_preparations := AList.update (pi_coord i) (PreparedSlot a) (rt_preparations rt)\<rparr>)"
    using p assms(2) ida by (auto simp: complete_preparation_Inr)
  then show ?thesis
    using prep_complete_private [OF p] executor_verifies [OF assms(4), of sc]
    by (simp add: consume_completed_def Let_def prep_prepared_artifact_def keyed_simps ida)
qed

definition sample_scheduler_settings :: scheduler_settings where
  "sample_scheduler_settings = \<lparr>ss_evaluation_interval = 10, ss_max_submissions_per_tick = 1,
     ss_max_prepared_quadrants = 2, ss_retry_backoff = 20, ss_max_retry_attempts = 2\<rparr>"

definition sample_scheduler :: "nat scheduler" where
  "sample_scheduler = scheduler_spawn sample_scheduler_settings (UniverseSeed [1]) 100 7"

theorem scheduler_respects_budget_witness:
  "\<exists>rt. runtime_new sample_initial 1 7 100 = Some (Inr rt) \<and>
    occupied_slots (fst (snd (foldl (scheduler_step (\<lambda>w i. (Submitted, w)) (\<lambda>k m. [1]) (\<lambda>c g. Inl ''no''))
      (sample_scheduler, rt, ()) [Evaluate 5 [] False, Evaluate 6 [] False, Evaluate 7 [] False]))) \<le> 2"
proof (rule sample_runtime_new)
  fix rt assume new: "runtime_new sample_initial 1 7 100 = Some (Inr rt)"
  obtain sc rt' w' where s: "foldl (scheduler_step (\<lambda>w i. (Submitted, w)) (\<lambda>k m. [1]) (\<lambda>c g. Inl ''no''))
      (sample_scheduler, rt, ()) [Evaluate 5 [] False, Evaluate 6 [] False, Evaluate 7 [] False] = (sc, rt', w')"
    using surj_pair by metis
  from scheduler_respects_budget [OF sample_initial_new new s [symmetric, unfolded sample_scheduler_def]]
  have "occupied_slots rt' \<le> 2" by (simp add: sample_scheduler_settings_def)
  with new show ?thesis by (intro exI [of _ rt] conjI) (simp_all only: s fst_conv snd_conv)
qed

theorem evaluation_is_private_witness:
  "\<exists>rt. runtime_new sample_initial 1 7 100 = Some (Inr rt) \<and>
    runtime_manifest (fst (snd (snd (evaluate (\<lambda>w i. (Submitted, w)) (\<lambda>k m. [1]) [] False 0 sample_scheduler rt ())))) =
      runtime_manifest rt"
proof (rule sample_runtime_new)
  fix rt assume new: "runtime_new sample_initial 1 7 100 = Some (Inr rt)"
  obtain r sc' rt' w' where e: "evaluate (\<lambda>w i. (Submitted, w)) (\<lambda>k m. [1]) [] False 0 sample_scheduler rt () = (r, sc', rt', w')"
    by (metis surj_pair)
  have "retry_ok sample_scheduler rt" by (simp add: retry_ok_def sample_scheduler_def scheduler_spawn_def)
  from evaluation_is_private [OF runtime_new_inv [OF sample_initial_new new] this e] new e show ?thesis by auto
qed

lemma sample_candidate:
  assumes new: "runtime_new sample_initial 1 7 100 = Some (Inr rt)"
  shows "quadrant_state (rt_state rt) (QuadrantCoord 1 0) = Candidate" "rt_preparations rt = []"
    "rt_generator_version rt = 7"
proof -
  have inv: "runtime_inv [QuadrantCoord 0 0] rt"
    using runtime_new_inv [OF sample_initial_new new] by (simp add: sample_initial_def)
  show p: "rt_preparations rt = []" "rt_generator_version rt = 7"
    using new by (auto simp: runtime_new_def Let_def split: sum.splits option.splits)
  have "revealed_quadrants (rt_state rt) = [QuadrantCoord 0 0]"
    using inv p by (auto simp: runtime_inv_def)
  then have "QuadrantCoord 1 0 \<in> frontier_edge (rt_state rt)" "quadrant_state (rt_state rt) (QuadrantCoord 1 0) \<noteq> Revealed"
    using inv by (auto simp: frontier_edge_def runtime_inv_def cardinal_alt)
  with inv p show "quadrant_state (rt_state rt) (QuadrantCoord 1 0) = Candidate"
    using preparation_invD(3) [of "rt_state rt" "[]" "QuadrantCoord 1 0"]
    by (cases "quadrant_state (rt_state rt) (QuadrantCoord 1 0)") (auto simp: runtime_inv_def)
qed

theorem executor_result_commits_witness:
  "\<exists>rt sc' rt' report'. runtime_new sample_initial 1 7 100 = Some (Inr rt) \<and>
    consume_event (Completed \<lparr>pa_identity = sample_identity, pa_fingerprint = [9], pa_bytes = 4\<rparr>) 5
      (executor_retain (\<lambda>c g. Inr \<lparr>rn_contract = 0, rn_fingerprint = [9], rn_byte_len = 4\<rparr>) sample_identity sample_scheduler,
       runtime_step rt (RequestPrep sample_identity), report_default) = (Inr (), sc', rt', report')"
proof (rule sample_runtime_new)
  fix rt assume new: "runtime_new sample_initial 1 7 100 = Some (Inr rt)"
  note c = sample_candidate [OF new]
  have req: "request_preparation rt sample_identity =
      Inr (RequestStarted, rt\<lparr>rt_preparations := [(QuadrantCoord 1 0, InFlight sample_identity)]\<rparr>)"
    using c by (simp add: request_preparation_def validate_preparation_generator_def sample_identity_def prep_request_def Let_def)
  have inv: "runtime_inv [QuadrantCoord 0 0] (runtime_step rt (RequestPrep sample_identity))"
    using runtime_inv_step [OF runtime_new_inv [OF sample_initial_new new], of "RequestPrep sample_identity"]
    by (simp add: sample_initial_def)
  have ex: "executor_result (\<lambda>c g. Inr \<lparr>rn_contract = 0, rn_fingerprint = [9], rn_byte_len = 4\<rparr>) sample_identity =
      Inr \<lparr>pa_identity = sample_identity, pa_fingerprint = [9], pa_bytes = 4\<rparr>"
    by (simp add: executor_result_def terrain_execute_def fingerprint_new_def prepared_artifact_new_def)
  from executor_result_commits [OF inv _ _ ex, of 5 sample_scheduler report_default] new req c
  show ?thesis by (auto simp: sample_identity_def)
qed

end
