(* ===== verification/Loot.thy ===== *)
theory Loot
  imports Items Inventory_Grid
begin

text \<open>
  crates/simulation/src/loot.rs with the messages of crates/contracts/src/inventory.rs: the
  operations on a character's grid, equipment and items and on the dropped bags, one item at a time.
  The item definitions (dimensions, equipment slot) are arguments, as in the code. \<^term>\<open>None\<close> is a
  panic of the grid's index arithmetic.
\<close>

section \<open>Messages\<close>

record request_loot =
  lq_bag_id :: u64
  lq_item_id :: u128
  lq_target_slot :: grid_slot
  lq_rotation :: item_rotation
  lq_expected_revision :: u64

record request_move =
  mq_item_id :: u128
  mq_target_slot :: grid_slot
  mq_rotation :: item_rotation
  mq_expected_revision :: u64

record request_merge =
  gq_source_item_id :: u128
  gq_target_item_id :: u128
  gq_expected_source_revision :: u64
  gq_expected_target_revision :: u64

record request_split =
  sq_source_item_id :: u128
  sq_split_quantity :: u32
  sq_target_slot :: grid_slot
  sq_rotation :: item_rotation
  sq_expected_source_revision :: u64

record request_drop =
  dq_item_id :: u128
  dq_expected_revision :: u64

record request_equip =
  eq_item_id :: u128
  eq_target_slot :: equipment_slot
  eq_expected_revision :: u64

record request_unequip =
  uq_source_slot :: equipment_slot
  uq_target_slot :: grid_slot
  uq_rotation :: item_rotation
  uq_expected_revision :: u64

datatype loot_result =
  LootSuccess item_instance
| LootBagNotFound
| LootItemNotFound
| LootOutOfRange
| LootInventoryFull
| LootConcurrencyConflict

datatype action_result =
  ActionSuccess
| ActionItemNotFound
| InvalidPlacement
| StackLimitExceeded
| InvalidSplitQuantity
| IncompatibleItems
| IncompatibleSlot
| SlotAlreadyOccupied
| ActionConcurrencyConflict

datatype drop_result = DropSuccess u64 item_instance | DropItemNotFound | DropConcurrencyConflict

datatype open_bag_result = OpenSuccess u64 "item_instance list" | OpenBagNotFound | OpenOutOfRange

type_synonym dimensions_of = "u32 \<Rightarrow> inventory_dimensions option"
type_synonym slot_of = "u32 \<Rightarrow> equipment_slot option"

section \<open>Reach\<close>

text \<open>3.5 metres, in single precision; a distance that is no number is not greater.\<close>

definition max_interaction_distance :: f32 where
  "max_interaction_distance = F32 (7 * 2 ^ 148)"

definition out_of_reach :: "dropped_bag \<Rightarrow> f32 \<times> f32 \<Rightarrow> bool" where
  "out_of_reach bag player_pos =
     (let dx = f32_sub (db_world_x bag) (fst player_pos); dy = f32_sub (db_world_y bag) (snd player_pos)
      in f32_gt (f32_add (f32_mul dx dx) (f32_mul dy dy))
           (f32_mul max_interaction_distance max_interaction_distance))"

section \<open>Operations\<close>

definition handle_open_bag :: "bag_manager \<Rightarrow> u64 \<Rightarrow> f32 \<times> f32 \<Rightarrow> open_bag_result" where
  "handle_open_bag m bag_id player_pos =
     (case get_bag m bag_id of
        None \<Rightarrow> OpenBagNotFound
      | Some bag \<Rightarrow>
          if out_of_reach bag player_pos then OpenOutOfRange else OpenSuccess (db_id bag) (db_items bag))"

text \<open>\<open>get_bag_mut\<close> and a change of the bag in place.\<close>

definition put_bag :: "u64 \<Rightarrow> dropped_bag \<Rightarrow> bag_manager \<Rightarrow> bag_manager" where
  "put_bag i b m = m\<lparr>bm_bags := AList.update i b (bm_bags m)\<rparr>"

definition handle_loot ::
  "bag_manager \<Rightarrow> inventory_grid \<Rightarrow> request_loot \<Rightarrow> u64 \<Rightarrow> f32 \<times> f32 \<Rightarrow> dimensions_of
     \<Rightarrow> (loot_result \<times> bag_manager \<times> inventory_grid) option" where
  "handle_loot m grid q player_id player_pos dims =
     (case get_bag m (lq_bag_id q) of
        None \<Rightarrow> Some (LootBagNotFound, m, grid)
      | Some bag \<Rightarrow>
          if out_of_reach bag player_pos then Some (LootOutOfRange, m, grid)
          else (case position (\<lambda>i. it_id i = lq_item_id q) (db_items bag) of
            None \<Rightarrow> Some (LootItemNotFound, m, grid)
          | Some idx \<Rightarrow>
              if it_revision (db_items bag ! idx) \<noteq> lq_expected_revision q
              then Some (LootConcurrencyConflict, m, grid)
              else (case dims (it_definition_id (db_items bag ! idx)) of
                None \<Rightarrow> Some (LootItemNotFound, m, grid)
              | Some d \<Rightarrow>
                  (case can_place_at grid (lq_target_slot q) d (lq_rotation q) None of
                     None \<Rightarrow> None
                   | Some (Inl e) \<Rightarrow> Some (LootInventoryFull, m, grid)
                   | Some (Inr _) \<Rightarrow>
                       (case swap_remove idx (db_items bag) of (item, rest) \<Rightarrow>
                         (case place_item grid (it_id item) (lq_target_slot q) d (lq_rotation q) of
                            None \<Rightarrow> None
                          | Some placed \<Rightarrow>
                              Some (LootSuccess (transfer_ownership item (OwnedByCharacter player_id)),
                                    put_bag (lq_bag_id q) (bag\<lparr>db_items := rest\<rparr>) m,
                                    case placed of Inl e \<Rightarrow> grid | Inr g \<Rightarrow> g)))))))"

definition handle_move_or_rotate ::
  "inventory_grid \<Rightarrow> item_instance \<Rightarrow> request_move \<Rightarrow> (action_result \<times> inventory_grid \<times> item_instance) option"
where
  "handle_move_or_rotate grid item q =
     (if it_id item \<noteq> mq_item_id q then Some (ActionItemNotFound, grid, item)
      else if it_revision item \<noteq> mq_expected_revision q then Some (ActionConcurrencyConflict, grid, item)
      else (case rotate_or_move grid (it_id item) (mq_target_slot q) (mq_rotation q) of
              None \<Rightarrow> None
            | Some (Inl e, g) \<Rightarrow> Some (InvalidPlacement, g, item)
            | Some (Inr _, g) \<Rightarrow>
                Some (ActionSuccess, g, item\<lparr>it_revision := saturating_add (it_revision item) 1\<rparr>)))"

text \<open>The pair of the result are the source and the target after the transfer.\<close>

definition handle_merge_stack ::
  "inventory_grid \<Rightarrow> item_instance \<Rightarrow> item_instance \<Rightarrow> u32 \<Rightarrow> request_merge
     \<Rightarrow> ((action_result + bool) \<times> inventory_grid \<times> item_instance \<times> item_instance) option" where
  "handle_merge_stack grid source target max_stack q =
     (if it_id source \<noteq> gq_source_item_id q \<or> it_id target \<noteq> gq_target_item_id q
      then Some (Inl ActionItemNotFound, grid, source, target)
      else if it_revision source \<noteq> gq_expected_source_revision q \<or> it_revision target \<noteq> gq_expected_target_revision q
      then Some (Inl ActionConcurrencyConflict, grid, source, target)
      else if it_definition_id source \<noteq> it_definition_id target
      then Some (Inl IncompatibleItems, grid, source, target)
      else if max_stack \<le> it_quantity target then Some (Inl StackLimitExceeded, grid, source, target)
      else (let amount = min (it_quantity source) (max_stack - it_quantity target);
                source' = source\<lparr>it_quantity := it_quantity source - amount,
                                 it_revision := saturating_add (it_revision source) 1\<rparr>;
                target' = target\<lparr>it_quantity := it_quantity target + amount,
                                 it_revision := saturating_add (it_revision target) 1\<rparr>
            in if it_quantity source' = 0
               then map_option (\<lambda>(_, g). (Inr True, g, source', target')) (remove_item grid (it_id source))
               else Some (Inr False, grid, source', target')))"

definition handle_split_stack ::
  "inventory_grid \<Rightarrow> item_instance \<Rightarrow> request_split \<Rightarrow> u128 \<Rightarrow> dimensions_of
     \<Rightarrow> ((action_result + item_instance) \<times> inventory_grid \<times> item_instance) option" where
  "handle_split_stack grid source q new_id dims =
     (if it_id source \<noteq> sq_source_item_id q then Some (Inl ActionItemNotFound, grid, source)
      else if it_revision source \<noteq> sq_expected_source_revision q
      then Some (Inl ActionConcurrencyConflict, grid, source)
      else if sq_split_quantity q = 0 \<or> it_quantity source \<le> sq_split_quantity q
      then Some (Inl InvalidSplitQuantity, grid, source)
      else (case dims (it_definition_id source) of
        None \<Rightarrow> Some (Inl ActionItemNotFound, grid, source)
      | Some d \<Rightarrow>
          (case can_place_at grid (sq_target_slot q) d (sq_rotation q) None of
             None \<Rightarrow> None
           | Some (Inl e) \<Rightarrow> Some (Inl InvalidPlacement, grid, source)
           | Some (Inr _) \<Rightarrow>
               (case place_item grid new_id (sq_target_slot q) d (sq_rotation q) of
                  None \<Rightarrow> None
                | Some placed \<Rightarrow>
                    Some (Inr ((item_new_stackable new_id (it_definition_id source) (it_owner source)
                                 (sq_split_quantity q))\<lparr>it_revision := 1\<rparr>),
                          (case placed of Inl e \<Rightarrow> grid | Inr g \<Rightarrow> g),
                          source\<lparr>it_quantity := it_quantity source - sq_split_quantity q,
                                 it_revision := saturating_add (it_revision source) 1\<rparr>)))))"

text \<open>The sector and the quadrant of a position in metres, 64 metres to a side.\<close>

definition sector_of :: "f32 \<Rightarrow> int" where
  "sector_of p = f32_floor_i64 (f32_div_const p 64)"

definition handle_drop_item ::
  "bag_manager \<Rightarrow> inventory_grid \<Rightarrow> item_instance \<Rightarrow> request_drop \<Rightarrow> u64 \<Rightarrow> f32 \<times> f32 \<Rightarrow> u64 \<Rightarrow> u64 \<Rightarrow> u64
     \<Rightarrow> (drop_result \<times> bag_manager \<times> inventory_grid \<times> item_instance) option" where
  "handle_drop_item m grid item q player_id player_pos current_tick decay_ticks bag_id =
     (if it_id item \<noteq> dq_item_id q then Some (DropItemNotFound, m, grid, item)
      else if it_revision item \<noteq> dq_expected_revision q then Some (DropConcurrencyConflict, m, grid, item)
      else (case remove_item grid (it_id item) of
        None \<Rightarrow> None
      | Some (_, g) \<Rightarrow>
          (let sx = sector_of (fst player_pos); sy = sector_of (snd player_pos);
               item' = transfer_ownership item (OwnedByWorld sx sy);
               bag = \<lparr>db_id = bag_id, db_original_owner = player_id,
                      db_quadrant_x = word_of_int sx, db_quadrant_y = word_of_int sy,
                      db_world_x = fst player_pos, db_world_y = snd player_pos,
                      db_spawned_at_tick = current_tick, db_decay_after_ticks = decay_ticks, db_items = [item']\<rparr>
           in Some (DropSuccess bag_id item', spawn_bag bag m, g, item'))))"

definition handle_equip_item ::
  "inventory_grid \<Rightarrow> equipment \<Rightarrow> item_instance \<Rightarrow> request_equip \<Rightarrow> slot_of
     \<Rightarrow> (action_result \<times> inventory_grid \<times> equipment \<times> item_instance) option" where
  "handle_equip_item grid eq item q slot_of =
     (if it_id item \<noteq> eq_item_id q then Some (ActionItemNotFound, grid, eq, item)
      else if it_revision item \<noteq> eq_expected_revision q then Some (ActionConcurrencyConflict, grid, eq, item)
      else (case slot_of (it_definition_id item) of
        None \<Rightarrow> Some (IncompatibleSlot, grid, eq, item)
      | Some allowed \<Rightarrow>
          if allowed \<noteq> eq_target_slot q then Some (IncompatibleSlot, grid, eq, item)
          else if eq (eq_target_slot q) \<noteq> None then Some (SlotAlreadyOccupied, grid, eq, item)
          else (case remove_item grid (it_id item) of
            None \<Rightarrow> None
          | Some (_, g) \<Rightarrow>
              (let item' = item\<lparr>it_revision := saturating_add (it_revision item) 1\<rparr>
               in Some (ActionSuccess, g, snd (equip_item (eq_target_slot q) item' eq), item')))))"

definition handle_unequip_item ::
  "inventory_grid \<Rightarrow> equipment \<Rightarrow> request_unequip \<Rightarrow> dimensions_of
     \<Rightarrow> ((action_result + item_instance) \<times> inventory_grid \<times> equipment) option" where
  "handle_unequip_item grid eq q dims =
     (case eq (uq_source_slot q) of
        None \<Rightarrow> Some (Inl ActionItemNotFound, grid, eq)
      | Some item \<Rightarrow>
          if it_revision item \<noteq> uq_expected_revision q then Some (Inl ActionConcurrencyConflict, grid, eq)
          else (case dims (it_definition_id item) of
            None \<Rightarrow> Some (Inl ActionItemNotFound, grid, eq)
          | Some d \<Rightarrow>
              (case can_place_at grid (uq_target_slot q) d (uq_rotation q) None of
                 None \<Rightarrow> None
               | Some (Inl e) \<Rightarrow> Some (Inl InvalidPlacement, grid, eq)
               | Some (Inr _) \<Rightarrow>
                   (case place_item grid (it_id item) (uq_target_slot q) d (uq_rotation q) of
                      None \<Rightarrow> None
                    | Some placed \<Rightarrow>
                        Some (Inr (item\<lparr>it_revision := saturating_add (it_revision item) 1\<rparr>),
                              (case placed of Inl e \<Rightarrow> grid | Inr g \<Rightarrow> g),
                              snd (unequip_item (uq_source_slot q) eq))))))"

end
