(* ===== verification/Zone_Inventory.thy ===== *)
theory Zone_Inventory
  imports Loot Character_Inventory
begin

text \<open>
  The inventory half of crates/simulation/src/zone.rs: the intents of
  \<open>process_inventory_intents\<close>, applied to the inventory of one character, the dropped bags and the
  counter of bag ids.
\<close>

section \<open>Definitions\<close>

datatype inventory_intent =
  LootIntent request_loot
| MoveOrRotateIntent request_move
| MergeIntent request_merge
| SplitIntent request_split u128
| DropIntent request_drop
| EquipIntent request_equip
| UnequipIntent request_unequip

datatype inventory_event =
  LootProcessed u64 loot_result
| ActionProcessed u64 action_result
| DropProcessed u64 drop_result

definition max_stack_size :: u32 where
  "max_stack_size = 100"

definition drop_decay_ticks :: u64 where
  "drop_decay_ticks = 600"

text \<open>What an intent reads and writes: the inventory, the bags, and the last bag id given out.\<close>

type_synonym inventory_state = "character_inventory \<times> bag_manager \<times> u64"

definition apply_loot ::
  "dimensions_of \<Rightarrow> u64 \<Rightarrow> f32 \<times> f32 \<Rightarrow> request_loot \<Rightarrow> inventory_state
     \<Rightarrow> (inventory_event \<times> inventory_state) option" where
  "apply_loot dims player pos q st =
     (case st of (iv, bags, next) \<Rightarrow>
       map_option (\<lambda>(result, bags', grid).
           (LootProcessed player result,
            (case result of LootSuccess item \<Rightarrow> put_item item (iv\<lparr>inv_grid := grid\<rparr>) | _ \<Rightarrow> iv\<lparr>inv_grid := grid\<rparr>),
            bags', next))
         (handle_loot bags (inv_grid iv) q player pos dims))"

definition apply_move :: "u64 \<Rightarrow> request_move \<Rightarrow> inventory_state \<Rightarrow> (inventory_event \<times> inventory_state) option" where
  "apply_move player q st =
     (case st of (iv, bags, next) \<Rightarrow>
       (case map_of (inv_items iv) (mq_item_id q) of
          None \<Rightarrow> Some (ActionProcessed player ActionItemNotFound, st)
        | Some item \<Rightarrow>
            map_option (\<lambda>(result, grid, item').
                (ActionProcessed player result,
                 iv\<lparr>inv_grid := grid, inv_items := AList.update (mq_item_id q) item' (inv_items iv)\<rparr>, bags, next))
              (handle_move_or_rotate (inv_grid iv) item q)))"

definition apply_merge :: "u64 \<Rightarrow> request_merge \<Rightarrow> inventory_state \<Rightarrow> (inventory_event \<times> inventory_state) option" where
  "apply_merge player q st =
     (case st of (iv, bags, next) \<Rightarrow>
       (case map_of (inv_items iv) (gq_source_item_id q) of
          None \<Rightarrow> Some (ActionProcessed player ActionItemNotFound, st)
        | Some source \<Rightarrow>
            (let iv1 = take_item (gq_source_item_id q) iv
             in case map_of (inv_items iv1) (gq_target_item_id q) of
                  None \<Rightarrow> Some (ActionProcessed player ActionItemNotFound, put_item source iv1, bags, next)
                | Some target \<Rightarrow>
                    map_option (\<lambda>(result, grid, source', target').
                        (let iv2 = iv1\<lparr>inv_grid := grid,
                                         inv_items := AList.update (gq_target_item_id q) target' (inv_items iv1)\<rparr>
                         in case result of
                              Inr True \<Rightarrow> (ActionProcessed player ActionSuccess, iv2, bags, next)
                            | Inr False \<Rightarrow> (ActionProcessed player ActionSuccess, put_item source' iv2, bags, next)
                            | Inl err \<Rightarrow> (ActionProcessed player err, put_item source' iv2, bags, next)))
                      (handle_merge_stack (inv_grid iv) source target max_stack_size q))))"

definition apply_split ::
  "dimensions_of \<Rightarrow> u64 \<Rightarrow> request_split \<Rightarrow> u128 \<Rightarrow> inventory_state
     \<Rightarrow> (inventory_event \<times> inventory_state) option" where
  "apply_split dims player q new_id st =
     (case st of (iv, bags, next) \<Rightarrow>
       (case map_of (inv_items iv) (sq_source_item_id q) of
          None \<Rightarrow> Some (ActionProcessed player ActionItemNotFound, st)
        | Some source \<Rightarrow>
            map_option (\<lambda>(result, grid, source').
                (let iv1 = iv\<lparr>inv_grid := grid,
                                inv_items := AList.update (sq_source_item_id q) source' (inv_items iv)\<rparr>
                 in case result of
                      Inr new_item \<Rightarrow> (ActionProcessed player ActionSuccess, put_item new_item iv1, bags, next)
                    | Inl err \<Rightarrow> (ActionProcessed player err, iv1, bags, next)))
              (handle_split_stack (inv_grid iv) source q new_id dims)))"

definition apply_drop ::
  "u64 \<Rightarrow> f32 \<times> f32 \<Rightarrow> u64 \<Rightarrow> request_drop \<Rightarrow> inventory_state \<Rightarrow> (inventory_event \<times> inventory_state) option" where
  "apply_drop player pos tick q st =
     (case st of (iv, bags, next) \<Rightarrow>
       (case map_of (inv_items iv) (dq_item_id q) of
          None \<Rightarrow> Some (DropProcessed player DropItemNotFound, st)
        | Some item \<Rightarrow>
            (let iv1 = take_item (dq_item_id q) iv; next' = saturating_add next 1
             in map_option (\<lambda>(result, bags', grid, item').
                    (DropProcessed player result,
                     (case result of DropSuccess _ _ \<Rightarrow> iv1\<lparr>inv_grid := grid\<rparr>
                                   | _ \<Rightarrow> put_item item' (iv1\<lparr>inv_grid := grid\<rparr>)),
                     bags', next'))
                  (handle_drop_item bags (inv_grid iv) item q player pos tick drop_decay_ticks next'))))"

definition apply_equip ::
  "slot_of \<Rightarrow> u64 \<Rightarrow> request_equip \<Rightarrow> inventory_state \<Rightarrow> (inventory_event \<times> inventory_state) option" where
  "apply_equip slot_of player q st =
     (case st of (iv, bags, next) \<Rightarrow>
       (case map_of (inv_items iv) (eq_item_id q) of
          None \<Rightarrow> Some (ActionProcessed player ActionItemNotFound, st)
        | Some item \<Rightarrow>
            map_option (\<lambda>(result, grid, eq, item').
                (ActionProcessed player result,
                 iv\<lparr>inv_grid := grid, inv_equipment := eq,
                     inv_items := AList.update (eq_item_id q) item' (inv_items iv)\<rparr>, bags, next))
              (handle_equip_item (inv_grid iv) (inv_equipment iv) item q slot_of)))"

definition apply_unequip ::
  "dimensions_of \<Rightarrow> u64 \<Rightarrow> request_unequip \<Rightarrow> inventory_state \<Rightarrow> (inventory_event \<times> inventory_state) option" where
  "apply_unequip dims player q st =
     (case st of (iv, bags, next) \<Rightarrow>
       map_option (\<lambda>(result, grid, eq).
           (let iv1 = iv\<lparr>inv_grid := grid, inv_equipment := eq\<rparr>
            in case result of
                 Inr item \<Rightarrow> (ActionProcessed player ActionSuccess, put_item item iv1, bags, next)
               | Inl err \<Rightarrow> (ActionProcessed player err, iv1, bags, next)))
         (handle_unequip_item (inv_grid iv) (inv_equipment iv) q dims))"

fun apply_intent ::
  "dimensions_of \<Rightarrow> slot_of \<Rightarrow> u64 \<Rightarrow> u64 \<Rightarrow> f32 \<times> f32 \<Rightarrow> inventory_intent \<Rightarrow> inventory_state
     \<Rightarrow> (inventory_event \<times> inventory_state) option" where
  "apply_intent dims slot_of tick player pos (LootIntent q) st = apply_loot dims player pos q st"
| "apply_intent dims slot_of tick player pos (MoveOrRotateIntent q) st = apply_move player q st"
| "apply_intent dims slot_of tick player pos (MergeIntent q) st = apply_merge player q st"
| "apply_intent dims slot_of tick player pos (SplitIntent q i) st = apply_split dims player q i st"
| "apply_intent dims slot_of tick player pos (DropIntent q) st = apply_drop player pos tick q st"
| "apply_intent dims slot_of tick player pos (EquipIntent q) st = apply_equip slot_of player q st"
| "apply_intent dims slot_of tick player pos (UnequipIntent q) st = apply_unequip dims player q st"

section \<open>What an intent keeps\<close>

definition bag_held :: "bag_manager \<Rightarrow> item_instance multiset" where
  "bag_held m = \<Sum>\<^sub># (image_mset (\<lambda>b. mset (db_items b)) (map_values (bm_bags m)))"

definition total_held :: "inventory_state \<Rightarrow> item_instance multiset" where
  "total_held st = (case st of (iv, bags, _) \<Rightarrow> held iv + bag_held bags)"

definition unique_ids :: "item_instance multiset \<Rightarrow> bool" where
  "unique_ids M \<longleftrightarrow> (\<forall>i. count (ids_of M) i \<le> 1)"

text \<open>The items are keyed by their ids, the bags indexed, and no bag has an id above the counter.\<close>

definition state_inv :: "inventory_state \<Rightarrow> bool" where
  "state_inv st \<longleftrightarrow> (case st of (iv, bags, seen) \<Rightarrow>
     keyed (inv_items iv) \<and> bag_inv bags \<and> (\<forall>i. get_bag bags i \<noteq> None \<longrightarrow> i \<le> seen))"

text \<open>From one state to the next no id appears but those of \<open>new\<close>, and the stock stays.\<close>

definition conserves :: "u128 multiset \<Rightarrow> inventory_state \<Rightarrow> inventory_state \<Rightarrow> bool" where
  "conserves new st st' \<longleftrightarrow> ids_of (total_held st') \<subseteq># ids_of (total_held st) + new \<and>
     (\<forall>d. stock d (total_held st') = stock d (total_held st))"

lemma conserves_refl [simp]: "conserves new st st"
  by (simp add: conserves_def)

lemma unique_ids_mono: "unique_ids M \<Longrightarrow> ids_of N \<subseteq># ids_of M \<Longrightarrow> unique_ids N"
  unfolding unique_ids_def by (meson le_trans mset_subset_eq_count)

lemma unique_ids_add: "unique_ids (add_mset i M) \<Longrightarrow> it_id i \<notin># ids_of M"
  unfolding unique_ids_def by (metis ids_of_simps(3) count_add_mset le_add1 not_one_le_zero
      not_in_iff One_nat_def Suc_le_mono bot_nat_0.extremum_uniqueI)

lemma bag_held_put:
  assumes "bag_inv m" "get_bag m i = Some b"
  shows "mset (db_items b) + bag_held (put_bag i b' m) = mset (db_items b') + bag_held m"
  using map_values_update_old [OF bag_invD(1) [OF assms(1)], of i b b'] assms(2)
  unfolding bag_held_def put_bag_def get_bag_def
  by (metis (no_types) image_mset_add_mset sum_mset.insert bag_manager.select_convs(1) bag_manager.surjective bag_manager.update_convs(1))

lemma bag_held_spawn:
  "get_bag m (db_id b) = None \<Longrightarrow> bag_held (spawn_bag b m) = mset (db_items b) + bag_held m"
  by (simp add: bag_held_def spawn_bag_def get_bag_def map_values_update_new)

lemma bag_held_get:
  assumes "bag_inv m" "get_bag m i = Some b"
  shows "mset (db_items b) \<subseteq># bag_held m"
  using map_values_delete [OF bag_invD(1) [OF assms(1)], of i b] assms(2)
  by (simp add: bag_held_def get_bag_def)

lemma held_put_new:
  "keyed (inv_items iv) \<Longrightarrow> it_id item \<notin># ids_of (held iv) \<Longrightarrow> held (put_item item iv) = add_mset item (held iv)"
  by (simp add: put_item_def held_def keyed_absent [symmetric] map_values_update_new)

lemma held_put_old:
  "keyed (inv_items iv) \<Longrightarrow> map_of (inv_items iv) (it_id item) = Some old \<Longrightarrow>
    add_mset old (held (put_item item iv)) = add_mset item (held iv)"
  by (simp add: put_item_def held_def map_values_update_old keyed_def)

lemma held_take:
  "keyed (inv_items iv) \<Longrightarrow> map_of (inv_items iv) i = Some item \<Longrightarrow>
    held iv = add_mset item (held (take_item i iv))"
  by (simp add: take_item_def held_def map_values_delete keyed_def)

lemma keyed_put_take [simp]:
  "keyed (inv_items iv) \<Longrightarrow> keyed (inv_items (put_item item iv))"
  "keyed (inv_items iv) \<Longrightarrow> keyed (inv_items (take_item i iv))"
  by (simp_all add: put_item_def take_item_def keyed_update keyed_delete)

lemma conserves_change:
  assumes "add_mset old M' = add_mset item M" "it_id item = it_id old" "it_definition_id item = it_definition_id old"
    and "it_quantity item = it_quantity old"
  shows "ids_of M' = ids_of M \<and> stock d M' = stock d M"
proof -
  have "add_mset (it_id old) (ids_of M') = add_mset (it_id old) (ids_of M)"
    using arg_cong [OF assms(1), of ids_of] assms(2) by simp
  moreover have "stock d (add_mset old M') = stock d (add_mset item M)" by (simp only: assms(1))
  ultimately show ?thesis using assms(3,4) by (simp split: if_splits)
qed

text \<open>Changing one item of the map, not its id, definition or quantity.\<close>

lemma held_put_same:
  assumes "keyed (inv_items iv)" "map_of (inv_items iv) (it_id item) = Some old"
    and "it_definition_id item = it_definition_id old" "it_quantity item = it_quantity old"
  shows "ids_of (held (put_item item iv)) = ids_of (held iv) \<and> stock d (held (put_item item iv)) = stock d (held iv)"
  by (rule conserves_change [OF held_put_old [OF assms(1,2)]])
    (simp_all add: assms keyed_lookup [OF assms(1,2)])

lemma put_item_eq: "it_id item = i \<Longrightarrow> iv\<lparr>inv_items := AList.update i item (inv_items iv)\<rparr> = put_item item iv"
  by (simp add: put_item_def)

section \<open>Looting\<close>

lemma handle_loot_cases:
  assumes "handle_loot m grid q player pos dims = Some (result, m', g)"
  obtains (failed) "m' = m" "\<And>i. result \<noteq> LootSuccess i"
  | (taken) b item rest where "get_bag m (lq_bag_id q) = Some b" "mset (db_items b) = add_mset item (mset rest)"
      "result = LootSuccess (transfer_ownership item (OwnedByCharacter player))"
      "m' = put_bag (lq_bag_id q) (b\<lparr>db_items := rest\<rparr>) m" "\<not> out_of_reach b pos"
      "it_id item = lq_item_id q" "it_revision item = lq_expected_revision q"
proof (cases "\<exists>i. result = LootSuccess i")
  case False
  with assms failed show thesis
    unfolding handle_loot_def by (auto split: option.splits if_splits sum.splits prod.splits)
next
  case True
  then obtain b idx d where b: "get_bag m (lq_bag_id q) = Some b" "\<not> out_of_reach b pos"
    and idx: "position (\<lambda>i. it_id i = lq_item_id q) (db_items b) = Some idx"
    and rev: "it_revision (db_items b ! idx) = lq_expected_revision q"
    using assms unfolding handle_loot_def by (auto split: option.splits if_splits)
  obtain item rest where sw: "swap_remove idx (db_items b) = (item, rest)" by fastforce
  from position_Some [OF idx] have i: "idx < length (db_items b)" "it_id (db_items b ! idx) = lq_item_id q" by auto
  have "item = db_items b ! idx" using sw by (simp add: swap_remove_def)
  with i rev have item: "it_id item = lq_item_id q" "it_revision item = lq_expected_revision q" by simp_all
  from assms True b idx sw rev
  have "result = LootSuccess (transfer_ownership item (OwnedByCharacter player))"
    "m' = put_bag (lq_bag_id q) (b\<lparr>db_items := rest\<rparr>) m"
    unfolding handle_loot_def by (auto split: option.splits if_splits sum.splits)
  from taken [OF b(1) mset_swap_remove [OF i(1) sw] this b(2) item] show thesis .
qed

lemma put_bag_state:
  assumes "bag_inv m" "get_bag m i = Some b"
  shows "bag_inv (put_bag i (b\<lparr>db_items := rest\<rparr>) m)"
    and "get_bag (put_bag i (b\<lparr>db_items := rest\<rparr>) m) j \<noteq> None \<longleftrightarrow> get_bag m j \<noteq> None"
  using put_bag_inv [OF assms(1), of i b] assms(2)
  by (auto simp: put_bag_def get_bag_def bag_quadrant_def keyed_simps)

lemma apply_loot_ok:
  assumes "state_inv st" "unique_ids (total_held st)" "apply_loot dims player pos q st = Some (ev, st')"
  shows "state_inv st' \<and> conserves {#} st st'"
proof -
  obtain iv bags seen where st: "st = (iv, bags, seen)" by (cases st)
  note I = assms(1) [unfolded state_inv_def st prod.case]
  obtain result bags' g where h: "handle_loot bags (inv_grid iv) q player pos dims = Some (result, bags', g)"
    and st': "st' = ((case result of LootSuccess item \<Rightarrow> put_item item (iv\<lparr>inv_grid := g\<rparr>) | _ \<Rightarrow> iv\<lparr>inv_grid := g\<rparr>), bags', seen)"
    using assms(3) by (auto simp: apply_loot_def st)
  from h show ?thesis
  proof (cases rule: handle_loot_cases)
    case failed
    with I st' st show ?thesis by (auto simp: state_inv_def conserves_def total_held_def split: loot_result.splits)
  next
    case (taken b item rest)
    define item' where "item' = transfer_ownership item (OwnedByCharacter player)"
    have same: "it_id item' = it_id item" "it_definition_id item' = it_definition_id item" "it_quantity item' = it_quantity item"
      using transfer_ownership_identity [of item] by (simp_all add: item'_def)
    have bags: "bag_held bags = add_mset item (bag_held bags')"
      using bag_held_put [of bags _ b "b\<lparr>db_items := rest\<rparr>"] I taken by simp
    have "unique_ids (add_mset item (held iv + bag_held bags'))"
      using assms(2) by (simp add: st total_held_def bags)
    from unique_ids_add [OF this] have "it_id item' \<notin># ids_of (held (iv\<lparr>inv_grid := g\<rparr>))" by (simp add: same)
    from held_put_new [OF _ this] I have "held (put_item item' (iv\<lparr>inv_grid := g\<rparr>)) = add_mset item' (held iv)" by simp
    with bags same taken I st' st put_bag_state [of bags _ b rest] show ?thesis
      by (auto simp: state_inv_def conserves_def total_held_def item'_def [symmetric])
  qed
qed

section \<open>Moving, merging and splitting\<close>

lemma apply_move_ok:
  assumes "state_inv st" "apply_move player q st = Some (ev, st')"
  shows "state_inv st' \<and> conserves {#} st st'"
proof -
  obtain iv bags seen where st: "st = (iv, bags, seen)" by (cases st)
  note I = assms(1) [unfolded state_inv_def st prod.case]
  show ?thesis
  proof (cases "map_of (inv_items iv) (mq_item_id q)")
    case None
    with assms show ?thesis by (simp add: apply_move_def st)
  next
    case (Some item)
    have i: "it_id item = mq_item_id q" using keyed_lookup I Some by blast
    from assms(2) Some obtain result g item' where
      h: "handle_move_or_rotate (inv_grid iv) item q = Some (result, g, item')" and
      st': "st' = (iv\<lparr>inv_grid := g, inv_items := AList.update (mq_item_id q) item' (inv_items iv)\<rparr>, bags, seen)"
      by (auto simp: apply_move_def st)
    from h have same: "it_id item' = it_id item" "it_definition_id item' = it_definition_id item" "it_quantity item' = it_quantity item"
      by (auto simp: handle_move_or_rotate_def split: if_splits option.splits sum.splits)
    have "st' = (put_item item' (iv\<lparr>inv_grid := g\<rparr>), bags, seen)" using same i by (simp add: st' put_item_def)
    moreover have "map_of (inv_items (iv\<lparr>inv_grid := g\<rparr>)) (it_id item') = Some item" using Some same i by simp
    ultimately show ?thesis
      using held_put_same [of "iv\<lparr>inv_grid := g\<rparr>" item' item] I same st
      by (simp add: state_inv_def conserves_def total_held_def)
  qed
qed

text \<open>A merge moves units from the source to the target and empties the source or reports that it did not.\<close>

lemma handle_merge_cases:
  assumes "handle_merge_stack grid source target max_stack q = Some (result, g, source', target')"
  obtains (failed) err where "result = Inl err" "source' = source" "target' = target"
  | (merged) k where "result = Inr (k = it_quantity source)" "k \<le> it_quantity source"
      "it_definition_id source = it_definition_id target" "unat (it_quantity target) + unat k < 2 ^ 32"
      "source' = source\<lparr>it_quantity := it_quantity source - k, it_revision := saturating_add (it_revision source) 1\<rparr>"
      "target' = target\<lparr>it_quantity := it_quantity target + k, it_revision := saturating_add (it_revision target) 1\<rparr>"
proof (cases "\<exists>err. result = Inl err")
  case True
  with assms failed show thesis by (auto simp: handle_merge_stack_def Let_def split: if_splits)
next
  case False
  let ?k = "min (it_quantity source) (max_stack - it_quantity target)"
  from False assms have t: "it_quantity target < max_stack" "it_definition_id source = it_definition_id target"
    by (auto simp: handle_merge_stack_def split: if_splits)
  have "unat ?k \<le> unat (max_stack - it_quantity target)"
    by (simp add: word_le_nat_alt [symmetric])
  also have "\<dots> = unat max_stack - unat (it_quantity target)" using t(1) by (simp add: unat_sub_le)
  finally have "unat (it_quantity target) + unat ?k \<le> unat max_stack"
    using t(1) by (simp add: word_less_nat_alt)
  moreover have "unat max_stack < 2 ^ 32" using unsigned_less [of max_stack, where ?'a = nat] by simp
  ultimately have "unat (it_quantity target) + unat ?k < 2 ^ 32" by linarith
  moreover have "it_quantity source - ?k = 0 \<longleftrightarrow> ?k = it_quantity source" by auto
  ultimately show thesis
    using False assms t by (intro merged [of ?k]) (auto simp: handle_merge_stack_def Let_def split: if_splits)
qed

lemma apply_merge_ok:
  assumes "state_inv st" "apply_merge player q st = Some (ev, st')"
  shows "state_inv st' \<and> conserves {#} st st' \<and> snd (snd st') = snd (snd st)"
proof -
  obtain iv bags seen where st: "st = (iv, bags, seen)" by (cases st)
  note I = assms(1) [unfolded state_inv_def st prod.case]
  let ?s = "gq_source_item_id q" and ?t = "gq_target_item_id q"
  show ?thesis
  proof (cases "map_of (inv_items iv) ?s")
    case None
    with assms show ?thesis by (simp add: apply_merge_def st)
  next
    case (Some source)
    define iv1 where "iv1 = take_item ?s iv"
    have k1: "keyed (inv_items iv1)" using I by (simp add: iv1_def)
    have s: "it_id source = ?s" using keyed_lookup I Some by blast
    have h1: "held iv = add_mset source (held iv1)" using held_take I Some by (simp add: iv1_def)
    have gone: "map_of (inv_items iv1) ?s = None" by (simp add: iv1_def take_item_def keyed_simps)
    show ?thesis
    proof (cases "map_of (inv_items iv1) ?t")
      case None
      with assms(2) Some st have "st' = (put_item source iv1, bags, seen)" by (simp add: apply_merge_def iv1_def [symmetric])
      moreover have "held (put_item source iv1) = add_mset source (held iv1)"
        using held_put_new [OF k1] keyed_absent [OF k1, of ?s] gone s by (simp add: held_def)
      ultimately show ?thesis using k1 I h1 st by (simp add: state_inv_def conserves_def total_held_def)
    next
      case target: (Some target)
      have t: "it_id target = ?t" using keyed_lookup [OF k1 target] .
      have ne: "?t \<noteq> ?s" using gone target by auto
      from assms(2) Some target st obtain result g source' target' where
        h: "handle_merge_stack (inv_grid iv) source target max_stack_size q = Some (result, g, source', target')" and
        out: "(case result of
            Inr True \<Rightarrow> (ActionProcessed player ActionSuccess, iv1\<lparr>inv_grid := g, inv_items := AList.update ?t target' (inv_items iv1)\<rparr>, bags, seen)
          | Inr False \<Rightarrow> (ActionProcessed player ActionSuccess, put_item source' (iv1\<lparr>inv_grid := g, inv_items := AList.update ?t target' (inv_items iv1)\<rparr>), bags, seen)
          | Inl err \<Rightarrow> (ActionProcessed player err, put_item source' (iv1\<lparr>inv_grid := g, inv_items := AList.update ?t target' (inv_items iv1)\<rparr>), bags, seen)) = (ev, st')"
        by (auto simp: apply_merge_def iv1_def [symmetric] Let_def)
      have st': "st' = (if result = Inr True then iv1\<lparr>inv_grid := g, inv_items := AList.update ?t target' (inv_items iv1)\<rparr>
          else put_item source' (iv1\<lparr>inv_grid := g, inv_items := AList.update ?t target' (inv_items iv1)\<rparr>), bags, seen)"
        using out by (auto split: sum.splits bool.splits)
      from h have same: "it_id source' = ?s" "it_id target' = ?t" "it_definition_id source' = it_definition_id source"
        "it_definition_id target' = it_definition_id target"
        "result = Inr True \<Longrightarrow> it_quantity source' = 0"
        "it_definition_id source \<noteq> it_definition_id target \<Longrightarrow> it_quantity source' = it_quantity source \<and> it_quantity target' = it_quantity target"
        "unat (it_quantity source') + unat (it_quantity target') = unat (it_quantity source) + unat (it_quantity target)"
        by (cases rule: handle_merge_cases; simp add: s t unat_sub_le unat_add_fits word_le_nat_alt)+
      define iv2 where "iv2 = put_item target' (iv1\<lparr>inv_grid := g\<rparr>)"
      have iv2: "iv1\<lparr>inv_grid := g, inv_items := AList.update ?t target' (inv_items iv1)\<rparr> = iv2"
        by (simp add: iv2_def put_item_def same)
      have k2: "keyed (inv_items iv2)" using k1 by (simp add: iv2_def)
      have h2: "add_mset target (held iv2) = add_mset target' (held iv1)"
        using held_put_old [of "iv1\<lparr>inv_grid := g\<rparr>" target' target] k1 target by (simp add: iv2_def same)
      have "map_of (inv_items iv2) ?s = None" using gone ne by (simp add: iv2_def put_item_def same keyed_simps)
      then have h3: "held (put_item source' iv2) = add_mset source' (held iv2)"
        using held_put_new [OF k2] keyed_absent [OF k2, of ?s] same by (simp add: held_def)
      have ids: "ids_of (held iv2) = ids_of (held iv1)"
        using arg_cong [OF h2, of ids_of] by (simp add: t same)
      have units: "(if it_definition_id source' = d then unat (it_quantity source') else 0) + stock d (held iv2) = stock d (held iv)" for d
        using arg_cong [OF h2, of "stock d"] same by (auto simp: h1 split: if_splits)
      have emptied: "stock d (held iv2) = stock d (held iv)" if "result = Inr True" for d
        using units [of d] same(5) [OF that] by (simp split: if_splits)
      have kept: "stock d (held (put_item source' iv2)) = stock d (held iv)" for d
        using units [of d] by (simp add: h3)
      show ?thesis
        using I st k2 ids emptied kept same(1) s
        unfolding st' iv2 by (auto simp: state_inv_def conserves_def total_held_def h1 h3)
    qed
  qed
qed

lemma apply_split_ok:
  assumes "state_inv st" "new_id \<notin># ids_of (total_held st)" "apply_split dims player q new_id st = Some (ev, st')"
  shows "state_inv st' \<and> conserves {#new_id#} st st' \<and> snd (snd st') = snd (snd st)"
proof -
  obtain iv bags seen where st: "st = (iv, bags, seen)" by (cases st)
  note I = assms(1) [unfolded state_inv_def st prod.case]
  let ?s = "sq_source_item_id q"
  show ?thesis
  proof (cases "map_of (inv_items iv) ?s")
    case None
    with assms show ?thesis by (simp add: apply_split_def st)
  next
    case (Some source)
    have s: "it_id source = ?s" using keyed_lookup I Some by blast
    from assms(3) Some obtain result g source' where
      h: "handle_split_stack (inv_grid iv) source q new_id dims = Some (result, g, source')" and
      out: "(case result of
          Inr new_item \<Rightarrow> (ActionProcessed player ActionSuccess, put_item new_item (iv\<lparr>inv_grid := g, inv_items := AList.update ?s source' (inv_items iv)\<rparr>), bags, seen)
        | Inl err \<Rightarrow> (ActionProcessed player err, iv\<lparr>inv_grid := g, inv_items := AList.update ?s source' (inv_items iv)\<rparr>, bags, seen)) = (ev, st')"
      by (auto simp: apply_split_def st Let_def)
    define iv1 where "iv1 = put_item source' (iv\<lparr>inv_grid := g\<rparr>)"
    have same: "it_id source' = ?s" "it_definition_id source' = it_definition_id source"
      using h s by (auto simp: handle_split_stack_def split: if_splits option.splits sum.splits)
    have iv1: "iv\<lparr>inv_grid := g, inv_items := AList.update ?s source' (inv_items iv)\<rparr> = iv1"
      by (simp add: iv1_def put_item_def same)
    have k1: "keyed (inv_items iv1)" using I by (simp add: iv1_def)
    have h1: "add_mset source (held iv1) = add_mset source' (held iv)"
      using held_put_old [of "iv\<lparr>inv_grid := g\<rparr>" source' source] I Some by (simp add: iv1_def same)
    have ids: "ids_of (held iv1) = ids_of (held iv)"
      using arg_cong [OF h1, of ids_of] by (simp add: s same)
    show ?thesis
    proof (cases result)
      case (Inl err)
      with h have "source' = source" by (auto simp: handle_split_stack_def split: if_splits option.splits sum.splits)
      with h1 have "held iv1 = held iv" by simp
      with Inl out I k1 st show ?thesis unfolding iv1 by (auto simp: state_inv_def conserves_def total_held_def)
    next
      case (Inr new_item)
      from h Inr have new: "it_id new_item = new_id" "it_definition_id new_item = it_definition_id source"
        "it_quantity new_item = sq_split_quantity q" "it_quantity source' = it_quantity source - sq_split_quantity q"
        "sq_split_quantity q < it_quantity source"
        by (auto simp: handle_split_stack_def item_new_stackable_def split: if_splits option.splits sum.splits)
      have sum: "unat (it_quantity new_item) + unat (it_quantity source') = unat (it_quantity source)"
        using new(5) unat_sub_le [OF less_imp_le [OF new(5)]] by (simp add: new(3,4) word_less_nat_alt)
      have "new_id \<notin># ids_of (held iv1)" using assms(2) by (simp add: ids st total_held_def)
      then have h2: "held (put_item new_item iv1) = add_mset new_item (held iv1)"
        using held_put_new [OF k1] new(1) by simp
      have "stock d (held (put_item new_item iv1)) = stock d (held iv)" for d
        using arg_cong [OF h1, of "stock d"] sum by (auto simp: h2 same new split: if_splits)
      with Inr out I k1 st h2 ids new(1) show ?thesis
        unfolding iv1 by (auto simp: state_inv_def conserves_def total_held_def)
    qed
  qed
qed

section \<open>Dropping\<close>

lemma handle_drop_cases:
  assumes "handle_drop_item m g item q player pos tick ttl bag_id = Some (result, m', g', item')"
  obtains (failed) "m' = m" "item' = item" "\<And>i x. result \<noteq> DropSuccess i x"
  | (dropped) b where "m' = spawn_bag b m" "db_id b = bag_id" "db_items b = [item']" "result = DropSuccess bag_id item'"
      "it_id item' = it_id item" "it_definition_id item' = it_definition_id item" "it_quantity item' = it_quantity item"
proof (cases "\<exists>i x. result = DropSuccess i x")
  case False
  with assms failed show thesis by (auto simp: handle_drop_item_def Let_def split: if_splits option.splits prod.splits)
next
  case True
  have o: "it_id (transfer_ownership item w) = it_id item" "it_definition_id (transfer_ownership item w) = it_definition_id item"
    "it_quantity (transfer_ownership item w) = it_quantity item" for w
    using transfer_ownership_identity [of item w] by simp_all
  from True assms show thesis
    by (auto simp: handle_drop_item_def Let_def o split: if_splits option.splits prod.splits intro!: dropped)
qed

lemma next_bag_id:
  assumes "unat (seen :: u64) < 2 ^ 64 - 1"
  shows "unat (saturating_add seen 1) = unat seen + 1" "seen < saturating_add seen 1"
  using assms by (simp_all add: unat_saturating_add word_less_nat_alt)

lemma apply_drop_ok:
  assumes "state_inv st" "unat (snd (snd st)) < 2 ^ 64 - 1" "apply_drop player pos tick q st = Some (ev, st')"
  shows "state_inv st' \<and> conserves {#} st st' \<and> unat (snd (snd st')) \<le> unat (snd (snd st)) + 1"
proof -
  obtain iv bags seen where st: "st = (iv, bags, seen)" by (cases st)
  note I = assms(1) [unfolded state_inv_def st prod.case]
  have seen: "unat seen < 2 ^ 64 - 1" using assms(2) by (simp add: st)
  let ?i = "dq_item_id q"
  show ?thesis
  proof (cases "map_of (inv_items iv) ?i")
    case None
    with assms st show ?thesis by (simp add: apply_drop_def)
  next
    case (Some item)
    define iv1 where "iv1 = take_item ?i iv"
    have k1: "keyed (inv_items iv1)" using I by (simp add: iv1_def)
    have i: "it_id item = ?i" using keyed_lookup I Some by blast
    have h1: "held iv = add_mset item (held iv1)" using held_take I Some by (simp add: iv1_def)
    have gone: "?i \<notin># ids_of (held iv1)"
      using keyed_absent [OF k1, of ?i] by (simp add: iv1_def take_item_def keyed_simps held_def)
    from assms(3) Some obtain result bags' g item' where
      h: "handle_drop_item bags (inv_grid iv) item q player pos tick drop_decay_ticks (saturating_add seen 1) =
        Some (result, bags', g, item')" and
      st': "st' = ((case result of DropSuccess _ _ \<Rightarrow> iv1\<lparr>inv_grid := g\<rparr> | _ \<Rightarrow> put_item item' (iv1\<lparr>inv_grid := g\<rparr>)),
        bags', saturating_add seen 1)"
      by (auto simp: apply_drop_def st Let_def iv1_def [symmetric])
    from h show ?thesis
    proof (cases rule: handle_drop_cases)
      case failed
      have "held (put_item item (iv1\<lparr>inv_grid := g\<rparr>)) = add_mset item (held iv1)"
        using held_put_new [of "iv1\<lparr>inv_grid := g\<rparr>" item] k1 gone i by simp
      with failed st' st k1 I h1 next_bag_id [OF seen] show ?thesis
        by (auto simp: state_inv_def conserves_def total_held_def split: drop_result.splits intro: order_trans less_imp_le)
    next
      case (dropped b)
      have free: "get_bag bags (db_id b) = None"
        using I next_bag_id(2) [OF seen] dropped(2) by (metis not_le)
      have "bag_inv bags'" using spawn_bag_inv I free dropped(1) by (simp add: get_bag_def)
      moreover have "j \<le> saturating_add seen 1" if "get_bag bags' j \<noteq> None" for j
        using that I dropped next_bag_id(2) [OF seen]
        by (auto simp: spawn_bag_def get_bag_def keyed_simps split: if_splits)
      ultimately show ?thesis
        using dropped st' st k1 bag_held_spawn [OF free] h1 next_bag_id [OF seen]
        by (auto simp: state_inv_def conserves_def total_held_def)
    qed
  qed
qed

section \<open>Wearing\<close>

lemma apply_equip_ok:
  assumes "state_inv st" "apply_equip slot_of player q st = Some (ev, st')"
  shows "state_inv st' \<and> conserves {#} st st'"
proof -
  obtain iv bags seen where st: "st = (iv, bags, seen)" by (cases st)
  note I = assms(1) [unfolded state_inv_def st prod.case]
  show ?thesis
  proof (cases "map_of (inv_items iv) (eq_item_id q)")
    case None
    with assms show ?thesis by (simp add: apply_equip_def st)
  next
    case (Some item)
    have i: "it_id item = eq_item_id q" using keyed_lookup I Some by blast
    from assms(2) Some obtain result g eqp item' where
      h: "handle_equip_item (inv_grid iv) (inv_equipment iv) item q slot_of = Some (result, g, eqp, item')" and
      st': "st' = (iv\<lparr>inv_grid := g, inv_equipment := eqp, inv_items := AList.update (eq_item_id q) item' (inv_items iv)\<rparr>, bags, seen)"
      by (auto simp: apply_equip_def st)
    from h have same: "it_id item' = it_id item" "it_definition_id item' = it_definition_id item" "it_quantity item' = it_quantity item"
      by (auto simp: handle_equip_item_def Let_def split: if_splits option.splits prod.splits)
    let ?iv = "iv\<lparr>inv_grid := g, inv_equipment := eqp\<rparr>"
    have "st' = (put_item item' ?iv, bags, seen)" using same i by (simp add: st' put_item_def)
    moreover have "map_of (inv_items ?iv) (it_id item') = Some item" using Some same i by simp
    ultimately show ?thesis
      using held_put_same [of ?iv item' item] I same st
      by (simp add: state_inv_def conserves_def total_held_def)
  qed
qed

section \<open>Any intent\<close>

fun new_ids :: "inventory_intent \<Rightarrow> u128 multiset" where
  "new_ids (SplitIntent q i) = {#i#}"
| "new_ids _ = {#}"

fun unequips :: "inventory_intent \<Rightarrow> bool" where
  "unequips (UnequipIntent q) = True"
| "unequips _ = False"

lemma apply_intent_ok:
  assumes "state_inv st" "unique_ids (total_held st)" "unat (snd (snd st)) < 2 ^ 64 - 1"
    and "\<forall>i. i \<in># new_ids intent \<longrightarrow> i \<notin># ids_of (total_held st)" "\<not> unequips intent"
    and "apply_intent dims slot_of tick player pos intent st = Some (ev, st')"
  shows "state_inv st' \<and> conserves (new_ids intent) st st' \<and> unat (snd (snd st')) \<le> unat (snd (snd st)) + 1"
proof (cases intent)
  case (DropIntent q)
  with assms apply_drop_ok [OF assms(1,3)] show ?thesis by simp
next
  case (LootIntent q)
  then have a: "apply_loot dims player pos q st = Some (ev, st')" using assms(6) by simp
  then have "snd (snd st') = snd (snd st)" by (auto simp: apply_loot_def split: prod.splits)
  with apply_loot_ok [OF assms(1,2) a] LootIntent show ?thesis by simp
next
  case (MoveOrRotateIntent q)
  then have a: "apply_move player q st = Some (ev, st')" using assms(6) by simp
  then have "snd (snd st') = snd (snd st)" by (auto simp: apply_move_def split: prod.splits option.splits)
  with apply_move_ok [OF assms(1) a] MoveOrRotateIntent show ?thesis by simp
next
  case (MergeIntent q)
  then have a: "apply_merge player q st = Some (ev, st')" using assms(6) by simp
  with apply_merge_ok [OF assms(1) a] MergeIntent show ?thesis by simp
next
  case (SplitIntent q i)
  then have a: "apply_split dims player q i st = Some (ev, st')" using assms(6) by simp
  with apply_split_ok [OF assms(1) _ a] assms(4) SplitIntent show ?thesis by simp
next
  case (EquipIntent q)
  then have a: "apply_equip slot_of player q st = Some (ev, st')" using assms(6) by simp
  then have "snd (snd st') = snd (snd st)" by (auto simp: apply_equip_def split: prod.splits option.splits)
  with apply_equip_ok [OF assms(1) a] EquipIntent show ?thesis by simp
next
  case (UnequipIntent q)
  with assms(5) show ?thesis by simp
qed

text \<open>Without item definitions no intent puts a worn item back.\<close>

lemma apply_unequip_undefined:
  assumes "apply_unequip (\<lambda>_. None) player q st = Some (ev, st')"
  shows "state_inv st' = state_inv st \<and> total_held st' = total_held st \<and> snd (snd st') = snd (snd st)"
  using assms
  by (auto simp: apply_unequip_def handle_unequip_item_def state_inv_def total_held_def
      split: prod.splits option.splits if_splits)

section \<open>The contract of an intent\<close>

text \<open>
  What the zone needs of the intents it applies: they keep the invariant and the stock, take at most one bag id,
  and bring in no item id but the fresh ones they carry.
\<close>

locale conserving_intents =
  fixes dims :: dimensions_of and slots :: slot_of
    and allowed :: "inventory_intent \<Rightarrow> bool" and fresh_ids :: "inventory_intent \<Rightarrow> u128 multiset"
  assumes intent_ok: "state_inv st \<Longrightarrow> unique_ids (total_held st) \<Longrightarrow> unat (snd (snd st)) < 2 ^ 64 - 1 \<Longrightarrow>
    allowed intent \<Longrightarrow> (\<And>i. i \<in># fresh_ids intent \<Longrightarrow> i \<notin># ids_of (total_held st)) \<Longrightarrow>
    apply_intent dims slots tick player pos intent st = Some (ev, st') \<Longrightarrow>
    state_inv st' \<and> conserves (fresh_ids intent) st st' \<and> unat (snd (snd st')) \<le> unat (snd (snd st)) + 1"

text \<open>Under any item definitions, every intent but unequipping; a split brings in its new id.\<close>

interpretation defined_items: conserving_intents dims slots "\<lambda>intent. \<not> unequips intent" new_ids
  for dims slots
  by unfold_locales (rule apply_intent_ok, assumption, assumption, assumption, blast, assumption, assumption)

text \<open>Without item definitions, as the zone's tick applies them, every intent, and no new id.\<close>

lemma apply_split_undefined:
  assumes "state_inv st" "apply_split (\<lambda>_. None) player q i st = Some (ev, st')"
  shows "state_inv st' \<and> conserves {#} st st' \<and> snd (snd st') = snd (snd st)"
proof -
  obtain iv bags seen where st: "st = (iv, bags, seen)" by (cases st)
  note I = assms(1) [unfolded state_inv_def st prod.case]
  show ?thesis
  proof (cases "map_of (inv_items iv) (sq_source_item_id q)")
    case None
    with assms show ?thesis by (simp add: apply_split_def st)
  next
    case (Some source)
    have s: "it_id source = sq_source_item_id q" using keyed_lookup I Some by blast
    from assms(2) Some have "st' = (put_item source (iv\<lparr>inv_grid := inv_grid iv\<rparr>), bags, seen)"
      by (auto simp: apply_split_def st Let_def handle_split_stack_def put_item_def s split: if_splits)
    moreover have "held (put_item source iv) = held iv"
      using held_put_old [of iv source source] I Some s by simp
    ultimately show ?thesis using I st by (simp add: state_inv_def conserves_def total_held_def)
  qed
qed

lemma apply_intent_undefined:
  assumes "state_inv st" "unique_ids (total_held st)" "unat (snd (snd st)) < 2 ^ 64 - 1"
    and "apply_intent (\<lambda>_. None) slots tick player pos intent st = Some (ev, st')"
  shows "state_inv st' \<and> conserves {#} st st' \<and> unat (snd (snd st')) \<le> unat (snd (snd st)) + 1"
proof (cases "unequips intent \<or> new_ids intent \<noteq> {#}")
  case False
  then show ?thesis
    using apply_intent_ok [OF assms(1-3), of intent "\<lambda>_. None" slots tick player pos ev st'] assms(4) by auto
next
  case True
  then consider q where "intent = UnequipIntent q" | q i where "intent = SplitIntent q i" by (cases intent) auto
  then show ?thesis
  proof cases
    case 1
    then show ?thesis using assms(1,4) apply_unequip_undefined [of player q st ev st'] by (simp add: conserves_def)
  next
    case 2
    then show ?thesis using apply_split_undefined [OF assms(1), of player q i ev st'] assms(4) by simp
  qed
qed

interpretation undefined_items: conserving_intents "\<lambda>_. None" slots "\<lambda>_. True" "\<lambda>_. {#}" for slots
  by unfold_locales (rule apply_intent_undefined)

section \<open>Dropping what is worn\<close>

lemma apply_equip_success:
  assumes "state_inv (iv, bags, seen)"
    and "apply_equip slots player q (iv, bags, seen) = Some (ActionProcessed player ActionSuccess, iv', bags', seen')"
  obtains item item' where "map_of (inv_items iv) (eq_item_id q) = Some item" "it_id item = eq_item_id q"
    "map_of (inv_items iv') (eq_item_id q) = Some item'" "inv_equipment iv' (eq_target_slot q) = Some item'"
    "it_id item' = it_id item" "it_definition_id item' = it_definition_id item" "it_quantity item' = it_quantity item"
proof -
  from assms(2) obtain item where item: "map_of (inv_items iv) (eq_item_id q) = Some item"
    by (auto simp: apply_equip_def split: option.splits)
  from assms(2) item show thesis
    by (auto simp: apply_equip_def handle_equip_item_def equip_item_def Let_def keyed_simps
        split: if_splits option.splits prod.splits intro!: that [OF item])
qed

lemma apply_drop_success:
  assumes inv: "state_inv (iv, bags, seen)" and seen: "unat seen < 2 ^ 64 - 1"
    and item: "map_of (inv_items iv) (dq_item_id q) = Some item"
    and drop: "apply_drop player pos tick q (iv, bags, seen) = Some (DropProcessed player (DropSuccess b dropped), iv', bags', seen')"
  shows "inv_equipment iv' = inv_equipment iv" "dq_item_id q \<notin># ids_of (held iv')"
    "it_id dropped = dq_item_id q" "dropped \<in># bag_held bags'"
proof -
  have I: "keyed (inv_items iv)" "bag_inv bags" "\<forall>i. get_bag bags i \<noteq> None \<longrightarrow> i \<le> seen"
    using inv by (simp_all add: state_inv_def)
  from drop item obtain g item' where
    h: "handle_drop_item bags (inv_grid iv) item q player pos tick drop_decay_ticks (saturating_add seen 1) =
      Some (DropSuccess b dropped, bags', g, item')" and
    iv': "iv' = (take_item (dq_item_id q) iv)\<lparr>inv_grid := g\<rparr>"
    by (auto simp: apply_drop_def Let_def)
  show "inv_equipment iv' = inv_equipment iv" by (simp add: iv' take_item_def)
  have "keyed (inv_items (take_item (dq_item_id q) iv))" using I(1) by simp
  from keyed_absent [OF this, of "dq_item_id q"] show "dq_item_id q \<notin># ids_of (held iv')"
    by (simp add: iv' take_item_def keyed_simps held_def)
  from h have "it_id dropped = dq_item_id q \<and> dropped \<in># bag_held bags'"
  proof (cases rule: handle_drop_cases)
    case (dropped b')
    have "get_bag bags (db_id b') = None"
      using I(3) next_bag_id(2) [OF seen] dropped(2) by (metis not_le)
    with dropped bag_held_spawn [of bags b'] keyed_lookup [OF I(1) item] show ?thesis by simp
  qed blast
  then show "it_id dropped = dq_item_id q" "dropped \<in># bag_held bags'" by simp_all
qed

lemma apply_unequip_success:
  assumes "apply_unequip dims player q (iv, bags, seen) = Some (ActionProcessed player ActionSuccess, iv', bags', seen')"
    and "inv_equipment iv (uq_source_slot q) = Some item"
  shows "inv_items iv' = inv_items (put_item (item\<lparr>it_revision := saturating_add (it_revision item) 1\<rparr>) iv)" "bags' = bags"
  using assms
  by (auto simp: apply_unequip_def handle_unequip_item_def put_item_def Let_def
      split: if_splits option.splits sum.splits prod.splits)

text \<open>
  C38: wearing an item leaves it among the items of the character, so it can be dropped while it is worn, and taking it off
  afterwards creates it again: whatever the inventory, the item and the definitions are, when an item is equipped, dropped and
  its slot unequipped, all with success, then its id is held twice, in a bag and in the inventory, and the units of its definition
  have grown by its quantity.
\<close>

theorem worn_item_duplicated:
  assumes "state_inv st" "unat (snd (snd st)) < 2 ^ 64 - 1"
    and "apply_equip slots player qe st = Some (ActionProcessed player ActionSuccess, st1)"
    and "apply_drop player pos tick qd st1 = Some (DropProcessed player (DropSuccess b dropped), st2)"
      "dq_item_id qd = eq_item_id qe"
    and "apply_unequip dims player qu st2 = Some (ActionProcessed player ActionSuccess, st3)"
      "uq_source_slot qu = eq_target_slot qe"
  shows "\<exists>item. map_of (inv_items (fst st)) (eq_item_id qe) = Some item \<and> 2 \<le> count (ids_of (total_held st3)) (it_id item) \<and>
    stock d (total_held st3) =
      stock d (total_held st) + (if it_definition_id item = d then unat (it_quantity item) else 0)"
proof -
  obtain iv bags seen iv1 bags1 seen1 iv2 bags2 seen2 iv3 bags3 seen3 where
    st: "st = (iv, bags, seen)" "st1 = (iv1, bags1, seen1)" "st2 = (iv2, bags2, seen2)" "st3 = (iv3, bags3, seen3)"
    by (cases st; cases st1; cases st2; cases st3)
  note equip = assms(3) [unfolded st] and drop = assms(4) [unfolded st] and unequip = assms(6) [unfolded st]
  from apply_equip_success [OF assms(1) [unfolded st] equip] obtain item worn where
    item: "map_of (inv_items iv) (eq_item_id qe) = Some item" "it_id item = eq_item_id qe" and
    worn: "map_of (inv_items iv1) (eq_item_id qe) = Some worn" "inv_equipment iv1 (eq_target_slot qe) = Some worn"
      "it_id worn = it_id item" "it_definition_id worn = it_definition_id item" "it_quantity worn = it_quantity item" .
  have ok1: "state_inv st1" "conserves {#} st st1" using apply_equip_ok [OF assms(1,3)] by simp_all
  have seen1: "unat seen1 < 2 ^ 64 - 1" using assms(2) equip by (auto simp: st apply_equip_def split: option.splits)
  have ok2: "state_inv st2" "conserves {#} st1 st2"
    using apply_drop_ok [OF ok1(1) _ assms(4)] seen1 by (simp_all add: st)
  note d = apply_drop_success [OF ok1(1) [unfolded st] seen1 worn(1) [folded assms(5)] drop]
  note u = apply_unequip_success [OF unequip, unfolded d(1) assms(7), OF worn(2)]
  have "held iv3 = add_mset (worn\<lparr>it_revision := saturating_add (it_revision worn) 1\<rparr>) (held iv2)"
    using held_put_new [of iv2 "worn\<lparr>it_revision := saturating_add (it_revision worn) 1\<rparr>"] ok2(1) d(2) worn(3) item(2) assms(5) u(1)
    by (simp add: st state_inv_def held_def)
  then have total: "total_held st3 = add_mset (worn\<lparr>it_revision := saturating_add (it_revision worn) 1\<rparr>) (total_held st2)"
    by (simp add: st total_held_def u(2))
  have "it_id item \<in># ids_of (total_held st2)"
    using d(3,4) item(2) assms(5) by (force simp: st total_held_def ids_of_def)
  then have "2 \<le> count (ids_of (total_held st3)) (it_id item)"
    using worn(3) by (simp add: total flip: count_greater_zero_iff)
  moreover have "stock d (total_held st3) =
      stock d (total_held st) + (if it_definition_id item = d then unat (it_quantity item) else 0)"
    using ok1(2) ok2(2) worn(4,5) by (simp add: total conserves_def)
  ultimately show ?thesis using item(1) by (simp add: st)
qed

definition worn_item :: item_instance where
  "worn_item = item_new_stackable 7 5 (OwnedByCharacter 1) 3"

definition wearing_state :: inventory_state where
  "wearing_state = (put_item worn_item (inventory_new 1 1), bag_manager_new, 0)"

lemma one_cell_grid:
  "can_place_at (grid_new 1 1) \<lparr>gs_x = 0, gs_y = 0\<rparr> \<lparr>dim_width = 1, dim_height = 1\<rparr> RotNormal None = Some (Inr ())"
  "\<exists>g. place_item (grid_new 1 1) 7 \<lparr>gs_x = 0, gs_y = 0\<rparr> \<lparr>dim_width = 1, dim_height = 1\<rparr> RotNormal = Some (Inr g)"
  "remove_item (grid_new 1 1) i = Some (False, grid_new 1 1)"
  by (simp_all add: can_place_at_def place_item_def grid_new_def word_range_def check_cell_def write_cells_def write_cell_def
      checked_add_def index_of_def saturating_add_def oriented_def remove_item_def Let_def)

lemma wearing_state_equip:
  "apply_equip (\<lambda>_. Some Head) 1 \<lparr>eq_item_id = 7, eq_target_slot = Head, eq_expected_revision = 1\<rparr> wearing_state =
    Some (ActionProcessed 1 ActionSuccess,
      (put_item (worn_item\<lparr>it_revision := 2\<rparr>) (inventory_new 1 1))
        \<lparr>inv_equipment := (inv_equipment (inventory_new 1 1))(Head \<mapsto> worn_item\<lparr>it_revision := 2\<rparr>)\<rparr>, bag_manager_new, 0)"
  by (simp add: wearing_state_def worn_item_def apply_equip_def handle_equip_item_def item_new_stackable_def put_item_def
      inventory_new_def one_cell_grid equip_item_def saturating_add_def Let_def)

theorem worn_item_duplicated_witness:
  "\<exists>ev2 st2 ev3 st3. apply_drop 1 (F32 0, F32 0) 0 \<lparr>dq_item_id = 7, dq_expected_revision = 2\<rparr>
      ((put_item (worn_item\<lparr>it_revision := 2\<rparr>) (inventory_new 1 1))
        \<lparr>inv_equipment := (inv_equipment (inventory_new 1 1))(Head \<mapsto> worn_item\<lparr>it_revision := 2\<rparr>)\<rparr>, bag_manager_new, 0) =
      Some (ev2, st2) \<and>
    apply_unequip (\<lambda>_. Some \<lparr>dim_width = 1, dim_height = 1\<rparr>) 1 \<lparr>uq_source_slot = Head, uq_target_slot = \<lparr>gs_x = 0, gs_y = 0\<rparr>,
      uq_rotation = RotNormal, uq_expected_revision = 2\<rparr> st2 = Some (ev3, st3) \<and> stock 5 (total_held st3) = 6"
proof -
  let ?st1 = "((put_item (worn_item\<lparr>it_revision := 2\<rparr>) (inventory_new 1 1))
      \<lparr>inv_equipment := (inv_equipment (inventory_new 1 1))(Head \<mapsto> worn_item\<lparr>it_revision := 2\<rparr>)\<rparr>, bag_manager_new, 0 :: u64)"
  let ?qd = "\<lparr>dq_item_id = 7, dq_expected_revision = 2\<rparr>"
  let ?qu = "\<lparr>uq_source_slot = Head, uq_target_slot = \<lparr>gs_x = 0, gs_y = 0\<rparr>, uq_rotation = RotNormal, uq_expected_revision = 2\<rparr>"
  obtain g where g: "place_item (grid_new 1 1) 7 \<lparr>gs_x = 0, gs_y = 0\<rparr> \<lparr>dim_width = 1, dim_height = 1\<rparr> RotNormal = Some (Inr g)"
    using one_cell_grid(2) by blast
  have "\<exists>b x st2 st3. apply_drop 1 (F32 0, F32 0) 0 ?qd ?st1 = Some (DropProcessed 1 (DropSuccess b x), st2) \<and>
      apply_unequip (\<lambda>_. Some \<lparr>dim_width = 1, dim_height = 1\<rparr>) 1 ?qu st2 = Some (ActionProcessed 1 ActionSuccess, st3)"
    by (simp add: worn_item_def apply_drop_def handle_drop_item_def apply_unequip_def handle_unequip_item_def
        item_new_stackable_def put_item_def take_item_def inventory_new_def one_cell_grid g unequip_item_def Let_def)
  then obtain b x st2 st3 where run: "apply_drop 1 (F32 0, F32 0) 0 ?qd ?st1 = Some (DropProcessed 1 (DropSuccess b x), st2)"
    "apply_unequip (\<lambda>_. Some \<lparr>dim_width = 1, dim_height = 1\<rparr>) 1 ?qu st2 = Some (ActionProcessed 1 ActionSuccess, st3)" by blast
  have "state_inv wearing_state"
    using bag_manager_new_inv
    by (simp add: state_inv_def wearing_state_def put_item_def inventory_new_def keyed_def worn_item_def item_new_stackable_def
        get_bag_def bag_manager_new_def)
  moreover have "unat (snd (snd wearing_state)) < 2 ^ 64 - 1" by (simp add: wearing_state_def)
  ultimately have "stock 5 (total_held st3) = 6"
    using worn_item_duplicated [OF _ _ wearing_state_equip run(1) _ run(2), of 5]
    by (simp add: wearing_state_def put_item_def inventory_new_def worn_item_def item_new_stackable_def total_held_def
        held_def map_values_def bag_held_def bag_manager_new_def)
  with run show ?thesis by blast
qed

end
