(* ===== verification/Zone.thy ===== *)
theory Zone
  imports Systems Zone_Inventory
begin

text \<open>
  \<open>ZoneRuntime\<close> of crates/simulation/src/zone.rs: the single writer of a zone, its commands and its tick.
  The identifier of a spawned entity comes from the \<open>hecs\<close> allocator and is an argument; what is
  offered to the snapshot and event channels is the result of the tick, and what is handed to a responder
  the result of a command. The inventory intents are those of Zone\_Inventory, applied to the entities.
\<close>

section \<open>Definitions\<close>

datatype zone_error =
  ZoneZeroTickRate
| ZoneMovement movement_error
| ZoneTraversal traversal_error
| ZoneSystem system_error
| DuplicateSpawn u64
| UnknownCharacter
| NoSuchEntity
| TickOverflow

datatype zone_command =
  SpawnCharacter u64 world_position character_inventory u64
| DespawnCharacter u64 bool
| SnapshotInventory u64
| MoveCommand u64 u64 movement_input
| SpawnRock world_position u32
| MineCommand u64 u32
| InventoryCommand u64 inventory_intent

record zone =
  zo_tick :: u64
  zo_rules :: movement_rules
  zo_traversal :: traversal_world
  zo_world :: world
  zo_entity_map :: "u64 \<rightharpoonup> u64"
  zo_last_inputs :: "u64 \<rightharpoonup> u64"
  zo_bags :: bag_manager
  zo_pending :: "(u64 \<times> inventory_intent) list"
  zo_next_bag :: u64
  zo_revisions :: "u64 \<rightharpoonup> u64"

definition zone_new :: "u32 \<Rightarrow> movement_settings \<Rightarrow> traversal_world \<Rightarrow> zone_error + zone" where
  "zone_new tick_rate_hz settings tw =
     (if tick_rate_hz = 0 then Inl ZoneZeroTickRate
      else (case movement_rules_new settings tick_rate_hz of
              Inl err \<Rightarrow> Inl (ZoneMovement err)
            | Inr rules \<Rightarrow>
                Inr \<lparr>zo_tick = 0, zo_rules = rules, zo_traversal = tw, zo_world = [], zo_entity_map = Map.empty,
                     zo_last_inputs = Map.empty, zo_bags = bag_manager_new, zo_pending = [], zo_next_bag = 0,
                     zo_revisions = Map.empty\<rparr>))"

text \<open>The entities of the world by identifier.\<close>

definition entity_of :: "world \<Rightarrow> u64 \<Rightarrow> entity option" where
  "entity_of w e = find (\<lambda>x. en_id x = e) w"

definition change_entity :: "u64 \<Rightarrow> (entity \<Rightarrow> entity) \<Rightarrow> world \<Rightarrow> world" where
  "change_entity e f w = map (\<lambda>x. if en_id x = e then f x else x) w"

definition insert_one :: "u64 \<Rightarrow> (entity \<Rightarrow> entity) \<Rightarrow> world \<Rightarrow> zone_error + world" where
  "insert_one e f w = (if entity_of w e = None then Inl NoSuchEntity else Inr (change_entity e f w))"

definition character_entity :: "u64 \<Rightarrow> u64 \<Rightarrow> world_position \<Rightarrow> character_inventory \<Rightarrow> entity" where
  "character_entity e c p iv =
     \<lparr>en_id = e, en_identity = Some c, en_position = Some p, en_move_intent = None,
      en_remainder = Some remainder_default, en_dirty = True, en_rock = None, en_mine_intent = None,
      en_inventory = Some iv\<rparr>"

definition rock_entity :: "u64 \<Rightarrow> world_position \<Rightarrow> u32 \<Rightarrow> entity" where
  "rock_entity e p health =
     \<lparr>en_id = e, en_identity = None, en_position = Some p, en_move_intent = None, en_remainder = None,
      en_dirty = False, en_rock = Some (rock_node_new health), en_mine_intent = None, en_inventory = None\<rparr>"

text \<open>The inventory a despawn or a snapshot answers with; a missing one is an empty grid of 10 by 6.\<close>

definition inventory_of :: "world \<Rightarrow> u64 \<Rightarrow> character_inventory" where
  "inventory_of w e =
     (case entity_of w e of
        None \<Rightarrow> inventory_new 10 6
      | Some x \<Rightarrow> (case en_inventory x of None \<Rightarrow> inventory_new 10 6 | Some iv \<Rightarrow> iv))"

definition get_character_inventory :: "zone \<Rightarrow> u64 \<Rightarrow> (character_inventory \<times> u64) option" where
  "get_character_inventory z c =
     (case zo_entity_map z c of
        None \<Rightarrow> None
      | Some e \<Rightarrow>
          (case entity_of (zo_world z) e of
             None \<Rightarrow> None
           | Some x \<Rightarrow>
               map_option (\<lambda>iv. (iv, case zo_revisions z c of None \<Rightarrow> 1 | Some r \<Rightarrow> r)) (en_inventory x)))"

text \<open>A command; the answer is what goes to its responder, if it has one.\<close>

type_synonym zone_answer = "(character_inventory \<times> u64) option"

fun zone_accept :: "u64 \<Rightarrow> zone_command \<Rightarrow> zone \<Rightarrow> (zone_error + zone_answer) \<times> zone" where
  "zone_accept fresh (SpawnCharacter c p iv revision) z =
     (case validate_placement (zo_traversal z) p (mr_character_radius_mm (zo_rules z)) of
        Inl err \<Rightarrow> (Inl (ZoneTraversal err), z)
      | Inr _ \<Rightarrow>
          (case zo_entity_map z c of
             Some _ \<Rightarrow> (Inl (DuplicateSpawn c), z)
           | None \<Rightarrow>
               (Inr None, z\<lparr>zo_world := zo_world z @ [character_entity fresh c p iv],
                            zo_entity_map := (zo_entity_map z)(c \<mapsto> fresh),
                            zo_revisions := (zo_revisions z)(c \<mapsto> revision)\<rparr>)))"
| "zone_accept fresh (DespawnCharacter c responder) z =
     (case zo_entity_map z c of
        None \<Rightarrow> (Inl UnknownCharacter, z)
      | Some e \<Rightarrow>
          (let revision = (case zo_revisions z c of None \<Rightarrow> 0 | Some r \<Rightarrow> r);
               z' = z\<lparr>zo_entity_map := (zo_entity_map z)(c := None),
                      zo_last_inputs := (zo_last_inputs z)(c := None),
                      zo_revisions := (zo_revisions z)(c := None)\<rparr>
           in if entity_of (zo_world z) e = None then (Inl NoSuchEntity, z')
              else (Inr (if responder then Some (inventory_of (zo_world z) e, revision) else None),
                    z'\<lparr>zo_world := despawn_all [e] (zo_world z)\<rparr>)))"
| "zone_accept fresh (SnapshotInventory c) z =
     (case zo_entity_map z c of
        None \<Rightarrow> (Inr None, z)
      | Some e \<Rightarrow>
          (Inr (Some (inventory_of (zo_world z) e, case zo_revisions z c of None \<Rightarrow> 0 | Some r \<Rightarrow> r)), z))"
| "zone_accept fresh (MoveCommand c sequence input) z =
     (case zo_entity_map z c of
        None \<Rightarrow> (Inl UnknownCharacter, z)
      | Some e \<Rightarrow>
          (case insert_one e (\<lambda>x. x\<lparr>en_move_intent := Some input\<rparr>) (zo_world z) of
             Inl err \<Rightarrow> (Inl err, z)
           | Inr w \<Rightarrow>
               (Inr None, z\<lparr>zo_world := w, zo_last_inputs := (zo_last_inputs z)(c \<mapsto> sequence)\<rparr>)))"
| "zone_accept fresh (SpawnRock p health) z =
     (Inr None, z\<lparr>zo_world := zo_world z @ [rock_entity fresh p health]\<rparr>)"
| "zone_accept fresh (MineCommand c force) z =
     (case zo_entity_map z c of
        None \<Rightarrow> (Inl UnknownCharacter, z)
      | Some e \<Rightarrow>
          (case insert_one e (\<lambda>x. x\<lparr>en_mine_intent := Some \<lparr>mi_miner = c, mi_power = force\<rparr>\<rparr>) (zo_world z) of
             Inl err \<Rightarrow> (Inl err, z)
           | Inr w \<Rightarrow> (Inr None, z\<lparr>zo_world := w\<rparr>)))"
| "zone_accept fresh (InventoryCommand c intent) z =
     (Inr None, z\<lparr>zo_pending := zo_pending z @ [(c, intent)]\<rparr>)"

section \<open>The tick\<close>

text \<open>Positions in metres, as the inventory operations read them.\<close>

definition metres :: "int \<Rightarrow> f32" where
  "metres mm = f32_div_const (f32_of_i64 mm) 1000"

text \<open>What the pending intents read and write: the entities, the bags and the counter of bag ids.\<close>

type_synonym intents_state = "world \<times> bag_manager \<times> u64"

fun process_intents ::
  "dimensions_of \<Rightarrow> slot_of \<Rightarrow> u64 \<Rightarrow> (u64 \<rightharpoonup> u64) \<Rightarrow> (u64 \<times> inventory_intent) list \<Rightarrow> intents_state
     \<Rightarrow> (inventory_event list \<times> intents_state) option" where
  "process_intents dims slots tick em [] s = Some ([], s)"
| "process_intents dims slots tick em ((c, intent) # rest) (w, bags, last_bag) =
     (case em c of
        None \<Rightarrow> process_intents dims slots tick em rest (w, bags, last_bag)
      | Some e \<Rightarrow>
          (case entity_of w e of
             None \<Rightarrow> process_intents dims slots tick em rest (w, bags, last_bag)
           | Some x \<Rightarrow>
               (case (en_position x, en_inventory x) of
                  (Some p, Some iv) \<Rightarrow>
                    (case apply_intent dims slots tick c (metres (pos_x p), metres (pos_y p)) intent (iv, bags, last_bag) of
                       None \<Rightarrow> None
                     | Some (event, iv', bags', last_bag') \<Rightarrow>
                         map_option (\<lambda>(events, s). (event # events, s))
                           (process_intents dims slots tick em rest
                             (change_entity e (\<lambda>x. x\<lparr>en_inventory := Some iv'\<rparr>) w, bags', last_bag')))
                | _ \<Rightarrow> process_intents dims slots tick em rest (w, bags, last_bag))))"

definition process_inventory_intents ::
  "dimensions_of \<Rightarrow> slot_of \<Rightarrow> zone \<Rightarrow> (inventory_event list \<times> zone) option" where
  "process_inventory_intents dims slots z =
     map_option (\<lambda>(events, w, bags, last_bag).
         (events, z\<lparr>zo_world := w, zo_bags := bags, zo_next_bag := last_bag, zo_pending := []\<rparr>))
       (process_intents dims slots (zo_tick z) (zo_entity_map z) (zo_pending z)
         (zo_world z, snd (tick_decay (zo_tick z) (zo_bags z)), zo_next_bag z))"

record zone_snapshot =
  zs_character :: u64
  zs_tick :: u64
  zs_position :: world_position
  zs_last_processed :: "u64 option"
  zs_active_movement :: "u64 option"

definition snapshot_of :: "zone \<Rightarrow> u64 \<times> world_position \<Rightarrow> zone_snapshot" where
  "snapshot_of z update =
     (case update of (c, p) \<Rightarrow>
        \<lparr>zs_character = c, zs_tick = zo_tick z, zs_position = p,
         zs_last_processed = zo_last_inputs z c, zs_active_movement = zo_last_inputs z c\<rparr>)"

definition zone_step :: "zone \<Rightarrow> ((zone_error + rock_destroyed_event list \<times> zone_snapshot list) \<times> zone) option" where
  "zone_step z =
     (case checked_add (zo_tick z) 1 of
        None \<Rightarrow> Some (Inl TickOverflow, z)
      | Some t \<Rightarrow>
          (case simulation_tick (zo_traversal z) (zo_rules z) (zo_world z) of
             None \<Rightarrow> None
           | Some (Inl err, w) \<Rightarrow> Some (Inl (ZoneSystem err), z\<lparr>zo_tick := t, zo_world := w\<rparr>)
           | Some (Inr (updates, destroyed), w) \<Rightarrow>
               map_option (\<lambda>(events, z'). (Inr (destroyed, map (snapshot_of z') updates), z'))
                 (process_inventory_intents (\<lambda>_. None) (\<lambda>_. None) (z\<lparr>zo_tick := t, zo_world := w\<rparr>))))"

text \<open>The loop of \<open>run\<close>: the ticks and commands in the order in which they are received; it stops at an error.\<close>

datatype zone_input = Tick | Command u64 zone_command

fun zone_run :: "zone_input list \<Rightarrow> zone \<Rightarrow> ((zone_error + unit) \<times> zone) option" where
  "zone_run [] z = Some (Inr (), z)"
| "zone_run (Tick # inputs) z =
     (case zone_step z of
        None \<Rightarrow> None
      | Some (Inl err, z') \<Rightarrow> Some (Inl err, z')
      | Some (Inr _, z') \<Rightarrow> zone_run inputs z')"
| "zone_run (Command fresh c # inputs) z =
     (case zone_accept fresh c z of
        (Inl err, z') \<Rightarrow> Some (Inl err, z')
      | (Inr _, z') \<Rightarrow> zone_run inputs z')"

section \<open>The entities of a zone\<close>

text \<open>
  Characters are the entities with an identity; they carry a position clear of the blockers, a remainder and an
  inventory (of which \<open>K\<close> holds), and are no rocks. Nothing else moves, mines or holds items.
\<close>

definition character_ok :: "(character_inventory \<Rightarrow> bool) \<Rightarrow> zone \<Rightarrow> entity \<Rightarrow> bool" where
  "character_ok K z x \<longleftrightarrow>
     (if en_identity x = None
      then en_move_intent x = None \<and> en_mine_intent x = None \<and> en_inventory x = None
      else en_rock x = None \<and>
        (\<exists>p r iv. en_position x = Some p \<and> en_remainder x = Some r \<and> en_inventory x = Some iv \<and>
          validate_placement (zo_traversal z) p (mr_character_radius_mm (zo_rules z)) = Inr () \<and>
          remainder_ok (zo_rules z) r \<and> K iv))"

definition world_ok :: "(character_inventory \<Rightarrow> bool) \<Rightarrow> zone \<Rightarrow> bool" where
  "world_ok K z \<longleftrightarrow>
     rules_ok (zo_rules z) \<and> distinct (map en_id (zo_world z)) \<and> list_all (character_ok K z) (zo_world z)"

text \<open>The map lists exactly the characters, and no input is remembered for anybody else.\<close>

definition map_ok :: "zone \<Rightarrow> bool" where
  "map_ok z \<longleftrightarrow>
     (\<forall>c e. zo_entity_map z c = Some e \<longleftrightarrow> (\<exists>x\<in>set (zo_world z). en_id x = e \<and> en_identity x = Some c)) \<and>
     dom (zo_last_inputs z) \<subseteq> dom (zo_entity_map z) \<and> dom (zo_revisions z) = dom (zo_entity_map z)"

text \<open>All items the entities hold.\<close>

definition held_by :: "entity \<Rightarrow> item_instance multiset" where
  "held_by x = (case en_inventory x of None \<Rightarrow> {#} | Some iv \<Rightarrow> held iv)"

definition world_held :: "world \<Rightarrow> item_instance multiset" where
  "world_held w = sum_list (map held_by w)"

lemma world_held_simps [simp]:
  "world_held [] = {#}" "world_held (x # w) = held_by x + world_held w"
  "world_held (v @ w) = world_held v + world_held w"
  by (simp_all add: world_held_def)

definition zone_held :: "zone \<Rightarrow> item_instance multiset" where
  "zone_held z = world_held (zo_world z) + bag_held (zo_bags z)"

text \<open>
  What holds of every zone, and what holds in addition when no item is spawned that the zone holds already: the inventories are
  keyed by their items' ids, no item is held twice, and the bags are indexed below the counter.
\<close>

definition zone_sound :: "(character_inventory \<Rightarrow> bool) \<Rightarrow> zone \<Rightarrow> bool" where
  "zone_sound K z \<longleftrightarrow> world_ok K z \<and> map_ok z"

abbreviation any_inventory :: "character_inventory \<Rightarrow> bool" where
  "any_inventory \<equiv> \<lambda>_. True"

abbreviation keyed_inventory :: "character_inventory \<Rightarrow> bool" where
  "keyed_inventory \<equiv> \<lambda>iv. keyed (inv_items iv)"

definition zone_inv :: "zone \<Rightarrow> bool" where
  "zone_inv z \<longleftrightarrow> zone_sound keyed_inventory z \<and> bag_inv (zo_bags z) \<and>
     (\<forall>i. get_bag (zo_bags z) i \<noteq> None \<longrightarrow> i \<le> zo_next_bag z) \<and> unique_ids (zone_held z)"

lemma zone_inv_sound: "zone_inv z \<Longrightarrow> zone_sound keyed_inventory z"
  by (simp add: zone_inv_def)

lemma entity_of_Some: "entity_of w e = Some x \<Longrightarrow> x \<in> set w \<and> en_id x = e"
  by (auto simp: entity_of_def find_Some_iff)

lemma entity_of_None: "entity_of w e = None \<longleftrightarrow> e \<notin> en_id ` set w"
  by (auto simp: entity_of_def find_None_iff)

lemma entity_of_unique:
  assumes "distinct (map en_id w)" "x \<in> set w"
  shows "entity_of w (en_id x) = Some x"
proof -
  obtain y where y: "entity_of w (en_id x) = Some y" using assms(2) entity_of_None by fastforce
  from entity_of_Some [OF this] have "y \<in> set w" "en_id y = en_id x" by simp_all
  with assms have "y = x" by (auto simp: distinct_map inj_on_def)
  with y show ?thesis by simp
qed

lemma map_okD:
  assumes "map_ok z"
  shows "zo_entity_map z c = Some e \<longleftrightarrow> (\<exists>x\<in>set (zo_world z). en_id x = e \<and> en_identity x = Some c)"
    and "dom (zo_last_inputs z) \<subseteq> dom (zo_entity_map z)" and "dom (zo_revisions z) = dom (zo_entity_map z)"
  using assms by (auto simp: map_ok_def)

lemma known_entity:
  assumes "zone_sound K z" "zo_entity_map z c = Some e"
  obtains x where "entity_of (zo_world z) e = Some x" "x \<in> set (zo_world z)" "en_id x = e" "en_identity x = Some c"
proof -
  from map_okD(1) assms obtain x where x: "x \<in> set (zo_world z)" "en_id x = e" "en_identity x = Some c"
    unfolding zone_sound_def by metis
  moreover have "entity_of (zo_world z) e = Some x"
    using entity_of_unique [of "zo_world z" x] assms(1) x by (auto simp: zone_sound_def world_ok_def)
  ultimately show thesis using that by blast
qed

text \<open>A change of entities that keeps who they are keeps the map.\<close>

definition same_identity :: "entity \<Rightarrow> entity \<Rightarrow> bool" where
  "same_identity x y \<longleftrightarrow> en_id y = en_id x \<and> en_identity y = en_identity x"

lemma same_identity_set:
  assumes "list_all2 same_identity w w'"
  shows "(\<exists>x\<in>set w'. en_id x = e \<and> en_identity x = Some c) \<longleftrightarrow> (\<exists>x\<in>set w. en_id x = e \<and> en_identity x = Some c)"
    and "map en_id w' = map en_id w"
proof -
  have m: "map (\<lambda>x. (en_id x, en_identity x)) w' = map (\<lambda>x. (en_id x, en_identity x)) w"
    using assms by (auto simp: list_all2_conv_all_nth same_identity_def intro!: nth_equalityI)
  show "map en_id w' = map en_id w" using arg_cong [OF m, of "map fst"] by (simp add: comp_def)
  have i: "(\<exists>x\<in>set v. en_id x = e \<and> en_identity x = Some c) \<longleftrightarrow> (e, Some c) \<in> (\<lambda>x. (en_id x, en_identity x)) ` set v" for v
    by (auto simp: image_iff)
  show "(\<exists>x\<in>set w'. en_id x = e \<and> en_identity x = Some c) \<longleftrightarrow> (\<exists>x\<in>set w. en_id x = e \<and> en_identity x = Some c)"
    unfolding i using arg_cong [OF m, of set] by simp
qed

lemma same_identity_trans:
  "list_all2 same_identity u v \<Longrightarrow> list_all2 same_identity v w \<Longrightarrow> list_all2 same_identity u w"
  by (rule list_all2_trans [of same_identity same_identity same_identity]) (simp_all add: same_identity_def)

lemma change_entity_same:
  assumes "\<And>x. same_identity x (f x)"
  shows "list_all2 same_identity w (change_entity e f w)"
  using assms by (auto simp: change_entity_def list_all2_conv_all_nth same_identity_def)

lemma map_ok_same:
  assumes "map_ok z" "list_all2 same_identity (zo_world z) w"
    and "zo_world z' = w" "zo_entity_map z' = zo_entity_map z"
    and "dom (zo_last_inputs z') \<subseteq> dom (zo_entity_map z)" "zo_revisions z' = zo_revisions z"
  shows "map_ok z'"
  using assms same_identity_set [OF assms(2)] by (simp add: map_ok_def)

definition same_holder :: "entity \<Rightarrow> entity \<Rightarrow> bool" where
  "same_holder x y \<longleftrightarrow> same_identity x y \<and> en_inventory y = en_inventory x"

lemma same_holder_identity: "list_all2 same_holder w w' \<Longrightarrow> list_all2 same_identity w w'"
  by (erule list_all2_mono) (simp add: same_holder_def)

lemma world_held_same: "list_all2 same_holder w w' \<Longrightarrow> world_held w' = world_held w"
  by (induction rule: list_all2_induct) (simp_all add: same_holder_def held_by_def)

lemma world_held_filter: "world_held (filter P w) \<subseteq># world_held w"
  by (induction w) (auto intro: subset_mset.add_mono subset_mset.add_increasing)

section \<open>Commands\<close>

lemma character_ok_cong:
  "zo_traversal z' = zo_traversal z \<Longrightarrow> zo_rules z' = zo_rules z \<Longrightarrow> character_ok K z' = character_ok K z"
  by (simp add: character_ok_def fun_eq_iff)

lemma spawn_sound:
  assumes I: "zone_sound K z" and fresh: "fresh \<notin> en_id ` set (zo_world z)" and new: "en_id x = fresh" "character_ok K z x"
    and idn: "en_identity x = None \<and> em = zo_entity_map z \<and> rv = zo_revisions z \<or>
      (\<exists>c r. en_identity x = Some c \<and> zo_entity_map z c = None \<and> em = (zo_entity_map z)(c \<mapsto> fresh) \<and>
        rv = (zo_revisions z)(c \<mapsto> r))"
  shows "zone_sound K (z\<lparr>zo_world := zo_world z @ [x], zo_entity_map := em, zo_revisions := rv\<rparr>)"
proof -
  let ?z = "z\<lparr>zo_world := zo_world z @ [x], zo_entity_map := em, zo_revisions := rv\<rparr>"
  have m: "map_ok z" and w: "world_ok K z" using I by (simp_all add: zone_sound_def)
  note M = map_okD [OF m]
  have "character_ok K ?z = character_ok K z" by (rule character_ok_cong) simp_all
  with w new fresh have "world_ok K ?z" by (auto simp: world_ok_def)
  moreover have "map_ok ?z"
    using idn
  proof (elim disjE exE conjE)
    assume a: "en_identity x = None" "em = zo_entity_map z" "rv = zo_revisions z"
    then show ?thesis using M(1-3) unfolding map_ok_def by auto
  next
    fix c r
    assume a: "en_identity x = Some c" "zo_entity_map z c = None" "em = (zo_entity_map z)(c \<mapsto> fresh)"
      "rv = (zo_revisions z)(c \<mapsto> r)"
    have none: "en_identity y \<noteq> Some c" if "y \<in> set (zo_world z)" for y
      using M(1) [of c "en_id y"] a(2) that by auto
    have "(em k = Some e) \<longleftrightarrow> (\<exists>y\<in>set (zo_world z @ [x]). en_id y = e \<and> en_identity y = Some k)" for k e
    proof (cases "k = c")
      case True
      then show ?thesis using none a new(1) by auto
    next
      case False
      then show ?thesis using M(1) [of k e] a by auto
    qed
    moreover have "dom (zo_last_inputs z) \<subseteq> dom em" "dom rv = dom em" using M(2,3) a by auto
    ultimately show ?thesis by (simp add: map_ok_def)
  qed
  ultimately show ?thesis by (simp add: zone_sound_def)
qed

lemma despawn_sound:
  assumes I: "zone_sound K z" and e: "zo_entity_map z c = Some e"
  shows "zone_sound K (z\<lparr>zo_entity_map := (zo_entity_map z)(c := None), zo_last_inputs := (zo_last_inputs z)(c := None),
    zo_revisions := (zo_revisions z)(c := None), zo_world := despawn_all [e] (zo_world z)\<rparr>)" (is "zone_sound K ?z")
proof -
  have m: "map_ok z" and w: "world_ok K z" using I by (simp_all add: zone_sound_def)
  note M = map_okD [OF m]
  obtain x where x: "entity_of (zo_world z) e = Some x" "x \<in> set (zo_world z)" "en_id x = e" "en_identity x = Some c"
    by (rule known_entity [OF I e])
  have only: "en_id y = e \<longleftrightarrow> en_identity y = Some c" if "y \<in> set (zo_world z)" for y
  proof
    assume "en_id y = e"
    with x that w have "y = x" by (auto simp: world_ok_def distinct_map inj_on_def)
    with x show "en_identity y = Some c" by simp
  next
    assume "en_identity y = Some c"
    with M(1) [of c "en_id y"] that e show "en_id y = e" by auto
  qed
  have "character_ok K ?z = character_ok K z" by (rule character_ok_cong) simp_all
  with w have "world_ok K ?z"
    by (auto simp: world_ok_def despawn_all_def list_all_iff intro: distinct_map_filter)
  moreover have "(((zo_entity_map z)(c := None)) k = Some e') \<longleftrightarrow>
      (\<exists>y\<in>set (despawn_all [e] (zo_world z)). en_id y = e' \<and> en_identity y = Some k)" for k e'
  proof (cases "k = c")
    case True
    then show ?thesis using only by (auto simp: despawn_all_def)
  next
    case False
    then show ?thesis using M(1) [of k e'] only by (auto simp: despawn_all_def)
  qed
  then have "map_ok ?z" using M(2,3) by (auto simp: map_ok_def)
  ultimately show ?thesis by (simp add: zone_sound_def)
qed

lemma change_sound:
  assumes I: "zone_sound K z" and f: "\<And>x. same_holder x (f x)"
    and ok: "\<And>x. x \<in> set (zo_world z) \<Longrightarrow> en_id x = e \<Longrightarrow> character_ok K z x \<Longrightarrow> character_ok K z (f x)"
    and li: "dom li \<subseteq> dom (zo_entity_map z)"
  shows "zone_sound K (z\<lparr>zo_world := change_entity e f (zo_world z), zo_last_inputs := li\<rparr>)" (is "zone_sound K ?z")
proof -
  have m: "map_ok z" and w: "world_ok K z" using I by (simp_all add: zone_sound_def)
  have s: "list_all2 same_identity (zo_world z) (change_entity e f (zo_world z))"
    by (rule change_entity_same) (use f in \<open>simp add: same_holder_def\<close>)
  have "character_ok K ?z = character_ok K z" by (rule character_ok_cong) simp_all
  moreover have "list_all (character_ok K z) (change_entity e f (zo_world z))"
    using w ok by (auto simp: list_all_iff change_entity_def world_ok_def)
  ultimately have "world_ok K ?z" using w same_identity_set(2) [OF s] by (simp add: world_ok_def)
  moreover have "map_ok ?z" by (rule map_ok_same [OF m s]) (use li in simp_all)
  ultimately show ?thesis by (simp add: zone_sound_def)
qed

lemma change_move_ok [simp]: "en_identity x \<noteq> None \<Longrightarrow> character_ok K z x \<Longrightarrow> character_ok K z (x\<lparr>en_move_intent := i\<rparr>)"
  by (auto simp: character_ok_def)

lemma change_mine_ok [simp]: "en_identity x \<noteq> None \<Longrightarrow> character_ok K z x \<Longrightarrow> character_ok K z (x\<lparr>en_mine_intent := i\<rparr>)"
  by (auto simp: character_ok_def)

text \<open>The entity the map names is a character.\<close>

lemma known_identity:
  assumes "zone_sound K z" "zo_entity_map z c = Some e" "x \<in> set (zo_world z)" "en_id x = e"
  shows "en_identity x \<noteq> None"
proof -
  have "entity_of (zo_world z) e = Some x"
    using entity_of_unique [OF _ assms(3)] assms(1,4) by (simp add: zone_sound_def world_ok_def)
  then show ?thesis using known_entity [OF assms(1,2)] by fastforce
qed

lemma accept_sound:
  assumes "zone_sound K z" "fresh \<notin> en_id ` set (zo_world z)" "zone_accept fresh cmd z = (r, z')"
    and "\<And>c p iv rv. cmd = SpawnCharacter c p iv rv \<Longrightarrow> K iv"
  shows "zone_sound K z'"
proof -
  have rules: "rules_ok (zo_rules z)" using assms(1) by (simp add: zone_sound_def world_ok_def)
  note fresh = assms(2)
  show ?thesis
  proof (cases cmd)
    case (SpawnCharacter c p iv revision)
    have "K iv" using assms(4) SpawnCharacter by blast
    then have ok: "character_ok K z (character_entity fresh c p iv)"
      if "validate_placement (zo_traversal z) p (mr_character_radius_mm (zo_rules z)) = Inr ()"
      using that remainder_default_ok [OF rules] by (simp add: character_ok_def character_entity_def)
    have "zone_sound K (z\<lparr>zo_world := zo_world z @ [character_entity fresh c p iv],
        zo_entity_map := (zo_entity_map z)(c \<mapsto> fresh), zo_revisions := (zo_revisions z)(c \<mapsto> revision)\<rparr>)"
      if "validate_placement (zo_traversal z) p (mr_character_radius_mm (zo_rules z)) = Inr ()"
        "zo_entity_map z c = None"
      by (rule spawn_sound [OF assms(1) fresh]) (use ok that in \<open>auto simp: character_entity_def\<close>)
    with assms(1,3) SpawnCharacter show ?thesis by (auto split: sum.splits option.splits)
  next
    case (DespawnCharacter c responder)
    have "entity_of (zo_world z) e \<noteq> None" if "zo_entity_map z c = Some e" for e
      by (rule known_entity [OF assms(1) that]) simp
    with assms(1,3) DespawnCharacter despawn_sound [OF assms(1)] show ?thesis
      by (auto simp: Let_def split: option.splits if_splits)
  next
    case (SnapshotInventory c)
    with assms(1,3) show ?thesis by (auto split: option.splits)
  next
    case (MoveCommand c sequence input)
    have "zone_sound K (z\<lparr>zo_world := change_entity e (\<lambda>x. x\<lparr>en_move_intent := Some input\<rparr>) (zo_world z),
        zo_last_inputs := (zo_last_inputs z)(c \<mapsto> sequence)\<rparr>)" if e: "zo_entity_map z c = Some e" for e
    proof (rule change_sound [OF assms(1)])
      show "character_ok K z (x\<lparr>en_move_intent := Some input\<rparr>)"
        if "x \<in> set (zo_world z)" "en_id x = e" "character_ok K z x" for x
        using known_identity [OF assms(1) e that(1,2)] that(3) by simp
      show "dom ((zo_last_inputs z)(c \<mapsto> sequence)) \<subseteq> dom (zo_entity_map z)"
        using assms(1) e by (auto simp: zone_sound_def map_ok_def)
    qed (simp add: same_holder_def same_identity_def)
    with assms(1,3) MoveCommand show ?thesis by (auto simp: insert_one_def split: option.splits if_splits)
  next
    case (SpawnRock p health)
    have "zone_sound K (z\<lparr>zo_world := zo_world z @ [rock_entity fresh p health], zo_entity_map := zo_entity_map z,
        zo_revisions := zo_revisions z\<rparr>)"
      by (rule spawn_sound [OF assms(1) fresh]) (simp_all add: rock_entity_def character_ok_def)
    with assms(3) SpawnRock show ?thesis by auto
  next
    case (MineCommand c force)
    let ?f = "\<lambda>x. x\<lparr>en_mine_intent := Some \<lparr>mi_miner = c, mi_power = force\<rparr>\<rparr>"
    have "zone_sound K (z\<lparr>zo_world := change_entity e ?f (zo_world z), zo_last_inputs := zo_last_inputs z\<rparr>)"
      if e: "zo_entity_map z c = Some e" for e
    proof (rule change_sound [OF assms(1)])
      show "character_ok K z (?f x)" if "x \<in> set (zo_world z)" "en_id x = e" "character_ok K z x" for x
        using known_identity [OF assms(1) e that(1,2)] that(3) by simp
      show "dom (zo_last_inputs z) \<subseteq> dom (zo_entity_map z)"
        using assms(1) by (simp add: zone_sound_def map_ok_def)
    qed (simp add: same_holder_def same_identity_def)
    with assms(1,3) MineCommand show ?thesis by (auto simp: insert_one_def split: option.splits if_splits)
  next
    case (InventoryCommand c intent)
    have "zone_sound K (z\<lparr>zo_pending := q\<rparr>) = zone_sound K z" for q
      using character_ok_cong [of "z\<lparr>zo_pending := q\<rparr>" z] by (simp add: zone_sound_def world_ok_def map_ok_def)
    with assms InventoryCommand show ?thesis by auto
  qed
qed

text \<open>What the commands do to the items: nothing but a spawn adds any.\<close>

lemma zone_held_change:
  assumes "\<And>x. en_inventory (f x) = en_inventory x"
  shows "world_held (change_entity e f w) = world_held w"
proof -
  have "held_by (if en_id x = e then f x else x) = held_by x" for x by (simp add: held_by_def assms)
  then show ?thesis by (simp add: world_held_def change_entity_def comp_def)
qed

lemma accept_items:
  assumes "zone_accept fresh cmd z = (r, z')"
  shows "zo_bags z' = zo_bags z \<and> zo_next_bag z' = zo_next_bag z \<and>
    zone_held z' \<subseteq># (case cmd of SpawnCharacter c p iv rv \<Rightarrow> held iv | _ \<Rightarrow> {#}) + zone_held z"
proof (cases cmd)
  case (SpawnCharacter c p iv rv)
  with assms show ?thesis
    by (auto simp: zone_held_def character_entity_def held_by_def ac_simps split: sum.splits option.splits)
next
  case (DespawnCharacter c responder)
  have "world_held (despawn_all es w) \<subseteq># world_held w" for es w by (simp add: despawn_all_def world_held_filter)
  with DespawnCharacter assms show ?thesis by (auto simp: zone_held_def Let_def split: option.splits if_splits)
next
  case (MoveCommand c sequence input)
  with assms show ?thesis by (auto simp: zone_held_def insert_one_def zone_held_change split: option.splits if_splits)
next
  case (MineCommand c force)
  with assms show ?thesis by (auto simp: zone_held_def insert_one_def zone_held_change split: option.splits if_splits)
qed (use assms in \<open>auto simp: zone_held_def rock_entity_def held_by_def split: option.splits\<close>)

text \<open>
  The allocator gives an identifier that is not in the world; a stored inventory is keyed by its items' ids, none of
  which is held in the zone already. The zone checks neither; only what is proved of item quantities assumes the second.
\<close>

definition admissible :: "u64 \<Rightarrow> zone_command \<Rightarrow> zone \<Rightarrow> bool" where
  "admissible fresh cmd z \<longleftrightarrow> fresh \<notin> en_id ` set (zo_world z) \<and>
     (case cmd of SpawnCharacter c p iv r \<Rightarrow> keyed (inv_items iv) \<and> unique_ids (held iv + zone_held z) | _ \<Rightarrow> True)"

lemma accept_inv:
  assumes "zone_inv z" "admissible fresh cmd z" "zone_accept fresh cmd z = (r, z')"
  shows "zone_inv z'"
proof -
  have "zone_sound keyed_inventory z'"
    by (rule accept_sound [OF zone_inv_sound [OF assms(1)] _ assms(3)])
      (use assms(2) in \<open>auto simp: admissible_def split: zone_command.splits\<close>)
  moreover have "unique_ids ((case cmd of SpawnCharacter c p iv rv \<Rightarrow> held iv | _ \<Rightarrow> {#}) + zone_held z)"
    using assms(1,2) by (cases cmd) (simp_all add: admissible_def zone_inv_def)
  from unique_ids_mono [OF this] accept_items [OF assms(3)] have "unique_ids (zone_held z')"
    unfolding ids_of_def by (blast intro: image_mset_subseteq_mono)
  ultimately show ?thesis using assms(1) accept_items [OF assms(3)] by (simp add: zone_inv_def)
qed

section \<open>The systems\<close>

lemma move_rows_present:
  "move_rows tw rules w = (r, w') \<Longrightarrow>
    list_all2 (\<lambda>x y. (en_position y = None \<longleftrightarrow> en_position x = None) \<and> (en_remainder y = None \<longleftrightarrow> en_remainder x = None)) w w'"
proof (induction w arbitrary: r w')
  case (Cons e es)
  obtain rest es' where rec: "move_rows tw rules es = (rest, es')" by fastforce
  note ih = Cons.IH [OF rec]
  from Cons.prems rec ih show ?case
    by (auto simp: Let_def list_all2_refl split: option.splits sum.splits if_splits prod.splits)
qed simp

lemma character_ok_standing:
  assumes "character_ok K z x" "same_entity x y" "standing_ok (zo_traversal z) (zo_rules z) y"
    and "(en_position y = None \<longleftrightarrow> en_position x = None) \<and> (en_remainder y = None \<longleftrightarrow> en_remainder x = None)"
  shows "character_ok K z y"
  using assms by (auto simp: character_ok_def same_entity_def standing_ok_def split: if_splits)

lemma movement_keeps:
  assumes "rules_ok (zo_rules z)" "list_all (character_ok K z) w"
    and "movement_tick_system (zo_traversal z) (zo_rules z) w = (r, w')"
  shows "list_all (character_ok K z) w' \<and> list_all2 same_holder w w'"
proof -
  obtain r1 w1 where m: "move_rows (zo_traversal z) (zo_rules z) w = (r1, w1)" by fastforce
  have "list_all (standing_ok (zo_traversal z) (zo_rules z)) w"
    using assms(2) by (auto simp: list_all_iff standing_ok_def character_ok_def split: if_splits)
  then have "list_all (standing_ok (zo_traversal z) (zo_rules z)) w1" by (rule move_rows_standing [OF assms(1) m])
  with move_rows_same [OF m] move_rows_present [OF m] assms(2)
  have ok: "list_all (character_ok K z) w1"
    by (auto simp: list_all2_conv_all_nth list_all_length intro: character_ok_standing)
  have same: "list_all2 same_holder w w1"
    by (rule list_all2_mono [OF move_rows_same [OF m]]) (simp add: same_holder_def same_identity_def same_entity_def)
  show ?thesis
  proof (cases r1)
    case (Inl err)
    with assms(3) m ok same show ?thesis by (simp add: movement_tick_system_def)
  next
    case (Inr ids)
    with assms(3) m have "w' = mark_dirty ids w1" by (simp add: movement_tick_system_def)
    with ok same show ?thesis
      by (auto simp: mark_dirty_def list_all_iff list_all2_conv_all_nth character_ok_def same_holder_def same_identity_def)
  qed
qed

lemma mined_character_ok: "mined ds x y \<Longrightarrow> character_ok K z x \<Longrightarrow> character_ok K z y"
  by (cases "en_mine_intent y") (auto simp: mined_def character_ok_def split: if_splits)

lemma rock_rows_entity: "(i, q, p, h) \<in> set (rock_rows w) \<Longrightarrow> \<exists>x\<in>set w. en_id x = i \<and> en_rock x \<noteq> None"
  by (induction w) (auto split: option.splits)

lemma mining_keeps:
  assumes ok: "list_all (character_ok K z) w" and dist: "distinct (map en_id w)"
    and m: "mining_tick_system reach w = Some (events, w')"
  obtains gone w1 where "list_all (character_ok K z) w1" "list_all2 same_holder w w1" "w' = despawn_all gone w1"
    "\<And>x. x \<in> set w1 \<Longrightarrow> en_identity x \<noteq> None \<Longrightarrow> en_id x \<notin> set gone"
proof -
  obtain gone ds where ev: "evaluate_miners (max_reach_sq reach) (rock_rows w) (mine_intents w) = Some (events, gone, ds)"
    and w': "w' = despawn_all gone (clear_intents (map fst (mine_intents w)) (apply_damages ds w))"
    by (rule mining_run [OF m])
  define w1 where "w1 = clear_intents (map fst (mine_intents w)) (apply_damages ds w)"
  have d: "list_all2 (mined ds) w w1"
    using apply_damages_mined [of ds w] by (auto simp: w1_def clear_intents_def list_all2_conv_all_nth mined_def)
  have "list_all (character_ok K z) w1"
    unfolding list_all_length
  proof (intro allI impI)
    fix n
    assume "n < length w1"
    then have "mined ds (w ! n) (w1 ! n)" "character_ok K z (w ! n)"
      using d ok by (simp_all add: list_all2_conv_all_nth list_all_length)
    then show "character_ok K z (w1 ! n)" by (rule mined_character_ok)
  qed
  moreover have same: "list_all2 same_holder w w1"
    by (rule list_all2_mono [OF d]) (simp add: mined_def same_holder_def same_identity_def)
  moreover have "w' = despawn_all gone w1" by (simp add: w' w1_def)
  moreover have "en_id x \<notin> set gone" if x: "x \<in> set w1" "en_identity x \<noteq> None" for x
  proof
    assume "en_id x \<in> set gone"
    then obtain q p h force where "hit_by (max_reach_sq reach) (rock_rows w) (mine_intents w) (en_id x, q, p, h) force"
      using evaluate_miners_correct(2) [OF ev] by blast
    then have "(en_id x, q, p, h) \<in> set (rock_rows w)" by (auto simp: hit_by_def closest_of_def)
    from rock_rows_entity [OF this] obtain y where y: "y \<in> set w" "en_id y = en_id x" "en_rock y \<noteq> None" by blast
    obtain x0 where x0: "x0 \<in> set w" "en_id x0 = en_id x" "en_identity x0 = en_identity x"
      using same x(1) by (auto simp: list_all2_conv_all_nth in_set_conv_nth same_holder_def same_identity_def) metis
    with y dist have "y = x0" by (auto simp: distinct_map inj_on_def)
    with x0 y(3) x(2) ok show False by (auto simp: list_all_iff character_ok_def split: if_splits)
  qed
  ultimately show thesis by (rule that)
qed

lemma world_held_despawn:
  "(\<And>x. x \<in> set w \<Longrightarrow> en_id x \<in> set gone \<Longrightarrow> en_inventory x = None) \<Longrightarrow> world_held (despawn_all gone w) = world_held w"
  by (induction w) (auto simp: despawn_all_def held_by_def)

lemma clear_dirty_same: "list_all2 same_holder w (clear_dirty w)"
  by (auto simp: clear_dirty_def list_all2_conv_all_nth same_holder_def same_identity_def)

lemma character_ok_dirty [simp]: "character_ok K z (x\<lparr>en_dirty := b\<rparr>) = character_ok K z x"
  by (simp add: character_ok_def)

lemma with_world:
  assumes "world_ok K z" "map_ok z" "list_all (character_ok K z) w" "distinct (map en_id w)"
    and "\<And>c e. (\<exists>x\<in>set w. en_id x = e \<and> en_identity x = Some c) \<longleftrightarrow> (\<exists>x\<in>set (zo_world z). en_id x = e \<and> en_identity x = Some c)"
  shows "world_ok K (z\<lparr>zo_world := w\<rparr>) \<and> map_ok (z\<lparr>zo_world := w\<rparr>)"
proof -
  have "character_ok K (z\<lparr>zo_world := w\<rparr>) = character_ok K z" by (rule character_ok_cong) simp_all
  then show ?thesis using assms by (simp add: world_ok_def map_ok_def)
qed

lemma zone_tick_keeps:
  assumes I: "world_ok K z" "map_ok z" and t: "simulation_tick (zo_traversal z) (zo_rules z) (zo_world z) = Some (r, w)"
  shows "world_ok K (z\<lparr>zo_world := w\<rparr>) \<and> map_ok (z\<lparr>zo_world := w\<rparr>) \<and> world_held w = world_held (zo_world z)"
proof -
  let ?w = "zo_world z"
  have wok: "rules_ok (zo_rules z)" "distinct (map en_id ?w)" "list_all (character_ok K z) ?w"
    using I(1) by (simp_all add: world_ok_def)
  obtain r1 w1 where m: "movement_tick_system (zo_traversal z) (zo_rules z) ?w = (r1, w1)" by fastforce
  from movement_keeps [OF wok(1,3) m] have ok1: "list_all (character_ok K z) w1" and s1: "list_all2 same_holder ?w w1" by simp_all
  note i1 = same_identity_set [OF same_holder_identity [OF s1]]
  have d1: "distinct (map en_id w1)" using wok(2) i1(2) by simp
  show ?thesis
  proof (cases r1)
    case (Inl err)
    with t m have "w = w1" by (simp add: simulation_tick_def)
    with with_world [OF I ok1 d1 i1(1)] world_held_same [OF s1] show ?thesis by simp
  next
    case (Inr u)
    with t m obtain events w3 where mine: "mining_tick_system (mr_character_radius_mm (zo_rules z)) w1 = Some (events, w3)"
      and w: "w = clear_dirty w3"
      by (auto simp: simulation_tick_def split: option.splits)
    obtain gone w2 where ok2: "list_all (character_ok K z) w2" and s2: "list_all2 same_holder w1 w2"
      and w3: "w3 = despawn_all gone w2" and alive: "\<And>x. x \<in> set w2 \<Longrightarrow> en_identity x \<noteq> None \<Longrightarrow> en_id x \<notin> set gone"
      by (rule mining_keeps [OF ok1 d1 mine]) blast
    note i2 = same_identity_set [OF same_holder_identity [OF s2]]
    note i3 = same_identity_set [OF same_holder_identity [OF clear_dirty_same [of w3]], folded w]
    have ok: "list_all (character_ok K z) w"
      using ok2 by (auto simp: w w3 clear_dirty_def despawn_all_def list_all_iff)
    have "distinct (map en_id w3)" using d1 i2(2) by (simp add: w3 despawn_all_def distinct_map_filter)
    then have d: "distinct (map en_id w)" using i3(2) by simp
    have ids: "(\<exists>x\<in>set w3. en_id x = e \<and> en_identity x = Some c) \<longleftrightarrow> (\<exists>x\<in>set w2. en_id x = e \<and> en_identity x = Some c)" for c e
      using alive by (force simp: w3 despawn_all_def)
    have "world_held w3 = world_held w2"
      unfolding w3 using alive ok2
      by (intro world_held_despawn) (auto simp: list_all_iff character_ok_def split: if_splits)
    with world_held_same [OF s1] world_held_same [OF s2] world_held_same [OF clear_dirty_same [of w3]]
    have "world_held w = world_held ?w" by (simp add: w)
    with with_world [OF I ok d, unfolded i3(1) ids i2(1) i1(1), OF refl] show ?thesis by simp
  qed
qed

section \<open>The pending intents\<close>

lemma change_entity_unknown: "e \<notin> en_id ` set w \<Longrightarrow> change_entity e f w = w"
  unfolding change_entity_def by (rule map_idI) auto

text \<open>Replacing the inventory of one entity.\<close>

lemma world_held_change:
  assumes "distinct (map en_id w)" "entity_of w e = Some x" "en_inventory x = Some iv"
  shows "held iv + world_held (change_entity e (\<lambda>x. x\<lparr>en_inventory := Some iv'\<rparr>) w) = held iv' + world_held w"
  using assms
proof (induction w)
  case (Cons y w)
  show ?case
  proof (cases "en_id y = e")
    case True
    with Cons.prems have "x = y" "e \<notin> en_id ` set w" by (auto simp: entity_of_def)
    moreover have "change_entity e f (y # w) = f y # w" for f
      using True change_entity_unknown [OF \<open>e \<notin> en_id ` set w\<close>] by (simp add: change_entity_def)
    ultimately show ?thesis using Cons.prems(3) by (simp add: held_by_def)
  next
    case False
    with Cons have "held iv + world_held (change_entity e (\<lambda>x. x\<lparr>en_inventory := Some iv'\<rparr>) w) = held iv' + world_held w"
      by (simp add: entity_of_def)
    moreover have "change_entity e f (y # w) = y # change_entity e f w" for f using False by (simp add: change_entity_def)
    ultimately show ?thesis by (simp add: ac_simps)
  qed
qed (simp add: entity_of_def)

text \<open>The inventories of the characters of a zone, with the bags, while its intents are applied.\<close>

definition intents_inv :: "zone \<Rightarrow> intents_state \<Rightarrow> bool" where
  "intents_inv z s \<longleftrightarrow> (case s of (w, bags, seen) \<Rightarrow>
     list_all (character_ok keyed_inventory z) w \<and> list_all2 same_identity (zo_world z) w \<and> distinct (map en_id w) \<and>
     bag_inv bags \<and> (\<forall>i. get_bag bags i \<noteq> None \<longrightarrow> i \<le> seen))"

definition intents_held :: "intents_state \<Rightarrow> item_instance multiset" where
  "intents_held s = (case s of (w, bags, _) \<Rightarrow> world_held w + bag_held bags)"

lemma held_subset: "entity_of w e = Some x \<Longrightarrow> en_inventory x = Some iv \<Longrightarrow> held iv \<subseteq># world_held w"
proof (induction w)
  case (Cons y w)
  then show ?case
    by (cases "en_id y = e") (auto simp: entity_of_def held_by_def intro: subset_mset.add_increasing)
qed (simp add: entity_of_def)

lemma change_inventory_ok:
  "en_identity x \<noteq> None \<Longrightarrow> character_ok K z x \<Longrightarrow> K iv \<Longrightarrow> character_ok K z (x\<lparr>en_inventory := Some iv\<rparr>)"
  by (auto simp: character_ok_def)

lemma change_inventory_sound:
  assumes I: "list_all (character_ok K z) w" "distinct (map en_id w)"
    and x: "entity_of w e = Some x" "en_inventory x = Some iv" and K: "K iv'"
  shows "list_all (character_ok K z) (change_entity e (\<lambda>x. x\<lparr>en_inventory := Some iv'\<rparr>) w) \<and>
    list_all2 same_identity w (change_entity e (\<lambda>x. x\<lparr>en_inventory := Some iv'\<rparr>) w)"
proof
  have idn: "en_identity y \<noteq> None" if "y \<in> set w" "en_id y = e" for y
    using entity_of_unique [OF I(2) that(1)] x that I(1) entity_of_Some [OF x(1)]
    by (auto simp: list_all_iff character_ok_def split: if_splits)
  have "character_ok K z (y\<lparr>en_inventory := Some iv'\<rparr>)" if "y \<in> set w" "en_id y = e" for y
    by (rule change_inventory_ok) (use idn [OF that] I(1) that(1) K in \<open>simp_all add: list_all_iff\<close>)
  then show "list_all (character_ok K z) (change_entity e (\<lambda>x. x\<lparr>en_inventory := Some iv'\<rparr>) w)"
    using I(1) unfolding list_all_iff change_entity_def by auto
  show "list_all2 same_identity w (change_entity e (\<lambda>x. x\<lparr>en_inventory := Some iv'\<rparr>) w)"
    by (rule change_entity_same) (simp add: same_identity_def)
qed

lemma change_inventory_inv:
  assumes I: "intents_inv z (w, bags, seen)" and x: "entity_of w e = Some x" "en_inventory x = Some iv"
    and st': "state_inv (iv', bags', seen')"
  shows "intents_inv z (change_entity e (\<lambda>x. x\<lparr>en_inventory := Some iv'\<rparr>) w, bags', seen')"
proof -
  let ?w = "change_entity e (\<lambda>x. x\<lparr>en_inventory := Some iv'\<rparr>) w"
  have I: "list_all (character_ok keyed_inventory z) w" "list_all2 same_identity (zo_world z) w" "distinct (map en_id w)"
    using I by (simp_all add: intents_inv_def)
  have "keyed_inventory iv'" using st' by (simp add: state_inv_def)
  note s = change_inventory_sound [OF I(1,3) x, of iv', OF this]
  have "list_all2 same_identity (zo_world z) ?w"
    by (rule same_identity_trans [OF I(2) conjunct2 [OF s]])
  then show ?thesis using s same_identity_set(2) [OF conjunct2 [OF s]] I(3) st' by (simp add: intents_inv_def state_inv_def)
qed

text \<open>Whatever items the intents touch, the entities stay who and where they are.\<close>

lemma process_intents_sound:
  assumes "list_all (character_ok any_inventory z) w" "distinct (map en_id w)"
    and "process_intents dims slots tick em intents (w, bags, seen) = Some (events, w', s')"
  shows "list_all (character_ok any_inventory z) w' \<and> list_all2 same_identity w w'"
  using assms
proof (induction intents arbitrary: w bags seen events)
  case Nil
  then show ?case by (simp add: list_all2_refl same_identity_def)
next
  case (Cons p intents)
  obtain c intent where p: "p = (c, intent)" by (cases p)
  consider (skip) "process_intents dims slots tick em intents (w, bags, seen) = Some (events, w', s')"
    | (performed) e x iv iv' bags' seen' events' where "entity_of w e = Some x" "en_inventory x = Some iv"
      "process_intents dims slots tick em intents (change_entity e (\<lambda>x. x\<lparr>en_inventory := Some iv'\<rparr>) w, bags', seen')
        = Some (events', w', s')"
    using Cons.prems(3) by (auto simp: p split: option.splits)
  then show ?case
  proof cases
    case skip
    with Cons show ?thesis by blast
  next
    case performed
    have s: "list_all (character_ok any_inventory z) (change_entity e (\<lambda>x. x\<lparr>en_inventory := Some iv'\<rparr>) w) \<and>
        list_all2 same_identity w (change_entity e (\<lambda>x. x\<lparr>en_inventory := Some iv'\<rparr>) w)"
      by (rule change_inventory_sound [OF Cons.prems(1,2) performed(1,2)]) simp
    have "distinct (map en_id (change_entity e (\<lambda>x. x\<lparr>en_inventory := Some iv'\<rparr>) w))"
      using same_identity_set(2) [OF conjunct2 [OF s]] Cons.prems(2) by simp
    from Cons.IH [OF conjunct1 [OF s] this performed(3)] same_identity_trans [OF conjunct2 [OF s]] show ?thesis
      by blast
  qed
qed

context conserving_intents
begin

lemma one_intent:
  assumes I: "intents_inv z (w, bags, seen)" and U: "unique_ids (intents_held (w, bags, seen))"
    and x: "entity_of w e = Some x" "en_inventory x = Some iv" and seen: "unat seen < 2 ^ 64 - 1"
    and intent: "allowed intent" "\<And>i. i \<in># fresh_ids intent \<Longrightarrow> i \<notin># ids_of (intents_held (w, bags, seen))"
    and a: "apply_intent dims slots tick player pos intent (iv, bags, seen) = Some (ev, iv', bags', seen')"
  defines "s' \<equiv> (change_entity e (\<lambda>x. x\<lparr>en_inventory := Some iv'\<rparr>) w, bags', seen')"
  shows "intents_inv z s'"
    and "ids_of (intents_held s') \<subseteq># ids_of (intents_held (w, bags, seen)) + fresh_ids intent"
    and "stock d (intents_held s') = stock d (intents_held (w, bags, seen))"
    and "unat seen' \<le> unat seen + 1"
proof -
  have w: "list_all (character_ok keyed_inventory z) w" "distinct (map en_id w)" "bag_inv bags"
    "\<forall>i. get_bag bags i \<noteq> None \<longrightarrow> i \<le> seen"
    using I by (simp_all add: intents_inv_def)
  have keyed: "keyed (inv_items iv)"
    using entity_of_Some [OF x(1)] x(2) w(1) by (auto simp: list_all_iff character_ok_def split: if_splits)
  have sub: "total_held (iv, bags, seen) \<subseteq># intents_held (w, bags, seen)"
    using held_subset [OF x] by (simp add: total_held_def intents_held_def)
  then have ids: "ids_of (total_held (iv, bags, seen)) \<subseteq># ids_of (intents_held (w, bags, seen))"
    unfolding ids_of_def by (rule image_mset_subseteq_mono)
  have st: "state_inv (iv, bags, seen)" using keyed w by (simp add: state_inv_def)
  have "unique_ids (total_held (iv, bags, seen))" by (rule unique_ids_mono [OF U ids])
  then have ok: "state_inv (iv', bags', seen') \<and> conserves (fresh_ids intent) (iv, bags, seen) (iv', bags', seen') \<and>
      unat seen' \<le> unat seen + 1"
    using intent_ok [OF st _ _ intent(1) _ a] intent(2) seen ids mset_subset_eqD by fastforce
  then show "unat seen' \<le> unat seen + 1" by simp
  show "intents_inv z s'" unfolding s'_def by (rule change_inventory_inv [OF I x]) (use ok in simp)
  note c = world_held_change [OF w(2) x, of iv']
  let ?w = "change_entity e (\<lambda>x. x\<lparr>en_inventory := Some iv'\<rparr>) w"
  have "ids_of (held iv') + ids_of (bag_held bags') \<subseteq># ids_of (held iv) + ids_of (bag_held bags) + fresh_ids intent"
    using ok by (simp add: conserves_def total_held_def)
  then have "ids_of (held iv') + ids_of (bag_held bags') + ids_of (world_held w) \<subseteq>#
      ids_of (held iv) + ids_of (bag_held bags) + fresh_ids intent + ids_of (world_held w)" by simp
  moreover have "ids_of (held iv) + ids_of (world_held ?w) = ids_of (held iv') + ids_of (world_held w)"
    using arg_cong [OF c, of ids_of] by simp
  ultimately have "ids_of (held iv) + (ids_of (world_held ?w) + ids_of (bag_held bags')) \<subseteq>#
      ids_of (held iv) + (ids_of (world_held w) + ids_of (bag_held bags) + fresh_ids intent)"
    by (metis (no_types, lifting) add.assoc add.commute)
  then show "ids_of (intents_held s') \<subseteq># ids_of (intents_held (w, bags, seen)) + fresh_ids intent"
    by (simp add: s'_def intents_held_def)
  have "stock d (held iv') + stock d (bag_held bags') = stock d (held iv) + stock d (bag_held bags)"
    using ok by (simp add: conserves_def total_held_def)
  then show "stock d (intents_held s') = stock d (intents_held (w, bags, seen))"
    using arg_cong [OF c, of "stock d"] by (simp add: s'_def intents_held_def)
qed

end

context conserving_intents
begin

lemma all_intents:
  assumes "intents_inv z s" "\<forall>i. count (ids_of (intents_held s) + (\<Sum>p\<leftarrow>intents. fresh_ids (snd p))) i \<le> 1"
    and "\<forall>p\<in>set intents. allowed (snd p)" "unat (snd (snd s)) + length intents < 2 ^ 64"
    and "process_intents dims slots tick em intents s = Some (events, s')"
  shows "intents_inv z s' \<and> ids_of (intents_held s') \<subseteq># ids_of (intents_held s) + (\<Sum>p\<leftarrow>intents. fresh_ids (snd p)) \<and>
    stock d (intents_held s') = stock d (intents_held s)"
  using assms
proof (induction intents arbitrary: s events)
  case (Cons p intents)
  obtain c intent where p: "p = (c, intent)" by (cases p)
  obtain w bags seen where s: "s = (w, bags, seen)" by (cases s)
  let ?rest = "\<Sum>p\<leftarrow>intents. fresh_ids (snd p)"
  let ?ids = "ids_of (intents_held s)"
  have U: "count (?ids + (fresh_ids intent + ?rest)) i \<le> 1" for i using Cons.prems(2) by (simp add: p)
  have skipped: ?case if "process_intents dims slots tick em intents s = Some (events, s')"
  proof -
    have "\<forall>i. count (?ids + ?rest) i \<le> 1"
    proof
      fix i
      from U [of i] show "count (?ids + ?rest) i \<le> 1" by simp
    qed
    from Cons.IH [OF Cons.prems(1) this _ _ that] Cons.prems(3,4) show ?thesis
      by (auto simp: p intro: subset_mset.order_trans)
  qed
  consider (skip) "process_intents dims slots tick em intents s = Some (events, s')"
    | (performed) e x q iv ev iv' bags' seen' events' where "em c = Some e" "entity_of w e = Some x" "en_position x = Some q"
      "en_inventory x = Some iv"
      "apply_intent dims slots tick c (metres (pos_x q), metres (pos_y q)) intent (iv, bags, seen) = Some (ev, iv', bags', seen')"
      "process_intents dims slots tick em intents (change_entity e (\<lambda>x. x\<lparr>en_inventory := Some iv'\<rparr>) w, bags', seen')
        = Some (events', s')"
    using Cons.prems(5) by (auto simp: p s split: option.splits)
  then show ?case
  proof cases
    case skip
    then show ?thesis by (rule skipped)
  next
    case performed
    let ?s = "(change_entity e (\<lambda>x. x\<lparr>en_inventory := Some iv'\<rparr>) w, bags', seen')"
    have u: "unique_ids (intents_held (w, bags, seen))"
      unfolding unique_ids_def
    proof
      fix i
      from U [of i] show "count (ids_of (intents_held (w, bags, seen))) i \<le> 1" by (simp add: s)
    qed
    have fresh: "i \<notin># ids_of (intents_held (w, bags, seen))" if "i \<in># fresh_ids intent" for i
      using U [of i] that by (auto simp: s not_in_iff simp flip: count_greater_zero_iff)
    have seen: "unat seen < 2 ^ 64 - 1" using Cons.prems(4) by (simp add: s)
    note one = one_intent [OF Cons.prems(1) [unfolded s] u performed(2,4) seen _ fresh performed(5)]
    have a: "allowed intent" using Cons.prems(3) by (simp add: p)
    have ids: "ids_of (intents_held ?s) \<subseteq># ?ids + fresh_ids intent" unfolding s by (rule one(2) [OF a])
    have "\<forall>i. count (ids_of (intents_held ?s) + ?rest) i \<le> 1"
    proof
      fix i
      have "count (ids_of (intents_held ?s)) i \<le> count (?ids + fresh_ids intent) i"
        using ids by (rule mset_subset_eq_count)
      with U [of i] show "count (ids_of (intents_held ?s) + ?rest) i \<le> 1" by simp
    qed
    moreover have "unat (snd (snd ?s)) + length intents < 2 ^ 64"
      using one(4) [OF a] Cons.prems(4) by (simp add: s)
    ultimately have ih: "intents_inv z s' \<and> ids_of (intents_held s') \<subseteq># ids_of (intents_held ?s) + ?rest \<and>
        stock d (intents_held s') = stock d (intents_held ?s)"
      using Cons.IH [OF one(1) [OF a] _ _ _ performed(6)] Cons.prems(3) by simp
    have "ids_of (intents_held ?s) + ?rest \<subseteq># ?ids + (fresh_ids intent + ?rest)"
      using subset_mset.add_right_mono [OF ids, of ?rest] by (simp only: add.assoc)
    with ih one(3) [OF a, of d] show ?thesis
      by (auto simp: p s intro: subset_mset.order_trans)
  qed
qed simp

end

section \<open>A tick of the zone\<close>

lemma bag_held_expired: "bag_held (remove_expired_bag i m) \<subseteq># bag_held m"
proof -
  have "map_values (AList.delete i al) \<subseteq># map_values al" for al :: "(u64 \<times> dropped_bag) list"
    unfolding map_values_def AList.delete_eq by (simp add: image_mset_subseteq_mono multiset_filter_subset)
  then obtain K where "map_values (bm_bags m) = map_values (AList.delete i (bm_bags m)) + K"
    by (auto simp: subset_mset.le_iff_add)
  then have "\<Sum>\<^sub># (image_mset (\<lambda>b. mset (db_items b)) (map_values (AList.delete i (bm_bags m)))) \<subseteq># bag_held m"
    by (simp add: bag_held_def)
  then show ?thesis by (auto simp: remove_expired_bag_def bag_held_def split: option.splits)
qed

lemma bag_held_decay: "bag_held (snd (tick_decay now m)) \<subseteq># bag_held m"
proof -
  have "bag_held (fold remove_expired_bag is m) \<subseteq># bag_held m" for "is"
    by (induction "is" arbitrary: m) (auto intro: subset_mset.order_trans bag_held_expired)
  then show ?thesis by (simp add: tick_decay_def Let_def)
qed

lemma process_keeps:
  assumes I: "zone_inv z" and room: "unat (zo_next_bag z) + length (zo_pending z) < 2 ^ 64"
    and p: "process_inventory_intents (\<lambda>_. None) slots z = Some (events, z')"
  defines "kept \<equiv> world_held (zo_world z) + bag_held (snd (tick_decay (zo_tick z) (zo_bags z)))"
  shows "zone_inv z'" and "zo_pending z' = []" and "stock d (zone_held z') = stock d kept"
    and "ids_of (zone_held z') \<subseteq># ids_of kept" and "zo_tick z' = zo_tick z"
proof -
  let ?s = "(zo_world z, snd (tick_decay (zo_tick z) (zo_bags z)), zo_next_bag z)"
  obtain w bags seen where pr: "process_intents (\<lambda>_. None) slots (zo_tick z) (zo_entity_map z) (zo_pending z) ?s = Some (events, w, bags, seen)"
    and z': "z' = z\<lparr>zo_world := w, zo_bags := bags, zo_next_bag := seen, zo_pending := []\<rparr>"
    using p by (auto simp: process_inventory_intents_def)
  have B: "bag_inv (zo_bags z)" using I by (simp add: zone_inv_def)
  obtain gone m where t: "tick_decay (zo_tick z) (zo_bags z) = (gone, m)" by fastforce
  note decay = tick_decay_bags [OF B t]
  have s: "intents_inv z ?s"
    using I decay(1,2) by (auto simp: intents_inv_def zone_inv_def zone_sound_def world_ok_def t get_bag_def same_identity_def
        list_all2_refl split: option.splits if_splits)
  have kept: "intents_held ?s = kept" by (simp add: intents_held_def kept_def)
  have sub: "kept \<subseteq># zone_held z"
    unfolding kept_def zone_held_def using bag_held_decay by (rule subset_mset.add_left_mono)
  then have "ids_of kept \<subseteq># ids_of (zone_held z)" unfolding ids_of_def by (rule image_mset_subseteq_mono)
  with I have u: "unique_ids kept" using unique_ids_mono by (auto simp: zone_inv_def)
  have zero: "(\<Sum>p\<leftarrow>zo_pending z. {#}) = ({#} :: u128 multiset)" by (induction "zo_pending z") auto
  have all: "intents_inv z (w, bags, seen) \<and> ids_of (intents_held (w, bags, seen)) \<subseteq># ids_of kept \<and>
      stock d (intents_held (w, bags, seen)) = stock d kept" for d
    using undefined_items.all_intents [OF s _ _ _ pr] u room unfolding zero kept by (simp add: unique_ids_def)
  have held: "zone_held z' = intents_held (w, bags, seen)" by (simp add: z' zone_held_def intents_held_def)
  show "zo_pending z' = []" "zo_tick z' = zo_tick z" by (simp_all add: z')
  show ids: "ids_of (zone_held z') \<subseteq># ids_of kept" using all held by simp
  show "stock d (zone_held z') = stock d kept" using all held by simp
  have "list_all2 same_identity (zo_world z) w" "list_all (character_ok keyed_inventory z) w" "distinct (map en_id w)"
    using all by (simp_all add: intents_inv_def)
  with with_world [of keyed_inventory z w] same_identity_set(1) I
  have "world_ok keyed_inventory (z\<lparr>zo_world := w\<rparr>) \<and> map_ok (z\<lparr>zo_world := w\<rparr>)"
    by (simp add: zone_inv_def zone_sound_def)
  moreover have "character_ok keyed_inventory z' = character_ok keyed_inventory (z\<lparr>zo_world := w\<rparr>)" by (rule character_ok_cong) (simp_all add: z')
  ultimately have "world_ok keyed_inventory z' \<and> map_ok z'" by (simp add: world_ok_def map_ok_def z')
  then show "zone_inv z'"
    using all unique_ids_mono [OF u ids] by (simp add: zone_inv_def zone_sound_def intents_inv_def z')
qed

text \<open>A tick keeps the characters sound, whatever the zone holds and whatever comes of the intents.\<close>

lemma sound_world:
  assumes "zone_sound K z" "list_all (character_ok K z) w" "list_all2 same_identity (zo_world z) w"
  shows "zone_sound K (z\<lparr>zo_world := w\<rparr>)"
proof -
  note i = same_identity_set [OF assms(3)]
  have "distinct (map en_id w)" using assms(1) i(2) by (simp add: zone_sound_def world_ok_def)
  from with_world [OF _ _ assms(2) this i(1)] assms(1) show ?thesis by (simp add: zone_sound_def)
qed

lemma zone_sound_more [simp]:
  "zone_sound K (z\<lparr>zo_tick := t\<rparr>) = zone_sound K z"
  "zone_sound K (z\<lparr>zo_bags := bags\<rparr>) = zone_sound K z"
  "zone_sound K (z\<lparr>zo_pending := pending\<rparr>) = zone_sound K z"
  "zone_sound K (z\<lparr>zo_next_bag := seen\<rparr>) = zone_sound K z"
  by (simp_all add: zone_sound_def world_ok_def map_ok_def character_ok_def [abs_def])

lemma step_sound:
  assumes I: "zone_sound any_inventory z" and st: "zone_step z = Some (r, z')"
  shows "zone_sound any_inventory z'"
proof (cases "checked_add (zo_tick z) 1")
  case None
  with st I show ?thesis by (auto simp: zone_step_def)
next
  case (Some t)
  with st obtain res w where sim: "simulation_tick (zo_traversal z) (zo_rules z) (zo_world z) = Some (res, w)"
    by (auto simp: zone_step_def split: option.splits)
  define z1 where "z1 = z\<lparr>zo_tick := t, zo_world := w\<rparr>"
  have "zone_sound any_inventory (z\<lparr>zo_world := w\<rparr>)"
    using zone_tick_keeps [OF _ _ sim, of any_inventory] I by (simp add: zone_sound_def)
  moreover have "z1 = (z\<lparr>zo_world := w\<rparr>)\<lparr>zo_tick := t\<rparr>" by (simp add: z1_def)
  ultimately have I1: "zone_sound any_inventory z1" by (simp only: zone_sound_more)
  show ?thesis
  proof (cases res)
    case (Inl err)
    with st Some sim have "z' = z1" by (simp add: zone_step_def z1_def)
    with I1 show ?thesis by simp
  next
    case (Inr out)
    obtain updates destroyed where out: "out = (updates, destroyed)" by (cases out)
    from st Some sim Inr out obtain events w' bags seen where
      p: "process_intents (\<lambda>_. None) (\<lambda>_. None) (zo_tick z1) (zo_entity_map z1) (zo_pending z1)
        (zo_world z1, snd (tick_decay (zo_tick z1) (zo_bags z1)), zo_next_bag z1) = Some (events, w', bags, seen)"
      and z': "z' = z1\<lparr>zo_world := w', zo_bags := bags, zo_next_bag := seen, zo_pending := []\<rparr>"
      by (auto simp: zone_step_def process_inventory_intents_def z1_def)
    have "list_all (character_ok any_inventory z1) (zo_world z1)" "distinct (map en_id (zo_world z1))"
      using I1 by (simp_all add: zone_sound_def world_ok_def)
    from process_intents_sound [OF this p] have "zone_sound any_inventory (z1\<lparr>zo_world := w'\<rparr>)"
      by (intro sound_world [OF I1]) simp_all
    moreover have "z' = (z1\<lparr>zo_world := w'\<rparr>)\<lparr>zo_bags := bags, zo_next_bag := seen, zo_pending := []\<rparr>" by (simp add: z')
    ultimately show ?thesis by (simp only: zone_sound_more)
  qed
qed

lemma step_keeps:
  assumes I: "zone_inv z" and room: "unat (zo_next_bag z) + length (zo_pending z) < 2 ^ 64"
    and st: "zone_step z = Some (r, z')"
  shows "zone_inv z'"
    and "r = Inr out \<Longrightarrow> stock d (zone_held z') =
      stock d (world_held (zo_world z)) + stock d (bag_held (snd (tick_decay (zo_tick z') (zo_bags z))))"
    and "r = Inl err \<Longrightarrow> zone_held z' = zone_held z"
proof -
  have I2: "world_ok keyed_inventory z" "map_ok z" using I by (simp_all add: zone_inv_def zone_sound_def)
  have "zone_inv z' \<and> (\<forall>out. r = Inr out \<longrightarrow> stock d (zone_held z') =
      stock d (world_held (zo_world z)) + stock d (bag_held (snd (tick_decay (zo_tick z') (zo_bags z))))) \<and>
    (\<forall>err. r = Inl err \<longrightarrow> zone_held z' = zone_held z)"
  proof (cases "checked_add (zo_tick z) 1")
    case None
    with st I show ?thesis by (auto simp: zone_step_def)
  next
    case (Some t)
    with st obtain res w where sim: "simulation_tick (zo_traversal z) (zo_rules z) (zo_world z) = Some (res, w)"
      by (auto simp: zone_step_def split: option.splits)
    note k = zone_tick_keeps [OF I2 sim]
    define z1 where "z1 = z\<lparr>zo_tick := t, zo_world := w\<rparr>"
    have "character_ok keyed_inventory z1 = character_ok keyed_inventory (z\<lparr>zo_world := w\<rparr>)" by (rule character_ok_cong) (simp_all add: z1_def)
    then have I1: "zone_inv z1" and h1: "zone_held z1 = zone_held z"
      using k I by (simp_all add: z1_def zone_inv_def zone_sound_def world_ok_def map_ok_def zone_held_def)
    show ?thesis
    proof (cases res)
      case (Inl err)
      with st Some sim have "z' = z1" "r = Inl (ZoneSystem err)" by (simp_all add: zone_step_def z1_def)
      with I1 h1 show ?thesis by simp
    next
      case (Inr out)
      obtain updates destroyed where out: "out = (updates, destroyed)" by (cases out)
      from st Some sim Inr out obtain events where
        p: "process_inventory_intents (\<lambda>_. None) (\<lambda>_. None) z1 = Some (events, z')" and r: "\<exists>o'. r = Inr o'"
        by (auto simp: zone_step_def z1_def)
      note pk = process_keeps [OF I1 _ p]
      have "unat (zo_next_bag z1) + length (zo_pending z1) < 2 ^ 64" using room by (simp add: z1_def)
      with pk r k show ?thesis by (auto simp: z1_def)
    qed
  qed
  then show "zone_inv z'" and "r = Inr out \<Longrightarrow> stock d (zone_held z') =
      stock d (world_held (zo_world z)) + stock d (bag_held (snd (tick_decay (zo_tick z') (zo_bags z))))"
    and "r = Inl err \<Longrightarrow> zone_held z' = zone_held z" by blast+
qed

section \<open>Reachable zones\<close>

text \<open>A zone after any interleaving of commands and ticks, failed ones included; the allocator gives new identifiers.\<close>

inductive zone_reached :: "zone \<Rightarrow> bool" where
  created: "movement_settings_new speed timeout radius = Inr settings \<Longrightarrow> zone_new hz settings tw = Inr z \<Longrightarrow> zone_reached z"
| accepted: "zone_reached z \<Longrightarrow> fresh \<notin> en_id ` set (zo_world z) \<Longrightarrow> zone_accept fresh cmd z = (r, z') \<Longrightarrow> zone_reached z'"
| stepped: "zone_reached z \<Longrightarrow> zone_step z = Some (r, z') \<Longrightarrow> zone_reached z'"

text \<open>
  The same without spawns of items the zone holds already; a tick is taken while there are bag ids left for the intents that
  wait.
\<close>

inductive zone_reachable :: "zone \<Rightarrow> bool" where
  created: "movement_settings_new speed timeout radius = Inr settings \<Longrightarrow> zone_new hz settings tw = Inr z \<Longrightarrow>
    zone_reachable z"
| accepted: "zone_reachable z \<Longrightarrow> admissible fresh cmd z \<Longrightarrow> zone_accept fresh cmd z = (r, z') \<Longrightarrow>
    zone_reachable z'"
| stepped: "zone_reachable z \<Longrightarrow> unat (zo_next_bag z) + length (zo_pending z) < 2 ^ 64 \<Longrightarrow>
    zone_step z = Some (r, z') \<Longrightarrow> zone_reachable z'"

lemma zone_reachable_reached: "zone_reachable z \<Longrightarrow> zone_reached z"
  by (induction rule: zone_reachable.induct) (auto intro: zone_reached.intros simp: admissible_def)

lemma zone_new_inv:
  assumes "movement_settings_new speed timeout radius = Inr settings" "zone_new hz settings tw = Inr z"
  shows "zone_inv z"
proof -
  from assms(2) obtain rules where rules: "movement_rules_new settings hz = Inr rules"
    and z: "z = \<lparr>zo_tick = 0, zo_rules = rules, zo_traversal = tw, zo_world = [], zo_entity_map = Map.empty,
      zo_last_inputs = Map.empty, zo_bags = bag_manager_new, zo_pending = [], zo_next_bag = 0, zo_revisions = Map.empty\<rparr>"
    by (auto simp: zone_new_def split: if_splits sum.splits)
  have "get_bag bag_manager_new i = None" "bag_held bag_manager_new = {#}" for i
    by (simp_all add: get_bag_def bag_manager_new_def bag_held_def map_values_def)
  with movement_rules_new_ok [OF assms(1) rules] bag_manager_new_inv show ?thesis
    by (simp add: zone_inv_def zone_sound_def world_ok_def map_ok_def zone_held_def unique_ids_def z)
qed

lemma zone_reachable_inv: "zone_reachable z \<Longrightarrow> zone_inv z"
  by (induction rule: zone_reachable.induct) (auto intro: zone_new_inv accept_inv step_keeps(1))

lemma zone_sound_any: "zone_sound K z \<Longrightarrow> zone_sound any_inventory z"
  by (auto simp: zone_sound_def world_ok_def list_all_iff character_ok_def split: if_splits)

lemma zone_reached_sound: "zone_reached z \<Longrightarrow> zone_sound any_inventory z"
  by (induction rule: zone_reached.induct)
    (auto intro: zone_sound_any [OF zone_inv_sound [OF zone_new_inv]] accept_sound step_sound)

section \<open>Properties\<close>

text \<open>
  C15: at every moment of a zone, whatever was spawned, moved, mined, despawned or handed over and whichever command failed, the
  characters it knows are exactly its live entities with an identity, one for each: the map names an entity for a character
  if and only if that entity is in the world, has this identity, stands at a position clear of every blocker, has a remainder below a
  millimetre, and its inventory is what is read for the character, with its stored revision.
\<close>

theorem zone_characters_safe:
  assumes "zone_reached z"
  shows "zo_entity_map z c = Some e \<longleftrightarrow>
    (\<exists>x p m iv revision. entity_of (zo_world z) e = Some x \<and> en_identity x = Some c \<and> en_position x = Some p \<and>
      validate_placement (zo_traversal z) p (mr_character_radius_mm (zo_rules z)) = Inr () \<and>
      en_remainder x = Some m \<and> remainder_ok (zo_rules z) m \<and>
      en_inventory x = Some iv \<and> zo_revisions z c = Some revision \<and> get_character_inventory z c = Some (iv, revision))"
proof
  have I: "zone_sound any_inventory z" using assms by (rule zone_reached_sound)
  assume e: "zo_entity_map z c = Some e"
  obtain x where x: "entity_of (zo_world z) e = Some x" "x \<in> set (zo_world z)" "en_identity x = Some c"
    by (rule known_entity [OF I e])
  have "character_ok any_inventory z x" using I x(2) by (auto simp: zone_sound_def world_ok_def list_all_iff)
  then obtain p m iv where p: "en_position x = Some p" "en_inventory x = Some iv" "en_remainder x = Some m"
    "remainder_ok (zo_rules z) m" "validate_placement (zo_traversal z) p (mr_character_radius_mm (zo_rules z)) = Inr ()"
    using x(3) by (auto simp: character_ok_def)
  obtain revision where r: "zo_revisions z c = Some revision"
    using I e map_okD(3) [of z] unfolding zone_sound_def by blast
  with x p e show "\<exists>x p m iv revision. entity_of (zo_world z) e = Some x \<and> en_identity x = Some c \<and> en_position x = Some p \<and>
      validate_placement (zo_traversal z) p (mr_character_radius_mm (zo_rules z)) = Inr () \<and>
      en_remainder x = Some m \<and> remainder_ok (zo_rules z) m \<and>
      en_inventory x = Some iv \<and> zo_revisions z c = Some revision \<and> get_character_inventory z c = Some (iv, revision)"
    by (simp add: get_character_inventory_def)
next
  assume "\<exists>x p m iv revision. entity_of (zo_world z) e = Some x \<and> en_identity x = Some c \<and> en_position x = Some p \<and>
      validate_placement (zo_traversal z) p (mr_character_radius_mm (zo_rules z)) = Inr () \<and>
      en_remainder x = Some m \<and> remainder_ok (zo_rules z) m \<and>
      en_inventory x = Some iv \<and> zo_revisions z c = Some revision \<and> get_character_inventory z c = Some (iv, revision)"
  then obtain x where "entity_of (zo_world z) e = Some x" "en_identity x = Some c" by blast
  moreover have "map_ok z" using zone_reached_sound [OF assms] by (simp add: zone_sound_def)
  ultimately show "zo_entity_map z c = Some e" using map_okD(1) [of z c e] entity_of_Some by blast
qed

text \<open>
  C14: a tick of a zone neither creates nor destroys items, as long as no character was spawned with an item the zone held already
  (the zone does not check it; the inventories come from the store) and ids are left for new bags: with every pending inventory
  intent of every character applied, the units of each item definition are those held before, less the bags whose time ran
  out.
\<close>

theorem zone_tick_conserves_items:
  assumes "zone_reachable z" "unat (zo_next_bag z) + length (zo_pending z) < 2 ^ 64"
    and "zone_step z = Some (Inr out, z')"
  shows "stock d (zone_held z') =
    stock d (world_held (zo_world z)) + stock d (bag_held (snd (tick_decay (zo_tick z') (zo_bags z))))"
  by (rule step_keeps(2) [OF zone_reachable_inv [OF assms(1)] assms(2,3) refl])

text \<open>
  A movement command for a character that has just left the zone stops the zone: the despawn succeeds, and the
  command after it ends the loop with an error, whatever inputs follow and whoever else is in the zone.
\<close>

theorem zone_stopped_by_late_intent:
  assumes "zone_reachable z" "zo_entity_map z c = Some e"
  shows "zone_run (Command f (DespawnCharacter c responder) # Command g (MoveCommand c sequence input) # inputs) z =
    Some (Inl UnknownCharacter, snd (zone_accept f (DespawnCharacter c responder) z))"
proof -
  obtain x where "entity_of (zo_world z) e = Some x"
    by (rule known_entity [OF zone_inv_sound [OF zone_reachable_inv [OF assms(1)]] assms(2)])
  with assms(2) show ?thesis by (simp add: Let_def)
qed

definition sample_settings :: movement_settings where
  "sample_settings = \<lparr>ms_speed_mm_per_second = 4000, ms_input_timeout_ticks = 5, ms_character_radius_mm = 250\<rparr>"

definition sample_item :: item_instance where
  "sample_item = item_new_stackable 7 5 (OwnedByCharacter 1) 3"

definition sample_inventory :: character_inventory where
  "sample_inventory = put_item sample_item (inventory_new 1 1)"

definition sample_zone :: zone where
  "sample_zone = \<lparr>zo_tick = 0, zo_rules = \<lparr>mr_speed_mm_per_second = 4000, mr_denominator = 655340,
     mr_input_timeout_ticks = 5, mr_character_radius_mm = 250\<rparr>, zo_traversal = [], zo_world = [],
     zo_entity_map = Map.empty, zo_last_inputs = Map.empty, zo_bags = bag_manager_new, zo_pending = [],
     zo_next_bag = 0, zo_revisions = Map.empty\<rparr>"

definition inhabited_zone :: zone where
  "inhabited_zone = snd (zone_accept 9 (SpawnCharacter 1 (WorldPositionMm 0 0 0) sample_inventory 4) sample_zone)"

lemma inhabited_zone_reachable: "zone_reachable inhabited_zone"
proof -
  have "movement_settings_new 4000 5 250 = Inr sample_settings"
    by (simp add: movement_settings_new_def sample_settings_def)
  moreover have "zone_new 20 sample_settings [] = Inr sample_zone"
    by (simp add: zone_new_def movement_rules_new_def sample_settings_def sample_zone_def movement_axis_scale_def
        checked_mul_i64_def in_i64_def ok_or_def)
  ultimately have "zone_reachable sample_zone" by (rule zone_reachable.created)
  moreover have "admissible 9 (SpawnCharacter 1 (WorldPositionMm 0 0 0) sample_inventory 4) sample_zone"
    by (simp add: admissible_def sample_zone_def sample_inventory_def put_item_def inventory_new_def keyed_def
        sample_item_def item_new_stackable_def unique_ids_def zone_held_def bag_held_def bag_manager_new_def map_values_def held_def)
  ultimately show ?thesis unfolding inhabited_zone_def by (rule zone_reachable.accepted) (rule prod.collapse [symmetric])
qed

lemma inhabited_zone_map: "zo_entity_map inhabited_zone 1 = Some 9"
  by (simp add: inhabited_zone_def sample_zone_def validate_radius_def)

theorem zone_characters_safe_witness: "\<exists>iv revision. get_character_inventory inhabited_zone 1 = Some (iv, revision)"
  using zone_characters_safe [OF zone_reachable_reached [OF inhabited_zone_reachable]] inhabited_zone_map by blast

theorem zone_stopped_by_late_intent_witness:
  "\<exists>z. zone_run [Command 0 (DespawnCharacter 1 False), Command 0 (MoveCommand 1 8 input_zero), Tick] inhabited_zone =
     Some (Inl UnknownCharacter, z)"
  using zone_stopped_by_late_intent [OF inhabited_zone_reachable inhabited_zone_map, of 0 False 0 8 input_zero "[Tick]"]
  by blast

definition dropping_zone :: zone where
  "dropping_zone = snd (zone_accept 0 (InventoryCommand 1 (DropIntent \<lparr>dq_item_id = 7, dq_expected_revision = 1\<rparr>)) inhabited_zone)"

lemma dropping_zone_reachable: "zone_reachable dropping_zone"
proof -
  have "admissible 0 (InventoryCommand 1 (DropIntent \<lparr>dq_item_id = 7, dq_expected_revision = 1\<rparr>)) inhabited_zone"
    by (simp add: admissible_def inhabited_zone_def sample_zone_def validate_radius_def character_entity_def)
  with inhabited_zone_reachable show ?thesis unfolding dropping_zone_def by (rule zone_reachable.accepted) (rule prod.collapse [symmetric])
qed

lemma dropping_zone_unfold:
  "dropping_zone = sample_zone\<lparr>zo_world := [character_entity 9 1 (WorldPositionMm 0 0 0) sample_inventory],
     zo_entity_map := [1 \<mapsto> 9], zo_revisions := [1 \<mapsto> 4],
     zo_pending := [(1, DropIntent \<lparr>dq_item_id = 7, dq_expected_revision = 1\<rparr>)]\<rparr>"
  by (simp add: dropping_zone_def inhabited_zone_def sample_zone_def validate_radius_def)

lemma metres_origin: "metres 0 = F32 0" "sector_of (F32 0) = 0"
  by (simp_all add: metres_def sector_of_def f32_of_i64_def f32_of_ratio_def f32_finite_def f32_round_def
      round_even_def saturate_i64_def)

lemma dropping_zone_steps:
  "\<exists>out z'. zone_step dropping_zone = Some (Inr out, z') \<and> zo_pending z' = [] \<and> zo_next_bag z' = 1"
  by (simp add: dropping_zone_unfold sample_zone_def zone_step_def checked_add_def simulation_tick_def
      movement_tick_system_def mark_dirty_def mining_tick_system_def character_entity_def process_inventory_intents_def
      clear_dirty_def tick_decay_def bag_manager_new_def entity_of_def metres_origin apply_drop_def sample_inventory_def
      put_item_def inventory_new_def sample_item_def item_new_stackable_def handle_drop_item_def remove_item_def
      saturating_add_def grid_new_def take_item_def Let_def)

theorem zone_tick_conserves_items_witness:
  "\<exists>out z'. zone_step dropping_zone = Some (Inr out, z') \<and> zo_next_bag z' = 1 \<and> stock 5 (zone_held z') = 3"
proof -
  obtain out z' where s: "zone_step dropping_zone = Some (Inr out, z')" "zo_next_bag z' = 1"
    using dropping_zone_steps by blast
  have "unat (zo_next_bag dropping_zone) + length (zo_pending dropping_zone) < 2 ^ 64"
    by (simp add: dropping_zone_unfold sample_zone_def)
  from zone_tick_conserves_items [OF dropping_zone_reachable this s(1), of 5]
  have "stock 5 (zone_held z') = 3"
    by (simp add: dropping_zone_unfold sample_zone_def tick_decay_def bag_manager_new_def character_entity_def held_by_def
        sample_inventory_def put_item_def inventory_new_def held_def map_values_def sample_item_def item_new_stackable_def
        bag_held_def)
  with s show ?thesis by blast
qed

end
