(* ===== verification/Client_Reconciliation.thy ===== *)
theory Client_Reconciliation
  imports Contracts_Movement
begin

text \<open>
  The client's bookkeeping of its own inputs: apps/protocol-client/src/reconciliation.rs (pending inputs,
  snapshots, replay plans) and held\_prediction.rs (the input the server still applies). Client times are
  microseconds.
\<close>

section \<open>Definitions\<close>

datatype clock_error = ElapsedTimeOverflow u128 | TimeRegressed u64 u64

text \<open>\<open>ClientTimeUs::checked_duration_since\<close>.\<close>

definition checked_duration_since :: "u64 \<Rightarrow> u64 \<Rightarrow> clock_error + u64" where
  "checked_duration_since later earlier = ok_or (TimeRegressed earlier later) (checked_sub later earlier)"

record pending_input =
  pi_intent :: move_intent
  pi_sent_at :: u64

record applied_snapshot =
  as_snapshot :: self_movement_snapshot
  as_acknowledged :: nat
  as_pending :: nat

datatype apply_outcome =
  Applied applied_snapshot
| IgnoredStale u64 u64
| IgnoredDuplicate u64

record replay_segment =
  rs_intent :: move_intent
  rs_start_us :: u64
  rs_end_us :: u64
  rs_duration_us :: u64

record replay_plan =
  rp_generated_at_us :: u64
  rp_total_duration_us :: u64
  rp_segments :: "replay_segment list"

datatype reconciliation_error =
  ZeroPendingCapacity
| PendingHistoryFull nat
| NonMonotonicSentInput u64 u64
| NonMonotonicClientTime u64 u64
| ProcessedInputAckDisappeared u64
| ProcessedInputAckRegressed u64 u64
| ProcessedInputAckUnknown u64
| ConflictingDuplicateSnapshot u64
| ReplayDurationOverflow
| ReconcilerClock clock_error

record reconciler =
  rc_pending :: "pending_input list"
  rc_capacity :: nat
  rc_highest_sent :: "u64 option"
  rc_last_sent_at :: "u64 option"
  rc_last_processed :: "u64 option"
  rc_last_snapshot :: "self_movement_snapshot option"

definition reconciler_new :: "nat \<Rightarrow> reconciliation_error + reconciler" where
  "reconciler_new capacity =
     (if capacity = 0 then Inl ZeroPendingCapacity
      else Inr \<lparr>rc_pending = [], rc_capacity = capacity, rc_highest_sent = None, rc_last_sent_at = None,
                rc_last_processed = None, rc_last_snapshot = None\<rparr>)"

definition record_sent :: "move_intent \<Rightarrow> u64 \<Rightarrow> reconciler \<Rightarrow> (reconciliation_error + unit) \<times> reconciler" where
  "record_sent intent sent_at rc =
     (let late = (case rc_highest_sent rc of Some previous \<Rightarrow> mi_sequence intent \<le> previous | None \<Rightarrow> False);
          early = (case rc_last_sent_at rc of Some previous_us \<Rightarrow> sent_at < previous_us | None \<Rightarrow> False)
      in if rc_capacity rc \<le> length (rc_pending rc) then (Inl (PendingHistoryFull (rc_capacity rc)), rc)
         else if late
         then (Inl (NonMonotonicSentInput (the (rc_highest_sent rc)) (mi_sequence intent)), rc)
         else if early
         then (Inl (NonMonotonicClientTime (the (rc_last_sent_at rc)) sent_at), rc)
         else (Inr (), rc\<lparr>rc_highest_sent := Some (mi_sequence intent), rc_last_sent_at := Some sent_at,
                         rc_pending := rc_pending rc @ [\<lparr>pi_intent = intent, pi_sent_at = sent_at\<rparr>]\<rparr>))"

text \<open>The checks of an acknowledgement against the previous one, and then against what was sent.\<close>

definition check_ack :: "reconciler \<Rightarrow> u64 option \<Rightarrow> reconciliation_error + unit" where
  "check_ack rc ack =
     (case rc_last_processed rc of
        None \<Rightarrow> Inr ()
      | Some previous \<Rightarrow>
          (case ack of
             None \<Rightarrow> Inl (ProcessedInputAckDisappeared previous)
           | Some incoming \<Rightarrow>
               if incoming < previous then Inl (ProcessedInputAckRegressed previous incoming) else Inr ()))"

definition check_sent :: "reconciler \<Rightarrow> u64 option \<Rightarrow> reconciliation_error + unit" where
  "check_sent rc ack =
     (case (ack, rc_highest_sent rc) of
        (Some n, Some highest) \<Rightarrow> if highest < n then Inl (ProcessedInputAckUnknown n) else Inr ()
      | _ \<Rightarrow> Inr ())"

definition still_pending :: "u64 option \<Rightarrow> pending_input list \<Rightarrow> pending_input list" where
  "still_pending ack pending =
     (case ack of None \<Rightarrow> pending | Some n \<Rightarrow> [t \<leftarrow> pending. n < mi_sequence (pi_intent t)])"

definition apply_snapshot ::
  "self_movement_snapshot \<Rightarrow> reconciler \<Rightarrow> (reconciliation_error + apply_outcome) \<times> reconciler" where
  "apply_snapshot snapshot rc =
     (let stale = (case rc_last_snapshot rc of None \<Rightarrow> None
           | Some old \<Rightarrow>
               if sn_server_tick snapshot < sn_server_tick old
               then Some (Inr (IgnoredStale (sn_server_tick snapshot) (sn_server_tick old)))
               else if sn_server_tick snapshot = sn_server_tick old
               then Some (if snapshot \<noteq> old then Inl (ConflictingDuplicateSnapshot (sn_server_tick snapshot))
                          else Inr (IgnoredDuplicate (sn_server_tick snapshot)))
               else None)
      in case stale of
           Some r \<Rightarrow> (r, rc)
         | None \<Rightarrow>
             (let ack = sn_sequence snapshot
              in case check_ack rc ack of
                   Inl e \<Rightarrow> (Inl e, rc)
                 | Inr _ \<Rightarrow>
                     (case check_sent rc ack of
                        Inl e \<Rightarrow> (Inl e, rc)
                      | Inr _ \<Rightarrow>
                          (let pending = still_pending ack (rc_pending rc)
                           in (Inr (Applied \<lparr>as_snapshot = snapshot,
                                             as_acknowledged = length (rc_pending rc) - length pending,
                                             as_pending = length pending\<rparr>),
                               rc\<lparr>rc_pending := pending, rc_last_processed := ack,
                                  rc_last_snapshot := Some snapshot\<rparr>)))))"

text \<open>The loop of \<open>replay_plan\<close> over the pending inputs; \<open>elapsed\<close> is the duration so far.\<close>

fun plan_segments ::
  "u64 \<Rightarrow> pending_input list \<Rightarrow> u64 \<Rightarrow> reconciliation_error + replay_segment list \<times> u64" where
  "plan_segments now [] elapsed = Inr ([], elapsed)"
| "plan_segments now (t # ts) elapsed =
     (if now < pi_sent_at t then Inl (ReconcilerClock (TimeRegressed (pi_sent_at t) now))
      else (let end_us = (case ts of [] \<Rightarrow> now | u # _ \<Rightarrow> pi_sent_at u);
                duration = saturating_sub end_us (pi_sent_at t)
            in case checked_add elapsed duration of
                 None \<Rightarrow> Inl ReplayDurationOverflow
               | Some elapsed' \<Rightarrow>
                   map_sum id (\<lambda>(segments, sum).
                       (\<lparr>rs_intent = pi_intent t, rs_start_us = pi_sent_at t, rs_end_us = end_us,
                         rs_duration_us = duration\<rparr> # segments, sum))
                     (plan_segments now ts elapsed')))"

definition make_plan :: "u64 \<Rightarrow> reconciler \<Rightarrow> reconciliation_error + replay_plan" where
  "make_plan now rc =
     map_sum id (\<lambda>(segments, elapsed).
         \<lparr>rp_generated_at_us = now, rp_total_duration_us = elapsed, rp_segments = segments\<rparr>)
       (plan_segments now (rc_pending rc) 0)"

section \<open>The held input\<close>

datatype held_error =
  HeldZeroCapacity
| HistoryFull nat
| NonMonotonicSentSequence u64 u64
| ActiveSequenceDoesNotMatchProcessed u64 "u64 option"
| UnknownActiveSequence u64
| ZeroInputMarkedActive u64
| DurationOverflow

record held_input =
  hi_sent :: "move_intent list"
  hi_capacity :: nat
  hi_active :: "move_intent option"
  hi_baseline :: "u64 option"

definition held_new :: "nat \<Rightarrow> held_error + held_input" where
  "held_new capacity =
     (if capacity = 0 then Inl HeldZeroCapacity
      else Inr \<lparr>hi_sent = [], hi_capacity = capacity, hi_active = None, hi_baseline = None\<rparr>)"

definition held_record :: "move_intent \<Rightarrow> held_input \<Rightarrow> (held_error + unit) \<times> held_input" where
  "held_record intent h =
     (if hi_sent h \<noteq> [] \<and> mi_sequence intent \<le> mi_sequence (last (hi_sent h))
      then (Inl (NonMonotonicSentSequence (mi_sequence (last (hi_sent h))) (mi_sequence intent)), h)
      else if hi_capacity h \<le> length (hi_sent h) then (Inl (HistoryFull (hi_capacity h)), h)
      else (Inr (), h\<lparr>hi_sent := hi_sent h @ [intent]\<rparr>))"

definition held_known :: "held_input \<Rightarrow> u64 \<Rightarrow> move_intent option" where
  "held_known h n =
     (case find (\<lambda>i. mi_sequence i = n) (hi_sent h) of
        Some i \<Rightarrow> Some i
      | None \<Rightarrow> (case hi_active h of
                  Some i \<Rightarrow> if mi_sequence i = n then Some i else None
                | None \<Rightarrow> None))"

definition held_active :: "held_input \<Rightarrow> self_movement_snapshot_v2 \<Rightarrow> held_error + move_intent option" where
  "held_active h snapshot =
     (case s2_active_movement snapshot of
        None \<Rightarrow> Inr None
      | Some active \<Rightarrow>
          if s2_last_processed snapshot \<noteq> Some active
          then Inl (ActiveSequenceDoesNotMatchProcessed active (s2_last_processed snapshot))
          else (case held_known h active of
                  None \<Rightarrow> Inl (UnknownActiveSequence active)
                | Some i \<Rightarrow>
                    if mi_axis_x i = 0 \<and> mi_axis_y i = 0 then Inl (ZeroInputMarkedActive active)
                    else Inr (Some i)))"

definition held_apply :: "self_movement_snapshot_v2 \<Rightarrow> u64 \<Rightarrow> held_input \<Rightarrow> (held_error + unit) \<times> held_input" where
  "held_apply snapshot received_at h =
     (case held_active h snapshot of
        Inl e \<Rightarrow> (Inl e, h)
      | Inr active \<Rightarrow>
          (Inr (), h\<lparr>hi_sent := (case s2_last_processed snapshot of
                                  None \<Rightarrow> hi_sent h
                                | Some n \<Rightarrow> dropWhile (\<lambda>i. mi_sequence i < n) (hi_sent h)),
                     hi_active := active, hi_baseline := Some received_at\<rparr>))"

text \<open>The segment of the held input: from the snapshot to the first pending input.\<close>

definition held_segment :: "held_input \<Rightarrow> replay_plan \<Rightarrow> u64 \<Rightarrow> replay_segment option" where
  "held_segment h pending now =
     (case (hi_active h, hi_baseline h) of
        (Some active, Some start_us) \<Rightarrow>
          (let end_us = (case rp_segments pending of
                           [] \<Rightarrow> now
                         | s # _ \<Rightarrow> if start_us < rs_start_us s then min (rs_start_us s) now else start_us)
           in if start_us < end_us
              then Some \<lparr>rs_intent = active, rs_start_us = start_us, rs_end_us = end_us,
                         rs_duration_us = end_us - start_us\<rparr>
              else None)
      | _ \<Rightarrow> None)"

fun sum_durations :: "replay_segment list \<Rightarrow> u64 \<Rightarrow> held_error + u64" where
  "sum_durations [] elapsed = Inr elapsed"
| "sum_durations (s # ss) elapsed =
     (case checked_add elapsed (rs_duration_us s) of
        None \<Rightarrow> Inl DurationOverflow
      | Some elapsed' \<Rightarrow> sum_durations ss elapsed')"

definition augment_plan :: "held_input \<Rightarrow> replay_plan \<Rightarrow> u64 \<Rightarrow> held_error + replay_plan" where
  "augment_plan h pending now =
     (let segments = (case held_segment h pending now of None \<Rightarrow> [] | Some s \<Rightarrow> [s]) @ rp_segments pending
      in map_sum id (\<lambda>elapsed. \<lparr>rp_generated_at_us = now, rp_total_duration_us = elapsed, rp_segments = segments\<rparr>)
           (sum_durations segments 0))"

section \<open>The pending inputs\<close>

text \<open>
  A run of the reconciler, with the log of what it accepted: the inputs sent and the acknowledgements of the snapshots
  it applied, in order.
\<close>

datatype client_op = SendInput move_intent u64 | ReceiveSnapshot self_movement_snapshot

datatype client_event = Sent pending_input | Acked "u64 option"

type_synonym logged_reconciler = "reconciler \<times> client_event list"

fun client_step :: "logged_reconciler \<Rightarrow> client_op \<Rightarrow> logged_reconciler" where
  "client_step (rc, log) (SendInput intent sent_at) =
     (case record_sent intent sent_at rc of
        (Inr _, rc') \<Rightarrow> (rc', log @ [Sent \<lparr>pi_intent = intent, pi_sent_at = sent_at\<rparr>])
      | (Inl _, rc') \<Rightarrow> (rc', log))"
| "client_step (rc, log) (ReceiveSnapshot s) =
     (case apply_snapshot s rc of
        (Inr (Applied _), rc') \<Rightarrow> (rc', log @ [Acked (sn_sequence s)])
      | (_, rc') \<Rightarrow> (rc', log))"

abbreviation sent_sequence :: "pending_input \<Rightarrow> u64" where
  "sent_sequence t \<equiv> mi_sequence (pi_intent t)"

fun sents :: "client_event list \<Rightarrow> pending_input list" where
  "sents [] = []"
| "sents (Sent t # evs) = t # sents evs"
| "sents (Acked _ # evs) = sents evs"

text \<open>The inputs that no later acknowledgement covers.\<close>

fun acknowledges :: "pending_input \<Rightarrow> client_event \<Rightarrow> bool" where
  "acknowledges t (Acked (Some n)) = (sent_sequence t \<le> n)"
| "acknowledges t _ = False"

fun unacked :: "client_event list \<Rightarrow> pending_input list" where
  "unacked [] = []"
| "unacked (Sent t # evs) = (if list_ex (acknowledges t) evs then unacked evs else t # unacked evs)"
| "unacked (Acked _ # evs) = unacked evs"

definition last_of :: "('a \<Rightarrow> 'b) \<Rightarrow> 'a list \<Rightarrow> 'b option" where
  "last_of f xs = (if xs = [] then None else Some (f (last xs)))"

definition client_inv :: "logged_reconciler \<Rightarrow> bool" where
  "client_inv s \<longleftrightarrow> (case s of (rc, log) \<Rightarrow>
     rc_pending rc = unacked log \<and>
     sorted_wrt (<) (map sent_sequence (sents log)) \<and> sorted (map pi_sent_at (sents log)) \<and>
     rc_highest_sent rc = last_of sent_sequence (sents log) \<and> rc_last_sent_at rc = last_of pi_sent_at (sents log) \<and>
     length (rc_pending rc) \<le> rc_capacity rc)"

lemma sents_append [simp]: "sents (evs @ evs') = sents evs @ sents evs'"
  by (induction evs rule: sents.induct) simp_all

lemma unacked_subset: "set (unacked evs) \<subseteq> set (sents evs)"
  by (induction evs rule: unacked.induct) auto

lemma unacked_Sent [simp]: "unacked (evs @ [Sent t]) = unacked evs @ [t]"
  by (induction evs rule: unacked.induct) simp_all

lemma unacked_Acked [simp]: "unacked (evs @ [Acked a]) = still_pending a (unacked evs)"
  by (induction evs rule: unacked.induct) (auto simp: still_pending_def not_le not_less split: option.splits)

lemma unacked_sorted: "sorted (map pi_sent_at (sents evs)) \<Longrightarrow> sorted (map pi_sent_at (unacked evs))"
proof (induction evs rule: unacked.induct)
  case (2 t evs)
  then show ?case using unacked_subset [of evs] by auto
qed simp_all

lemma last_of_snoc [simp]: "last_of f (xs @ [x]) = Some (f x)"
  by (simp add: last_of_def)

lemma sorted_last:
  assumes "sorted_wrt (<) (map f xs)" "last_of f xs = Some (n :: 'b :: linorder)" "y \<in> set xs"
  shows "f y \<le> n"
  using assms by (cases xs rule: rev_cases) (auto simp: last_of_def sorted_wrt_append less_imp_le)

lemma sorted_last_le:
  assumes "sorted (map f xs)" "last_of f xs = Some (n :: 'b :: linorder)" "y \<in> set xs"
  shows "f y \<le> n"
  using assms by (cases xs rule: rev_cases) (auto simp: last_of_def sorted_append)

lemma still_pending_append:
  "still_pending ack (xs @ ys) = still_pending ack xs @ still_pending ack ys"
  by (simp add: still_pending_def split: option.split)

lemma record_sent_Inr:
  assumes "record_sent intent sent_at rc = (Inr u, rc')"
  shows "length (rc_pending rc) < rc_capacity rc"
    and "rc_highest_sent rc = Some n \<Longrightarrow> n < mi_sequence intent"
    and "rc_last_sent_at rc = Some n \<Longrightarrow> n \<le> sent_at"
    and "rc' = rc\<lparr>rc_highest_sent := Some (mi_sequence intent), rc_last_sent_at := Some sent_at,
      rc_pending := rc_pending rc @ [\<lparr>pi_intent = intent, pi_sent_at = sent_at\<rparr>]\<rparr>"
  using assms by (auto simp: record_sent_def Let_def split: if_splits)

lemma record_sent_Inl: "record_sent intent sent_at rc = (Inl e, rc') \<Longrightarrow> rc' = rc"
  by (auto simp: record_sent_def Let_def split: if_splits)

lemma apply_snapshot_cases:
  assumes "apply_snapshot s rc = (r, rc')"
  obtains (kept) "rc' = rc" "\<And>a. r \<noteq> Inr (Applied a)"
  | (applied) a where "rc' = rc\<lparr>rc_pending := still_pending (sn_sequence s) (rc_pending rc), rc_last_processed := sn_sequence s,
      rc_last_snapshot := Some s\<rparr>"
    "r = Inr (Applied a)" "check_ack rc (sn_sequence s) = Inr ()" "check_sent rc (sn_sequence s) = Inr ()"
    "\<And>old. rc_last_snapshot rc = Some old \<Longrightarrow> sn_server_tick old < sn_server_tick s"
  using assms by (auto simp: apply_snapshot_def Let_def split: option.splits if_splits sum.splits)

lemma client_step_inv:
  assumes "client_inv s"
  shows "client_inv (client_step s op)"
proof -
  obtain rc log where s: "s = (rc, log)" by (cases s)
  note I = assms [unfolded client_inv_def s prod.case]
  show ?thesis
  proof (cases op)
    case (SendInput intent sent_at)
    obtain r rc' where r: "record_sent intent sent_at rc = (r, rc')" by fastforce
    show ?thesis
    proof (cases r)
      case (Inl e)
      then have "rc' = rc" using record_sent_Inl r by blast
      with Inl r assms SendInput show ?thesis by (simp add: s)
    next
      case (Inr u)
      note c = record_sent_Inr [OF r [unfolded Inr]]
      let ?t = "\<lparr>pi_intent = intent, pi_sent_at = sent_at\<rparr>"
      have newer: "sent_sequence y < mi_sequence intent" if "y \<in> set (sents log)" for y
      proof -
        have "last_of sent_sequence (sents log) \<noteq> None" using that by (auto simp: last_of_def)
        then obtain n where n: "last_of sent_sequence (sents log) = Some n" by blast
        with sorted_last [OF _ n that] I have "sent_sequence y \<le> n" by simp
        also have "n < mi_sequence intent" using c(2) [of n] I n by simp
        finally show ?thesis .
      qed
      have later: "pi_sent_at y \<le> sent_at" if "y \<in> set (sents log)" for y
      proof -
        have "last_of pi_sent_at (sents log) \<noteq> None" using that by (auto simp: last_of_def)
        then obtain n where n: "last_of pi_sent_at (sents log) = Some n" by blast
        with sorted_last_le [OF _ n that] I have "pi_sent_at y \<le> n" by simp
        also have "n \<le> sent_at" using c(3) [of n] I n by simp
        finally show ?thesis .
      qed
      from I c(1) newer later show ?thesis
        by (simp add: SendInput s r Inr c(4) client_inv_def sorted_wrt_append sorted_append)
    qed
  next
    case (ReceiveSnapshot sn)
    obtain r rc' where r: "apply_snapshot sn rc = (r, rc')" by fastforce
    from r show ?thesis
    proof (cases rule: apply_snapshot_cases)
      case kept
      with assms show ?thesis by (auto simp: ReceiveSnapshot s r split: sum.split apply_outcome.split)
    next
      case applied
      have "length (still_pending (sn_sequence sn) (rc_pending rc)) \<le> length (rc_pending rc)"
        by (simp add: still_pending_def split: option.split)
      with I show ?thesis by (auto simp: ReceiveSnapshot s r applied(1,2) client_inv_def)
    qed
  qed
qed

inductive client_reachable :: "nat \<Rightarrow> logged_reconciler \<Rightarrow> bool" for capacity where
  fresh: "reconciler_new capacity = Inr rc \<Longrightarrow> client_reachable capacity (rc, [])"
| stepped: "client_reachable capacity s \<Longrightarrow> client_reachable capacity (client_step s op)"

lemma client_step_capacity: "rc_capacity (fst (client_step s op)) = rc_capacity (fst s)"
proof (cases s; cases op)
  fix rc log intent sent_at
  assume s: "s = (rc, log)" "op = SendInput intent sent_at"
  obtain r rc' where r: "record_sent intent sent_at rc = (r, rc')" by fastforce
  then show ?thesis
    using record_sent_Inr(4) [of intent sent_at rc _ rc'] record_sent_Inl [of intent sent_at rc _ rc']
    by (cases r) (simp_all add: s)
next
  fix rc log sn
  assume s: "s = (rc, log)" "op = ReceiveSnapshot sn"
  obtain r rc' where r: "apply_snapshot sn rc = (r, rc')" by fastforce
  then show ?thesis by (cases rule: apply_snapshot_cases) (auto simp: s r split: sum.split apply_outcome.split)
qed

lemma client_reachable_inv: "client_reachable capacity s \<Longrightarrow> client_inv s \<and> rc_capacity (fst s) = capacity"
proof (induction rule: client_reachable.induct)
  case (fresh rc)
  then show ?case
    by (auto simp: client_inv_def reconciler_new_def last_of_def split: if_splits)
next
  case (stepped s op)
  then show ?case by (simp add: client_step_inv client_step_capacity)
qed

section \<open>The plan\<close>

text \<open>The segments of a plan cover the time from the first pending input to now, without a gap.\<close>

lemma plan_segments_cover:
  assumes "sorted (map pi_sent_at ts)" "\<forall>t\<in>set ts. pi_sent_at t \<le> now" "ts \<noteq> [] \<Longrightarrow> elapsed \<le> pi_sent_at (hd ts)"
  shows "\<exists>segments elapsed'. plan_segments now ts elapsed = Inr (segments, elapsed') \<and>
    map rs_intent segments = map pi_intent ts \<and> map rs_start_us segments = map pi_sent_at ts \<and>
    map rs_end_us segments = (if ts = [] then [] else tl (map pi_sent_at ts) @ [now]) \<and>
    (\<forall>s\<in>set segments. rs_duration_us s = rs_end_us s - rs_start_us s \<and> rs_start_us s \<le> rs_end_us s) \<and>
    elapsed' = (if ts = [] then elapsed else elapsed + (now - pi_sent_at (hd ts)))"
  using assms
proof (induction ts arbitrary: elapsed)
  case (Cons t ts)
  define end_us where "end_us = (case ts of [] \<Rightarrow> now | u # _ \<Rightarrow> pi_sent_at u)"
  have e: "pi_sent_at t \<le> end_us" using Cons.prems by (cases ts) (auto simp: end_us_def)
  have d: "saturating_sub end_us (pi_sent_at t) = end_us - pi_sent_at t" using e by (simp add: saturating_sub_def)
  have "unat elapsed + unat (end_us - pi_sent_at t) \<le> unat end_us"
    using Cons.prems(3) e by (simp add: unat_sub_le word_le_nat_alt)
  also have "unat end_us < 2 ^ 64" using unsigned_less [of end_us, where ?'a = nat] by simp
  finally have fits: "unat elapsed + unat (end_us - pi_sent_at t) < 2 ^ 64" .
  then have c: "checked_add elapsed (end_us - pi_sent_at t) = Some (elapsed + (end_us - pi_sent_at t))"
    by (simp add: checked_add_def)
  have "elapsed + (end_us - pi_sent_at t) \<le> pi_sent_at (hd ts)" if "ts \<noteq> []"
  proof -
    have "end_us = pi_sent_at (hd ts)" using that by (cases ts) (simp_all add: end_us_def)
    with fits Cons.prems(3) e show ?thesis by (simp add: word_le_nat_alt unat_add_fits unat_sub_le)
  qed
  with Cons.IH [of "elapsed + (end_us - pi_sent_at t)"] Cons.prems obtain segments elapsed' where
    rec: "plan_segments now ts (elapsed + (end_us - pi_sent_at t)) = Inr (segments, elapsed')" and
    r: "map rs_intent segments = map pi_intent ts" "map rs_start_us segments = map pi_sent_at ts"
      "map rs_end_us segments = (if ts = [] then [] else tl (map pi_sent_at ts) @ [now])"
      "\<forall>s\<in>set segments. rs_duration_us s = rs_end_us s - rs_start_us s \<and> rs_start_us s \<le> rs_end_us s"
      "elapsed' = (if ts = [] then elapsed + (end_us - pi_sent_at t)
        else elapsed + (end_us - pi_sent_at t) + (now - pi_sent_at (hd ts)))" by auto
  have "elapsed' = elapsed + (now - pi_sent_at t)" using r(5) by (cases ts) (simp_all add: end_us_def)
  moreover have "plan_segments now (t # ts) elapsed = Inr (\<lparr>rs_intent = pi_intent t, rs_start_us = pi_sent_at t,
      rs_end_us = end_us, rs_duration_us = end_us - pi_sent_at t\<rparr> # segments, elapsed')"
    using Cons.prems(2) d c rec by (simp add: end_us_def [symmetric] Let_def not_less [symmetric])
  ultimately show ?case using r(1-4) e by (cases ts) (simp_all add: end_us_def)
qed simp

section \<open>Properties\<close>

text \<open>
  C32: the client's reconciler keeps exactly the unacknowledged inputs: after any interleaving of inputs sent and
  snapshots received, whatever these acknowledge, the pending inputs are, in order, the inputs it accepted that no
  acknowledgement it applied since then covers. They never exceed the capacity, and the inputs it accepted have strictly
  increasing sequences and times that never go back.
\<close>

theorem client_pending_exact:
  assumes "client_reachable capacity (rc, log)"
  shows "rc_pending rc = unacked log \<and> length (rc_pending rc) \<le> capacity \<and>
    sorted_wrt (<) (map sent_sequence (sents log)) \<and> sorted (map pi_sent_at (sents log))"
  using client_reachable_inv [OF assms] by (auto simp: client_inv_def)

text \<open>
  The plan the client replays covers the time since its first unacknowledged input, gap-free: one segment per pending
  input, from its sending to the next one's, the last until now, and the durations add up; the only error is a clock
  that shows less than the time an input was sent.
\<close>

theorem client_plan_covers:
  assumes "client_reachable capacity (rc, log)" "\<forall>t\<in>set (rc_pending rc). pi_sent_at t \<le> now"
  shows "\<exists>plan. make_plan now rc = Inr plan \<and>
    map rs_intent (rp_segments plan) = map pi_intent (rc_pending rc) \<and>
    map rs_start_us (rp_segments plan) = map pi_sent_at (rc_pending rc) \<and>
    map rs_end_us (rp_segments plan) =
      (if rc_pending rc = [] then [] else tl (map pi_sent_at (rc_pending rc)) @ [now]) \<and>
    rp_total_duration_us plan = (if rc_pending rc = [] then 0 else now - pi_sent_at (hd (rc_pending rc)))"
proof -
  have "sorted (map pi_sent_at (rc_pending rc))"
    using client_reachable_inv [OF assms(1)]
    by (auto simp: client_inv_def unacked_sorted)
  from plan_segments_cover [OF this assms(2), of 0] show ?thesis by (auto simp: make_plan_def)
qed

definition sample_run :: logged_reconciler where
  "sample_run = foldl client_step (\<lparr>rc_pending = [], rc_capacity = 4, rc_highest_sent = None, rc_last_sent_at = None,
     rc_last_processed = None, rc_last_snapshot = None\<rparr>, [])
     [SendInput \<lparr>mi_sequence = 1, mi_axis_x = 5, mi_axis_y = 0\<rparr> 100,
      SendInput \<lparr>mi_sequence = 2, mi_axis_x = 0, mi_axis_y = 5\<rparr> 150,
      ReceiveSnapshot \<lparr>sn_server_tick = 7, sn_x_mm = 0, sn_y_mm = 0, sn_z_mm = 0, sn_sequence = Some 1\<rparr>]"

lemma sample_run_value:
  "sample_run = (\<lparr>rc_pending = [\<lparr>pi_intent = \<lparr>mi_sequence = 2, mi_axis_x = 0, mi_axis_y = 5\<rparr>, pi_sent_at = 150\<rparr>],
     rc_capacity = 4, rc_highest_sent = Some 2, rc_last_sent_at = Some 150, rc_last_processed = Some 1,
     rc_last_snapshot = Some \<lparr>sn_server_tick = 7, sn_x_mm = 0, sn_y_mm = 0, sn_z_mm = 0, sn_sequence = Some 1\<rparr>\<rparr>,
     [Sent \<lparr>pi_intent = \<lparr>mi_sequence = 1, mi_axis_x = 5, mi_axis_y = 0\<rparr>, pi_sent_at = 100\<rparr>,
      Sent \<lparr>pi_intent = \<lparr>mi_sequence = 2, mi_axis_x = 0, mi_axis_y = 5\<rparr>, pi_sent_at = 150\<rparr>, Acked (Some 1)])"
  by (simp add: sample_run_def record_sent_def apply_snapshot_def check_ack_def check_sent_def still_pending_def Let_def word_le_nat_alt)

lemma client_reachable_run: "client_reachable capacity s \<Longrightarrow> client_reachable capacity (foldl client_step s ops)"
  by (induction ops arbitrary: s) (simp_all add: client_reachable.stepped)

lemma sample_run_reachable: "client_reachable 4 sample_run"
  unfolding sample_run_def
  by (rule client_reachable_run, rule client_reachable.fresh, simp add: reconciler_new_def)

theorem client_pending_exact_witness:
  "unacked (snd sample_run) = [\<lparr>pi_intent = \<lparr>mi_sequence = 2, mi_axis_x = 0, mi_axis_y = 5\<rparr>, pi_sent_at = 150\<rparr>]"
proof -
  have "client_reachable 4 (fst sample_run, snd sample_run)" by (simp add: sample_run_reachable)
  from client_pending_exact [OF this] have "unacked (snd sample_run) = rc_pending (fst sample_run)" by simp
  also have "\<dots> = [\<lparr>pi_intent = \<lparr>mi_sequence = 2, mi_axis_x = 0, mi_axis_y = 5\<rparr>, pi_sent_at = 150\<rparr>]"
    by (simp only: sample_run_value fst_conv reconciler.simps)
  finally show ?thesis .
qed

theorem client_plan_covers_witness:
  "\<exists>plan. make_plan 170 (fst sample_run) = Inr plan \<and> rp_total_duration_us plan = 20"
  using client_plan_covers [of 4 "fst sample_run" "snd sample_run" 170] sample_run_reachable
  by (auto simp: sample_run_value)

text \<open>
  An acknowledgement that comes before the client has sent anything is accepted, whatever sequence it names: the
  check against what was sent is made only once something was.
\<close>

theorem unknown_ack_accepted:
  assumes "reconciler_new capacity = Inr rc"
  shows "\<exists>a rc'. apply_snapshot s rc = (Inr (Applied a), rc') \<and> rc_last_processed rc' = sn_sequence s"
  using assms
  by (auto simp: reconciler_new_def apply_snapshot_def check_ack_def check_sent_def Let_def split: if_splits option.splits)

theorem unknown_ack_accepted_witness:
  "\<exists>a rc'. apply_snapshot \<lparr>sn_server_tick = 7, sn_x_mm = 0, sn_y_mm = 0, sn_z_mm = 0, sn_sequence = Some 9\<rparr>
     \<lparr>rc_pending = [], rc_capacity = 4, rc_highest_sent = None, rc_last_sent_at = None, rc_last_processed = None,
      rc_last_snapshot = None\<rparr> = (Inr (Applied a), rc')"
proof -
  have "reconciler_new 4 = Inr \<lparr>rc_pending = [], rc_capacity = 4, rc_highest_sent = None, rc_last_sent_at = None,
    rc_last_processed = None, rc_last_snapshot = None\<rparr>" by (simp add: reconciler_new_def)
  from unknown_ack_accepted [OF this] show ?thesis by blast
qed

end
