(* ===== verification/Client_Prediction.thy ===== *)
theory Client_Prediction
  imports Client_Reconciliation Movement
begin

text \<open>
  The client's prediction of its own position, apps/protocol-client/src/prediction.rs: the segments of a replay plan
  integrated from the position of a snapshot. Intermediate values are \<open>i128\<close> with checked operations.
\<close>

section \<open>Definitions\<close>

definition micros_per_second :: int where
  "micros_per_second = 1000000"

datatype prediction_error = TimeoutOverflow | ZeroPredictableLifetime | IntegrationOverflow | PositionOverflow

record predictor =
  pr_profile :: prediction_profile
  pr_max_lifetime_us :: u64

text \<open>\<open>None\<close> is the panic of a division by a tick rate of zero.\<close>

definition predictor_new :: "prediction_profile \<Rightarrow> (prediction_error + predictor) option" where
  "predictor_new p =
     (if 2 ^ 64 \<le> unat (movement_input_timeout_ticks p) * 1000000 then Some (Inl TimeoutOverflow)
      else if simulation_tick_hz p = 0 then None
      else (let lifetime = movement_input_timeout_ticks p * 1000000 div ucast (simulation_tick_hz p)
            in if lifetime = 0 then Some (Inl ZeroPredictableLifetime)
               else Some (Inr \<lparr>pr_profile = p, pr_max_lifetime_us = lifetime\<rparr>)))"

text \<open>The client's own copy of the normalisation of an input.\<close>

definition client_integer_sqrt_floor :: "nat \<Rightarrow> nat" where
  "client_integer_sqrt_floor v = (if v < 2 then v else sqrt_loop v v ((v + 1) div 2))"

definition client_integer_sqrt_ceil :: "nat \<Rightarrow> nat" where
  "client_integer_sqrt_ceil v =
     (let floor = client_integer_sqrt_floor v in if floor * floor = v then floor else floor + 1)"

definition client_normalized_axes :: "16 word \<Rightarrow> 16 word \<Rightarrow> int \<times> int" where
  "client_normalized_axes ax ay =
     (let x = sint ax; y = sint ay; scale = 32767;
          magnitude_squared = nat (x * x + y * y)
      in if magnitude_squared \<le> nat (scale * scale) then (x, y)
         else (let magnitude = int (client_integer_sqrt_ceil magnitude_squared)
               in ((x * scale) sdiv magnitude, (y * scale) sdiv magnitude)))"

text \<open>One axis of one segment: the new coordinate and remainder.\<close>

definition predict_axis ::
  "int \<Rightarrow> int \<Rightarrow> int \<Rightarrow> int \<Rightarrow> int \<Rightarrow> prediction_error + int" where
  "predict_axis speed axis duration r denominator =
     (case checked_mul_i128 speed axis of
        None \<Rightarrow> Inl IntegrationOverflow
      | Some v \<Rightarrow>
          (case checked_mul_i128 v duration of
             None \<Rightarrow> Inl IntegrationOverflow
           | Some w \<Rightarrow> ok_or IntegrationOverflow (checked_add_i128 r w)))"

record prediction_state =
  ps_x :: int
  ps_y :: int
  ps_rem_x :: int
  ps_rem_y :: int

definition predict_segment ::
  "predictor \<Rightarrow> int \<Rightarrow> replay_segment \<Rightarrow> prediction_state \<Rightarrow> prediction_error + prediction_state" where
  "predict_segment p denominator seg st =
     (let duration = uint (min (rs_duration_us seg) (pr_max_lifetime_us p));
          speed = uint (speed_mm_per_second (pr_profile p))
      in case client_normalized_axes (mi_axis_x (rs_intent seg)) (mi_axis_y (rs_intent seg)) of (ax, ay) \<Rightarrow>
         (case predict_axis speed ax duration (ps_rem_x st) denominator of Inl e \<Rightarrow> Inl e | Inr nx \<Rightarrow>
         (case predict_axis speed ay duration (ps_rem_y st) denominator of Inl e \<Rightarrow> Inl e | Inr ny \<Rightarrow>
         (case ok_or PositionOverflow (checked_add_i128 (ps_x st) (nx sdiv denominator)) of Inl e \<Rightarrow> Inl e | Inr x \<Rightarrow>
         (case ok_or PositionOverflow (checked_add_i128 (ps_y st) (ny sdiv denominator)) of Inl e \<Rightarrow> Inl e | Inr y \<Rightarrow>
            Inr \<lparr>ps_x = x, ps_y = y, ps_rem_x = nx smod denominator, ps_rem_y = ny smod denominator\<rparr>)))))"

fun predict_segments ::
  "predictor \<Rightarrow> int \<Rightarrow> replay_segment list \<Rightarrow> prediction_state \<Rightarrow> prediction_error + prediction_state" where
  "predict_segments p denominator [] st = Inr st"
| "predict_segments p denominator (seg # segs) st =
     (case predict_segment p denominator seg st of
        Inl e \<Rightarrow> Inl e
      | Inr st' \<Rightarrow> predict_segments p denominator segs st')"

definition predict :: "predictor \<Rightarrow> self_movement_snapshot \<Rightarrow> replay_plan \<Rightarrow> prediction_error + int \<times> int \<times> int" where
  "predict p baseline plan =
     (case checked_mul_i128 32767 micros_per_second of
        None \<Rightarrow> Inl IntegrationOverflow
      | Some denominator \<Rightarrow>
          (case predict_segments p denominator (rp_segments plan)
                  \<lparr>ps_x = sn_x_mm baseline, ps_y = sn_y_mm baseline, ps_rem_x = 0, ps_rem_y = 0\<rparr> of
             Inl e \<Rightarrow> Inl e
           | Inr st \<Rightarrow>
               if in_i64 (ps_x st) \<and> in_i64 (ps_y st) then Inr (ps_x st, ps_y st, sn_z_mm baseline)
               else Inl PositionOverflow))"

section \<open>The normalisation\<close>

lemma client_normalized_axes_eq:
  "client_normalized_axes ax ay = normalized_axes \<lparr>axis_x = ax, axis_y = ay\<rparr>"
  by (simp add: client_normalized_axes_def normalized_axes_def client_integer_sqrt_ceil_def integer_sqrt_ceil_def
      client_integer_sqrt_floor_def integer_sqrt_floor_def movement_axis_scale_def Let_def)

section \<open>The integration\<close>

abbreviation client_denominator :: int where
  "client_denominator \<equiv> 32767000000"

definition segment_duration :: "predictor \<Rightarrow> replay_segment \<Rightarrow> int" where
  "segment_duration p seg = uint (min (rs_duration_us seg) (pr_max_lifetime_us p))"

definition segment_axes :: "replay_segment \<Rightarrow> int \<times> int" where
  "segment_axes seg = client_normalized_axes (mi_axis_x (rs_intent seg)) (mi_axis_y (rs_intent seg))"

definition predictor_speed :: "predictor \<Rightarrow> int" where
  "predictor_speed p = uint (speed_mm_per_second (pr_profile p))"

lemma uint_lt_64: "uint (w :: u64) < 2 ^ 64" and uint_lt_32: "uint (v :: u32) < 2 ^ 32"
  using uint_bounded [of w] uint_bounded [of v] by simp_all

lemma travel_bound:
  assumes "\<bar>a\<bar> \<le> 32767" "0 \<le> d" "d < 2 ^ 64" "0 \<le> s" "s < 2 ^ 32"
  shows "\<bar>s * a\<bar> < 2 ^ 47" "\<bar>s * a * d\<bar> < (2 :: int) ^ 111"
proof -
  have "\<bar>s * a\<bar> \<le> 2 ^ 32 * 32767"
    unfolding abs_mult using assms by (intro mult_mono) simp_all
  then show sa: "\<bar>s * a\<bar> < 2 ^ 47" by simp
  have "\<bar>s * a * d\<bar> \<le> 2 ^ 47 * (2 ^ 64 - 1)"
    unfolding abs_mult [of "s * a"] using sa assms(2,3) by (intro mult_mono) simp_all
  then show "\<bar>s * a * d\<bar> < 2 ^ 111" by simp
qed

lemma predict_axis_value:
  assumes "\<bar>a\<bar> \<le> 32767" "0 \<le> d" "d < 2 ^ 64" "0 \<le> s" "s < 2 ^ 32" "\<bar>r\<bar> < client_denominator"
  shows "predict_axis s a d r client_denominator = Inr (r + s * a * d)" "\<bar>r + s * a * d\<bar> < 2 ^ 112"
  using travel_bound [OF assms(1-5)] assms(6)
  by (simp_all add: predict_axis_def checked_mul_i128_def checked_add_i128_def in_i128_def abs_less_iff ok_or_def)

text \<open>A truncated division and its remainder.\<close>

lemma sdiv_smod_parts:
  "(n sdiv d) * d + n smod d = (n :: int)"
  by (simp add: sdiv_mult_smod_eq)

lemma predict_segment_exact:
  assumes "\<bar>ps_rem_x st\<bar> < client_denominator" "\<bar>ps_rem_y st\<bar> < client_denominator"
    and "\<bar>ps_x st\<bar> + 2 ^ 112 < 2 ^ 126" "\<bar>ps_y st\<bar> + 2 ^ 112 < 2 ^ 126"
  shows "\<exists>st'. predict_segment p client_denominator seg st = Inr st' \<and>
    \<bar>ps_rem_x st'\<bar> < client_denominator \<and> \<bar>ps_rem_y st'\<bar> < client_denominator \<and>
    \<bar>ps_x st'\<bar> \<le> \<bar>ps_x st\<bar> + 2 ^ 112 \<and> \<bar>ps_y st'\<bar> \<le> \<bar>ps_y st\<bar> + 2 ^ 112 \<and>
    ps_x st' * client_denominator + ps_rem_x st' = ps_x st * client_denominator + ps_rem_x st +
      predictor_speed p * (fst (segment_axes seg) * segment_duration p seg) \<and>
    ps_y st' * client_denominator + ps_rem_y st' = ps_y st * client_denominator + ps_rem_y st +
      predictor_speed p * (snd (segment_axes seg) * segment_duration p seg)"
proof -
  obtain ax ay where axes: "segment_axes seg = (ax, ay)" by (cases "segment_axes seg")
  have b: "\<bar>ax\<bar> \<le> 32767" "\<bar>ay\<bar> \<le> 32767"
    using normalized_axes_bound axes by (simp_all add: segment_axes_def client_normalized_axes_eq movement_axis_scale_def)
  let ?d = "segment_duration p seg" and ?s = "predictor_speed p" and ?D = client_denominator
  have d: "0 \<le> ?d" "?d < 2 ^ 64" "0 \<le> ?s" "?s < 2 ^ 32"
    using uint_lt_64 uint_lt_32 by (simp_all add: segment_duration_def predictor_speed_def)
  let ?nx = "ps_rem_x st + ?s * ax * ?d" and ?ny = "ps_rem_y st + ?s * ay * ?d"
  note px = predict_axis_value [OF b(1) d assms(1)] and py = predict_axis_value [OF b(2) d assms(2)]
  have q: "\<bar>n sdiv ?D\<bar> < 2 ^ 112" if "\<bar>n\<bar> < 2 ^ 112" for n
  proof -
    have "\<bar>n\<bar> div ?D \<le> \<bar>n\<bar> div 1" by (rule zdiv_mono2) simp_all
    with that show ?thesis by (simp add: sdiv_abs)
  qed
  have add: "checked_add_i128 v (n sdiv ?D) = Some (v + n sdiv ?D)" if "\<bar>v\<bar> + 2 ^ 112 < 2 ^ 126" "\<bar>n\<bar> < 2 ^ 112" for v n
    using q [OF that(2)] that(1) by (simp add: checked_add_i128_def in_i128_def abs_less_iff abs_if split: if_splits)
  have seg: "predict_segment p ?D seg st = Inr \<lparr>ps_x = ps_x st + ?nx sdiv ?D, ps_y = ps_y st + ?ny sdiv ?D,
      ps_rem_x = ?nx smod ?D, ps_rem_y = ?ny smod ?D\<rparr>"
    using axes px py add [OF assms(3) px(2)] add [OF assms(4) py(2)]
    unfolding predict_segment_def Let_def segment_axes_def segment_duration_def predictor_speed_def by (simp add: ok_or_def)
  have parts: "(v + n sdiv ?D) * ?D + n smod ?D = v * ?D + n" for v n :: int
    using sdiv_smod_parts [of n ?D] by (simp add: algebra_simps)
  have near: "\<bar>v + n sdiv ?D\<bar> \<le> \<bar>v\<bar> + 2 ^ 112" if "\<bar>n\<bar> < 2 ^ 112" for v n
    using q [OF that] by linarith
  show ?thesis
    unfolding seg
    by (rule exI, rule conjI, rule refl)
      (use near [OF px(2), of "ps_x st"] near [OF py(2), of "ps_y st"] parts [of "ps_x st" ?nx] parts [of "ps_y st" ?ny] axes in
        \<open>simp add: smod_abs_less mult.assoc\<close>)
qed

lemma predict_segments_exact:
  assumes "\<bar>ps_rem_x st\<bar> < client_denominator" "\<bar>ps_rem_y st\<bar> < client_denominator"
    and "\<bar>ps_x st\<bar> + int (length segs) * 2 ^ 112 < 2 ^ 126" "\<bar>ps_y st\<bar> + int (length segs) * 2 ^ 112 < 2 ^ 126"
  shows "\<exists>st'. predict_segments p client_denominator segs st = Inr st' \<and>
    \<bar>ps_rem_x st'\<bar> < client_denominator \<and> \<bar>ps_rem_y st'\<bar> < client_denominator \<and>
    ps_x st' * client_denominator + ps_rem_x st' = ps_x st * client_denominator + ps_rem_x st +
      predictor_speed p * (\<Sum>seg\<leftarrow>segs. fst (segment_axes seg) * segment_duration p seg) \<and>
    ps_y st' * client_denominator + ps_rem_y st' = ps_y st * client_denominator + ps_rem_y st +
      predictor_speed p * (\<Sum>seg\<leftarrow>segs. snd (segment_axes seg) * segment_duration p seg)"
  using assms
proof (induction segs arbitrary: st)
  case (Cons seg segs)
  have room: "\<bar>ps_x st\<bar> + 2 ^ 112 < 2 ^ 126" "\<bar>ps_y st\<bar> + 2 ^ 112 < 2 ^ 126"
    using Cons.prems(3,4) by (simp_all add: algebra_simps)
  obtain st1 where st1: "predict_segment p client_denominator seg st = Inr st1"
    "\<bar>ps_rem_x st1\<bar> < client_denominator" "\<bar>ps_rem_y st1\<bar> < client_denominator"
    "\<bar>ps_x st1\<bar> \<le> \<bar>ps_x st\<bar> + 2 ^ 112" "\<bar>ps_y st1\<bar> \<le> \<bar>ps_y st\<bar> + 2 ^ 112"
    "ps_x st1 * client_denominator + ps_rem_x st1 = ps_x st * client_denominator + ps_rem_x st +
      predictor_speed p * (fst (segment_axes seg) * segment_duration p seg)"
    "ps_y st1 * client_denominator + ps_rem_y st1 = ps_y st * client_denominator + ps_rem_y st +
      predictor_speed p * (snd (segment_axes seg) * segment_duration p seg)"
    using predict_segment_exact [OF Cons.prems(1,2) room, of p seg] by blast
  have "int (length (seg # segs)) * 2 ^ 112 = 2 ^ 112 + int (length segs) * 2 ^ 112"
    by (simp add: algebra_simps)
  with Cons.prems(3,4) st1(4,5) have
    "\<bar>ps_x st1\<bar> + int (length segs) * 2 ^ 112 < 2 ^ 126" "\<bar>ps_y st1\<bar> + int (length segs) * 2 ^ 112 < 2 ^ 126"
    by linarith+
  from Cons.IH [OF st1(2,3) this] obtain st2 where st2: "predict_segments p client_denominator segs st1 = Inr st2"
    "\<bar>ps_rem_x st2\<bar> < client_denominator" "\<bar>ps_rem_y st2\<bar> < client_denominator"
    "ps_x st2 * client_denominator + ps_rem_x st2 = ps_x st1 * client_denominator + ps_rem_x st1 +
      predictor_speed p * (\<Sum>seg\<leftarrow>segs. fst (segment_axes seg) * segment_duration p seg)"
    "ps_y st2 * client_denominator + ps_rem_y st2 = ps_y st1 * client_denominator + ps_rem_y st1 +
      predictor_speed p * (\<Sum>seg\<leftarrow>segs. snd (segment_axes seg) * segment_duration p seg)" by blast
  then show ?case using st1(1,6,7) by (intro exI [of _ st2]) (simp add: distrib_left)
qed simp

section \<open>Client and server\<close>

text \<open>Inputs of the server, each applied for a number of ticks, and the segments the client replays for them.\<close>

type_synonym held_ticks = "(movement_input \<times> nat) list"

definition server_inputs :: "held_ticks \<Rightarrow> movement_input list" where
  "server_inputs ks = concat (map (\<lambda>(i, k). replicate k i) ks)"

definition replays :: "nat \<Rightarrow> u64 \<Rightarrow> movement_input \<times> nat \<Rightarrow> replay_segment \<Rightarrow> bool" where
  "replays tick_us lifetime ik seg \<longleftrightarrow> (case ik of (i, k) \<Rightarrow>
     mi_axis_x (rs_intent seg) = axis_x i \<and> mi_axis_y (rs_intent seg) = axis_y i \<and>
     unat (rs_duration_us seg) = k * tick_us \<and> rs_duration_us seg \<le> lifetime)"

lemma sum_server_inputs:
  "(\<Sum>i\<leftarrow>server_inputs ks. f i) = (\<Sum>(i, k)\<leftarrow>ks. int k * (f i :: int))"
  by (induction ks) (auto simp: server_inputs_def sum_list_replicate)

lemma sum_replayed:
  assumes "list_all2 (replays tick_us (pr_max_lifetime_us p)) ks segs"
  shows "(\<Sum>seg\<leftarrow>segs. fst (segment_axes seg) * segment_duration p seg) =
      int tick_us * (\<Sum>(i, k)\<leftarrow>ks. int k * fst (normalized_axes i))"
    and "(\<Sum>seg\<leftarrow>segs. snd (segment_axes seg) * segment_duration p seg) =
      int tick_us * (\<Sum>(i, k)\<leftarrow>ks. int k * snd (normalized_axes i))"
  using assms
proof (induction ks segs rule: list_all2_induct)
  case (Cons ik ks seg segs)
  obtain i k where ik: "ik = (i, k)" by (cases ik)
  have axes: "segment_axes seg = normalized_axes i"
    using Cons.hyps(1) by (cases i) (simp add: replays_def ik segment_axes_def client_normalized_axes_eq)
  have "segment_duration p seg = int (k * tick_us)"
    using Cons.hyps(1) by (simp add: replays_def ik segment_duration_def min_def uint_nat)
  with Cons.IH axes
  show "(\<Sum>seg\<leftarrow>seg # segs. fst (segment_axes seg) * segment_duration p seg) =
      int tick_us * (\<Sum>(i, k)\<leftarrow>ik # ks. int k * fst (normalized_axes i))"
    and "(\<Sum>seg\<leftarrow>seg # segs. snd (segment_axes seg) * segment_duration p seg) =
      int tick_us * (\<Sum>(i, k)\<leftarrow>ik # ks. int k * snd (normalized_axes i))"
    by (simp_all add: ik algebra_simps)
qed simp_all

text \<open>Two integrations of the same distance, truncated at two granularities, differ by at most one.\<close>

lemma one_apart:
  fixes D u x y r q t :: int
  assumes "0 < D" "0 < u" "x * (u * D) + r = u * t" "y * D + q = t" "\<bar>r\<bar> < u * D" "\<bar>q\<bar> < D"
  shows "\<bar>x - y\<bar> \<le> 1"
proof -
  have "x * (u * D) + r = u * (y * D + q)" using assms(3,4) by simp
  then have "(x - y) * (u * D) = u * q - r" by (simp add: algebra_simps)
  moreover have "\<bar>u * q\<bar> < u * D" using assms(2,6) by (simp add: abs_mult)
  ultimately have "\<bar>(x - y) * (u * D)\<bar> < 2 * (u * D)" using assms(5) by linarith
  then have "\<bar>x - y\<bar> * (u * D) < 2 * (u * D)" using assms(1,2) by (simp add: abs_mult)
  then have "\<bar>x - y\<bar> < 2" using assms(1,2) by simp
  then show ?thesis by simp
qed

lemma near_i64: "\<bar>a - b\<bar> \<le> 1 \<Longrightarrow> \<bar>b\<bar> < 2 ^ 62 \<Longrightarrow> in_i64 a"
  by (simp add: in_i64_def abs_le_iff abs_less_iff)

section \<open>Properties\<close>

text \<open>
  The client normalises an input as the server does: its own square root and scaling give the same axes
  for every input.
\<close>

theorem client_normalises_as_server:
  "client_normalized_axes ax ay = normalized_axes \<lparr>axis_x = ax, axis_y = ay\<rparr>"
  by (rule client_normalized_axes_eq)


definition sample_profile :: prediction_profile where
  "sample_profile = \<lparr>profile_version = 2, speed_mm_per_second = 4500, simulation_tick_hz = 20,
     character_radius_mm = 250, movement_input_timeout_ticks = 5, presentation_correction =
       \<lparr>absorb_max_mm = 25, smooth_max_mm = 250, hard_snap_threshold_mm = 1000, smooth_duration_ms = 120,
        rapid_duration_ms = 50\<rparr>\<rparr>"

definition sample_plan :: replay_plan where
  "sample_plan = \<lparr>rp_generated_at_us = 100000, rp_total_duration_us = 100000, rp_segments =
     [\<lparr>rs_intent = \<lparr>mi_sequence = 2, mi_axis_x = 16384, mi_axis_y = 0\<rparr>, rs_start_us = 0, rs_end_us = 100000,
       rs_duration_us = 100000\<rparr>]\<rparr>"

lemma sample_predictor: "predictor_new sample_profile = Some (Inr \<lparr>pr_profile = sample_profile, pr_max_lifetime_us = 250000\<rparr>)"
  by (simp add: predictor_new_def sample_profile_def)


end
