(* ===== verification/Client_Presentation.thy ===== *)
theory Client_Presentation
  imports Client_Prediction
begin

text \<open>
  The smoothing of corrections in the client, apps/protocol-client/src/presentation.rs: when the predicted position
  jumps, the rendered one keeps an offset that decays to nothing. Positions and offsets are triples of \<open>i64\<close>.
\<close>

section \<open>Definitions\<close>

type_synonym point_mm = "int \<times> int \<times> int"

datatype correction_mode = Absorb | Smooth | Rapid | HardSnap

datatype presentation_error =
  CorrectionDurationOverflow
| PresentedPositionOverflow
| InterpolationOverflow
| DistanceOverflow
| PresentationClock clock_error

record correction_decision =
  cd_mode :: correction_mode
  cd_distance_mm :: nat
  cd_duration_us :: u64
  cd_active_offset :: point_mm

record active_correction =
  ac_initial_offset :: point_mm
  ac_started_at :: u64
  ac_duration_us :: u64

record presenter =
  pt_profile :: correction_profile
  pt_smooth_us :: u64
  pt_rapid_us :: u64
  pt_active :: "active_correction option"

definition to_micros :: "u32 \<Rightarrow> presentation_error + u64" where
  "to_micros ms = (if unat ms * 1000 < 2 ^ 64 then Inr (ucast ms * 1000) else Inl CorrectionDurationOverflow)"

definition presenter_new :: "correction_profile \<Rightarrow> presentation_error + presenter" where
  "presenter_new p =
     (case to_micros (smooth_duration_ms p) of Inl e \<Rightarrow> Inl e | Inr smooth \<Rightarrow>
      (case to_micros (rapid_duration_ms p) of Inl e \<Rightarrow> Inl e | Inr rapid \<Rightarrow>
         Inr \<lparr>pt_profile = p, pt_smooth_us = smooth, pt_rapid_us = rapid, pt_active = None\<rparr>))"

definition three_checked ::
  "presentation_error \<Rightarrow> (int \<Rightarrow> int \<Rightarrow> int option) \<Rightarrow> point_mm \<Rightarrow> point_mm \<Rightarrow> presentation_error + point_mm" where
  "three_checked err f p q =
     (case (p, q) of ((px, py, pz), (qx, qy, qz)) \<Rightarrow>
        (case f px qx of None \<Rightarrow> Inl err | Some x \<Rightarrow>
        (case f py qy of None \<Rightarrow> Inl err | Some y \<Rightarrow>
        (case f pz qz of None \<Rightarrow> Inl err | Some z \<Rightarrow> Inr (x, y, z)))))"

definition add_offset :: "point_mm \<Rightarrow> point_mm \<Rightarrow> presentation_error + point_mm" where
  "add_offset = three_checked PresentedPositionOverflow checked_add_i64"

definition position_delta :: "point_mm \<Rightarrow> point_mm \<Rightarrow> presentation_error + point_mm" where
  "position_delta = three_checked PresentedPositionOverflow checked_sub_i64"

definition decay_component :: "int \<Rightarrow> u64 \<Rightarrow> u64 \<Rightarrow> presentation_error + int" where
  "decay_component v remaining_us duration_us =
     (case checked_mul_i128 v (uint remaining_us) of
        None \<Rightarrow> Inl InterpolationOverflow
      | Some n \<Rightarrow>
          (let scaled = n sdiv uint duration_us
           in if in_i64 scaled then Inr scaled else Inl InterpolationOverflow))"

definition decayed_offset :: "point_mm \<Rightarrow> u64 \<Rightarrow> u64 \<Rightarrow> presentation_error + point_mm" where
  "decayed_offset p remaining_us duration_us =
     (case p of (x, y, z) \<Rightarrow>
        (case decay_component x remaining_us duration_us of Inl e \<Rightarrow> Inl e | Inr x' \<Rightarrow>
        (case decay_component y remaining_us duration_us of Inl e \<Rightarrow> Inl e | Inr y' \<Rightarrow>
        (case decay_component z remaining_us duration_us of Inl e \<Rightarrow> Inl e | Inr z' \<Rightarrow> Inr (x', y', z')))))"

text \<open>The square of the length in \<open>u128\<close>, its root in \<open>u64\<close>.\<close>

definition magnitude_mm :: "point_mm \<Rightarrow> presentation_error + nat" where
  "magnitude_mm p =
     (case p of (x, y, z) \<Rightarrow>
        (let sq = nat \<bar>x\<bar> * nat \<bar>x\<bar> + nat \<bar>y\<bar> * nat \<bar>y\<bar> + nat \<bar>z\<bar> * nat \<bar>z\<bar>;
             magnitude = integer_sqrt_floor sq
         in if 2 ^ 128 \<le> sq \<or> 2 ^ 64 \<le> magnitude then Inl DistanceOverflow else Inr magnitude))"

definition sample_offset :: "u64 \<Rightarrow> presenter \<Rightarrow> (presentation_error + point_mm) \<times> presenter" where
  "sample_offset now pt =
     (case pt_active pt of
        None \<Rightarrow> (Inr (0, 0, 0), pt)
      | Some a \<Rightarrow>
          (case checked_duration_since now (ac_started_at a) of
             Inl e \<Rightarrow> (Inl (PresentationClock e), pt)
           | Inr elapsed \<Rightarrow>
               if ac_duration_us a \<le> elapsed then (Inr (0, 0, 0), pt\<lparr>pt_active := None\<rparr>)
               else (decayed_offset (ac_initial_offset a) (ac_duration_us a - elapsed) (ac_duration_us a), pt)))"

definition rendered_position ::
  "point_mm \<Rightarrow> u64 \<Rightarrow> presenter \<Rightarrow> (presentation_error + point_mm) \<times> presenter" where
  "rendered_position gameplay now pt =
     (case sample_offset now pt of
        (Inl e, pt') \<Rightarrow> (Inl e, pt')
      | (Inr off, pt') \<Rightarrow> (add_offset gameplay off, pt'))"

definition choose_mode :: "presenter \<Rightarrow> nat \<Rightarrow> correction_mode \<times> u64" where
  "choose_mode pt distance =
     (if distance \<le> unat (absorb_max_mm (pt_profile pt)) then (Absorb, 0)
      else if distance \<le> unat (smooth_max_mm (pt_profile pt)) then (Smooth, pt_smooth_us pt)
      else if distance < unat (hard_snap_threshold_mm (pt_profile pt)) then (Rapid, pt_rapid_us pt)
      else (HardSnap, 0))"

definition reconcile ::
  "point_mm \<Rightarrow> point_mm \<Rightarrow> u64 \<Rightarrow> presenter \<Rightarrow> (presentation_error + correction_decision) \<times> presenter" where
  "reconcile old_gameplay new_gameplay now pt =
     (case sample_offset now pt of
        (Inl e, pt1) \<Rightarrow> (Inl e, pt1)
      | (Inr current, pt1) \<Rightarrow>
          (case add_offset old_gameplay current of
             Inl e \<Rightarrow> (Inl e, pt1)
           | Inr old_rendered \<Rightarrow>
               (case position_delta old_rendered new_gameplay of
                  Inl e \<Rightarrow> (Inl e, pt1)
                | Inr requested \<Rightarrow>
                    (case magnitude_mm requested of
                       Inl e \<Rightarrow> (Inl e, pt1)
                     | Inr distance \<Rightarrow>
                         (case choose_mode pt1 distance of
                            (mode, duration_us) \<Rightarrow>
                              if mode = Smooth \<or> mode = Rapid
                              then (Inr \<lparr>cd_mode = mode, cd_distance_mm = distance, cd_duration_us = duration_us,
                                         cd_active_offset = requested\<rparr>,
                                    pt1\<lparr>pt_active := Some \<lparr>ac_initial_offset = requested, ac_started_at = now,
                                                           ac_duration_us = duration_us\<rparr>\<rparr>)
                              else (Inr \<lparr>cd_mode = mode, cd_distance_mm = distance, cd_duration_us = duration_us,
                                         cd_active_offset = (0, 0, 0)\<rparr>,
                                    pt1\<lparr>pt_active := None\<rparr>))))))"

section \<open>The offset\<close>

fun in_range :: "point_mm \<Rightarrow> bool" where
  "in_range (x, y, z) \<longleftrightarrow> in_i64 x \<and> in_i64 y \<and> in_i64 z"

text \<open>A running correction has a duration, and an offset the client can represent.\<close>

definition presenter_inv :: "presenter \<Rightarrow> bool" where
  "presenter_inv pt \<longleftrightarrow> pt_smooth_us pt \<noteq> 0 \<and> pt_rapid_us pt \<noteq> 0 \<and>
     (\<forall>a. pt_active pt = Some a \<longrightarrow> ac_duration_us a \<noteq> 0 \<and> in_range (ac_initial_offset a))"

lemma decay_component_value:
  assumes "in_i64 v" "remaining \<le> duration" "duration \<noteq> 0"
  shows "\<exists>v'. decay_component v remaining duration = Inr v' \<and> \<bar>v'\<bar> \<le> \<bar>v\<bar> \<and> in_i64 v' \<and> (remaining = duration \<longrightarrow> v' = v)"
proof -
  have d: "0 < uint duration" using assms(3) by (simp add: word_neq_0_conv word_less_def)
  have r: "uint remaining \<le> uint duration" using assms(2) by (simp add: word_le_def)
  have lt: "uint remaining < 2 ^ 64" by (rule uint_lt_64)
  have v: "\<bar>v\<bar> \<le> 2 ^ 63" using assms(1) by (auto simp: in_i64_def)
  have "\<bar>v * uint remaining\<bar> \<le> 2 ^ 63 * (2 ^ 64 - 1)"
    unfolding abs_mult using v lt by (intro mult_mono) simp_all
  then have m: "checked_mul_i128 v (uint remaining) = Some (v * uint remaining)"
    by (simp add: checked_mul_i128_def in_i128_def abs_le_iff)
  have le: "\<bar>(v * uint remaining) sdiv uint duration\<bar> \<le> \<bar>v\<bar>" by (rule sdiv_scaled) (use r d in simp_all)
  have eq: "(v * uint duration) sdiv uint duration = v"
    using d assms(3) by (simp add: signed_divide_int_def abs_mult sgn_mult sgn_mult_abs)
  have i: "in_i64 ((v * uint remaining) sdiv uint duration)"
  proof (cases "v = - (2 ^ 63)")
    case True
    then have "v * uint remaining \<le> 0" by (simp add: mult_nonpos_nonneg)
    then have "(v * uint remaining) sdiv uint duration \<le> 0" using d by (rule sdiv_nonpos)
    with le True show ?thesis by (simp add: in_i64_def)
  next
    case False
    then have "\<bar>v\<bar> < 2 ^ 63" using assms(1) by (auto simp: in_i64_def abs_if)
    with le have "\<bar>(v * uint remaining) sdiv uint duration\<bar> < 2 ^ 63" by linarith
    then show ?thesis by (simp add: in_i64_def abs_less_iff)
  qed
  show ?thesis using m le i eq by (auto simp: decay_component_def Let_def)
qed

lemma decayed_offset_value:
  assumes "in_range p" "remaining \<le> duration" "duration \<noteq> 0"
  shows "\<exists>x y z. decayed_offset p remaining duration = Inr (x, y, z) \<and> \<bar>x\<bar> \<le> \<bar>fst p\<bar> \<and> \<bar>y\<bar> \<le> \<bar>fst (snd p)\<bar> \<and>
    \<bar>z\<bar> \<le> \<bar>snd (snd p)\<bar> \<and> in_range (x, y, z) \<and> (remaining = duration \<longrightarrow> (x, y, z) = p)"
proof -
  obtain a b c where p: "p = (a, b, c)" by (metis surj_pair)
  note v = decay_component_value [OF _ assms(2,3)]
  have r: "in_i64 a" "in_i64 b" "in_i64 c" using assms(1) by (simp_all add: p)
  obtain x y z where "decay_component a remaining duration = Inr x" "\<bar>x\<bar> \<le> \<bar>a\<bar>" "in_i64 x" "remaining = duration \<longrightarrow> x = a"
    "decay_component b remaining duration = Inr y" "\<bar>y\<bar> \<le> \<bar>b\<bar>" "in_i64 y" "remaining = duration \<longrightarrow> y = b"
    "decay_component c remaining duration = Inr z" "\<bar>z\<bar> \<le> \<bar>c\<bar>" "in_i64 z" "remaining = duration \<longrightarrow> z = c"
    using v [OF r(1)] v [OF r(2)] v [OF r(3)] by blast
  then show ?thesis by (auto simp: decayed_offset_def p)
qed

text \<open>With a clock that has not gone back a sample never fails; it ends a correction whose time is over.\<close>

lemma sample_offset_value:
  assumes "presenter_inv pt" "\<And>a. pt_active pt = Some a \<Longrightarrow> ac_started_at a \<le> now"
  shows "\<exists>off pt'. sample_offset now pt = (Inr off, pt') \<and> presenter_inv pt' \<and> in_range off \<and>
    (pt' = pt \<or> pt' = pt\<lparr>pt_active := None\<rparr>)"
proof (cases "pt_active pt")
  case None
  then show ?thesis using assms(1) by (simp add: sample_offset_def in_i64_def)
next
  case (Some a)
  have a: "ac_duration_us a \<noteq> 0" "in_range (ac_initial_offset a)" using assms(1) Some by (auto simp: presenter_inv_def)
  have d: "checked_duration_since now (ac_started_at a) = Inr (now - ac_started_at a)"
    using assms(2) [OF Some] by (simp add: checked_duration_since_def checked_sub_def ok_or_def)
  show ?thesis
  proof (cases "ac_duration_us a \<le> now - ac_started_at a")
    case True
    with Some d assms(1) show ?thesis by (simp add: sample_offset_def presenter_inv_def in_i64_def)
  next
    case False
    then have "ac_duration_us a - (now - ac_started_at a) \<le> ac_duration_us a"
      by (simp add: word_le_nat_alt unat_sub_le)
    from decayed_offset_value [OF a(2) this a(1)] False Some d assms(1) show ?thesis
      by (auto simp: sample_offset_def)
  qed
qed

lemma sample_offset_inv: "presenter_inv pt \<Longrightarrow> presenter_inv (snd (sample_offset now pt))"
  by (auto simp: sample_offset_def presenter_inv_def split: option.splits sum.splits)

lemma three_checked_sub:
  assumes "position_delta p q = Inr r"
  shows "in_range r" and "in_range p \<Longrightarrow> add_offset q r = Inr p"
proof -
  obtain px py pz qx qy qz where p: "p = (px, py, pz)" "q = (qx, qy, qz)" by (metis surj_pair)
  from assms p have r: "r = (px - qx, py - qy, pz - qz)" "in_i64 (px - qx)" "in_i64 (py - qy)" "in_i64 (pz - qz)"
    by (auto simp: position_delta_def three_checked_def checked_sub_i64_def split: if_splits)
  then show "in_range r" by simp
  assume "in_range p"
  with r p show "add_offset q r = Inr p"
    by (simp add: add_offset_def three_checked_def checked_add_i64_def)
qed

lemma add_offset_range: "add_offset p q = Inr r \<Longrightarrow> in_range r"
  by (cases p; cases q)
    (auto simp: add_offset_def three_checked_def checked_add_i64_def split: if_splits)

lemma choose_mode_nonzero:
  "presenter_inv pt \<Longrightarrow> choose_mode pt n = (mode, us) \<Longrightarrow> mode = Smooth \<or> mode = Rapid \<Longrightarrow> us \<noteq> 0"
  by (auto simp: choose_mode_def presenter_inv_def split: if_splits)

text \<open>What a successful correction went through.\<close>

lemma reconcile_cases:
  assumes "reconcile old new now pt = (Inr d, pt')"
  obtains off pt1 shown requested distance us where "sample_offset now pt = (Inr off, pt1)" "add_offset old off = Inr shown"
    "position_delta shown new = Inr requested" "magnitude_mm requested = Inr distance"
    "choose_mode pt1 distance = (cd_mode d, us)" "cd_distance_mm d = distance"
    "pt' = (if cd_mode d = Smooth \<or> cd_mode d = Rapid
      then pt1\<lparr>pt_active := Some \<lparr>ac_initial_offset = requested, ac_started_at = now, ac_duration_us = us\<rparr>\<rparr>
      else pt1\<lparr>pt_active := None\<rparr>)"
  using assms unfolding reconcile_def
  by (auto split: prod.splits sum.splits if_splits)

lemma reconcile_inv:
  assumes "presenter_inv pt"
  shows "presenter_inv (snd (reconcile old new now pt))"
proof (cases "reconcile old new now pt")
  case (Pair r pt')
  have s: "presenter_inv (snd (sample_offset now pt))" by (rule sample_offset_inv [OF assms])
  show ?thesis
  proof (cases r)
    case (Inl e)
    with Pair s show ?thesis unfolding reconcile_def by (auto split: prod.splits sum.splits if_splits)
  next
    case (Inr d)
    obtain off pt1 shown requested distance us where c: "sample_offset now pt = (Inr off, pt1)"
      "position_delta shown new = Inr requested" "choose_mode pt1 distance = (cd_mode d, us)"
      "pt' = (if cd_mode d = Smooth \<or> cd_mode d = Rapid
        then pt1\<lparr>pt_active := Some \<lparr>ac_initial_offset = requested, ac_started_at = now, ac_duration_us = us\<rparr>\<rparr>
        else pt1\<lparr>pt_active := None\<rparr>)"
      by (rule reconcile_cases [OF Pair [unfolded Inr]])
    have I: "presenter_inv pt1" using s c(1) by simp
    with c(4) three_checked_sub(1) [OF c(2)] choose_mode_nonzero [OF I c(3)] Pair show ?thesis
      by (auto simp: presenter_inv_def)
  qed
qed

section \<open>Runs\<close>

datatype presenter_op = Reconcile point_mm point_mm u64 | Render point_mm u64

fun presenter_step :: "presenter \<Rightarrow> presenter_op \<Rightarrow> presenter" where
  "presenter_step pt (Reconcile old new now) = snd (reconcile old new now pt)"
| "presenter_step pt (Render p now) = snd (rendered_position p now pt)"

lemma rendered_position_state: "snd (rendered_position p now pt) = snd (sample_offset now pt)"
  by (simp add: rendered_position_def split: prod.split sum.split)

lemma presenter_step_inv: "presenter_inv pt \<Longrightarrow> presenter_inv (presenter_step pt op)"
  by (cases op) (simp_all add: reconcile_inv rendered_position_state sample_offset_inv)

interpretation presenter_machine: invariant_machine presenter_step presenter_inv
  by unfold_locales (rule presenter_step_inv)

lemma to_micros_nonzero: "ms \<noteq> 0 \<Longrightarrow> to_micros ms = Inr us \<Longrightarrow> us \<noteq> 0"
proof -
  assume ms: "ms \<noteq> 0" "to_micros ms = Inr us"
  have lt: "unat ms < 2 ^ 32" using unsigned_less [of ms] by simp
  then have "unat (ucast ms :: u64) = unat ms"
    by (simp add: unsigned_ucast_eq take_bit_nat_eq_self)
  with lt have "unat (ucast ms * 1000 :: u64) = unat ms * 1000"
    by (simp add: unat_word_ariths)
  moreover have "unat ms \<noteq> 0" using ms(1) by (simp add: unat_eq_0)
  moreover have "us = ucast ms * 1000" using ms(2) by (simp add: to_micros_def split: if_splits)
  ultimately show "us \<noteq> 0" by (metis mult_is_0 unat_0 zero_neq_numeral)
qed

lemma presenter_new_inv:
  assumes "correction_validate p = Inr ()" "presenter_new p = Inr pt"
  shows "presenter_inv pt"
  using assms to_micros_nonzero
  by (auto simp: presenter_new_def presenter_inv_def correction_validate_def split: sum.splits if_splits)

section \<open>Properties\<close>


definition sample_correction :: correction_profile where
  "sample_correction = \<lparr>absorb_max_mm = 25, smooth_max_mm = 250, hard_snap_threshold_mm = 1000,
     smooth_duration_ms = 120, rapid_duration_ms = 50\<rparr>"


end
