(* ===== verification/Wire_Elements.thy ===== *)
theory Wire_Elements
  imports Contracts_Frontier
begin

text \<open>
  Messages that end in a counted sequence of elements of one width, as the terrain, environment and water messages
  of crates/contracts do: the loop that reads the elements, the fields of the header, the bytes of an \<open>i32\<close>, and
  the contract of an element reader, from which the loop is shown to invert the encoding.
\<close>

section \<open>Fields\<close>

text \<open>The \<open>decode_u8\<close> to \<open>decode_i64\<close> of a message: \<open>payload.get(start..start + n)\<close>, with the message's own error.\<close>

definition field_bytes :: "(nat \<Rightarrow> nat \<Rightarrow> 'e) \<Rightarrow> nat \<Rightarrow> u8 list \<Rightarrow> nat \<Rightarrow> 'e + u8 list" where
  "field_bytes err n payload start =
     (if start + n \<le> length payload then Inr (slice_bytes start (start + n) payload)
      else Inl (err (start + n) (length payload)))"

definition field_u8 :: "(nat \<Rightarrow> nat \<Rightarrow> 'e) \<Rightarrow> u8 list \<Rightarrow> nat \<Rightarrow> 'e + u8" where
  "field_u8 err payload start =
     (if start < length payload then Inr (payload ! start) else Inl (err (start + 1) (length payload)))"

definition field_u16 :: "(nat \<Rightarrow> nat \<Rightarrow> 'e) \<Rightarrow> u8 list \<Rightarrow> nat \<Rightarrow> 'e + u16" where
  "field_u16 err payload start = map_sum id from_le_bytes (field_bytes err 2 payload start)"

definition field_u32 :: "(nat \<Rightarrow> nat \<Rightarrow> 'e) \<Rightarrow> u8 list \<Rightarrow> nat \<Rightarrow> 'e + u32" where
  "field_u32 err payload start = map_sum id from_le_bytes (field_bytes err 4 payload start)"

definition field_u64 :: "(nat \<Rightarrow> nat \<Rightarrow> 'e) \<Rightarrow> u8 list \<Rightarrow> nat \<Rightarrow> 'e + u64" where
  "field_u64 err payload start = map_sum id from_le_bytes (field_bytes err 8 payload start)"

definition field_i64 :: "(nat \<Rightarrow> nat \<Rightarrow> 'e) \<Rightarrow> u8 list \<Rightarrow> nat \<Rightarrow> 'e + int" where
  "field_i64 err payload start = map_sum id i64_from_le_bytes (field_bytes err 8 payload start)"

text \<open>An \<open>i32\<close> is an integer of its range; its bytes are those of the word with the same value modulo \<open>2 ^ 32\<close>.\<close>

definition in_i32 :: "int \<Rightarrow> bool" where
  "in_i32 x \<longleftrightarrow> - (2 ^ 31) \<le> x \<and> x < 2 ^ 31"

definition i32_le_bytes :: "int \<Rightarrow> u8 list" where
  "i32_le_bytes x = to_le_bytes (word_of_int x :: u32)"

definition i32_from_le_bytes :: "u8 list \<Rightarrow> int" where
  "i32_from_le_bytes bs = sint (from_le_bytes bs :: u32)"

definition field_i32 :: "(nat \<Rightarrow> nat \<Rightarrow> 'e) \<Rightarrow> u8 list \<Rightarrow> nat \<Rightarrow> 'e + int" where
  "field_i32 err payload start = map_sum id i32_from_le_bytes (field_bytes err 4 payload start)"

lemma length_i32_le_bytes [simp]: "length (i32_le_bytes x) = 4"
  by (simp add: i32_le_bytes_def)

lemma i32_from_to_le_bytes [simp]: "in_i32 x \<Longrightarrow> i32_from_le_bytes (i32_le_bytes x) = x"
  by (simp add: i32_from_le_bytes_def i32_le_bytes_def in_i32_def sint_sbintrunc' signed_take_bit_int_eq_self)

lemma i32_to_from_le_bytes: "length bs = 4 \<Longrightarrow> i32_le_bytes (i32_from_le_bytes bs) = bs"
  by (simp add: i32_from_le_bytes_def i32_le_bytes_def to_from_le_bytes)

lemma in_i32_sint [simp]: "in_i32 (sint (w :: u32))"
  using sint_greater_eq [of w] sint_less [of w] by (simp add: in_i32_def)

lemma in_i32_from_le_bytes [simp]: "in_i32 (i32_from_le_bytes bs)"
  by (simp add: i32_from_le_bytes_def)

lemma field_bytes_Inr:
  "field_bytes err n payload start = Inr bs \<longleftrightarrow>
     start + n \<le> length payload \<and> bs = slice_bytes start (start + n) payload"
  by (auto simp: field_bytes_def)

lemma field_u8_Inr: "field_u8 err payload start = Inr b \<longleftrightarrow> start < length payload \<and> b = payload ! start"
  by (auto simp: field_u8_def)

lemmas field_defs = field_u16_def field_u32_def field_u64_def field_i64_def field_i32_def

text \<open>Reading any field: the bytes of its value are the ones at its place.\<close>

lemma fields_Inr:
  "field_u16 err payload start = Inr a \<longleftrightarrow>
     start + 2 \<le> length payload \<and> to_le_bytes a = slice_bytes start (start + 2) payload"
  "field_u32 err payload start = Inr b \<longleftrightarrow>
     start + 4 \<le> length payload \<and> to_le_bytes b = slice_bytes start (start + 4) payload"
  "field_u64 err payload start = Inr c \<longleftrightarrow>
     start + 8 \<le> length payload \<and> to_le_bytes c = slice_bytes start (start + 8) payload"
  "field_i64 err payload start = Inr x \<longleftrightarrow>
     start + 8 \<le> length payload \<and> in_i64 x \<and> i64_le_bytes x = slice_bytes start (start + 8) payload"
  "field_i32 err payload start = Inr y \<longleftrightarrow>
     start + 4 \<le> length payload \<and> in_i32 y \<and> i32_le_bytes y = slice_bytes start (start + 4) payload"
proof -
  have len: "length (slice_bytes start (start + n) payload) = n" if "start + n \<le> length payload" for n
    using that by simp
  show "field_u16 err payload start = Inr a \<longleftrightarrow>
     start + 2 \<le> length payload \<and> to_le_bytes a = slice_bytes start (start + 2) payload"
    by (auto simp: field_defs map_sum_Inr field_bytes_Inr to_from_le_bytes len) (metis bytes_roundtrip(2))
  show "field_u32 err payload start = Inr b \<longleftrightarrow>
     start + 4 \<le> length payload \<and> to_le_bytes b = slice_bytes start (start + 4) payload"
    by (auto simp: field_defs map_sum_Inr field_bytes_Inr to_from_le_bytes len) (metis bytes_roundtrip(3))
  show "field_u64 err payload start = Inr c \<longleftrightarrow>
     start + 8 \<le> length payload \<and> to_le_bytes c = slice_bytes start (start + 8) payload"
    by (auto simp: field_defs map_sum_Inr field_bytes_Inr to_from_le_bytes len) (metis bytes_roundtrip(4))
  show "field_i64 err payload start = Inr x \<longleftrightarrow>
     start + 8 \<le> length payload \<and> in_i64 x \<and> i64_le_bytes x = slice_bytes start (start + 8) payload"
    by (auto simp: field_defs map_sum_Inr field_bytes_Inr i64_to_from_le_bytes len) (metis i64_from_to_le_bytes)
  show "field_i32 err payload start = Inr y \<longleftrightarrow>
     start + 4 \<le> length payload \<and> in_i32 y \<and> i32_le_bytes y = slice_bytes start (start + 4) payload"
    by (auto simp: field_defs map_sum_Inr field_bytes_Inr i32_to_from_le_bytes len) (metis i32_from_to_le_bytes)
qed

section \<open>Sequences of elements\<close>

text \<open>
  The loop \<open>for index in 0..count\<close> that reads one element at \<open>offset\<close> and advances it by the width.
\<close>

fun read_elements ::
  "(u8 list \<Rightarrow> nat \<Rightarrow> nat \<Rightarrow> 'e + 'a) \<Rightarrow> nat \<Rightarrow> u8 list \<Rightarrow> nat \<Rightarrow> nat \<Rightarrow> nat \<Rightarrow> 'e + 'a list" where
  "read_elements reader width payload offset index 0 = Inr []"
| "read_elements reader width payload offset index (Suc n) =
     (case reader payload offset index of
        Inl e \<Rightarrow> Inl e
      | Inr x \<Rightarrow>
          (case read_elements reader width payload (offset + width) (Suc index) n of
             Inl e \<Rightarrow> Inl e
           | Inr xs \<Rightarrow> Inr (x # xs)))"

text \<open>
  What the loop needs of a reader: it inverts the encoding of an element wherever that stands, and an element it
  reads inside the payload is valid and was encoded by those bytes.
\<close>

locale element_reader =
  fixes reader :: "u8 list \<Rightarrow> nat \<Rightarrow> nat \<Rightarrow> 'e + 'a"
    and enc :: "'a \<Rightarrow> u8 list" and valid :: "'a \<Rightarrow> bool" and width :: nat
  assumes length_enc: "length (enc x) = width"
    and read_written: "valid x \<Longrightarrow> reader (pre @ enc x @ post) (length pre) index = Inr x"
    and read_reads: "reader payload offset index = Inr x \<Longrightarrow> offset + width \<le> length payload \<Longrightarrow>
      valid x \<and> enc x = slice_bytes offset (offset + width) payload"
begin

lemma length_concat: "length (concat (map enc xs)) = width * length xs"
  by (induction xs) (simp_all add: length_enc)

lemma read_elements_written:
  assumes "list_all valid xs"
  shows "read_elements reader width (pre @ concat (map enc xs) @ post) (length pre) index (length xs) = Inr xs"
  using assms
proof (induction xs arbitrary: pre index)
  case (Cons x xs)
  have "read_elements reader width ((pre @ enc x) @ concat (map enc xs) @ post) (length (pre @ enc x)) (Suc index)
    (length xs) = Inr xs" using Cons.prems by (intro Cons.IH) simp
  then have "read_elements reader width (pre @ enc x @ concat (map enc xs) @ post) (length pre + width) (Suc index)
    (length xs) = Inr xs" by (simp add: length_enc)
  moreover have "reader (pre @ enc x @ (concat (map enc xs) @ post)) (length pre) index = Inr x"
    using Cons.prems by (intro read_written) simp
  ultimately show ?case by simp
qed simp

lemma read_elements_reads:
  assumes "read_elements reader width payload offset index n = Inr xs" "offset + width * n \<le> length payload"
  shows "length xs = n \<and> list_all valid xs \<and>
    concat (map enc xs) = slice_bytes offset (offset + width * n) payload"
  using assms
proof (induction n arbitrary: offset index xs)
  case 0
  then show ?case by (simp add: slice_bytes_def)
next
  case (Suc n)
  then obtain x ys where x: "reader payload offset index = Inr x"
    and ys: "read_elements reader width payload (offset + width) (Suc index) n = Inr ys" and xs: "xs = x # ys"
    by (auto split: sum.splits)
  have le: "offset + width + width * n \<le> length payload" using Suc.prems(2) by simp
  have "valid x \<and> enc x = slice_bytes offset (offset + width) payload"
    by (rule read_reads [OF x]) (use le in simp)
  with Suc.IH [OF ys le] show ?case by (simp add: xs slice_bytes_append add.assoc)
qed

end

section \<open>Classes of bits\<close>

text \<open>The first element that fails a check, with its index: \<open>for (index, x) in xs.iter().enumerate()\<close>.\<close>

fun check_elements :: "(nat \<Rightarrow> 'a \<Rightarrow> 'e option) \<Rightarrow> nat \<Rightarrow> 'a list \<Rightarrow> 'e + unit" where
  "check_elements failure index [] = Inr ()"
| "check_elements failure index (x # xs) =
     (case failure index x of Some e \<Rightarrow> Inl e | None \<Rightarrow> check_elements failure (Suc index) xs)"

lemma check_elements_Inr:
  assumes "\<And>i x. failure i x = None \<longleftrightarrow> good x"
  shows "check_elements failure index xs = Inr u \<longleftrightarrow> list_all good xs"
proof (induction xs arbitrary: index)
  case (Cons x xs)
  then show ?case using assms [of index x] by (cases "failure index x") simp_all
qed simp

text \<open>The grids the messages describe are squares of 2 to 65 control points a side.\<close>

definition control_side_ok :: "u16 \<Rightarrow> bool" where
  "control_side_ok side \<longleftrightarrow> 2 \<le> side \<and> side \<le> 65"

definition control_points :: "u16 \<Rightarrow> nat" where
  "control_points side = unat side * unat side"

definition control_cells :: "u16 \<Rightarrow> nat" where
  "control_cells side = (let n = unat (saturating_sub side 1) in n * n)"

lemma control_side_bound:
  assumes "control_side_ok side"
  shows "unat side \<le> 65" "control_points side < 2 ^ 16" "control_cells side < 2 ^ 16"
proof -
  show s: "unat side \<le> 65" using assms by (simp add: control_side_ok_def word_le_nat_alt)
  then have "unat side * unat side \<le> 65 * 65" by (rule mult_le_mono) (rule s)
  then show "control_points side < 2 ^ 16" by (simp add: control_points_def)
  have t: "unat (saturating_sub side 1) \<le> 65" using s by (simp add: unat_saturating_sub)
  then have "unat (saturating_sub side 1) * unat (saturating_sub side 1) \<le> 65 * 65" by (rule mult_le_mono) (rule t)
  then show "control_cells side < 2 ^ 16" by (simp add: control_cells_def Let_def)
qed

lemma count_field_exact: "n < 2 ^ 16 \<Longrightarrow> unat (of_nat n :: u16) = n"
  by (simp add: unat_of_nat take_bit_nat_eq_self)

end
