(* ===== verification/Contracts_Terrain.thy ===== *)
theory Contracts_Terrain
  imports Wire_Elements
begin

unbundle bit_operations_syntax

text \<open>
  The terrain messages of crates/contracts: terrain\_authority.rs (heights and cell semantics of a quadrant),
  environment\_presentation.rs (masks of allowed visual families) and water\_surface\_presentation.rs (water samples).
  Each is validated on both ways; its codec is shown canonical.
\<close>

section \<open>Terrain authority\<close>

definition terrain_authority_contract_version :: u16 where
  "terrain_authority_contract_version = 1"

definition terrain_authority_header_bytes :: nat where
  "terrain_authority_header_bytes = 45"

definition cell_walkable :: u8 where "cell_walkable = 1"

definition cell_buildable :: u8 where "cell_buildable = 2"

definition cell_water :: u8 where "cell_water = 4"

definition cell_blocked :: u8 where "cell_blocked = 8"

definition cell_connector_corridor :: u8 where "cell_connector_corridor = 16"

definition cell_known_mask :: u8 where
  "cell_known_mask = cell_walkable OR cell_buildable OR cell_water OR cell_blocked OR cell_connector_corridor"

record terrain_contract =
  tc_version :: u16
  tc_coord :: frontier_quadrant_coord
  tc_quadrant_size_mm :: int
  tc_generator_version :: u32
  tc_recipe_seed :: u64
  tc_control_grid_side :: u16
  tc_biome_id :: u8
  tc_elevation_samples_mm :: "int list"
  tc_cell_flags :: "u8 list"

datatype terrain_contract_error =
  TerrainUnsupportedVersion u16
| TerrainInvalidQuadrantSize int
| TerrainInvalidGeneratorVersion
| TerrainInvalidControlGridSide u16
| ElevationSampleCount nat nat
| CellFlagCount nat nat
| UnknownCellFlags nat u8
| ContradictoryCellFlags nat u8
| InvalidBuildableCell nat u8

definition cell_failure :: "nat \<Rightarrow> u8 \<Rightarrow> terrain_contract_error option" where
  "cell_failure index flags =
     (if flags AND NOT cell_known_mask \<noteq> 0 then Some (UnknownCellFlags index flags)
      else (let walkable = flags AND cell_walkable \<noteq> 0; buildable = flags AND cell_buildable \<noteq> 0;
                water = flags AND cell_water \<noteq> 0; blocked = flags AND cell_blocked \<noteq> 0
            in if walkable \<and> blocked then Some (ContradictoryCellFlags index flags)
               else if buildable \<and> (\<not> walkable \<or> blocked \<or> water) then Some (InvalidBuildableCell index flags)
               else None))"

definition terrain_validate :: "terrain_contract \<Rightarrow> terrain_contract_error + unit" where
  "terrain_validate c =
     (if tc_version c \<noteq> terrain_authority_contract_version then Inl (TerrainUnsupportedVersion (tc_version c))
      else if tc_quadrant_size_mm c \<le> 0 then Inl (TerrainInvalidQuadrantSize (tc_quadrant_size_mm c))
      else if tc_generator_version c = 0 then Inl TerrainInvalidGeneratorVersion
      else if \<not> control_side_ok (tc_control_grid_side c)
      then Inl (TerrainInvalidControlGridSide (tc_control_grid_side c))
      else if length (tc_elevation_samples_mm c) \<noteq> control_points (tc_control_grid_side c)
      then Inl (ElevationSampleCount (control_points (tc_control_grid_side c)) (length (tc_elevation_samples_mm c)))
      else if length (tc_cell_flags c) \<noteq> control_cells (tc_control_grid_side c)
      then Inl (CellFlagCount (control_cells (tc_control_grid_side c)) (length (tc_cell_flags c)))
      else check_elements cell_failure 0 (tc_cell_flags c))"

text \<open>The counts are written \<open>as u16\<close>.\<close>

definition terrain_header :: "terrain_contract \<Rightarrow> u8 list" where
  "terrain_header c =
     to_le_bytes (tc_version c) @ coord_bytes (tc_coord c) @ i64_le_bytes (tc_quadrant_size_mm c)
       @ to_le_bytes (tc_generator_version c) @ to_le_bytes (tc_recipe_seed c)
       @ to_le_bytes (tc_control_grid_side c)
       @ to_le_bytes (of_nat (length (tc_elevation_samples_mm c)) :: u16)
       @ to_le_bytes (of_nat (length (tc_cell_flags c)) :: u16) @ [tc_biome_id c]"

definition terrain_bytes :: "terrain_contract \<Rightarrow> u8 list" where
  "terrain_bytes c =
     terrain_header c @ concat (map i32_le_bytes (tc_elevation_samples_mm c)) @ tc_cell_flags c"

definition terrain_encode :: "terrain_contract \<Rightarrow> terrain_contract_error + u8 list" where
  "terrain_encode c = (case terrain_validate c of Inl e \<Rightarrow> Inl e | Inr _ \<Rightarrow> Inr (terrain_bytes c))"

datatype terrain_codec_error =
  TerrainInvalidContract terrain_contract_error
| TerrainPayloadTooShort nat nat
| TerrainInvalidLength nat nat
| TerrainLengthOverflow
| TerrainCountOverflow string nat

text \<open>The samples are slices of the payload; its length has been compared with the counts before.\<close>

definition read_sample :: "u8 list \<Rightarrow> nat \<Rightarrow> nat \<Rightarrow> terrain_codec_error + int" where
  "read_sample payload offset index = Inr (i32_from_le_bytes (slice_bytes offset (offset + 4) payload))"

definition terrain_decode :: "u8 list \<Rightarrow> terrain_codec_error + terrain_contract" where
  "terrain_decode payload =
     (if length payload < terrain_authority_header_bytes
      then Inl (TerrainPayloadTooShort (length payload) terrain_authority_header_bytes)
      else (let sample_count = unat (from_le_bytes (slice_bytes 40 42 payload) :: u16);
                cell_count = unat (from_le_bytes (slice_bytes 42 44 payload) :: u16);
                expected = terrain_authority_header_bytes + sample_count * 4 + cell_count;
                cells_at = terrain_authority_header_bytes + 4 * sample_count
            in if length payload \<noteq> expected then Inl (TerrainInvalidLength expected (length payload))
               else (case read_elements read_sample 4 payload terrain_authority_header_bytes 0 sample_count of
                       Inl e \<Rightarrow> Inl e
                     | Inr samples \<Rightarrow>
                         (let c = \<lparr>tc_version = from_le_bytes (slice_bytes 0 2 payload),
                              tc_coord = FrontierQuadrantCoord (i64_from_le_bytes (slice_bytes 2 10 payload))
                                (i64_from_le_bytes (slice_bytes 10 18 payload)),
                              tc_quadrant_size_mm = i64_from_le_bytes (slice_bytes 18 26 payload),
                              tc_generator_version = from_le_bytes (slice_bytes 26 30 payload),
                              tc_recipe_seed = from_le_bytes (slice_bytes 30 38 payload),
                              tc_control_grid_side = from_le_bytes (slice_bytes 38 40 payload),
                              tc_biome_id = payload ! 44, tc_elevation_samples_mm = samples,
                              tc_cell_flags = slice_bytes cells_at (cells_at + cell_count) payload\<rparr>
                          in case terrain_validate c of
                               Inl e \<Rightarrow> Inl (TerrainInvalidContract e)
                             | Inr _ \<Rightarrow> Inr c))))"

subsection \<open>Its codec\<close>

text \<open>What the flags of a valid cell say.\<close>

definition cell_ok :: "u8 \<Rightarrow> bool" where
  "cell_ok flags \<longleftrightarrow> flags AND NOT cell_known_mask = 0 \<and>
     \<not> (flags AND cell_walkable \<noteq> 0 \<and> flags AND cell_blocked \<noteq> 0) \<and>
     (flags AND cell_buildable \<noteq> 0 \<longrightarrow>
        flags AND cell_walkable \<noteq> 0 \<and> flags AND cell_blocked = 0 \<and> flags AND cell_water = 0)"

lemma cell_failure_None: "cell_failure index flags = None \<longleftrightarrow> cell_ok flags"
  by (auto simp: cell_failure_def cell_ok_def Let_def)

lemma terrain_validate_Inr:
  "terrain_validate c = Inr u \<longleftrightarrow>
     tc_version c = terrain_authority_contract_version \<and> 0 < tc_quadrant_size_mm c \<and> tc_generator_version c \<noteq> 0 \<and>
     control_side_ok (tc_control_grid_side c) \<and>
     length (tc_elevation_samples_mm c) = control_points (tc_control_grid_side c) \<and>
     length (tc_cell_flags c) = control_cells (tc_control_grid_side c) \<and> list_all cell_ok (tc_cell_flags c)"
  by (auto simp: terrain_validate_def check_elements_Inr [OF cell_failure_None])

definition terrain_valid :: "terrain_contract \<Rightarrow> bool" where
  "terrain_valid c \<longleftrightarrow> terrain_validate c = Inr () \<and> in_i64 (tc_quadrant_size_mm c) \<and> coord_fits (tc_coord c) \<and>
     list_all in_i32 (tc_elevation_samples_mm c)"

interpretation samples: element_reader read_sample i32_le_bytes in_i32 4
  by unfold_locales (auto simp: read_sample_def i32_to_from_le_bytes)

lemma length_terrain_header [simp]: "length (terrain_header c) = 45"
  by (simp add: terrain_header_def)

lemma terrain_decode_written:
  assumes "terrain_valid c"
  shows "terrain_decode (terrain_bytes c) = Inr c"
proof -
  let ?n = "length (tc_elevation_samples_mm c)" and ?k = "length (tc_cell_flags c)"
  have v: "terrain_validate c = Inr ()" using assms by (simp add: terrain_valid_def)
  then have s: "control_side_ok (tc_control_grid_side c)" "?n = control_points (tc_control_grid_side c)"
    "?k = control_cells (tc_control_grid_side c)" by (simp_all add: terrain_validate_Inr)
  then have n: "unat (of_nat ?n :: u16) = ?n" "unat (of_nat ?k :: u16) = ?k"
    using control_side_bound [OF s(1)] by (simp_all only: count_field_exact)
  have "read_elements read_sample 4 (terrain_header c @ concat (map i32_le_bytes (tc_elevation_samples_mm c))
      @ tc_cell_flags c) (length (terrain_header c)) 0 ?n = Inr (tc_elevation_samples_mm c)"
    using assms by (intro samples.read_elements_written) (simp add: terrain_valid_def)
  then have r: "read_elements read_sample 4 (terrain_bytes c) 45 0 ?n = Inr (tc_elevation_samples_mm c)"
    by (simp add: terrain_bytes_def)
  have h: "slice_bytes 40 42 (terrain_bytes c) = to_le_bytes (of_nat ?n :: u16)"
    "slice_bytes 42 44 (terrain_bytes c) = to_le_bytes (of_nat ?k :: u16)"
    by (simp_all add: terrain_bytes_def terrain_header_def)
  have len: "length (terrain_bytes c) = 45 + 4 * ?n + ?k"
    by (simp add: terrain_bytes_def samples.length_concat)
  have cells: "slice_bytes (45 + 4 * ?n) (45 + 4 * ?n + ?k) (terrain_bytes c) = tc_cell_flags c"
    by (simp add: terrain_bytes_def samples.length_concat)
  have f: "from_le_bytes (slice_bytes 0 2 (terrain_bytes c)) = tc_version c"
    "FrontierQuadrantCoord (i64_from_le_bytes (slice_bytes 2 10 (terrain_bytes c)))
       (i64_from_le_bytes (slice_bytes 10 18 (terrain_bytes c))) = tc_coord c"
    "i64_from_le_bytes (slice_bytes 18 26 (terrain_bytes c)) = tc_quadrant_size_mm c"
    "from_le_bytes (slice_bytes 26 30 (terrain_bytes c)) = tc_generator_version c"
    "from_le_bytes (slice_bytes 30 38 (terrain_bytes c)) = tc_recipe_seed c"
    "from_le_bytes (slice_bytes 38 40 (terrain_bytes c)) = tc_control_grid_side c"
    "terrain_bytes c ! 44 = tc_biome_id c"
    using assms
    by (simp_all add: terrain_bytes_def terrain_header_def coord_bytes_def terrain_valid_def coord_fits_def nth_append)
  have eta: "\<lparr>tc_version = tc_version c, tc_coord = tc_coord c, tc_quadrant_size_mm = tc_quadrant_size_mm c,
    tc_generator_version = tc_generator_version c, tc_recipe_seed = tc_recipe_seed c,
    tc_control_grid_side = tc_control_grid_side c, tc_biome_id = tc_biome_id c,
    tc_elevation_samples_mm = tc_elevation_samples_mm c, tc_cell_flags = tc_cell_flags c\<rparr> = c"
    by (cases c) simp
  show ?thesis
    by (simp add: terrain_decode_def terrain_authority_header_bytes_def h n len r cells f eta v)
qed

lemma terrain_decode_reads:
  assumes "terrain_decode bs = Inr c"
  shows "terrain_valid c \<and> terrain_bytes c = bs"
proof -
  define n where "n = unat (from_le_bytes (slice_bytes 40 42 bs) :: u16)"
  define k where "k = unat (from_le_bytes (slice_bytes 42 44 bs) :: u16)"
  obtain xs where len: "length bs = 45 + 4 * n + k"
    and xs: "read_elements read_sample 4 bs 45 0 n = Inr xs"
    and c: "c = \<lparr>tc_version = from_le_bytes (slice_bytes 0 2 bs),
      tc_coord = FrontierQuadrantCoord (i64_from_le_bytes (slice_bytes 2 10 bs)) (i64_from_le_bytes (slice_bytes 10 18 bs)),
      tc_quadrant_size_mm = i64_from_le_bytes (slice_bytes 18 26 bs),
      tc_generator_version = from_le_bytes (slice_bytes 26 30 bs), tc_recipe_seed = from_le_bytes (slice_bytes 30 38 bs),
      tc_control_grid_side = from_le_bytes (slice_bytes 38 40 bs), tc_biome_id = bs ! 44, tc_elevation_samples_mm = xs,
      tc_cell_flags = slice_bytes (45 + 4 * n) (45 + 4 * n + k) bs\<rparr>"
    and v: "terrain_validate c = Inr ()"
    using assms
    by (auto simp: terrain_decode_def terrain_authority_header_bytes_def Let_def n_def [symmetric] k_def [symmetric]
        split: if_splits sum.splits)
  have e: "length xs = n" "list_all in_i32 xs" "concat (map i32_le_bytes xs) = slice_bytes 45 (45 + 4 * n) bs"
    using samples.read_elements_reads [OF xs] len by simp_all
  have counts: "to_le_bytes (of_nat n :: u16) = slice_bytes 40 42 bs" "to_le_bytes (of_nat k :: u16) = slice_bytes 42 44 bs"
    using len by (simp_all add: n_def k_def to_from_le_bytes)
  have "terrain_bytes c = slice_bytes 0 2 bs @ slice_bytes 2 10 bs @ slice_bytes 10 18 bs @ slice_bytes 18 26 bs
    @ slice_bytes 26 30 bs @ slice_bytes 30 38 bs @ slice_bytes 38 40 bs @ slice_bytes 40 42 bs @ slice_bytes 42 44 bs
    @ [bs ! 44] @ slice_bytes 45 (45 + 4 * n) bs @ slice_bytes (45 + 4 * n) (45 + 4 * n + k) bs"
    using len counts e(1,3) by (simp add: terrain_bytes_def terrain_header_def c coord_bytes_def to_from_le_bytes
        i64_to_from_le_bytes)
  also have "\<dots> = bs" using len by (simp add: slice_joins)
  finally have "terrain_bytes c = bs" .
  with v e(2) show ?thesis by (simp add: terrain_valid_def c coord_fits_def)
qed

interpretation terrain_codec: canonical_codec terrain_bytes terrain_decode terrain_valid
  by unfold_locales (use terrain_decode_written terrain_decode_reads in blast)+


lemma terrain_encode_Inr: "terrain_encode c = Inr bs \<longleftrightarrow> terrain_validate c = Inr () \<and> bs = terrain_bytes c"
  by (auto simp: terrain_encode_def split: sum.splits)

section \<open>Environment presentation\<close>

definition environment_policy_version :: u16 where
  "environment_policy_version = 1"

definition environment_header_bytes :: nat where
  "environment_header_bytes = 38"

definition family_ground_cover :: u16 where "family_ground_cover = 1"

definition family_small_plant :: u16 where "family_small_plant = 2"

definition family_shrub :: u16 where "family_shrub = 4"

definition family_tree :: u16 where "family_tree = 8"

definition family_rock :: u16 where "family_rock = 16"

definition family_known_mask :: u16 where
  "family_known_mask = family_ground_cover OR family_small_plant OR family_shrub OR family_tree OR family_rock"

record environment_policy =
  ep_version :: u16
  ep_coord :: frontier_quadrant_coord
  ep_terrain_generator_version :: u32
  ep_policy_generator_version :: u32
  ep_policy_seed :: u64
  ep_control_grid_side :: u16
  ep_cell_family_masks :: "u16 list"

datatype environment_policy_error =
  EnvironmentUnsupportedVersion u16
| EnvironmentInvalidTerrainGeneratorVersion
| EnvironmentInvalidPolicyGeneratorVersion
| EnvironmentInvalidControlGridSide u16
| CellFamilyMaskCount nat nat
| UnknownFamilyBits nat u16

definition mask_failure :: "nat \<Rightarrow> u16 \<Rightarrow> environment_policy_error option" where
  "mask_failure index fam =
     (if fam AND NOT family_known_mask \<noteq> 0 then Some (UnknownFamilyBits index fam) else None)"

definition environment_validate :: "environment_policy \<Rightarrow> environment_policy_error + unit" where
  "environment_validate p =
     (if ep_version p \<noteq> environment_policy_version then Inl (EnvironmentUnsupportedVersion (ep_version p))
      else if ep_terrain_generator_version p = 0 then Inl EnvironmentInvalidTerrainGeneratorVersion
      else if ep_policy_generator_version p = 0 then Inl EnvironmentInvalidPolicyGeneratorVersion
      else if \<not> control_side_ok (ep_control_grid_side p)
      then Inl (EnvironmentInvalidControlGridSide (ep_control_grid_side p))
      else if length (ep_cell_family_masks p) \<noteq> control_cells (ep_control_grid_side p)
      then Inl (CellFamilyMaskCount (control_cells (ep_control_grid_side p)) (length (ep_cell_family_masks p)))
      else check_elements mask_failure 0 (ep_cell_family_masks p))"

datatype environment_codec_error =
  EnvironmentInvalidPolicy environment_policy_error
| EnvironmentPayloadTooShort nat nat
| EnvironmentInvalidLength nat nat
| EnvironmentLengthOverflow
| EnvironmentCountOverflow string nat

definition environment_payload_len :: "u16 \<Rightarrow> environment_codec_error + nat" where
  "environment_payload_len n =
     (if unat n * 2 < 2 ^ 64 \<and> environment_header_bytes + unat n * 2 < 2 ^ 64
      then Inr (environment_header_bytes + unat n * 2)
      else Inl EnvironmentLengthOverflow)"

definition environment_header :: "environment_policy \<Rightarrow> u8 list" where
  "environment_header p =
     to_le_bytes (ep_version p) @ coord_bytes (ep_coord p) @ to_le_bytes (ep_terrain_generator_version p)
       @ to_le_bytes (ep_policy_generator_version p) @ to_le_bytes (ep_policy_seed p)
       @ to_le_bytes (ep_control_grid_side p) @ to_le_bytes (of_nat (length (ep_cell_family_masks p)) :: u16)"

definition environment_bytes :: "environment_policy \<Rightarrow> u8 list" where
  "environment_bytes p = environment_header p @ concat (map to_le_bytes (ep_cell_family_masks p))"

definition environment_encode :: "environment_policy \<Rightarrow> environment_codec_error + u8 list" where
  "environment_encode p =
     (case environment_validate p of
        Inl e \<Rightarrow> Inl (EnvironmentInvalidPolicy e)
      | Inr _ \<Rightarrow>
          if 2 ^ 16 \<le> length (ep_cell_family_masks p)
          then Inl (EnvironmentCountOverflow ''cell_family_masks'' (length (ep_cell_family_masks p)))
          else (case environment_payload_len (of_nat (length (ep_cell_family_masks p))) of
                  Inl e \<Rightarrow> Inl e
                | Inr _ \<Rightarrow> Inr (environment_bytes p)))"

definition read_mask :: "u8 list \<Rightarrow> nat \<Rightarrow> nat \<Rightarrow> environment_codec_error + u16" where
  "read_mask payload offset index = field_u16 EnvironmentInvalidLength payload offset"

definition environment_decode :: "u8 list \<Rightarrow> environment_codec_error + environment_policy" where
  "environment_decode payload =
     (if length payload < environment_header_bytes
      then Inl (EnvironmentPayloadTooShort (length payload) environment_header_bytes)
      else
        (case field_u16 EnvironmentInvalidLength payload 36 of Inl e \<Rightarrow> Inl e | Inr cell_count \<Rightarrow>
         (case environment_payload_len cell_count of Inl e \<Rightarrow> Inl e | Inr expected_len \<Rightarrow>
          if length payload \<noteq> expected_len then Inl (EnvironmentInvalidLength expected_len (length payload))
          else
            (case read_elements read_mask 2 payload environment_header_bytes 0 (unat cell_count) of
               Inl e \<Rightarrow> Inl e | Inr masks \<Rightarrow>
            (case field_u16 EnvironmentInvalidLength payload 0 of Inl e \<Rightarrow> Inl e | Inr version \<Rightarrow>
            (case field_i64 EnvironmentInvalidLength payload 2 of Inl e \<Rightarrow> Inl e | Inr x \<Rightarrow>
            (case field_i64 EnvironmentInvalidLength payload 10 of Inl e \<Rightarrow> Inl e | Inr y \<Rightarrow>
            (case field_u32 EnvironmentInvalidLength payload 18 of Inl e \<Rightarrow> Inl e | Inr terrain_gen \<Rightarrow>
            (case field_u32 EnvironmentInvalidLength payload 22 of Inl e \<Rightarrow> Inl e | Inr policy_gen \<Rightarrow>
            (case field_u64 EnvironmentInvalidLength payload 26 of Inl e \<Rightarrow> Inl e | Inr seed \<Rightarrow>
            (case field_u16 EnvironmentInvalidLength payload 34 of Inl e \<Rightarrow> Inl e | Inr side \<Rightarrow>
              (let p = \<lparr>ep_version = version, ep_coord = FrontierQuadrantCoord x y,
                   ep_terrain_generator_version = terrain_gen, ep_policy_generator_version = policy_gen,
                   ep_policy_seed = seed, ep_control_grid_side = side, ep_cell_family_masks = masks\<rparr>
               in case environment_validate p of
                    Inl e \<Rightarrow> Inl (EnvironmentInvalidPolicy e)
                  | Inr _ \<Rightarrow> Inr p))))))))))))"

subsection \<open>Its codec\<close>

lemma mask_failure_None: "mask_failure index fam = None \<longleftrightarrow> fam AND NOT family_known_mask = 0"
  by (simp add: mask_failure_def)

lemma environment_validate_Inr:
  "environment_validate p = Inr u \<longleftrightarrow>
     ep_version p = environment_policy_version \<and> ep_terrain_generator_version p \<noteq> 0 \<and>
     ep_policy_generator_version p \<noteq> 0 \<and> control_side_ok (ep_control_grid_side p) \<and>
     length (ep_cell_family_masks p) = control_cells (ep_control_grid_side p) \<and>
     list_all (\<lambda>fam. fam AND NOT family_known_mask = 0) (ep_cell_family_masks p)"
  by (auto simp: environment_validate_def check_elements_Inr [OF mask_failure_None])

definition environment_valid :: "environment_policy \<Rightarrow> bool" where
  "environment_valid p \<longleftrightarrow> environment_validate p = Inr () \<and> coord_fits (ep_coord p)"

interpretation masks: element_reader read_mask to_le_bytes "\<lambda>_. True" 2
  by unfold_locales (auto simp: read_mask_def field_u16_def field_bytes_def map_sum_Inr to_from_le_bytes split: if_splits)

lemma length_environment_header [simp]: "length (environment_header p) = 38"
  by (simp add: environment_header_def)

lemma environment_payload_len_exact: "environment_payload_len n = Inr (38 + unat n * 2)"
  using unsigned_less [of n, where ?'a = nat]
  by (simp add: environment_payload_len_def environment_header_bytes_def)

lemma environment_decode_written:
  assumes "environment_valid p"
  shows "environment_decode (environment_bytes p) = Inr p"
proof -
  let ?n = "length (ep_cell_family_masks p)"
  have v: "environment_validate p = Inr ()" using assms by (simp add: environment_valid_def)
  then have n: "unat (of_nat ?n :: u16) = ?n"
    using control_side_bound [of "ep_control_grid_side p"] by (simp add: environment_validate_Inr count_field_exact)
  have "read_elements read_mask 2 (environment_header p @ concat (map to_le_bytes (ep_cell_family_masks p)) @ [])
      (length (environment_header p)) 0 ?n = Inr (ep_cell_family_masks p)"
    by (intro masks.read_elements_written) (simp add: list_all_iff)
  then have r: "read_elements read_mask 2 (environment_bytes p) 38 0 ?n = Inr (ep_cell_family_masks p)"
    by (simp add: environment_bytes_def)
  have len: "length (environment_bytes p) = 38 + 2 * ?n"
    by (simp add: environment_bytes_def masks.length_concat)
  obtain x y where xy: "ep_coord p = FrontierQuadrantCoord x y" by (cases "ep_coord p")
  have f: "field_u16 EnvironmentInvalidLength (environment_bytes p) 36 = Inr (of_nat ?n)"
    "field_u16 EnvironmentInvalidLength (environment_bytes p) 0 = Inr (ep_version p)"
    "field_i64 EnvironmentInvalidLength (environment_bytes p) 2 = Inr x"
    "field_i64 EnvironmentInvalidLength (environment_bytes p) 10 = Inr y"
    "field_u32 EnvironmentInvalidLength (environment_bytes p) 18 = Inr (ep_terrain_generator_version p)"
    "field_u32 EnvironmentInvalidLength (environment_bytes p) 22 = Inr (ep_policy_generator_version p)"
    "field_u64 EnvironmentInvalidLength (environment_bytes p) 26 = Inr (ep_policy_seed p)"
    "field_u16 EnvironmentInvalidLength (environment_bytes p) 34 = Inr (ep_control_grid_side p)"
    using assms by (simp_all add: fields_Inr len environment_valid_def coord_fits_def xy)
      (simp_all add: environment_bytes_def environment_header_def coord_bytes_def xy)
  have eta: "\<lparr>ep_version = ep_version p, ep_coord = FrontierQuadrantCoord x y,
     ep_terrain_generator_version = ep_terrain_generator_version p,
     ep_policy_generator_version = ep_policy_generator_version p, ep_policy_seed = ep_policy_seed p,
     ep_control_grid_side = ep_control_grid_side p, ep_cell_family_masks = ep_cell_family_masks p\<rparr> = p"
    by (cases p) (use xy in simp)
  show ?thesis
    by (simp add: environment_decode_def environment_header_bytes_def len f environment_payload_len_exact n r eta v)
qed

lemma environment_decode_reads:
  assumes "environment_decode bs = Inr p"
  shows "environment_valid p \<and> environment_bytes p = bs"
proof -
  obtain n x y where n: "field_u16 EnvironmentInvalidLength bs 36 = Inr n" and len: "length bs = 38 + unat n * 2"
    and r: "read_elements read_mask 2 bs 38 0 (unat n) = Inr (ep_cell_family_masks p)"
    and f: "field_u16 EnvironmentInvalidLength bs 0 = Inr (ep_version p)"
      "field_i64 EnvironmentInvalidLength bs 2 = Inr x" "field_i64 EnvironmentInvalidLength bs 10 = Inr y"
      "field_u32 EnvironmentInvalidLength bs 18 = Inr (ep_terrain_generator_version p)"
      "field_u32 EnvironmentInvalidLength bs 22 = Inr (ep_policy_generator_version p)"
      "field_u64 EnvironmentInvalidLength bs 26 = Inr (ep_policy_seed p)"
      "field_u16 EnvironmentInvalidLength bs 34 = Inr (ep_control_grid_side p)"
    and c: "ep_coord p = FrontierQuadrantCoord x y" and v: "environment_validate p = Inr ()"
    using assms
    by (auto simp: environment_decode_def environment_header_bytes_def environment_payload_len_exact Let_def
        split: if_splits sum.splits)
  have e: "length (ep_cell_family_masks p) = unat n"
    "concat (map to_le_bytes (ep_cell_family_masks p)) = slice_bytes 38 (38 + 2 * unat n) bs"
    using masks.read_elements_reads [OF r] len by simp_all
  have "environment_bytes p = slice_bytes 0 2 bs @ slice_bytes 2 10 bs @ slice_bytes 10 18 bs @ slice_bytes 18 22 bs
    @ slice_bytes 22 26 bs @ slice_bytes 26 34 bs @ slice_bytes 34 36 bs @ slice_bytes 36 38 bs
    @ slice_bytes 38 (38 + 2 * unat n) bs"
    using f n by (simp add: environment_bytes_def environment_header_def coord_bytes_def c e fields_Inr del: add_2_eq_Suc add_2_eq_Suc')
  also have "\<dots> = bs" using len by (simp add: slice_joins)
  finally have "environment_bytes p = bs" .
  moreover have "coord_fits (ep_coord p)" using f by (simp add: coord_fits_def c fields_Inr)
  ultimately show ?thesis using v by (simp add: environment_valid_def)
qed

interpretation environment_codec: canonical_codec environment_bytes environment_decode environment_valid
  by unfold_locales (use environment_decode_written environment_decode_reads in blast)+

lemma environment_encode_Inr:
  "environment_encode p = Inr bs \<longleftrightarrow> environment_validate p = Inr () \<and> bs = environment_bytes p"
proof (cases "environment_validate p")
  case (Inr u)
  then have "length (ep_cell_family_masks p) < 2 ^ 16"
    using control_side_bound [of "ep_control_grid_side p"] environment_validate_Inr [of p u] by simp
  with Inr show ?thesis by (auto simp: environment_encode_def environment_payload_len_exact)
qed (simp add: environment_encode_def)

section \<open>Properties\<close>

text \<open>
  C23: the terrain message on the wire is canonical: the decoder accepts exactly the encodings of valid contracts, so
  never one with contradictory cell flags, with counts that are not those of its grid or with trailing bytes.
\<close>

theorem terrain_wire_canonical:
  "terrain_decode bs = Inr c \<longleftrightarrow> terrain_valid c \<and> terrain_encode c = Inr bs"
  using terrain_codec.accepted_iff [of bs c] terrain_encode_Inr [of c bs] by (auto simp: terrain_valid_def)

text \<open>The environment message on the wire is canonical: the decoder accepts exactly the encodings of valid policies.\<close>

theorem environment_wire_canonical:
  "environment_decode bs = Inr p \<longleftrightarrow> environment_valid p \<and> environment_encode p = Inr bs"
  using environment_codec.accepted_iff [of bs p] environment_encode_Inr [of p bs] by (auto simp: environment_valid_def)

end
