(* ===== verification/Contracts_Water.thy ===== *)
theory Contracts_Water
  imports Wire_Elements
begin

text \<open>
  The water message of crates/contracts/src/water\_surface\_presentation.rs: one sample per control point of a
  quadrant, with its kind, surface and flow hints. A dry sample has one form only and a lake no flow.
\<close>

section \<open>Definitions\<close>

definition water_presentation_version :: u16 where
  "water_presentation_version = 1"

definition water_header_bytes :: nat where
  "water_header_bytes = 30"

definition water_sample_bytes :: nat where
  "water_sample_bytes = 8"

datatype water_kind = WaterDry | WaterLake | WaterRiver

fun water_kind_code :: "water_kind \<Rightarrow> u8" where
  "water_kind_code WaterDry = 0"
| "water_kind_code WaterLake = 1"
| "water_kind_code WaterRiver = 2"

definition water_kind_try_from :: "u8 \<Rightarrow> u8 + water_kind" where
  "water_kind_try_from v =
     (if v = 0 then Inr WaterDry else if v = 1 then Inr WaterLake else if v = 2 then Inr WaterRiver else Inl v)"

text \<open>The flow hints are \<open>i8\<close>, kept as their eight bits; only their zero and their casts to \<open>u8\<close> are used.\<close>

record water_sample =
  ws_kind :: water_kind
  ws_flow_hint_x :: u8
  ws_flow_hint_y :: u8
  ws_water_surface_mm :: int

definition water_dry :: water_sample where
  "water_dry = \<lparr>ws_kind = WaterDry, ws_flow_hint_x = 0, ws_flow_hint_y = 0, ws_water_surface_mm = 0\<rparr>"

definition water_lake :: "int \<Rightarrow> water_sample" where
  "water_lake surface =
     \<lparr>ws_kind = WaterLake, ws_flow_hint_x = 0, ws_flow_hint_y = 0, ws_water_surface_mm = surface\<rparr>"

definition water_river :: "int \<Rightarrow> u8 \<Rightarrow> u8 \<Rightarrow> water_sample" where
  "water_river surface fx fy =
     \<lparr>ws_kind = WaterRiver, ws_flow_hint_x = fx, ws_flow_hint_y = fy, ws_water_surface_mm = surface\<rparr>"

definition is_wet :: "water_sample \<Rightarrow> bool" where
  "is_wet s \<longleftrightarrow> ws_kind s \<noteq> WaterDry"

record water_presentation =
  wp_version :: u16
  wp_coord :: frontier_quadrant_coord
  wp_terrain_generator_version :: u32
  wp_hydrology_generator_version :: u32
  wp_control_grid_side :: u16
  wp_samples :: "water_sample list"

datatype water_presentation_error =
  WaterUnsupportedVersion u16
| WaterInvalidTerrainGeneratorVersion
| WaterInvalidHydrologyGeneratorVersion
| WaterInvalidControlGridSide u16
| WaterSampleCount nat nat
| NonCanonicalDrySample nat
| LakeHasFlow nat

definition sample_failure :: "nat \<Rightarrow> water_sample \<Rightarrow> water_presentation_error option" where
  "sample_failure index s =
     (case ws_kind s of
        WaterDry \<Rightarrow>
          if ws_water_surface_mm s \<noteq> 0 \<or> ws_flow_hint_x s \<noteq> 0 \<or> ws_flow_hint_y s \<noteq> 0
          then Some (NonCanonicalDrySample index) else None
      | WaterLake \<Rightarrow>
          if ws_flow_hint_x s \<noteq> 0 \<or> ws_flow_hint_y s \<noteq> 0 then Some (LakeHasFlow index) else None
      | WaterRiver \<Rightarrow> None)"

definition water_validate :: "water_presentation \<Rightarrow> water_presentation_error + unit" where
  "water_validate p =
     (if wp_version p \<noteq> water_presentation_version then Inl (WaterUnsupportedVersion (wp_version p))
      else if wp_terrain_generator_version p = 0 then Inl WaterInvalidTerrainGeneratorVersion
      else if wp_hydrology_generator_version p = 0 then Inl WaterInvalidHydrologyGeneratorVersion
      else if \<not> control_side_ok (wp_control_grid_side p) then Inl (WaterInvalidControlGridSide (wp_control_grid_side p))
      else if length (wp_samples p) \<noteq> control_points (wp_control_grid_side p)
      then Inl (WaterSampleCount (control_points (wp_control_grid_side p)) (length (wp_samples p)))
      else check_elements sample_failure 0 (wp_samples p))"

datatype water_codec_error =
  WaterInvalidPresentation water_presentation_error
| WaterPayloadTooShort nat nat
| WaterInvalidLength nat nat
| WaterLengthOverflow
| WaterCountOverflow string nat
| UnknownSampleKind nat u8
| NonZeroReservedByte nat u8

definition water_payload_len :: "u16 \<Rightarrow> water_codec_error + nat" where
  "water_payload_len n =
     (if unat n * water_sample_bytes < 2 ^ 64 \<and> water_header_bytes + unat n * water_sample_bytes < 2 ^ 64
      then Inr (water_header_bytes + unat n * water_sample_bytes)
      else Inl WaterLengthOverflow)"

definition sample_bytes :: "water_sample \<Rightarrow> u8 list" where
  "sample_bytes s =
     [water_kind_code (ws_kind s), ws_flow_hint_x s, ws_flow_hint_y s, 0] @ i32_le_bytes (ws_water_surface_mm s)"

definition water_header :: "water_presentation \<Rightarrow> u8 list" where
  "water_header p =
     to_le_bytes (wp_version p) @ coord_bytes (wp_coord p) @ to_le_bytes (wp_terrain_generator_version p)
       @ to_le_bytes (wp_hydrology_generator_version p) @ to_le_bytes (wp_control_grid_side p)
       @ to_le_bytes (of_nat (length (wp_samples p)) :: u16)"

definition water_bytes :: "water_presentation \<Rightarrow> u8 list" where
  "water_bytes p = water_header p @ concat (map sample_bytes (wp_samples p))"

definition water_encode :: "water_presentation \<Rightarrow> water_codec_error + u8 list" where
  "water_encode p =
     (case water_validate p of
        Inl e \<Rightarrow> Inl (WaterInvalidPresentation e)
      | Inr _ \<Rightarrow>
          if 2 ^ 16 \<le> length (wp_samples p) then Inl (WaterCountOverflow ''samples'' (length (wp_samples p)))
          else (case water_payload_len (of_nat (length (wp_samples p))) of
                  Inl e \<Rightarrow> Inl e
                | Inr _ \<Rightarrow> Inr (water_bytes p)))"

definition read_water_sample :: "u8 list \<Rightarrow> nat \<Rightarrow> nat \<Rightarrow> water_codec_error + water_sample" where
  "read_water_sample payload offset index =
     (case field_u8 WaterInvalidLength payload offset of Inl e \<Rightarrow> Inl e | Inr kind_raw \<Rightarrow>
      (case water_kind_try_from kind_raw of Inl v \<Rightarrow> Inl (UnknownSampleKind index v) | Inr kind \<Rightarrow>
      (case field_u8 WaterInvalidLength payload (offset + 1) of Inl e \<Rightarrow> Inl e | Inr fx \<Rightarrow>
      (case field_u8 WaterInvalidLength payload (offset + 2) of Inl e \<Rightarrow> Inl e | Inr fy \<Rightarrow>
      (case field_u8 WaterInvalidLength payload (offset + 3) of Inl e \<Rightarrow> Inl e | Inr reserved \<Rightarrow>
       if reserved \<noteq> 0 then Inl (NonZeroReservedByte index reserved)
       else
      (case field_i32 WaterInvalidLength payload (offset + 4) of Inl e \<Rightarrow> Inl e | Inr surface \<Rightarrow>
         Inr \<lparr>ws_kind = kind, ws_flow_hint_x = fx, ws_flow_hint_y = fy, ws_water_surface_mm = surface\<rparr>))))))"

definition water_decode :: "u8 list \<Rightarrow> water_codec_error + water_presentation" where
  "water_decode payload =
     (if length payload < water_header_bytes
      then Inl (WaterPayloadTooShort (length payload) water_header_bytes)
      else
        (case field_u16 WaterInvalidLength payload 28 of Inl e \<Rightarrow> Inl e | Inr sample_count \<Rightarrow>
         (case water_payload_len sample_count of Inl e \<Rightarrow> Inl e | Inr expected_len \<Rightarrow>
          if length payload \<noteq> expected_len then Inl (WaterInvalidLength expected_len (length payload))
          else
            (case read_elements read_water_sample water_sample_bytes payload water_header_bytes 0
                    (unat sample_count) of
               Inl e \<Rightarrow> Inl e | Inr samples \<Rightarrow>
            (case field_u16 WaterInvalidLength payload 0 of Inl e \<Rightarrow> Inl e | Inr version \<Rightarrow>
            (case field_i64 WaterInvalidLength payload 2 of Inl e \<Rightarrow> Inl e | Inr x \<Rightarrow>
            (case field_i64 WaterInvalidLength payload 10 of Inl e \<Rightarrow> Inl e | Inr y \<Rightarrow>
            (case field_u32 WaterInvalidLength payload 18 of Inl e \<Rightarrow> Inl e | Inr terrain_gen \<Rightarrow>
            (case field_u32 WaterInvalidLength payload 22 of Inl e \<Rightarrow> Inl e | Inr hydrology_gen \<Rightarrow>
            (case field_u16 WaterInvalidLength payload 26 of Inl e \<Rightarrow> Inl e | Inr side \<Rightarrow>
              (let p = \<lparr>wp_version = version, wp_coord = FrontierQuadrantCoord x y,
                   wp_terrain_generator_version = terrain_gen, wp_hydrology_generator_version = hydrology_gen,
                   wp_control_grid_side = side, wp_samples = samples\<rparr>
               in case water_validate p of
                    Inl e \<Rightarrow> Inl (WaterInvalidPresentation e)
                  | Inr _ \<Rightarrow> Inr p)))))))))))"

section \<open>Samples\<close>

text \<open>A sample the message may carry: the only dry one, a still lake, or a river.\<close>

definition sample_ok :: "water_sample \<Rightarrow> bool" where
  "sample_ok s \<longleftrightarrow> (ws_kind s = WaterDry \<longrightarrow> s = water_dry) \<and>
     (ws_kind s = WaterLake \<longrightarrow> s = water_lake (ws_water_surface_mm s))"

lemma sample_failure_None: "sample_failure index s = None \<longleftrightarrow> sample_ok s"
  by (cases s) (auto simp: sample_failure_def sample_ok_def water_dry_def water_lake_def split: water_kind.split)

lemma water_validate_Inr:
  "water_validate p = Inr u \<longleftrightarrow>
     wp_version p = water_presentation_version \<and> wp_terrain_generator_version p \<noteq> 0 \<and>
     wp_hydrology_generator_version p \<noteq> 0 \<and> control_side_ok (wp_control_grid_side p) \<and>
     length (wp_samples p) = control_points (wp_control_grid_side p) \<and> list_all sample_ok (wp_samples p)"
  by (auto simp: water_validate_def check_elements_Inr [OF sample_failure_None])

definition sample_fits :: "water_sample \<Rightarrow> bool" where
  "sample_fits s \<longleftrightarrow> in_i32 (ws_water_surface_mm s)"

definition water_valid :: "water_presentation \<Rightarrow> bool" where
  "water_valid p \<longleftrightarrow> water_validate p = Inr () \<and> coord_fits (wp_coord p) \<and> list_all sample_fits (wp_samples p)"

lemma water_kind_code_inverse [simp]: "water_kind_try_from (water_kind_code k) = Inr k"
  by (cases k) (simp_all add: water_kind_try_from_def)

lemma water_kind_try_from_Inr: "water_kind_try_from v = Inr k \<longleftrightarrow> v = water_kind_code k"
  by (cases k) (auto simp: water_kind_try_from_def)

lemma length_sample_bytes [simp]: "length (sample_bytes s) = 8"
  by (simp add: sample_bytes_def)

lemma read_water_sample_reads:
  assumes "read_water_sample payload offset index = Inr s"
  shows "sample_fits s \<and> sample_bytes s = slice_bytes offset (offset + 8) payload"
proof -
  from assms have len: "offset + 4 + 4 \<le> length payload" and i: "in_i32 (ws_water_surface_mm s)"
    and b: "payload ! offset = water_kind_code (ws_kind s)" "payload ! (offset + 1) = ws_flow_hint_x s"
      "payload ! (offset + 2) = ws_flow_hint_y s" "payload ! (offset + 3) = 0"
      "i32_le_bytes (ws_water_surface_mm s) = slice_bytes (offset + 4) (offset + 8) payload"
    by (auto simp: read_water_sample_def field_u8_Inr fields_Inr water_kind_try_from_Inr add.assoc
        split: sum.splits if_splits)
  have "sample_bytes s = payload ! offset # payload ! (offset + 1) # payload ! (offset + 2) # payload ! (offset + 3)
    # slice_bytes (offset + 4) (offset + 8) payload"
    unfolding sample_bytes_def by (simp only: b append_Cons append_Nil)
  also have "\<dots> = slice_bytes offset (offset + 8) payload"
    using len by (simp add: slice_bytes_nth)
  finally show ?thesis using i by (simp add: sample_fits_def)
qed

interpretation water_samples: element_reader read_water_sample sample_bytes sample_fits 8
proof
  fix s pre post index
  assume "sample_fits s"
  then show "read_water_sample (pre @ sample_bytes s @ post) (length pre) index = Inr s"
    by (simp add: read_water_sample_def field_u8_def fields_Inr sample_fits_def sample_bytes_def nth_append
        field_i32_def field_bytes_def split: sum.split)
qed (use read_water_sample_reads in auto)

section \<open>The codec\<close>

lemma length_water_header [simp]: "length (water_header p) = 30"
  by (simp add: water_header_def)

lemma water_payload_len_exact: "water_payload_len n = Inr (30 + unat n * 8)"
  using unsigned_less [of n, where ?'a = nat]
  by (simp add: water_payload_len_def water_header_bytes_def water_sample_bytes_def)

lemma water_decode_written:
  assumes "water_valid p"
  shows "water_decode (water_bytes p) = Inr p"
proof -
  let ?n = "length (wp_samples p)"
  have v: "water_validate p = Inr ()" using assms by (simp add: water_valid_def)
  then have n: "unat (of_nat ?n :: u16) = ?n"
    using control_side_bound [of "wp_control_grid_side p"] by (simp add: water_validate_Inr count_field_exact)
  have "read_elements read_water_sample 8 (water_header p @ concat (map sample_bytes (wp_samples p)) @ [])
      (length (water_header p)) 0 ?n = Inr (wp_samples p)"
    using assms by (intro water_samples.read_elements_written) (simp add: water_valid_def)
  then have r: "read_elements read_water_sample 8 (water_bytes p) 30 0 ?n = Inr (wp_samples p)"
    by (simp add: water_bytes_def)
  have len: "length (water_bytes p) = 30 + 8 * ?n"
    by (simp add: water_bytes_def water_samples.length_concat)
  obtain x y where xy: "wp_coord p = FrontierQuadrantCoord x y" by (cases "wp_coord p")
  have f: "field_u16 WaterInvalidLength (water_bytes p) 28 = Inr (of_nat ?n)"
    "field_u16 WaterInvalidLength (water_bytes p) 0 = Inr (wp_version p)"
    "field_i64 WaterInvalidLength (water_bytes p) 2 = Inr x"
    "field_i64 WaterInvalidLength (water_bytes p) 10 = Inr y"
    "field_u32 WaterInvalidLength (water_bytes p) 18 = Inr (wp_terrain_generator_version p)"
    "field_u32 WaterInvalidLength (water_bytes p) 22 = Inr (wp_hydrology_generator_version p)"
    "field_u16 WaterInvalidLength (water_bytes p) 26 = Inr (wp_control_grid_side p)"
    using assms by (simp_all add: fields_Inr len water_valid_def coord_fits_def xy)
      (simp_all add: water_bytes_def water_header_def coord_bytes_def xy)
  have eta: "\<lparr>wp_version = wp_version p, wp_coord = FrontierQuadrantCoord x y,
     wp_terrain_generator_version = wp_terrain_generator_version p,
     wp_hydrology_generator_version = wp_hydrology_generator_version p,
     wp_control_grid_side = wp_control_grid_side p, wp_samples = wp_samples p\<rparr> = p"
    by (cases p) (use xy in simp)
  show ?thesis
    by (simp add: water_decode_def water_header_bytes_def water_sample_bytes_def len f water_payload_len_exact n r eta v)
qed

lemma water_decode_reads:
  assumes "water_decode bs = Inr p"
  shows "water_valid p \<and> water_bytes p = bs"
proof -
  obtain n x y where n: "field_u16 WaterInvalidLength bs 28 = Inr n" and len: "length bs = 30 + unat n * 8"
    and r: "read_elements read_water_sample 8 bs 30 0 (unat n) = Inr (wp_samples p)"
    and f: "field_u16 WaterInvalidLength bs 0 = Inr (wp_version p)"
      "field_i64 WaterInvalidLength bs 2 = Inr x" "field_i64 WaterInvalidLength bs 10 = Inr y"
      "field_u32 WaterInvalidLength bs 18 = Inr (wp_terrain_generator_version p)"
      "field_u32 WaterInvalidLength bs 22 = Inr (wp_hydrology_generator_version p)"
      "field_u16 WaterInvalidLength bs 26 = Inr (wp_control_grid_side p)"
    and c: "wp_coord p = FrontierQuadrantCoord x y" and v: "water_validate p = Inr ()"
    using assms
    by (auto simp: water_decode_def water_header_bytes_def water_sample_bytes_def water_payload_len_exact Let_def
        split: if_splits sum.splits)
  have e: "length (wp_samples p) = unat n" "list_all sample_fits (wp_samples p)"
    "concat (map sample_bytes (wp_samples p)) = slice_bytes 30 (30 + 8 * unat n) bs"
    using water_samples.read_elements_reads [OF r] len by simp_all
  have "water_bytes p = slice_bytes 0 2 bs @ slice_bytes 2 10 bs @ slice_bytes 10 18 bs @ slice_bytes 18 22 bs
    @ slice_bytes 22 26 bs @ slice_bytes 26 28 bs @ slice_bytes 28 30 bs @ slice_bytes 30 (30 + 8 * unat n) bs"
    using f n by (simp add: water_bytes_def water_header_def coord_bytes_def c e fields_Inr del: add_2_eq_Suc add_2_eq_Suc')
  also have "\<dots> = bs" using len by (simp add: slice_joins)
  finally have "water_bytes p = bs" .
  moreover have "coord_fits (wp_coord p)" using f by (simp add: coord_fits_def c fields_Inr)
  ultimately show ?thesis using v e(2) by (simp add: water_valid_def)
qed

interpretation water_codec: canonical_codec water_bytes water_decode water_valid
  by unfold_locales (use water_decode_written water_decode_reads in blast)+

lemma water_encode_Inr:
  "water_encode p = Inr bs \<longleftrightarrow> water_validate p = Inr () \<and> bs = water_bytes p"
proof (cases "water_validate p")
  case (Inr u)
  then have "length (wp_samples p) < 2 ^ 16"
    using control_side_bound [of "wp_control_grid_side p"] water_validate_Inr [of p u] by simp
  with Inr show ?thesis by (auto simp: water_encode_def water_payload_len_exact)
qed (simp add: water_encode_def)

section \<open>Properties\<close>

text \<open>
  C24: the water message on the wire is canonical: the decoder accepts exactly the encodings of valid presentations, so
  never a dry sample with a surface, a lake with a flow, an unknown kind or a reserved byte that is not zero.
\<close>

theorem water_wire_canonical:
  "water_decode bs = Inr p \<longleftrightarrow> water_valid p \<and> water_encode p = Inr bs"
  using water_codec.accepted_iff [of bs p] water_encode_Inr [of p bs] by (auto simp: water_valid_def)

end
