(* ===== verification/Terrain.thy ===== *)
theory Terrain
  imports Contracts_Terrain World_Grid
begin

unbundle bit_operations_syntax

text \<open>
  The terrain recipe of crates/terrain/src/lib.rs: seeds and biomes of a quadrant, the value noise that gives the
  heights of its control grid, and the semantics of its cells; semantics.rs (the summary of a contract) and
  artifact.rs (its canonical bytes and fingerprint). blake3 is an argument. \<open>i128\<close> overflow is a panic.
\<close>

section \<open>Grids\<close>

text \<open>The nested loops \<open>for local_y in 0..side { for local_x in 0..side { ... } }\<close>.\<close>

definition grid :: "nat \<Rightarrow> (nat \<times> nat) list" where
  "grid side = List.product [0..<side] [0..<side]"

text \<open>A loop that pushes one result per element and stops at the first error.\<close>

fun collect :: "('a \<Rightarrow> 'e + 'b) \<Rightarrow> 'a list \<Rightarrow> 'e + 'b list" where
  "collect f [] = Inr []"
| "collect f (x # xs) =
     (case f x of Inl e \<Rightarrow> Inl e | Inr y \<Rightarrow> (case collect f xs of Inl e \<Rightarrow> Inl e | Inr ys \<Rightarrow> Inr (y # ys)))"

lemma length_grid [simp]: "length (grid n) = n * n"
  by (simp add: grid_def)

lemma set_grid [simp]: "set (grid n) = {0..<n} \<times> {0..<n}"
  by (simp add: grid_def)

lemma grid_nth: "i < n * n \<Longrightarrow> grid n ! i = (i div n, i mod n)"
proof -
  assume i: "i < n * n"
  then have "0 < n" by (cases n) simp_all
  moreover from this i have "i div n < n" by (simp add: less_mult_imp_div_less)
  ultimately show ?thesis using i by (simp add: grid_def product_nth)
qed

lemma grid_index: "y < (n :: nat) \<Longrightarrow> x < n \<Longrightarrow> y * n + x < n * n"
proof -
  assume "y < n" "x < n"
  then have "y * n + x < Suc y * n" by simp
  also have "\<dots> \<le> n * n" using \<open>y < n\<close> by (intro mult_le_mono1) simp
  finally show ?thesis .
qed

lemma grid_parts [simp]:
  fixes x n :: nat
  shows "x < n \<Longrightarrow> (y * n + x) div n = y" and "x < n \<Longrightarrow> (y * n + x) mod n = x"
  by simp_all

lemma grid_cases:
  assumes "p \<in> set (grid n)"
  obtains y x where "p = (y, x)" "y < n" "x < n"
proof (cases p)
  case (Pair y x)
  with assms that show ?thesis by simp
qed

lemma collect_Inr: "collect f xs = Inr ys \<longleftrightarrow> list_all2 (\<lambda>x y. f x = Inr y) xs ys"
proof (induction xs arbitrary: ys)
  case (Cons x xs)
  show ?case by (cases "collect f xs") (auto simp: list_all2_Cons1 Cons.IH [symmetric] split: sum.splits)
qed auto

lemma collect_Inl: "collect f xs = Inl e \<Longrightarrow> \<exists>x\<in>set xs. f x = Inl e"
  by (induction xs) (auto split: sum.splits)

lemma collect_map: "(\<And>x. x \<in> set xs \<Longrightarrow> f x = Inr (g x)) \<Longrightarrow> collect f xs = Inr (map g xs)"
  by (induction xs) auto

lemma collect_grid_nth:
  assumes "collect f (grid n) = Inr ys"
  shows "length ys = n * n" and "i < n * n \<Longrightarrow> f (i div n, i mod n) = Inr (ys ! i)"
  using assms by (auto simp: collect_Inr list_all2_conv_all_nth grid_nth)

lemma those_map: "(\<And>x. x \<in> set xs \<Longrightarrow> f x = Some (g x)) \<Longrightarrow> those (map f xs) = Some (map g xs)"
  by (induction xs) auto

lemma those_Some: "those xs = Some ys \<longleftrightarrow> xs = map Some ys"
  by (induction xs arbitrary: ys) (auto split: option.splits)

section \<open>Hashes\<close>

definition mix64 :: "u64 \<Rightarrow> u64" where
  "mix64 v =
     (let a = v XOR drop_bit 30 v; b = a * 0xBF58476D1CE4E5B9;
          c = b XOR drop_bit 27 b; d = c * 0x94D049BB133111EB
      in d XOR drop_bit 31 d)"

record recipe_settings =
  trs_quadrant_size_mm :: int
  trs_generator_version :: u32
  trs_world_seed :: u64

datatype terrain_recipe_error =
  RecipeInvalidQuadrantSize int
| RecipeInvalidGeneratorVersion
| RecipeLatticeOverflow int int
| InvalidGeneratedContract terrain_contract_error

definition recipe_validate :: "recipe_settings \<Rightarrow> terrain_recipe_error + recipe_settings" where
  "recipe_validate s =
     (if trs_quadrant_size_mm s \<le> 0 then Inl (RecipeInvalidQuadrantSize (trs_quadrant_size_mm s))
      else if trs_generator_version s = 0 then Inl RecipeInvalidGeneratorVersion
      else Inr s)"

text \<open>The cast \<open>as u64\<close> of an \<open>i64\<close>.\<close>

definition as_u64 :: "int \<Rightarrow> u64" where
  "as_u64 x = word_of_int x"

definition derive_quadrant_recipe_seed :: "u64 \<Rightarrow> u32 \<Rightarrow> frontier_quadrant_coord \<Rightarrow> u64" where
  "derive_quadrant_recipe_seed seed gen c =
     (let state = mix64 ((seed XOR push_bit 32 (ucast gen)) XOR as_u64 (fqc_x c))
      in mix64 (state XOR word_rotl 29 (as_u64 (fqc_y c))))"

text \<open>\<open>state as usize\<close> on a 64-bit target.\<close>

definition derive_quadrant_biome_from_pool :: "u64 \<Rightarrow> frontier_quadrant_coord \<Rightarrow> u8 list \<Rightarrow> u8" where
  "derive_quadrant_biome_from_pool seed c available =
     (if available = [] then 1
      else (let state = mix64 ((seed + 0x517CC1B727220A95) XOR as_u64 (fqc_x c));
                state' = mix64 (state XOR word_rotl 31 (as_u64 (fqc_y c)))
            in available ! (unat state' mod length available)))"

definition derive_quadrant_biome_id :: "u64 \<Rightarrow> frontier_quadrant_coord \<Rightarrow> u8" where
  "derive_quadrant_biome_id seed c = derive_quadrant_biome_from_pool seed c [1, 2]"

section \<open>Heights\<close>

definition control_grid_side :: nat where
  "control_grid_side = 9"

definition max_relief_mm :: int where
  "max_relief_mm = 18000"

definition fixed_one :: int where
  "fixed_one = 65536"

definition clamp :: "int \<Rightarrow> int \<Rightarrow> int \<Rightarrow> int" where
  "clamp lo hi v = max lo (min hi v)"

definition signed_lattice_value :: "u64 \<Rightarrow> u32 \<Rightarrow> int \<Rightarrow> int \<Rightarrow> int" where
  "signed_lattice_value seed gen x y =
     (let state = mix64 ((seed XOR push_bit 17 (ucast gen)) XOR as_u64 x);
          state' = mix64 (state XOR word_rotl 23 (as_u64 y))
      in uint (drop_bit 17 state' AND 0xFFFF) - 32768)"

definition smoothstep_q16 :: "int \<Rightarrow> int" where
  "smoothstep_q16 t0 =
     (let t = clamp 0 fixed_one t0; t2 = (t * t) sdiv fixed_one
      in (t2 * (3 * fixed_one - 2 * t)) sdiv fixed_one)"

definition lerp_q16 :: "int \<Rightarrow> int \<Rightarrow> int \<Rightarrow> int" where
  "lerp_q16 a b t = a + ((b - a) * t) sdiv fixed_one"

definition interpolated_lattice_value :: "u64 \<Rightarrow> u32 \<Rightarrow> int \<Rightarrow> int \<Rightarrow> int \<Rightarrow> int" where
  "interpolated_lattice_value seed gen x y spacing =
     (let cell_x = div_euclid x spacing; cell_y = div_euclid y spacing;
          tx = smoothstep_q16 ((x mod spacing * fixed_one) sdiv spacing);
          ty = smoothstep_q16 ((y mod spacing * fixed_one) sdiv spacing);
          v00 = signed_lattice_value seed gen cell_x cell_y;
          v10 = signed_lattice_value seed gen (cell_x + 1) cell_y;
          v01 = signed_lattice_value seed gen cell_x (cell_y + 1);
          v11 = signed_lattice_value seed gen (cell_x + 1) (cell_y + 1);
          south = lerp_q16 v00 v10 tx; north = lerp_q16 v01 v11 tx
      in clamp (- (2 ^ 31)) (2 ^ 31 - 1) (lerp_q16 south north ty))"

definition authoritative_height_mm :: "u64 \<Rightarrow> u32 \<Rightarrow> int \<Rightarrow> int \<Rightarrow> int" where
  "authoritative_height_mm seed gen x y =
     (let broad = interpolated_lattice_value seed gen x y 32;
          regional = interpolated_lattice_value (seed XOR 0x9E3779B97F4A7C15) gen x y 16;
          local = interpolated_lattice_value (seed XOR 0xD1B54A32D192ED03) gen x y 8;
          weighted = broad * 5 + regional * 3 + local * 2; normalized = weighted sdiv 10
      in clamp (- max_relief_mm) max_relief_mm ((normalized * max_relief_mm) sdiv 32768))"

section \<open>Cells\<close>

text \<open>\<open>(a - b).abs()\<close> on \<open>i32\<close>; \<open>None\<close> is the panic.\<close>

definition i32_distance :: "int \<Rightarrow> int \<Rightarrow> int option" where
  "i32_distance a b = (if in_i32 (a - b) \<and> in_i32 \<bar>a - b\<bar> then Some \<bar>a - b\<bar> else None)"

definition grade_limit :: "int \<Rightarrow> int \<Rightarrow> int option" where
  "grade_limit run_sq grade = Option.bind (checked_mul_i128 run_sq grade) (\<lambda>v. checked_mul_i128 v grade)"

definition derive_cell_flags :: "int \<Rightarrow> int \<Rightarrow> int \<Rightarrow> int \<Rightarrow> int \<Rightarrow> int \<Rightarrow> u8 option" where
  "derive_cell_flags h00 h10 h01 h11 size_mm cells =
     (case (i32_distance h10 h00, i32_distance h11 h01, i32_distance h01 h00, i32_distance h11 h10) of
        (Some a, Some b, Some c, Some d) \<Rightarrow>
          (let dx = max a b; dy = max c d; rise_sq = dx * dx + dy * dy
           in case Option.bind (checked_mul_i128 rise_sq 1000000) (\<lambda>v. checked_mul_i128 v (cells * cells)) of
                None \<Rightarrow> None
              | Some normalized_rise_sq \<Rightarrow>
                  (case grade_limit (size_mm * size_mm) 150 of
                     None \<Rightarrow> None
                   | Some buildable_limit_sq \<Rightarrow>
                       if normalized_rise_sq \<le> buildable_limit_sq then Some (cell_walkable OR cell_buildable)
                       else (case grade_limit (size_mm * size_mm) 700 of
                               None \<Rightarrow> None
                             | Some walkable_limit_sq \<Rightarrow>
                                 if normalized_rise_sq \<le> walkable_limit_sq then Some cell_walkable
                                 else Some cell_blocked)))
      | _ \<Rightarrow> None)"

section \<open>Generation\<close>

definition height_at ::
  "recipe_settings \<Rightarrow> frontier_quadrant_coord \<Rightarrow> int \<Rightarrow> int \<Rightarrow> nat \<times> nat \<Rightarrow> terrain_recipe_error + int" where
  "height_at s c base_x base_y p =
     (case p of (local_y, local_x) \<Rightarrow>
        (case checked_add_i64 base_x (int local_x) of
           None \<Rightarrow> Inl (RecipeLatticeOverflow (fqc_x c) (fqc_y c))
         | Some global_x \<Rightarrow>
             (case checked_add_i64 base_y (int local_y) of
                None \<Rightarrow> Inl (RecipeLatticeOverflow (fqc_x c) (fqc_y c))
              | Some global_y \<Rightarrow>
                  Inr (authoritative_height_mm (trs_world_seed s) (trs_generator_version s) global_x global_y))))"

definition flags_at :: "int list \<Rightarrow> int \<Rightarrow> nat \<times> nat \<Rightarrow> u8 option" where
  "flags_at heights size_mm p =
     (case p of (cell_y, cell_x) \<Rightarrow>
        (let i00 = cell_y * control_grid_side + cell_x; i10 = i00 + 1; i01 = i00 + control_grid_side; i11 = i01 + 1
         in derive_cell_flags (heights ! i00) (heights ! i10) (heights ! i01) (heights ! i11) size_mm
              (int (control_grid_side - 1))))"

definition generate_terrain_authority ::
  "recipe_settings \<Rightarrow> frontier_quadrant_coord \<Rightarrow> (terrain_recipe_error + terrain_contract) option" where
  "generate_terrain_authority s0 c =
     (case recipe_validate s0 of
        Inl e \<Rightarrow> Some (Inl e)
      | Inr s \<Rightarrow>
          (case checked_mul_i64 (fqc_x c) (int (control_grid_side - 1)) of
             None \<Rightarrow> Some (Inl (RecipeLatticeOverflow (fqc_x c) (fqc_y c)))
           | Some base_x \<Rightarrow>
          (case checked_mul_i64 (fqc_y c) (int (control_grid_side - 1)) of
             None \<Rightarrow> Some (Inl (RecipeLatticeOverflow (fqc_x c) (fqc_y c)))
           | Some base_y \<Rightarrow>
          (case collect (height_at s c base_x base_y) (grid control_grid_side) of
             Inl e \<Rightarrow> Some (Inl e)
           | Inr heights \<Rightarrow>
          (case those (map (flags_at heights (trs_quadrant_size_mm s)) (grid (control_grid_side - 1))) of
             None \<Rightarrow> None
           | Some flags \<Rightarrow>
               (let contract = \<lparr>tc_version = terrain_authority_contract_version, tc_coord = c,
                  tc_quadrant_size_mm = trs_quadrant_size_mm s, tc_generator_version = trs_generator_version s,
                  tc_recipe_seed = derive_quadrant_recipe_seed (trs_world_seed s) (trs_generator_version s) c,
                  tc_control_grid_side = of_nat control_grid_side,
                  tc_biome_id = derive_quadrant_biome_id (trs_world_seed s) c,
                  tc_elevation_samples_mm = heights, tc_cell_flags = flags\<rparr>
                in case terrain_validate contract of
                     Inl e \<Rightarrow> Some (Inl (InvalidGeneratedContract e))
                   | Inr _ \<Rightarrow> Some (Inr contract)))))))"


section \<open>The noise is bounded\<close>

lemma clamp_id: "lo \<le> v \<Longrightarrow> v \<le> hi \<Longrightarrow> clamp lo hi v = v"
  by (simp add: clamp_def)

lemma clamp_bounds: "lo \<le> hi \<Longrightarrow> lo \<le> clamp lo hi v \<and> clamp lo hi v \<le> hi"
  by (simp add: clamp_def)

lemma sdiv_nonneg: "0 \<le> n \<Longrightarrow> 0 < d \<Longrightarrow> n sdiv d = n div (d :: int)"
  by (cases "n = 0") (simp_all add: signed_divide_int_def)

lemma smoothstep_q16_bounds: "0 \<le> smoothstep_q16 t \<and> smoothstep_q16 t \<le> fixed_one"
proof -
  define u where "u = clamp 0 fixed_one t"
  define w where "w = u * u div fixed_one"
  have u: "0 \<le> u" "u \<le> fixed_one" using clamp_bounds [of 0 fixed_one t] by (simp_all add: u_def fixed_one_def)
  have F: "0 < fixed_one" by (simp add: fixed_one_def)
  have d: "0 \<le> 3 * fixed_one - 2 * u" using u by simp
  have w: "0 \<le> w" using u F by (simp add: w_def pos_imp_zdiv_nonneg_iff)
  have w2: "w * fixed_one \<le> u * u"
    using div_mult_mod_eq [of "u * u" fixed_one] pos_mod_sign [OF F, of "u * u"] unfolding w_def by linarith
  have v: "smoothstep_q16 t = w * (3 * fixed_one - 2 * u) div fixed_one"
    using u F d w by (simp add: smoothstep_q16_def Let_def u_def [symmetric] sdiv_nonneg w_def [symmetric])
  have "w * (3 * fixed_one - 2 * u) * fixed_one \<le> u * u * (3 * fixed_one - 2 * u)"
    using mult_right_mono [OF w2 d] by (simp add: mult_ac)
  also have "\<dots> \<le> fixed_one * fixed_one * fixed_one"
  proof -
    have "0 \<le> (fixed_one - u) * (fixed_one - u) * (fixed_one + 2 * u)" using u by simp
    also have "\<dots> = fixed_one * fixed_one * fixed_one - u * u * (3 * fixed_one - 2 * u)" by (simp add: algebra_simps)
    finally show ?thesis by simp
  qed
  finally have "w * (3 * fixed_one - 2 * u) \<le> fixed_one * fixed_one" using F by simp
  then have "w * (3 * fixed_one - 2 * u) div fixed_one \<le> fixed_one * fixed_one div fixed_one" using F by (intro zdiv_mono1)
  then have "w * (3 * fixed_one - 2 * u) div fixed_one \<le> fixed_one" using F by simp
  with v w d F show ?thesis by (simp add: pos_imp_zdiv_nonneg_iff)
qed

lemma lerp_q16_between:
  assumes "0 \<le> t" "t \<le> fixed_one"
  shows "min a b \<le> lerp_q16 a b t \<and> lerp_q16 a b t \<le> max a b"
proof -
  let ?q = "((b - a) * t) sdiv fixed_one"
  have F: "0 < fixed_one" by (simp add: fixed_one_def)
  have q: "\<bar>?q\<bar> \<le> \<bar>b - a\<bar>" by (rule sdiv_scaled) (use assms F in simp_all)
  show ?thesis
  proof (cases "a \<le> b")
    case True
    then have "0 \<le> ?q" using assms F by (simp add: sdiv_nonneg pos_imp_zdiv_nonneg_iff)
    with q True show ?thesis by (simp add: lerp_q16_def)
  next
    case False
    then have "?q \<le> 0" using assms F by (intro sdiv_nonpos) (simp_all add: mult_nonpos_nonneg)
    with q False show ?thesis by (simp add: lerp_q16_def)
  qed
qed

lemma signed_lattice_value_bounds: "- 32768 \<le> signed_lattice_value seed gen x y \<and> signed_lattice_value seed gen x y \<le> 32767"
proof -
  have "uint (v AND 0xFFFF) \<le> 65535 \<and> 0 \<le> uint (v AND 0xFFFF)" for v :: u64
  proof -
    have "v AND 0xFFFF \<le> 0xFFFF" by (rule word_and_le1)
    then show ?thesis by (simp add: word_le_def)
  qed
  then show ?thesis by (simp add: signed_lattice_value_def Let_def)
qed

lemma interpolated_bounds:
  "- 32768 \<le> interpolated_lattice_value seed gen x y k \<and> interpolated_lattice_value seed gen x y k \<le> 32767"
proof -
  define tx where "tx = smoothstep_q16 ((x mod k * fixed_one) sdiv k)"
  define ty where "ty = smoothstep_q16 ((y mod k * fixed_one) sdiv k)"
  have t: "0 \<le> tx" "tx \<le> fixed_one" "0 \<le> ty" "ty \<le> fixed_one"
    using smoothstep_q16_bounds by (simp_all add: tx_def ty_def)
  note v = signed_lattice_value_bounds [of seed gen]
  define f where "f cy = lerp_q16 (signed_lattice_value seed gen (div_euclid x k) cy)
    (signed_lattice_value seed gen (div_euclid x k + 1) cy) tx" for cy
  have f: "- 32768 \<le> f cy \<and> f cy \<le> 32767" for cy
    using lerp_q16_between [OF t(1,2), of "signed_lattice_value seed gen (div_euclid x k) cy"
        "signed_lattice_value seed gen (div_euclid x k + 1) cy"] v [of "div_euclid x k" cy] v [of "div_euclid x k + 1" cy]
    unfolding f_def by linarith
  have "- 32768 \<le> lerp_q16 (f (div_euclid y k)) (f (div_euclid y k + 1)) ty \<and>
    lerp_q16 (f (div_euclid y k)) (f (div_euclid y k + 1)) ty \<le> 32767"
    using lerp_q16_between [OF t(3,4), of "f (div_euclid y k)" "f (div_euclid y k + 1)"] f [of "div_euclid y k"]
      f [of "div_euclid y k + 1"] by linarith
  moreover from this have "interpolated_lattice_value seed gen x y k = lerp_q16 (f (div_euclid y k)) (f (div_euclid y k + 1)) ty"
    by (simp add: interpolated_lattice_value_def Let_def f_def tx_def ty_def clamp_id)
  ultimately show ?thesis by simp
qed

lemma height_bounds: "\<bar>authoritative_height_mm seed gen x y\<bar> \<le> max_relief_mm"
proof -
  have "\<bar>clamp (- max_relief_mm) max_relief_mm v\<bar> \<le> max_relief_mm" for v
  proof -
    have "- max_relief_mm \<le> max_relief_mm" by (simp add: max_relief_mm_def)
    from clamp_bounds [OF this, of v] show ?thesis by linarith
  qed
  then show ?thesis by (simp only: authoritative_height_mm_def Let_def)
qed


section \<open>Cells\<close>

text \<open>The steepest rise over a cell, squared, and the largest squared rise of a grade, both over \<open>8000\<close> parts.\<close>

definition rise_sq :: "int \<Rightarrow> int \<Rightarrow> int \<Rightarrow> int \<Rightarrow> int" where
  "rise_sq h00 h10 h01 h11 =
     (let dx = max \<bar>h10 - h00\<bar> \<bar>h11 - h01\<bar>; dy = max \<bar>h01 - h00\<bar> \<bar>h11 - h10\<bar> in dx * dx + dy * dy)"

abbreviation relief_ok :: "int \<Rightarrow> bool" where
  "relief_ok h \<equiv> \<bar>h\<bar> \<le> 18000"

lemma i32_distance_relief: "relief_ok a \<Longrightarrow> relief_ok b \<Longrightarrow> i32_distance a b = Some \<bar>a - b\<bar>"
  unfolding i32_distance_def in_i32_def by (auto; linarith)

lemma rise_sq_bound:
  assumes "relief_ok a" "relief_ok b" "relief_ok c" "relief_ok d"
  shows "0 \<le> rise_sq a b c d" "rise_sq a b c d \<le> 2 * (36000 * 36000)"
proof -
  define dx where "dx = max \<bar>b - a\<bar> \<bar>d - c\<bar>"
  define dy where "dy = max \<bar>c - a\<bar> \<bar>d - b\<bar>"
  have "0 \<le> dx" "dx \<le> 36000" "0 \<le> dy" "dy \<le> 36000" using assms unfolding dx_def dy_def by linarith+
  then have "dx * dx \<le> 36000 * 36000" "dy * dy \<le> 36000 * 36000" by (intro mult_mono; simp)+
  moreover have "rise_sq a b c d = dx * dx + dy * dy" by (simp only: rise_sq_def dx_def dy_def Let_def)
  ultimately show "0 \<le> rise_sq a b c d" "rise_sq a b c d \<le> 2 * (36000 * 36000)" by simp_all
qed

lemma grade_limit_value: "0 \<le> q \<Longrightarrow> 0 < g \<Longrightarrow> grade_limit q g = (if q * g * g < 2 ^ 127 then Some (q * g * g) else None)"
proof -
  assume q: "0 \<le> q" "0 < g"
  then have "q * g * 1 \<le> q * g * g" by (intro mult_left_mono) simp_all
  moreover have "0 \<le> q * g" using q by simp
  moreover have "0 \<le> q * g * g" using q by simp
  ultimately show ?thesis by (auto simp: grade_limit_def checked_mul_i128_def in_i128_def)
qed

lemma derive_cell_flags_value:
  assumes "relief_ok a" "relief_ok b" "relief_ok c" "relief_ok d" "size_mm * size_mm * 700 * 700 < 2 ^ 127"
  shows "derive_cell_flags a b c d size_mm 8 =
    Some (if rise_sq a b c d * 1000000 * 64 \<le> size_mm * size_mm * 150 * 150 then cell_walkable OR cell_buildable
          else if rise_sq a b c d * 1000000 * 64 \<le> size_mm * size_mm * 700 * 700 then cell_walkable
          else cell_blocked)"
proof -
  have q: "0 \<le> size_mm * size_mm" by simp
  then have "size_mm * size_mm * 150 * 150 \<le> size_mm * size_mm * 700 * 700" by simp
  then have l: "grade_limit (size_mm * size_mm) 150 = Some (size_mm * size_mm * 150 * 150)"
    "grade_limit (size_mm * size_mm) 700 = Some (size_mm * size_mm * 700 * 700)"
    using assms(5) by (simp_all only: grade_limit_value [OF q] zero_less_numeral if_True) simp_all
  note r = rise_sq_bound [OF assms(1-4)]
  have n: "Option.bind (checked_mul_i128 (rise_sq a b c d) 1000000) (\<lambda>v. checked_mul_i128 v (8 * 8)) =
    Some (rise_sq a b c d * 1000000 * 64)"
    using r by (simp add: checked_mul_i128_def in_i128_def)
  note d = assms(1-4) [THEN i32_distance_relief]
  show ?thesis
    by (simp only: derive_cell_flags_def d assms(1-4) prod.case option.case Let_def rise_sq_def [unfolded Let_def, symmetric]
        n l if_distrib [where f = Some])
qed

text \<open>A rise within a grade bounds every edge of the cell.\<close>

lemma rise_sq_edges:
  assumes "rise_sq a b c d * 1000000 * 64 \<le> size_mm * size_mm * g * g" "0 \<le> size_mm" "0 \<le> g"
    "e \<in> {\<bar>b - a\<bar>, \<bar>d - c\<bar>, \<bar>c - a\<bar>, \<bar>d - b\<bar>}"
  shows "e * 8000 \<le> g * size_mm"
proof -
  define dx where "dx = max \<bar>b - a\<bar> \<bar>d - c\<bar>"
  define dy where "dy = max \<bar>c - a\<bar> \<bar>d - b\<bar>"
  have pos: "0 \<le> dx" "0 \<le> dy" "0 \<le> e" using assms(4) by (auto simp: dx_def dy_def)
  have "e \<le> dx \<or> e \<le> dy" using assms(4) by (auto simp: dx_def dy_def)
  then have "e * e \<le> dx * dx \<or> e * e \<le> dy * dy" using pos by (auto intro: mult_mono)
  then have "e * e \<le> dx * dx + dy * dy" using mult_nonneg_nonneg [OF pos(1,1)] mult_nonneg_nonneg [OF pos(2,2)] by linarith
  then have "e * e \<le> rise_sq a b c d" by (simp only: rise_sq_def dx_def dy_def Let_def)
  then have "(e * 8000) * (e * 8000) \<le> (g * size_mm) * (g * size_mm)" using assms(1) by (simp add: mult_ac)
  then have "(e * 8000)\<^sup>2 \<le> (g * size_mm)\<^sup>2" by (simp only: power2_eq_square)
  then show ?thesis by (rule power2_le_imp_le) (use assms in simp)
qed

section \<open>Generation\<close>

text \<open>The control points of a quadrant, and the one row and column it shares with the next ones, have coordinates.\<close>

definition lattice_fits :: "frontier_quadrant_coord \<Rightarrow> bool" where
  "lattice_fits c \<longleftrightarrow> in_i64 (fqc_x c * 8) \<and> in_i64 (fqc_x c * 8 + 8) \<and> in_i64 (fqc_y c * 8) \<and> in_i64 (fqc_y c * 8 + 8)"

definition lattice_heights :: "u64 \<Rightarrow> u32 \<Rightarrow> frontier_quadrant_coord \<Rightarrow> int list" where
  "lattice_heights seed gen c =
     map (\<lambda>(ly, lx). authoritative_height_mm seed gen (fqc_x c * 8 + int lx) (fqc_y c * 8 + int ly)) (grid 9)"

lemma lattice_heights_nth:
  assumes "ly < 9" "lx < 9"
  shows "lattice_heights seed gen c ! (ly * 9 + lx) =
    authoritative_height_mm seed gen (fqc_x c * 8 + int lx) (fqc_y c * 8 + int ly)"
proof -
  have i: "ly * 9 + lx < 9 * 9" using assms by (rule grid_index)
  then show ?thesis using assms grid_nth [OF i] by (simp add: lattice_heights_def)
qed

lemma height_at_value:
  "height_at s c (fqc_x c * 8) (fqc_y c * 8) (ly, lx) =
     (if in_i64 (fqc_x c * 8 + int lx) \<and> in_i64 (fqc_y c * 8 + int ly)
      then Inr (authoritative_height_mm (trs_world_seed s) (trs_generator_version s) (fqc_x c * 8 + int lx) (fqc_y c * 8 + int ly))
      else Inl (RecipeLatticeOverflow (fqc_x c) (fqc_y c)))"
  by (simp add: height_at_def checked_add_i64_def)

lemma collect_heights:
  assumes "in_i64 (fqc_x c * 8)" "in_i64 (fqc_y c * 8)"
  shows "collect (height_at s c (fqc_x c * 8) (fqc_y c * 8)) (grid 9) =
    (if lattice_fits c then Inr (lattice_heights (trs_world_seed s) (trs_generator_version s) c)
     else Inl (RecipeLatticeOverflow (fqc_x c) (fqc_y c)))"
proof (cases "lattice_fits c")
  case True
  then have "in_i64 (fqc_x c * 8 + int lx) \<and> in_i64 (fqc_y c * 8 + int ly)" if "lx < 9" "ly < 9" for lx ly
    using that by (auto simp: lattice_fits_def in_i64_def)
  then show ?thesis unfolding lattice_heights_def
    using True by (simp, intro collect_map) (auto simp: height_at_value)
next
  case False
  have all_same: "e = RecipeLatticeOverflow (fqc_x c) (fqc_y c)" if e: "collect (height_at s c (fqc_x c * 8) (fqc_y c * 8)) (grid 9) = Inl e" for e
    using collect_Inl [OF e] by (auto simp: height_at_value split: if_splits)
  have "\<exists>e. height_at s c (fqc_x c * 8) (fqc_y c * 8) (8, 8) = Inl e"
    using False assms by (auto simp: height_at_value lattice_fits_def)
  moreover have "\<exists>h. height_at s c (fqc_x c * 8) (fqc_y c * 8) (8, 8) = Inr h"
    if ys: "collect (height_at s c (fqc_x c * 8) (fqc_y c * 8)) (grid 9) = Inr ys" for ys
    using collect_grid_nth(2) [OF ys, of 80] by simp
  ultimately show ?thesis using all_same False
    by (cases "collect (height_at s c (fqc_x c * 8) (fqc_y c * 8)) (grid 9)") auto
qed

lemma relief_lattice_heights: "i < 81 \<Longrightarrow> relief_ok (lattice_heights seed gen c ! i)"
  using height_bounds by (simp add: lattice_heights_def max_relief_mm_def split: prod.split)

text \<open>The flags of a cell of the generated contract.\<close>

definition cell_grade :: "int list \<Rightarrow> int \<Rightarrow> nat \<times> nat \<Rightarrow> u8" where
  "cell_grade hs size_mm p =
     (let i = fst p * 9 + snd p; n = rise_sq (hs ! i) (hs ! (i + 1)) (hs ! (i + 9)) (hs ! (i + 9 + 1)) * 1000000 * 64
      in if n \<le> size_mm * size_mm * 150 * 150 then cell_walkable OR cell_buildable
         else if n \<le> size_mm * size_mm * 700 * 700 then cell_walkable else cell_blocked)"

lemma flags_at_value:
  assumes "p \<in> set (grid 8)" "size_mm * size_mm * 700 * 700 < 2 ^ 127"
  shows "flags_at (lattice_heights seed gen c) size_mm p = Some (cell_grade (lattice_heights seed gen c) size_mm p)"
proof -
  obtain cy cx where p: "p = (cy, cx)" "cy < 8" "cx < 8" using assms(1) by auto
  note r = relief_lattice_heights [of _ seed gen c]
  have "relief_ok (lattice_heights seed gen c ! (cy * 9 + cx))" "relief_ok (lattice_heights seed gen c ! (cy * 9 + cx + 1))"
    "relief_ok (lattice_heights seed gen c ! (cy * 9 + cx + 9))" "relief_ok (lattice_heights seed gen c ! (cy * 9 + cx + 9 + 1))"
    using p by (intro r; simp)+
  note v = derive_cell_flags_value [OF this assms(2)]
  have "int (9 - 1) = 8" by simp
  then show ?thesis
    unfolding flags_at_def p(1) control_grid_side_def cell_grade_def Let_def prod.case fst_conv snd_conv
    by (simp only: v)
qed

definition generated :: "recipe_settings \<Rightarrow> frontier_quadrant_coord \<Rightarrow> terrain_contract" where
  "generated s c =
     (let hs = lattice_heights (trs_world_seed s) (trs_generator_version s) c
      in \<lparr>tc_version = terrain_authority_contract_version, tc_coord = c, tc_quadrant_size_mm = trs_quadrant_size_mm s,
          tc_generator_version = trs_generator_version s,
          tc_recipe_seed = derive_quadrant_recipe_seed (trs_world_seed s) (trs_generator_version s) c,
          tc_control_grid_side = 9, tc_biome_id = derive_quadrant_biome_id (trs_world_seed s) c,
          tc_elevation_samples_mm = hs, tc_cell_flags = map (cell_grade hs (trs_quadrant_size_mm s)) (grid 8)\<rparr>)"

lemma cell_grade_ok: "cell_grade hs size_mm p \<in> {cell_walkable OR cell_buildable, cell_walkable, cell_blocked}"
  by (simp add: cell_grade_def Let_def)

lemma generated_flags_ok:
  "cell_ok (cell_walkable OR cell_buildable)" "cell_ok cell_walkable" "cell_ok cell_blocked"
  by (simp_all add: cell_ok_def cell_known_mask_def cell_walkable_def cell_buildable_def cell_blocked_def cell_water_def
      cell_connector_corridor_def)

lemma generated_valid:
  assumes "recipe_validate s = Inr s"
  shows "terrain_validate (generated s c) = Inr ()"
proof -
  have "cell_ok (cell_grade hs size_mm p)" for hs size_mm p
    using cell_grade_ok [of hs size_mm p] generated_flags_ok by auto
  with assms show ?thesis
    by (auto simp: terrain_validate_Inr generated_def Let_def recipe_validate_def control_side_ok_def control_points_def
        control_cells_def list_all_iff lattice_heights_def saturating_sub_def split: if_splits)
qed

lemma generate_value:
  assumes "recipe_validate s = Inr s" "trs_quadrant_size_mm s * trs_quadrant_size_mm s * 700 * 700 < 2 ^ 127"
  shows "generate_terrain_authority s c =
    Some (if lattice_fits c then Inr (generated s c) else Inl (RecipeLatticeOverflow (fqc_x c) (fqc_y c)))"
proof (cases "in_i64 (fqc_x c * 8) \<and> in_i64 (fqc_y c * 8)")
  case False
  then show ?thesis
    by (auto simp: generate_terrain_authority_def assms(1) control_grid_side_def checked_mul_i64_def lattice_fits_def)
next
  case True
  note h = collect_heights [OF conjunct1 [OF True] conjunct2 [OF True], of s]
  have f: "those (map (flags_at (lattice_heights seed gen c) (trs_quadrant_size_mm s)) (grid 8)) =
    Some (map (cell_grade (lattice_heights seed gen c) (trs_quadrant_size_mm s)) (grid 8))" for seed gen
    by (rule those_map) (rule flags_at_value [OF _ assms(2)])
  show ?thesis
  proof (cases "lattice_fits c")
    case False
    with True h show ?thesis
      by (simp add: generate_terrain_authority_def assms(1) control_grid_side_def checked_mul_i64_def)
  next
    case fits: True
    note v = generated_valid [OF assms(1), of c, unfolded generated_def Let_def]
    show ?thesis using True h fits f v
      by (simp add: generate_terrain_authority_def assms(1) control_grid_side_def checked_mul_i64_def generated_def Let_def)
  qed
qed


lemma generate_Inr:
  assumes "generate_terrain_authority s c = Some (Inr t)"
  shows "recipe_validate s = Inr s" "lattice_fits c"
    "tc_elevation_samples_mm t = lattice_heights (trs_world_seed s) (trs_generator_version s) c"
    "map Some (tc_cell_flags t) = map (flags_at (tc_elevation_samples_mm t) (trs_quadrant_size_mm s)) (grid 8)"
    "terrain_validate t = Inr ()" "tc_coord t = c" "tc_quadrant_size_mm t = trs_quadrant_size_mm s"
    "tc_generator_version t = trs_generator_version s" "tc_control_grid_side t = 9"
proof -
  have v: "recipe_validate s = Inr s' \<Longrightarrow> s' = s" for s' by (auto simp: recipe_validate_def split: if_splits)
  from assms obtain x y hs fs where s: "recipe_validate s = Inr s"
    and xy: "checked_mul_i64 (fqc_x c) 8 = Some x" "checked_mul_i64 (fqc_y c) 8 = Some y"
    and hs: "collect (height_at s c x y) (grid 9) = Inr hs"
    and fs: "those (map (flags_at hs (trs_quadrant_size_mm s)) (grid 8)) = Some fs"
    and t: "terrain_validate t = Inr ()" "tc_coord t = c" "tc_quadrant_size_mm t = trs_quadrant_size_mm s"
      "tc_generator_version t = trs_generator_version s" "tc_control_grid_side t = 9"
      "tc_elevation_samples_mm t = hs" "tc_cell_flags t = fs"
    by (auto simp: generate_terrain_authority_def control_grid_side_def Let_def dest!: v
        split: sum.splits option.splits)
  have c: "in_i64 (fqc_x c * 8)" "in_i64 (fqc_y c * 8)" "x = fqc_x c * 8" "y = fqc_y c * 8"
    using xy by (auto simp: checked_mul_i64_Some)
  have "lattice_fits c \<and> hs = lattice_heights (trs_world_seed s) (trs_generator_version s) c"
    using hs collect_heights [OF c(1,2), of s] by (simp add: c split: if_splits)
  with s t fs show "recipe_validate s = Inr s" "lattice_fits c"
    "tc_elevation_samples_mm t = lattice_heights (trs_world_seed s) (trs_generator_version s) c"
    "map Some (tc_cell_flags t) = map (flags_at (tc_elevation_samples_mm t) (trs_quadrant_size_mm s)) (grid 8)"
    "terrain_validate t = Inr ()" "tc_coord t = c" "tc_quadrant_size_mm t = trs_quadrant_size_mm s"
    "tc_generator_version t = trs_generator_version s" "tc_control_grid_side t = 9"
    by (simp_all add: those_Some)
qed

section \<open>The summary of a contract\<close>

record terrain_summary =
  su_total_cells :: nat
  su_walkable_cells :: nat
  su_buildable_cells :: nat
  su_blocked_cells :: nat
  su_water_cells :: nat
  su_connector_corridor_cells :: nat

definition count_flags :: "terrain_summary \<Rightarrow> u8 \<Rightarrow> terrain_summary" where
  "count_flags su flags =
     (let su1 = (if flags AND cell_walkable \<noteq> 0 then su\<lparr>su_walkable_cells := su_walkable_cells su + 1\<rparr> else su);
          su2 = (if flags AND cell_buildable \<noteq> 0 then su1\<lparr>su_buildable_cells := su_buildable_cells su1 + 1\<rparr> else su1);
          su3 = (if flags AND cell_blocked \<noteq> 0 then su2\<lparr>su_blocked_cells := su_blocked_cells su2 + 1\<rparr> else su2);
          su4 = (if flags AND cell_water \<noteq> 0 then su3\<lparr>su_water_cells := su_water_cells su3 + 1\<rparr> else su3)
      in if flags AND cell_connector_corridor \<noteq> 0
         then su4\<lparr>su_connector_corridor_cells := su_connector_corridor_cells su4 + 1\<rparr> else su4)"

definition summary_from_contract :: "terrain_contract \<Rightarrow> terrain_summary" where
  "summary_from_contract t =
     foldl count_flags \<lparr>su_total_cells = length (tc_cell_flags t), su_walkable_cells = 0, su_buildable_cells = 0,
       su_blocked_cells = 0, su_water_cells = 0, su_connector_corridor_cells = 0\<rparr> (tc_cell_flags t)"

definition classified_ground_cells :: "terrain_summary \<Rightarrow> nat" where
  "classified_ground_cells su = su_walkable_cells su + su_blocked_cells su"

lemma foldl_count_flags:
  "su_total_cells (foldl count_flags su fs) = su_total_cells su"
  "su_walkable_cells (foldl count_flags su fs) = su_walkable_cells su + length [f \<leftarrow> fs. f AND cell_walkable \<noteq> 0]"
  "su_buildable_cells (foldl count_flags su fs) = su_buildable_cells su + length [f \<leftarrow> fs. f AND cell_buildable \<noteq> 0]"
  "su_blocked_cells (foldl count_flags su fs) = su_blocked_cells su + length [f \<leftarrow> fs. f AND cell_blocked \<noteq> 0]"
  "su_water_cells (foldl count_flags su fs) = su_water_cells su + length [f \<leftarrow> fs. f AND cell_water \<noteq> 0]"
  by (induction fs arbitrary: su) (simp_all add: count_flags_def Let_def)

section \<open>The artifact\<close>

record terrain_artifact =
  ta_contract :: terrain_contract
  ta_canonical_bytes :: "u8 list"
  ta_fingerprint :: "u8 list"

text \<open>The bytes of \<open>AURENFALL_TERRAIN_AUTHORITY_ARTIFACT_V1\<close>.\<close>

definition artifact_domain :: "u8 list" where
  "artifact_domain = [65, 85, 82, 69, 78, 70, 65, 76, 76, 95, 84, 69, 82, 82, 65, 73, 78, 95, 65, 85, 84, 72, 79, 82, 73,
     84, 89, 95, 65, 82, 84, 73, 70, 65, 67, 84, 95, 86, 49]"

definition encode_canonical_contract :: "terrain_contract \<Rightarrow> u8 list" where
  "encode_canonical_contract t =
     artifact_domain @ to_le_bytes (tc_version t) @ i64_le_bytes (fqc_x (tc_coord t)) @ i64_le_bytes (fqc_y (tc_coord t))
       @ i64_le_bytes (tc_quadrant_size_mm t) @ to_le_bytes (tc_generator_version t) @ to_le_bytes (tc_recipe_seed t)
       @ to_le_bytes (tc_control_grid_side t) @ to_le_bytes (of_nat (length (tc_elevation_samples_mm t)) :: u32)
       @ concat (map i32_le_bytes (tc_elevation_samples_mm t))
       @ to_le_bytes (of_nat (length (tc_cell_flags t)) :: u32) @ tc_cell_flags t"

definition artifact_from_contract :: "(u8 list \<Rightarrow> u8 list) \<Rightarrow> terrain_contract \<Rightarrow> terrain_artifact" where
  "artifact_from_contract hash t =
     (let bytes = encode_canonical_contract t
      in \<lparr>ta_contract = t, ta_canonical_bytes = bytes, ta_fingerprint = hash bytes\<rparr>)"

definition artifact_byte_len :: "terrain_artifact \<Rightarrow> u64" where
  "artifact_byte_len a = of_nat (length (ta_canonical_bytes a))"

lemma concat_i32_inject:
  assumes "list_all in_i32 xs" "list_all in_i32 ys" "length xs = length ys"
    "concat (map i32_le_bytes xs) = concat (map i32_le_bytes ys)"
  shows "xs = ys"
  using assms(3,1,2,4)
proof (induction xs ys rule: list_induct2)
  case (Cons x xs y ys)
  have e: "i32_le_bytes x = i32_le_bytes y" "concat (map i32_le_bytes xs) = concat (map i32_le_bytes ys)"
    using Cons.prems(3) by simp_all
  have "i32_from_le_bytes (i32_le_bytes x) = x" "i32_from_le_bytes (i32_le_bytes y) = y"
    using Cons.prems(1,2) by simp_all
  then have "x = y" using e(1) by metis
  moreover have "list_all in_i32 xs" "list_all in_i32 ys" using Cons.prems(1,2) by simp_all
  then have "xs = ys" by (rule Cons.IH) (rule e(2))
  ultimately show ?case by simp
qed simp

text \<open>The canonical bytes of valid contracts determine everything in them except the biome.\<close>

lemma encode_canonical_inject:
  assumes "terrain_valid t" "terrain_valid t'"
  shows "encode_canonical_contract t = encode_canonical_contract t' \<longleftrightarrow> t\<lparr>tc_biome_id := 0\<rparr> = t'\<lparr>tc_biome_id := 0\<rparr>"
proof
  assume "t\<lparr>tc_biome_id := 0\<rparr> = t'\<lparr>tc_biome_id := 0\<rparr>"
  then show "encode_canonical_contract t = encode_canonical_contract t'"
    by (cases t; cases t') (simp add: encode_canonical_contract_def)
next
  assume e: "encode_canonical_contract t = encode_canonical_contract t'"
  have n: "length (tc_elevation_samples_mm u) < 2 ^ 32" "length (tc_cell_flags u) < 2 ^ 32" if "terrain_valid u" for u
  proof -
    have "control_side_ok (tc_control_grid_side u)"
      "length (tc_elevation_samples_mm u) = control_points (tc_control_grid_side u)"
      "length (tc_cell_flags u) = control_cells (tc_control_grid_side u)"
      using that by (simp_all add: terrain_valid_def terrain_validate_Inr)
    with control_side_bound [of "tc_control_grid_side u"]
    show "length (tc_elevation_samples_mm u) < 2 ^ 32" "length (tc_cell_flags u) < 2 ^ 32" by simp_all
  qed
  note inj = to_le_bytes_inject [where 'a = 16, simplified] to_le_bytes_inject [where 'a = 32, simplified]
    to_le_bytes_inject [where 'a = 64, simplified]
  have f: "tc_version t = tc_version t'" "i64_le_bytes (fqc_x (tc_coord t)) = i64_le_bytes (fqc_x (tc_coord t'))"
    "i64_le_bytes (fqc_y (tc_coord t)) = i64_le_bytes (fqc_y (tc_coord t'))"
    "i64_le_bytes (tc_quadrant_size_mm t) = i64_le_bytes (tc_quadrant_size_mm t')"
    "tc_generator_version t = tc_generator_version t'" "tc_recipe_seed t = tc_recipe_seed t'"
    "tc_control_grid_side t = tc_control_grid_side t'"
    and n1: "(of_nat (length (tc_elevation_samples_mm t)) :: u32) = of_nat (length (tc_elevation_samples_mm t'))"
    and r: "concat (map i32_le_bytes (tc_elevation_samples_mm t)) @ to_le_bytes (of_nat (length (tc_cell_flags t)) :: u32)
        @ tc_cell_flags t =
      concat (map i32_le_bytes (tc_elevation_samples_mm t')) @ to_le_bytes (of_nat (length (tc_cell_flags t')) :: u32)
        @ tc_cell_flags t'"
    using e by (simp_all add: encode_canonical_contract_def inj)
  have "unat (of_nat (length (tc_elevation_samples_mm u)) :: u32) = length (tc_elevation_samples_mm u)"
    if "terrain_valid u" for u using n(1) [OF that] by (simp add: unat_of_nat take_bit_nat_eq_self)
  then have len: "length (tc_elevation_samples_mm t) = length (tc_elevation_samples_mm t')"
    using n1 assms by metis
  then have "concat (map i32_le_bytes (tc_elevation_samples_mm t)) = concat (map i32_le_bytes (tc_elevation_samples_mm t'))"
    "tc_cell_flags t = tc_cell_flags t'"
    using r by (simp_all add: samples.length_concat)
  moreover from this(1) have "tc_elevation_samples_mm t = tc_elevation_samples_mm t'"
    using assms len by (intro concat_i32_inject) (simp_all add: terrain_valid_def)
  moreover have "tc_coord t = tc_coord t'" "tc_quadrant_size_mm t = tc_quadrant_size_mm t'"
    using f(2-4) assms by (simp_all add: terrain_valid_def coord_fits_def i64_le_bytes_inject frontier_quadrant_coord.expand)
  ultimately show "t\<lparr>tc_biome_id := 0\<rparr> = t'\<lparr>tc_biome_id := 0\<rparr>"
    using f by (cases t; cases t') simp
qed


section \<open>What the flags mean\<close>

lemma grade_limit_Some: "grade_limit q g = Some v \<Longrightarrow> v = q * g * g"
  by (auto simp: grade_limit_def checked_mul_i128_def bind_eq_Some_conv split: if_splits)

lemma derive_cell_flags_Some:
  assumes "relief_ok a" "relief_ok b" "relief_ok c" "relief_ok d" "derive_cell_flags a b c d size_mm 8 = Some f"
  shows "(f = cell_walkable OR cell_buildable \<and> rise_sq a b c d * 1000000 * 64 \<le> size_mm * size_mm * 150 * 150) \<or>
    (f = cell_walkable \<and> rise_sq a b c d * 1000000 * 64 \<le> size_mm * size_mm * 700 * 700) \<or>
    (f = cell_blocked \<and> size_mm * size_mm * 700 * 700 < rise_sq a b c d * 1000000 * 64)"
proof -
  note d = assms(1-4) [THEN i32_distance_relief]
  have r: "Option.bind (checked_mul_i128 r 1000000) (\<lambda>v. checked_mul_i128 v (8 * 8)) = Some n \<Longrightarrow> n = r * 1000000 * 64" for r n
    by (auto simp: checked_mul_i128_def bind_eq_Some_conv split: if_splits)
  from assms(5) show ?thesis
    unfolding derive_cell_flags_def d [OF assms(1)] d [OF assms(2)] d [OF assms(3)] d [OF assms(4)] prod.case option.case
      Let_def d assms(1-4) rise_sq_def [unfolded Let_def, symmetric]
    by (simp only: split: option.splits if_splits) (auto dest!: r grade_limit_Some simp only: option.simps)
qed


section \<open>Properties\<close>

text \<open>
  C19: the terrain recipe never produces a contract its own validation refuses: for settings it accepts, with a size whose
  steepest grade fits 128 bits, it returns a valid contract of the quadrant, all heights within the relief and every
  cell either walkable or blocked, unless the quadrant's control points have no 64-bit coordinate, and then it says so.
\<close>

theorem terrain_generation_total:
  assumes "recipe_validate s = Inr s" "in_i64 (trs_quadrant_size_mm s)" "coord_fits c"
    and "trs_quadrant_size_mm s * trs_quadrant_size_mm s * 700 * 700 < 2 ^ 127"
  shows "if lattice_fits c
    then \<exists>t. generate_terrain_authority s c = Some (Inr t) \<and> terrain_valid t \<and> tc_coord t = c \<and>
      (\<forall>i < 81. \<bar>tc_elevation_samples_mm t ! i\<bar> \<le> max_relief_mm) \<and>
      classified_ground_cells (summary_from_contract t) = 64 \<and> su_water_cells (summary_from_contract t) = 0
    else generate_terrain_authority s c = Some (Inl (RecipeLatticeOverflow (fqc_x c) (fqc_y c)))"
proof (cases "lattice_fits c")
  case True
  have g: "generate_terrain_authority s c = Some (Inr (generated s c))"
    using generate_value [OF assms(1,4), of c] True by simp
  have r: "relief_ok (lattice_heights seed gen c ! i)" if "i < 81" for i seed gen
    by (rule relief_lattice_heights [OF that])
  then have i32: "list_all in_i32 (lattice_heights seed gen c)" for seed gen
  proof -
    have "in_i32 (lattice_heights seed gen c ! i)" if "i < 81" for i
      using r [OF that, of seed gen] by (simp add: in_i32_def abs_le_iff)
    moreover have "length (lattice_heights seed gen c) = 81" by (simp add: lattice_heights_def)
    ultimately show ?thesis by (simp add: list_all_length)
  qed
  let ?fs = "map (cell_grade (lattice_heights (trs_world_seed s) (trs_generator_version s) c) (trs_quadrant_size_mm s)) (grid 8)"
  have count: "length [f \<leftarrow> fs. f AND cell_walkable \<noteq> 0] + length [f \<leftarrow> fs. f AND cell_blocked \<noteq> 0] = length fs \<and>
      [f \<leftarrow> fs. f AND cell_water \<noteq> 0] = []"
    if "set fs \<subseteq> {cell_walkable OR cell_buildable, cell_walkable, cell_blocked}" for fs :: "u8 list"
    using that
    by (induction fs) (auto simp: cell_walkable_def cell_buildable_def cell_blocked_def cell_water_def)
  have "set ?fs \<subseteq> {cell_walkable OR cell_buildable, cell_walkable, cell_blocked}" using cell_grade_ok by auto
  from count [OF this]
  have su: "classified_ground_cells (summary_from_contract (generated s c)) = 64"
    "su_water_cells (summary_from_contract (generated s c)) = 0"
    by (simp_all add: classified_ground_cells_def summary_from_contract_def foldl_count_flags generated_def Let_def)
  have "terrain_valid (generated s c)"
    using generated_valid [OF assms(1), of c] i32 assms(2,3) by (simp add: terrain_valid_def generated_def Let_def)
  with True g su r show ?thesis by (simp add: generated_def Let_def max_relief_mm_def)
next
  case False
  then show ?thesis using generate_value [OF assms(1,4), of c] by simp
qed

definition sample_settings :: recipe_settings where
  "sample_settings = \<lparr>trs_quadrant_size_mm = 64000, trs_generator_version = 1, trs_world_seed = 0xA11CEFA11A11CE01\<rparr>"

lemma sample_settings_ok:
  "recipe_validate sample_settings = Inr sample_settings"
  "trs_quadrant_size_mm sample_settings * trs_quadrant_size_mm sample_settings * 700 * 700 < 2 ^ 127"
  by (simp_all add: recipe_validate_def sample_settings_def)

theorem terrain_generation_total_witness:
  "(\<exists>t. generate_terrain_authority sample_settings (FrontierQuadrantCoord 2 (- 3)) = Some (Inr t) \<and> terrain_valid t) \<and>
   generate_terrain_authority sample_settings (FrontierQuadrantCoord (2 ^ 63 - 1) 0) =
     Some (Inl (RecipeLatticeOverflow (2 ^ 63 - 1) 0))"
  using terrain_generation_total [OF sample_settings_ok(1) _ _ sample_settings_ok(2), of "FrontierQuadrantCoord 2 (- 3)"]
    terrain_generation_total [OF sample_settings_ok(1) _ _ sample_settings_ok(2), of "FrontierQuadrantCoord (2 ^ 63 - 1) 0"]
  by (auto simp: sample_settings_def lattice_fits_def coord_fits_def in_i64_def)

text \<open>
  C21: neighbouring quadrants meet without a seam: the last column of heights of a quadrant is the first one of the
  quadrant east of it, and its last row the first one of the quadrant north of it.
\<close>

theorem terrain_edges_seamless:
  assumes "generate_terrain_authority s (FrontierQuadrantCoord x y) = Some (Inr t)"
    and "generate_terrain_authority s (FrontierQuadrantCoord (x + 1) y) = Some (Inr east)"
    and "generate_terrain_authority s (FrontierQuadrantCoord x (y + 1)) = Some (Inr north)"
    and "k < 9"
  shows "tc_elevation_samples_mm t ! (k * 9 + 8) = tc_elevation_samples_mm east ! (k * 9) \<and>
    tc_elevation_samples_mm t ! (72 + k) = tc_elevation_samples_mm north ! k"
proof -
  note h = generate_Inr(3) [OF assms(1)] generate_Inr(3) [OF assms(2)] generate_Inr(3) [OF assms(3)]
  show ?thesis
    using lattice_heights_nth [of k 8] lattice_heights_nth [of k 0] lattice_heights_nth [of 8 k]
      lattice_heights_nth [of 0 k] assms(4)
    by (simp add: h algebra_simps)
qed

theorem terrain_edges_seamless_witness:
  "tc_elevation_samples_mm (generated sample_settings (FrontierQuadrantCoord 0 0)) ! 17 =
   tc_elevation_samples_mm (generated sample_settings (FrontierQuadrantCoord 1 0)) ! 9"
proof -
  have g: "generate_terrain_authority sample_settings (FrontierQuadrantCoord x y) =
    Some (Inr (generated sample_settings (FrontierQuadrantCoord x y)))" if "x \<in> {0, 1}" "y \<in> {0, 1}" for x y
    using generate_value [OF sample_settings_ok, of "FrontierQuadrantCoord x y"] that
    by (auto simp: lattice_fits_def in_i64_def)
  have "tc_elevation_samples_mm (generated sample_settings (FrontierQuadrantCoord 0 0)) ! (1 * 9 + 8) =
      tc_elevation_samples_mm (generated sample_settings (FrontierQuadrantCoord 1 0)) ! (1 * 9) \<and>
    tc_elevation_samples_mm (generated sample_settings (FrontierQuadrantCoord 0 0)) ! (72 + 1) =
      tc_elevation_samples_mm (generated sample_settings (FrontierQuadrantCoord 0 1)) ! 1"
    by (rule terrain_edges_seamless [of sample_settings 0 0]) (use g [of 0 0] g [of 1 0] g [of 0 1] in simp_all)
  then show ?thesis by simp
qed

text \<open>
  C22: the semantics of a generated cell bound its slope: every edge of a walkable cell rises at most 700 per mille of a
  cell's width, every edge of a buildable cell at most 150, and a cell is either walkable or blocked.
\<close>

theorem terrain_flags_bound_slope:
  assumes "generate_terrain_authority s c = Some (Inr t)" "cy < 8" "cx < 8"
    and "i = cy * 9 + cx" "f = tc_cell_flags t ! (cy * 8 + cx)" "h = (\<lambda>i. tc_elevation_samples_mm t ! i)"
    and "e \<in> {\<bar>h (i + 1) - h i\<bar>, \<bar>h (i + 10) - h (i + 9)\<bar>, \<bar>h (i + 9) - h i\<bar>, \<bar>h (i + 10) - h (i + 1)\<bar>}"
  shows "(f AND cell_walkable \<noteq> 0 \<longrightarrow> e * 8000 \<le> 700 * trs_quadrant_size_mm s) \<and>
    (f AND cell_buildable \<noteq> 0 \<longrightarrow> e * 8000 \<le> 150 * trs_quadrant_size_mm s) \<and>
    (f AND cell_walkable \<noteq> 0 \<longleftrightarrow> f AND cell_blocked = 0)"
proof -
  note g = generate_Inr [OF assms(1)]
  let ?s = "trs_quadrant_size_mm s"
  have j: "cy * 8 + cx < 8 * 8" using assms(2,3) by (rule grid_index)
  have "length (tc_cell_flags t) = 64" using arg_cong [OF g(4), of length] by simp
  then have "Some f = flags_at (tc_elevation_samples_mm t) ?s (grid 8 ! (cy * 8 + cx))"
    using arg_cong [OF g(4), of "\<lambda>xs. xs ! (cy * 8 + cx)"] j by (simp add: assms(5))
  then have f: "derive_cell_flags (h i) (h (i + 1)) (h (i + 9)) (h (i + 10)) ?s 8 = Some f"
    using grid_nth [OF j] assms(3) by (simp add: flags_at_def control_grid_side_def assms(4,6) Let_def add.commute)
  have r: "relief_ok (h k)" if "k < 81" for k
    unfolding assms(6) g(3) by (rule relief_lattice_heights [OF that])
  have b: "i + 10 < 81" using assms(2-4) by simp
  have pos: "0 \<le> ?s" using g(1) by (simp add: recipe_validate_def split: if_splits)
  note edge = rise_sq_edges [OF _ pos _ assms(7)]
  have "(f = cell_walkable OR cell_buildable \<and> e * 8000 \<le> 150 * ?s) \<or> (f = cell_walkable \<and> e * 8000 \<le> 700 * ?s) \<or>
    f = cell_blocked"
    using derive_cell_flags_Some [OF r r r r f] b edge [of 150] edge [of 700] by fastforce
  moreover have "150 * ?s \<le> 700 * ?s" using pos by simp
  ultimately show ?thesis
    by (auto simp: cell_walkable_def cell_buildable_def cell_blocked_def)
qed

theorem terrain_flags_bound_slope_witness:
  "let t = generated sample_settings (FrontierQuadrantCoord 0 0)
   in (tc_cell_flags t ! 0 AND cell_walkable \<noteq> 0) = (tc_cell_flags t ! 0 AND cell_blocked = 0)"
proof -
  have "generate_terrain_authority sample_settings (FrontierQuadrantCoord 0 0) =
    Some (Inr (generated sample_settings (FrontierQuadrantCoord 0 0)))"
    using generate_value [OF sample_settings_ok, of "FrontierQuadrantCoord 0 0"] by (simp add: lattice_fits_def in_i64_def)
  from terrain_flags_bound_slope [OF this, of 0 0, OF _ _ refl refl refl insertI1] show ?thesis by (simp add: Let_def)
qed

text \<open>
  C25: the fingerprint of an artifact covers everything in its contract except the biome: the hashed bytes of two valid
  contracts are equal exactly when the contracts agree up to the biome.
\<close>

theorem artifact_bytes_identify_contract:
  assumes "terrain_valid t" "terrain_valid t'"
  shows "ta_canonical_bytes (artifact_from_contract hash t) = ta_canonical_bytes (artifact_from_contract hash t') \<longleftrightarrow>
    t\<lparr>tc_biome_id := 0\<rparr> = t'\<lparr>tc_biome_id := 0\<rparr>"
  using encode_canonical_inject [OF assms] by (simp add: artifact_from_contract_def Let_def)

definition flat_contract :: "u8 \<Rightarrow> terrain_contract" where
  "flat_contract biome = \<lparr>tc_version = 1, tc_coord = FrontierQuadrantCoord 4 (- 7), tc_quadrant_size_mm = 64000,
     tc_generator_version = 1, tc_recipe_seed = 661006, tc_control_grid_side = 2, tc_biome_id = biome,
     tc_elevation_samples_mm = [0, 100, 200, - 100], tc_cell_flags = [3]\<rparr>"

theorem artifact_bytes_identify_contract_witness:
  "ta_canonical_bytes (artifact_from_contract id (flat_contract 1)) =
   ta_canonical_bytes (artifact_from_contract id (flat_contract 2))"
proof -
  have "terrain_valid (flat_contract biome)" for biome
    by (simp add: terrain_valid_def terrain_validate_Inr flat_contract_def terrain_authority_contract_version_def
        control_side_ok_def control_points_def control_cells_def saturating_sub_def cell_ok_def cell_known_mask_def
        cell_walkable_def cell_buildable_def cell_water_def cell_blocked_def cell_connector_corridor_def in_i64_def
        in_i32_def coord_fits_def)
  from artifact_bytes_identify_contract [OF this this, of id 1 2] show ?thesis by (simp add: flat_contract_def)
qed

text \<open>
  C39: the settings are validated, but the comparison of grades is not: a quadrant size whose square times the
  buildable grade squared exceeds 128 bits is accepted and then overflows on the first cell.
\<close>

theorem terrain_large_quadrant_panics:
  assumes "recipe_validate s = Inr s" "lattice_fits c"
    and "2 ^ 127 \<le> trs_quadrant_size_mm s * trs_quadrant_size_mm s * 150 * 150"
  shows "generate_terrain_authority s c = None"
proof -
  let ?hs = "lattice_heights (trs_world_seed s) (trs_generator_version s) c" and ?s = "trs_quadrant_size_mm s"
  have c: "in_i64 (fqc_x c * 8)" "in_i64 (fqc_y c * 8)" using assms(2) by (simp_all add: lattice_fits_def)
  have "grade_limit (?s * ?s) 150 = None"
    using assms(3) by (simp add: grade_limit_value)
  then have none: "derive_cell_flags h00 h10 h01 h11 ?s k = None" for h00 h10 h01 h11 k
    by (simp add: derive_cell_flags_def Let_def split: option.split)
  have "those (map (flags_at ?hs ?s) (grid 8)) = None"
  proof (rule ccontr)
    assume "those (map (flags_at ?hs ?s) (grid 8)) \<noteq> None"
    then obtain ys where "map (flags_at ?hs ?s) (grid 8) = map Some ys" by (auto simp: those_Some)
    from arg_cong [OF this, of "\<lambda>xs. xs ! 0"] arg_cong [OF this, of length] show False
      by (simp add: flags_at_def none Let_def split: prod.splits)
  qed
  then show ?thesis
    using collect_heights [OF c, of s] assms(1,2) c
    by (simp add: generate_terrain_authority_def control_grid_side_def checked_mul_i64_def)
qed

theorem terrain_large_quadrant_panics_witness:
  "generate_terrain_authority \<lparr>trs_quadrant_size_mm = 10 ^ 18, trs_generator_version = 1, trs_world_seed = 7\<rparr>
     (FrontierQuadrantCoord 0 0) = None"
  by (rule terrain_large_quadrant_panics) (simp_all add: recipe_validate_def lattice_fits_def in_i64_def)

end
