(* ===== verification/Terrain_Environment.thy ===== *)
theory Terrain_Environment
  imports Terrain
begin

unbundle bit_operations_syntax

text \<open>
  The environment policy of a quadrant, crates/terrain/src/environment\_presentation.rs: for every cell the visual
  families a client may choose from, by the semantics of the cell and a hash of its place. blake3 is the argument
  \<open>hash\<close>; a hasher fed with several updates hashes their concatenation, and its digest has 32 bytes.
\<close>

section \<open>Definitions\<close>

definition policy_generator_version :: u32 where
  "policy_generator_version = 1"

datatype environment_generation_error =
  EnvironmentInvalidTerrain terrain_contract_error
| EnvironmentLatticeOverflow int int
| EnvironmentInvalidGenerated environment_policy_error

text \<open>The bytes of \<open>aurenfall/environment-policy-seed/v1\<close> and \<open>aurenfall/environment-policy-cell/v1\<close>.\<close>

definition policy_seed_domain :: "u8 list" where
  "policy_seed_domain = [97, 117, 114, 101, 110, 102, 97, 108, 108, 47, 101, 110, 118, 105, 114, 111, 110, 109, 101, 110,
     116, 45, 112, 111, 108, 105, 99, 121, 45, 115, 101, 101, 100, 47, 118, 49]"

definition policy_cell_domain :: "u8 list" where
  "policy_cell_domain = [97, 117, 114, 101, 110, 102, 97, 108, 108, 47, 101, 110, 118, 105, 114, 111, 110, 109, 101, 110,
     116, 45, 112, 111, 108, 105, 99, 121, 45, 99, 101, 108, 108, 47, 118, 49]"

definition digest_prefix_u64 :: "u8 list \<Rightarrow> u64" where
  "digest_prefix_u64 digest = from_le_bytes (take 8 digest)"

definition derive_environment_policy_seed :: "(u8 list \<Rightarrow> u8 list) \<Rightarrow> u64 \<Rightarrow> terrain_contract \<Rightarrow> u64" where
  "derive_environment_policy_seed hash seed t =
     digest_prefix_u64 (hash (policy_seed_domain @ to_le_bytes seed @ to_le_bytes (tc_generator_version t)
       @ to_le_bytes policy_generator_version @ to_le_bytes (tc_recipe_seed t)
       @ i64_le_bytes (fqc_x (tc_coord t)) @ i64_le_bytes (fqc_y (tc_coord t))))"

definition derive_global_cell_morphology :: "(u8 list \<Rightarrow> u8 list) \<Rightarrow> u64 \<Rightarrow> u32 \<Rightarrow> int \<Rightarrow> int \<Rightarrow> u64" where
  "derive_global_cell_morphology hash seed gen gx gy =
     digest_prefix_u64 (hash (policy_cell_domain @ to_le_bytes seed @ to_le_bytes gen
       @ to_le_bytes policy_generator_version @ i64_le_bytes gx @ i64_le_bytes gy))"

definition derive_allowed_family_mask :: "u8 \<Rightarrow> u64 \<Rightarrow> u16" where
  "derive_allowed_family_mask flags morphology =
     (if flags AND cell_water \<noteq> 0 then 0
      else if flags AND cell_blocked \<noteq> 0
      then (let m = morphology AND 3
            in if m = 0 then family_rock
               else if m = 1 then family_shrub OR family_rock
               else if m = 2 then family_tree OR family_rock
               else family_shrub OR family_tree OR family_rock)
      else if flags AND cell_connector_corridor \<noteq> 0 then family_ground_cover
      else if flags AND cell_buildable \<noteq> 0
      then (let m = morphology AND 3
            in if m = 0 then 0
               else if m = 1 then family_ground_cover
               else family_ground_cover OR family_small_plant)
      else if flags AND cell_walkable \<noteq> 0
      then (let m = morphology AND 7
            in if m = 0 then 0
               else if m = 1 then family_ground_cover
               else if m = 2 then family_ground_cover OR family_small_plant
               else if m = 3 then family_ground_cover OR family_shrub
               else if m = 4 then family_ground_cover OR family_small_plant OR family_shrub
               else if m = 5 then family_ground_cover OR family_tree
               else if m = 6 then family_ground_cover OR family_rock
               else family_ground_cover OR family_small_plant OR family_shrub OR family_tree OR family_rock)
      else 0)"

definition policy_mask_at ::
  "(u8 list \<Rightarrow> u8 list) \<Rightarrow> u64 \<Rightarrow> terrain_contract \<Rightarrow> nat \<Rightarrow> int \<Rightarrow> int \<Rightarrow> nat \<times> nat \<Rightarrow> environment_generation_error + u16" where
  "policy_mask_at hash seed t cell_side base_x base_y p =
     (case p of (local_y, local_x) \<Rightarrow>
        (case checked_add_i64 base_x (int local_x) of
           None \<Rightarrow> Inl (EnvironmentLatticeOverflow (fqc_x (tc_coord t)) (fqc_y (tc_coord t)))
         | Some gx \<Rightarrow>
             (case checked_add_i64 base_y (int local_y) of
                None \<Rightarrow> Inl (EnvironmentLatticeOverflow (fqc_x (tc_coord t)) (fqc_y (tc_coord t)))
              | Some gy \<Rightarrow>
                  Inr (derive_allowed_family_mask (tc_cell_flags t ! (local_y * cell_side + local_x))
                    (derive_global_cell_morphology hash seed (tc_generator_version t) gx gy)))))"

definition generate_environment_policy ::
  "(u8 list \<Rightarrow> u8 list) \<Rightarrow> u64 \<Rightarrow> terrain_contract \<Rightarrow> environment_generation_error + environment_policy" where
  "generate_environment_policy hash seed t =
     (let overflow = Inl (EnvironmentLatticeOverflow (fqc_x (tc_coord t)) (fqc_y (tc_coord t)))
      in case terrain_validate t of
           Inl e \<Rightarrow> Inl (EnvironmentInvalidTerrain e)
         | Inr _ \<Rightarrow>
             (let cell_side = unat (tc_control_grid_side t) - 1
              in case checked_mul_i64 (fqc_x (tc_coord t)) (int cell_side) of None \<Rightarrow> overflow | Some base_x \<Rightarrow>
                 (case checked_mul_i64 (fqc_y (tc_coord t)) (int cell_side) of None \<Rightarrow> overflow | Some base_y \<Rightarrow>
                 (case collect (policy_mask_at hash seed t cell_side base_x base_y) (grid cell_side) of
                    Inl e \<Rightarrow> Inl e
                  | Inr fams \<Rightarrow>
                      (let p = \<lparr>ep_version = environment_policy_version, ep_coord = tc_coord t,
                         ep_terrain_generator_version = tc_generator_version t,
                         ep_policy_generator_version = policy_generator_version,
                         ep_policy_seed = derive_environment_policy_seed hash seed t,
                         ep_control_grid_side = tc_control_grid_side t, ep_cell_family_masks = fams\<rparr>
                       in case environment_validate p of
                            Inl e \<Rightarrow> Inl (EnvironmentInvalidGenerated e)
                          | Inr _ \<Rightarrow> Inr p)))))"

section \<open>Masks\<close>

lemmas family_defs = family_ground_cover_def family_small_plant_def family_shrub_def family_tree_def family_rock_def

lemma mask_known: "derive_allowed_family_mask flags m AND NOT family_known_mask = 0"
  by (simp add: derive_allowed_family_mask_def Let_def family_known_mask_def family_defs)

text \<open>What the semantics of a cell rule out.\<close>

definition mask_respects :: "u8 \<Rightarrow> u16 \<Rightarrow> bool" where
  "mask_respects flags fams \<longleftrightarrow>
     (flags AND cell_water \<noteq> 0 \<longrightarrow> fams = 0) \<and>
     (flags AND cell_blocked \<noteq> 0 \<longrightarrow> fams AND (family_ground_cover OR family_small_plant) = 0) \<and>
     (flags AND cell_buildable \<noteq> 0 \<longrightarrow> fams AND (family_shrub OR family_tree OR family_rock) = 0) \<and>
     (flags AND cell_connector_corridor \<noteq> 0 \<and> flags AND cell_blocked = 0 \<longrightarrow>
        fams AND NOT family_ground_cover = 0)"

lemma mask_respects_cell:
  assumes "cell_ok flags"
  shows "mask_respects flags (derive_allowed_family_mask flags m)"
proof -
  have "flags AND cell_buildable \<noteq> 0 \<Longrightarrow> flags AND cell_blocked = 0 \<and> flags AND cell_water = 0"
    using assms by (auto simp: cell_ok_def)
  then show ?thesis
    by (auto simp: mask_respects_def derive_allowed_family_mask_def Let_def family_defs)
qed

text \<open>The cells of a quadrant have coordinates.\<close>

definition cells_fit :: "frontier_quadrant_coord \<Rightarrow> nat \<Rightarrow> bool" where
  "cells_fit q k \<longleftrightarrow> in_i64 (fqc_x q * int k) \<and> in_i64 (fqc_x q * int k + (int k - 1)) \<and>
     in_i64 (fqc_y q * int k) \<and> in_i64 (fqc_y q * int k + (int k - 1))"

lemma environment_policy_value:
  assumes "terrain_validate t = Inr ()" "k = unat (tc_control_grid_side t) - 1" "cells_fit (tc_coord t) k"
  shows "\<exists>p. generate_environment_policy hash seed t = Inr p \<and> environment_validate p = Inr () \<and>
    ep_coord p = tc_coord t \<and>
    ep_terrain_generator_version p = tc_generator_version t \<and> ep_control_grid_side p = tc_control_grid_side t \<and>
    length (ep_cell_family_masks p) = k * k \<and>
    (\<forall>i < k * k. mask_respects (tc_cell_flags t ! i) (ep_cell_family_masks p ! i))"
proof -
  let ?x = "fqc_x (tc_coord t) * int k" and ?y = "fqc_y (tc_coord t) * int k"
  define g where "g = (\<lambda>p :: nat \<times> nat. derive_allowed_family_mask (tc_cell_flags t ! (fst p * k + snd p))
    (derive_global_cell_morphology hash seed (tc_generator_version t) (?x + int (snd p)) (?y + int (fst p))))"
  have v: "length (tc_cell_flags t) = k * k" "list_all cell_ok (tc_cell_flags t)" "tc_generator_version t \<noteq> 0"
    "control_side_ok (tc_control_grid_side t)" "control_cells (tc_control_grid_side t) = k * k"
    using assms(1,2) by (simp_all add: terrain_validate_Inr control_cells_def Let_def unat_saturating_sub)
  have c: "collect (policy_mask_at hash seed t k ?x ?y) (grid k) = Inr (map g (grid k))"
  proof (rule collect_map)
    fix p assume mem: "p \<in> set (grid k)"
    obtain ly lx where p: "p = (ly, lx)" "ly < k" "lx < k" by (rule grid_cases [OF mem])
    from p have "in_i64 (?x + int lx)" "in_i64 (?y + int ly)" using assms(3) by (auto simp: cells_fit_def in_i64_def)
    then show "policy_mask_at hash seed t k ?x ?y p = Inr (g p)"
      by (simp add: policy_mask_at_def p(1) checked_add_i64_def g_def)
  qed
  let ?p = "\<lparr>ep_version = environment_policy_version, ep_coord = tc_coord t,
    ep_terrain_generator_version = tc_generator_version t, ep_policy_generator_version = policy_generator_version,
    ep_policy_seed = derive_environment_policy_seed hash seed t, ep_control_grid_side = tc_control_grid_side t,
    ep_cell_family_masks = map g (grid k)\<rparr>"
  have e: "environment_validate ?p = Inr ()"
    using v by (simp add: environment_validate_Inr policy_generator_version_def list_all_iff g_def mask_known)
  have m: "mask_respects (tc_cell_flags t ! i) (map g (grid k) ! i)" if "i < k * k" for i
  proof -
    have "cell_ok (tc_cell_flags t ! i)" using v(1,2) that by (simp add: list_all_length)
    moreover have "i div k * k + i mod k = i" by simp
    ultimately show ?thesis using that grid_nth [OF that] by (simp add: g_def mask_respects_cell)
  qed
  have "generate_environment_policy hash seed t = Inr ?p"
  proof -
    have k: "unat (tc_control_grid_side t) - Suc 0 = k" using assms(2) by simp
    show ?thesis using c e assms(1,3)
      by (simp add: generate_environment_policy_def k Let_def checked_mul_i64_def cells_fit_def)
  qed
  then show ?thesis using e m by (intro exI [of _ ?p]) simp
qed

section \<open>Properties\<close>

text \<open>
  A quadrant with a valid terrain always gets a valid policy: with coordinates that fit, the generation returns a
  policy its own validation accepts, for the same quadrant and grid, and each cell's families respect its semantics: none
  on water, no cover on blocked ground, nothing solid where one may build, only ground cover on a free corridor.
\<close>

theorem environment_policy_respects_terrain:
  assumes "terrain_validate t = Inr ()" "k = unat (tc_control_grid_side t) - 1" "cells_fit (tc_coord t) k"
  shows "\<exists>p. generate_environment_policy hash seed t = Inr p \<and> environment_validate p = Inr () \<and>
    ep_coord p = tc_coord t \<and> ep_control_grid_side p = tc_control_grid_side t \<and>
    length (ep_cell_family_masks p) = k * k \<and>
    (\<forall>i < k * k. mask_respects (tc_cell_flags t ! i) (ep_cell_family_masks p ! i))"
  using environment_policy_value [OF assms] by blast

theorem environment_policy_respects_terrain_witness:
  "\<exists>p. generate_environment_policy (\<lambda>bs. replicate 32 0) 7 (flat_contract 1) = Inr p \<and> environment_validate p = Inr ()"
proof -
  have "terrain_validate (flat_contract 1) = Inr ()"
    by (simp add: terrain_validate_Inr flat_contract_def terrain_authority_contract_version_def control_side_ok_def
        control_points_def control_cells_def saturating_sub_def cell_ok_def cell_known_mask_def cell_walkable_def
        cell_buildable_def cell_water_def cell_blocked_def cell_connector_corridor_def)
  from environment_policy_respects_terrain [OF this refl] show ?thesis
    by (auto simp: flat_contract_def cells_fit_def in_i64_def)
qed

end
