(* ===== verification/Hydrology.thy ===== *)
theory Hydrology
  imports Terrain Contracts_Water
begin

unbundle bit_operations_syntax

text \<open>
  Lakes and rivers of the world, crates/terrain/src/hydrology.rs: a field sampled at global control points, and its
  integration into the terrain of a quadrant; water\_surface\_presentation.rs: the water samples sent to the clients.
  \<open>mix64\<close>, which the code repeats, is that of the theory Terrain.
\<close>

section \<open>The field\<close>

definition lake_region_side :: int where
  "lake_region_side = 48"

definition lake_half_region :: int where
  "lake_half_region = lake_region_side div 2"

definition river_band_spacing :: int where
  "river_band_spacing = 96"

definition river_half_band :: int where
  "river_half_band = river_band_spacing div 2"

definition river_anchor_spacing :: int where
  "river_anchor_spacing = 32"

definition lake_tag :: u64 where "lake_tag = 0x1A4E0001"

definition river_band_tag :: u64 where "river_band_tag = 0xA17E0001"

definition river_meander_tag :: u64 where "river_meander_tag = 0xA17E1001"

definition lake_basin_depth_mm :: int where "lake_basin_depth_mm = 2000"

definition river_channel_depth_mm :: int where "river_channel_depth_mm = 1000"

record hydrology_settings =
  hy_world_seed :: u64
  hy_generator_version :: u32

datatype hydrology_error =
  HydrologyInvalidGeneratorVersion
| HydrologyLatticeOverflow int int int int
| InvalidSamplesPerQuadrant int

definition hydrology_validate :: "hydrology_settings \<Rightarrow> hydrology_error + hydrology_settings" where
  "hydrology_validate s = (if hy_generator_version s = 0 then Inl HydrologyInvalidGeneratorVersion else Inr s)"

datatype hydrology_kind = HydroDry | HydroLake | HydroRiver

text \<open>The flow hints are \<open>i8\<close>, kept as their eight bits.\<close>

record hydrology_sample =
  hs_kind :: hydrology_kind
  hs_water_surface_mm :: "int option"
  hs_flow_hint_x :: u8
  hs_flow_hint_y :: u8

definition hydro_dry :: hydrology_sample where
  "hydro_dry = \<lparr>hs_kind = HydroDry, hs_water_surface_mm = None, hs_flow_hint_x = 0, hs_flow_hint_y = 0\<rparr>"

definition hydro_lake :: "int \<Rightarrow> hydrology_sample" where
  "hydro_lake surface =
     \<lparr>hs_kind = HydroLake, hs_water_surface_mm = Some surface, hs_flow_hint_x = 0, hs_flow_hint_y = 0\<rparr>"

definition hydro_river :: "int \<Rightarrow> hydrology_sample" where
  "hydro_river surface =
     \<lparr>hs_kind = HydroRiver, hs_water_surface_mm = Some surface, hs_flow_hint_x = 0, hs_flow_hint_y = 1\<rparr>"

record lake =
  lk_center_x :: int
  lk_center_y :: int
  lk_radius :: int
  lk_water_surface_mm :: int
  lk_identity_hash :: u64

record river =
  rv_center_x :: int
  rv_half_width :: int
  rv_water_surface_mm :: int
  rv_identity_hash :: u64

definition saturate_i64 :: "int \<Rightarrow> int" where
  "saturate_i64 = clamp (- (2 ^ 63)) (2 ^ 63 - 1)"

definition saturate_i32 :: "int \<Rightarrow> int" where
  "saturate_i32 = clamp (- (2 ^ 31)) (2 ^ 31 - 1)"

definition signed_bucket :: "u64 \<Rightarrow> int \<Rightarrow> int \<Rightarrow> int" where
  "signed_bucket v lo hi = lo + uint v mod (hi - lo + 1)"

definition hash_xy :: "hydrology_settings \<Rightarrow> u64 \<Rightarrow> int \<Rightarrow> int \<Rightarrow> u64" where
  "hash_xy s tag x y =
     (let state = (hy_world_seed s XOR push_bit 32 (ucast (hy_generator_version s))) XOR tag;
          state' = mix64 (state XOR as_u64 x)
      in mix64 (state' XOR word_rotl 29 (as_u64 y)))"

text \<open>\<open>region.checked_mul(48)?.checked_add(24)?.checked_add(offset)?\<close>.\<close>

definition lake_center :: "int \<Rightarrow> int \<Rightarrow> int option" where
  "lake_center region off =
     Option.bind (checked_mul_i64 region lake_region_side) (\<lambda>v.
     Option.bind (checked_add_i64 v lake_half_region) (\<lambda>w. checked_add_i64 w off))"

definition lake_candidate :: "hydrology_settings \<Rightarrow> int \<Rightarrow> int \<Rightarrow> lake option" where
  "lake_candidate s region_x region_y =
     (let h = hash_xy s lake_tag region_x region_y
      in if h AND 3 \<noteq> 0 then None
         else (let offset_x = signed_bucket (drop_bit 8 h) (- 16) 16;
                   offset_y = signed_bucket (drop_bit 16 h) (- 16) 16;
                   radius = 5 + uint (drop_bit 32 h) mod 7;
                   surface = - 2000 + uint (drop_bit 40 h) mod 4001
               in case lake_center region_x offset_x of
                    None \<Rightarrow> None
                  | Some cx \<Rightarrow>
                      (case lake_center region_y offset_y of
                         None \<Rightarrow> None
                       | Some cy \<Rightarrow>
                           Some \<lparr>lk_center_x = cx, lk_center_y = cy, lk_radius = radius, lk_water_surface_mm = surface,
                                 lk_identity_hash = h\<rparr>)))"

definition lake_distance_sq :: "lake \<Rightarrow> int \<Rightarrow> int \<Rightarrow> int" where
  "lake_distance_sq l gx gy =
     (let dx = gx - lk_center_x l; dy = gy - lk_center_y l in dx * dx + dy * dy)"

text \<open>One candidate of the search: it replaces the best so far when its key is smaller.\<close>

definition keep_closest ::
  "('k :: linorder \<times> 'c) option \<Rightarrow> 'k \<Rightarrow> 'c \<Rightarrow> ('k \<times> 'c) option" where
  "keep_closest best key c =
     (case best of None \<Rightarrow> Some (key, c) | Some (k, _) \<Rightarrow> if key < k then Some (key, c) else best)"

definition try_lake ::
  "hydrology_settings \<Rightarrow> int \<Rightarrow> int \<Rightarrow> ((int \<times> u64) \<times> lake) option \<Rightarrow> int \<times> int \<Rightarrow> ((int \<times> u64) \<times> lake) option" where
  "try_lake s gx gy best region =
     (case region of (ry, rx) \<Rightarrow>
        (case lake_candidate s rx ry of
           None \<Rightarrow> best
         | Some l \<Rightarrow>
             (let distance_sq = lake_distance_sq l gx gy
              in if lk_radius l * lk_radius l < distance_sq then best
                 else keep_closest best (distance_sq, lk_identity_hash l) l)))"

definition select_lake :: "hydrology_settings \<Rightarrow> int \<Rightarrow> int \<Rightarrow> lake option" where
  "select_lake s gx gy =
     (let rx = div_euclid gx lake_region_side; ry = div_euclid gy lake_region_side
      in map_option snd (foldl (try_lake s gx gy) None
           (List.product [saturate_i64 (ry - 1)..saturate_i64 (ry + 1)] [saturate_i64 (rx - 1)..saturate_i64 (rx + 1)])))"

definition river_anchor_offset :: "hydrology_settings \<Rightarrow> int \<Rightarrow> int \<Rightarrow> int" where
  "river_anchor_offset s band_x anchor_y =
     signed_bucket (drop_bit 16 (hash_xy s (river_meander_tag XOR as_u64 band_x) band_x anchor_y)) (- 12) 12"

definition river_candidate :: "hydrology_settings \<Rightarrow> int \<Rightarrow> int \<Rightarrow> river" where
  "river_candidate s band_x gy =
     (let h = hash_xy s river_band_tag band_x 0;
          base_center = saturate_i64 (band_x * river_band_spacing + river_half_band + signed_bucket (drop_bit 8 h) (- 16) 16);
          half_width = 2 + uint (drop_bit 24 h) mod 3;
          base_surface = - 1500 + uint (drop_bit 32 h) mod 3001;
          anchor = div_euclid gy river_anchor_spacing; fraction = gy mod river_anchor_spacing;
          south = river_anchor_offset s band_x anchor;
          north = river_anchor_offset s band_x (saturate_i64 (anchor + 1));
          off = (south * (river_anchor_spacing - fraction) + north * fraction) sdiv river_anchor_spacing
      in \<lparr>rv_center_x = saturate_i64 (base_center + off), rv_half_width = half_width,
          rv_water_surface_mm = saturate_i32 (base_surface - gy * 25), rv_identity_hash = h\<rparr>)"

definition try_river ::
  "hydrology_settings \<Rightarrow> int \<Rightarrow> int \<Rightarrow> ((int \<times> u64) \<times> river) option \<Rightarrow> int \<Rightarrow> ((int \<times> u64) \<times> river) option" where
  "try_river s gx gy best band =
     (let r = river_candidate s band gy; distance = \<bar>gx - rv_center_x r\<bar>
      in if rv_half_width r < distance then best else keep_closest best (distance, rv_identity_hash r) r)"

definition select_river :: "hydrology_settings \<Rightarrow> int \<Rightarrow> int \<Rightarrow> river option" where
  "select_river s gx gy =
     (let band = div_euclid gx river_band_spacing
      in map_option snd (foldl (try_river s gx gy) None [saturate_i64 (band - 1)..saturate_i64 (band + 1)]))"

definition sample_hydrology :: "hydrology_settings \<Rightarrow> int \<Rightarrow> int \<Rightarrow> hydrology_error + hydrology_sample" where
  "sample_hydrology s0 gx gy =
     (case hydrology_validate s0 of
        Inl e \<Rightarrow> Inl e
      | Inr s \<Rightarrow>
          (case select_lake s gx gy of
             Some l \<Rightarrow> Inr (hydro_lake (lk_water_surface_mm l))
           | None \<Rightarrow>
               (case select_river s gx gy of
                  Some r \<Rightarrow> Inr (hydro_river (rv_water_surface_mm r))
                | None \<Rightarrow> Inr hydro_dry)))"

definition sample_hydrology_local ::
  "hydrology_settings \<Rightarrow> frontier_quadrant_coord \<Rightarrow> int \<Rightarrow> int \<Rightarrow> int \<Rightarrow> hydrology_error + hydrology_sample" where
  "sample_hydrology_local s q local_x local_y per_quadrant =
     (if per_quadrant \<le> 0 then Inl (InvalidSamplesPerQuadrant per_quadrant)
      else (let overflow = Inl (HydrologyLatticeOverflow (fqc_x q) (fqc_y q) local_x local_y)
            in case checked_mul_i64 (fqc_x q) per_quadrant of None \<Rightarrow> overflow | Some base_x \<Rightarrow>
               (case checked_mul_i64 (fqc_y q) per_quadrant of None \<Rightarrow> overflow | Some base_y \<Rightarrow>
               (case checked_add_i64 base_x local_x of None \<Rightarrow> overflow | Some gx \<Rightarrow>
               (case checked_add_i64 base_y local_y of None \<Rightarrow> overflow | Some gy \<Rightarrow>
                  sample_hydrology s gx gy)))))"

section \<open>Its integration into terrain\<close>

datatype integration_error =
  InvalidTerrainAuthority terrain_contract_error
| GeneratorVersionMismatch u32 u32
| HydrologyFailed hydrology_error
| InvalidIntegratedTerrain terrain_contract_error

fun carve ::
  "hydrology_settings \<Rightarrow> terrain_contract \<Rightarrow> nat \<Rightarrow> (nat \<times> nat) list \<Rightarrow> int list \<times> bool list \<Rightarrow>
     hydrology_error + int list \<times> bool list" where
  "carve s t side [] st = Inr st"
| "carve s t side ((local_y, local_x) # ps) (heights, wet) =
     (case sample_hydrology_local s (tc_coord t) (int local_x) (int local_y) (int side - 1) of
        Inl e \<Rightarrow> Inl e
      | Inr smp \<Rightarrow>
          (case hs_water_surface_mm smp of
             None \<Rightarrow> carve s t side ps (heights, wet)
           | Some surface \<Rightarrow>
               (if hs_kind smp = HydroDry then carve s t side ps (heights, wet)
                else (let depth = (if hs_kind smp = HydroLake then lake_basin_depth_mm else river_channel_depth_mm);
                          index = local_y * side + local_x;
                          ceiling = saturate_i32 (surface - depth)
                      in carve s t side ps (heights[index := min (heights ! index) ceiling], wet[index := True])))))"

text \<open>The four corners of a cell in the control grid.\<close>

definition corners :: "nat \<Rightarrow> nat \<times> nat \<Rightarrow> nat list" where
  "corners side p =
     (let i00 = fst p * side + snd p; i10 = i00 + 1; i01 = i00 + side; i11 = i01 + 1 in [i00, i10, i01, i11])"

definition flood :: "nat \<Rightarrow> bool list \<Rightarrow> u8 list \<Rightarrow> nat \<times> nat \<Rightarrow> u8 list" where
  "flood side wet flags p =
     (if \<exists>i\<in>set (corners side p). wet ! i
      then flags[fst p * (side - 1) + snd p := cell_water OR cell_blocked] else flags)"

definition apply_hydrology :: "hydrology_settings \<Rightarrow> terrain_contract \<Rightarrow> integration_error + terrain_contract" where
  "apply_hydrology s0 t =
     (case terrain_validate t of
        Inl e \<Rightarrow> Inl (InvalidTerrainAuthority e)
      | Inr _ \<Rightarrow>
          (case hydrology_validate s0 of
             Inl e \<Rightarrow> Inl (HydrologyFailed e)
           | Inr s \<Rightarrow>
               if tc_generator_version t \<noteq> hy_generator_version s
               then Inl (GeneratorVersionMismatch (tc_generator_version t) (hy_generator_version s))
               else (let side = unat (tc_control_grid_side t);
                         wet0 = replicate (length (tc_elevation_samples_mm t)) False
                     in case carve s t side (grid side) (tc_elevation_samples_mm t, wet0) of
                          Inl e \<Rightarrow> Inl (HydrologyFailed e)
                        | Inr (heights, wet) \<Rightarrow>
                            (let integrated = t\<lparr>tc_elevation_samples_mm := heights,
                               tc_cell_flags := foldl (flood side wet) (tc_cell_flags t) (grid (side - 1))\<rparr>
                             in case terrain_validate integrated of
                                  Inl e \<Rightarrow> Inl (InvalidIntegratedTerrain e)
                                | Inr _ \<Rightarrow> Inr integrated))))"

section \<open>The presentation\<close>

datatype water_generation_error =
  WaterInvalidTerrainAuthority terrain_contract_error
| WaterGeneratorVersionMismatch u32 u32
| WaterHydrologyFailed hydrology_error
| MissingHydrologySurface nat hydrology_kind
| SurfaceBelowTerrain nat int int
| TerrainWaterSemanticMismatch nat bool bool
| WaterInvalidGenerated water_presentation_error

definition present_sample ::
  "hydrology_settings \<Rightarrow> terrain_contract \<Rightarrow> nat \<Rightarrow> nat \<times> nat \<Rightarrow> water_generation_error + water_sample" where
  "present_sample s t side p =
     (case p of (local_y, local_x) \<Rightarrow>
        (let index = local_y * side + local_x
         in case sample_hydrology_local s (tc_coord t) (int local_x) (int local_y) (int side - 1) of
              Inl e \<Rightarrow> Inl (WaterHydrologyFailed e)
            | Inr h \<Rightarrow>
                (case (case hs_kind h of
                         HydroDry \<Rightarrow> Inr water_dry
                       | HydroLake \<Rightarrow>
                           map_sum id water_lake
                             (ok_or (MissingHydrologySurface index HydroLake) (hs_water_surface_mm h))
                       | HydroRiver \<Rightarrow>
                           map_sum id (\<lambda>w. water_river w (hs_flow_hint_x h) (hs_flow_hint_y h))
                             (ok_or (MissingHydrologySurface index HydroRiver) (hs_water_surface_mm h))) of
                   Inl e \<Rightarrow> Inl e
                 | Inr smp \<Rightarrow>
                     if is_wet smp \<and> ws_water_surface_mm smp < tc_elevation_samples_mm t ! index
                     then Inl (SurfaceBelowTerrain index (ws_water_surface_mm smp) (tc_elevation_samples_mm t ! index))
                     else Inr smp)))"

definition check_water_cell ::
  "terrain_contract \<Rightarrow> nat \<Rightarrow> water_sample list \<Rightarrow> nat \<times> nat \<Rightarrow> water_generation_error + unit" where
  "check_water_cell t side samples p =
     (let expected = (\<exists>i\<in>set (corners side p). is_wet (samples ! i));
          index = fst p * (side - 1) + snd p; actual = (tc_cell_flags t ! index AND cell_water \<noteq> 0)
      in if expected \<noteq> actual then Inl (TerrainWaterSemanticMismatch index expected actual) else Inr ())"

definition generate_water_presentation ::
  "hydrology_settings \<Rightarrow> terrain_contract \<Rightarrow> water_generation_error + water_presentation" where
  "generate_water_presentation s0 t =
     (case terrain_validate t of
        Inl e \<Rightarrow> Inl (WaterInvalidTerrainAuthority e)
      | Inr _ \<Rightarrow>
          (case hydrology_validate s0 of
             Inl e \<Rightarrow> Inl (WaterHydrologyFailed e)
           | Inr s \<Rightarrow>
               if tc_generator_version t \<noteq> hy_generator_version s
               then Inl (WaterGeneratorVersionMismatch (tc_generator_version t) (hy_generator_version s))
               else (let side = unat (tc_control_grid_side t)
                     in case collect (present_sample s t side) (grid side) of
                          Inl e \<Rightarrow> Inl e
                        | Inr samples \<Rightarrow>
                            (case collect (check_water_cell t side samples) (grid (side - 1)) of
                               Inl e \<Rightarrow> Inl e
                             | Inr _ \<Rightarrow>
                                 (let p = \<lparr>wp_version = water_presentation_version, wp_coord = tc_coord t,
                                    wp_terrain_generator_version = tc_generator_version t,
                                    wp_hydrology_generator_version = hy_generator_version s,
                                    wp_control_grid_side = tc_control_grid_side t, wp_samples = samples\<rparr>
                                  in case water_validate p of
                                       Inl e \<Rightarrow> Inl (WaterInvalidGenerated e)
                                     | Inr _ \<Rightarrow> Inr p)))))"

section \<open>The search for the closest water\<close>

text \<open>A loop that keeps the hit with the smallest key finds it.\<close>

lemma keep_closest_le:
  obtains k' c' where "keep_closest best k c = Some (k', c')" "k' \<le> k"
proof -
  have "\<exists>k' c'. keep_closest best k c = Some (k', c') \<and> k' \<le> k" by (cases best) (auto simp: keep_closest_def)
  with that show thesis by blast
qed

locale closest_search =
  fixes hit :: "'i \<Rightarrow> ('k :: linorder \<times> 'c) option"
    and step :: "('k \<times> 'c) option \<Rightarrow> 'i \<Rightarrow> ('k \<times> 'c) option"
  assumes step: "step best i = (case hit i of None \<Rightarrow> best | Some (k, c) \<Rightarrow> keep_closest best k c)"
begin

lemma search_from:
  "foldl step best is = None \<longleftrightarrow> best = None \<and> (\<forall>i\<in>set is. hit i = None)"
  "foldl step best is = Some (k, c) \<Longrightarrow> (best = Some (k, c) \<or> (\<exists>i\<in>set is. hit i = Some (k, c))) \<and>
     (\<forall>k' c'. best = Some (k', c') \<or> (\<exists>i\<in>set is. hit i = Some (k', c')) \<longrightarrow> k \<le> k')"
proof (induction "is" arbitrary: best)
  case Nil
  { case 1 show ?case by simp }
  { case 2 then show ?case by simp }
next
  case (Cons i "is")
  { case 1
    have "step best i = None \<longleftrightarrow> best = None \<and> hit i = None"
      by (auto simp: step keep_closest_def split: option.splits if_splits)
    then show ?case by (simp only: foldl_Cons Cons.IH(1)) auto }
  { case 2
    from Cons.IH(2) [of "step best i"] 2
    have r: "step best i = Some (k, c) \<or> (\<exists>i\<in>set is. hit i = Some (k, c))"
      "\<And>k' c'. step best i = Some (k', c') \<or> (\<exists>i\<in>set is. hit i = Some (k', c')) \<Longrightarrow> k \<le> k'" by auto
    show ?case
    proof (cases "hit i")
      case None
      then have s: "step best i = best" by (simp add: step)
      have "best = Some (k, c) \<or> (\<exists>i'\<in>set (i # is). hit i' = Some (k, c))" using r(1) unfolding s by auto
      moreover have "k \<le> k'" if "best = Some (k', c') \<or> (\<exists>i'\<in>set (i # is). hit i' = Some (k', c'))" for k' c'
      proof -
        have "best = Some (k', c') \<or> (\<exists>i'\<in>set is. hit i' = Some (k', c'))" using that None by auto
        then show ?thesis by (rule r(2) [unfolded s, of k' c'])
      qed
      ultimately show ?thesis by blast
    next
      case (Some h)
      obtain k1 c1 where h: "h = (k1, c1)" by (cases h)
      have s: "step best i = keep_closest best k1 c1" using Some h by (simp add: step)
      have le: "k \<le> k1"
      proof -
        obtain k2 c2 where k2: "keep_closest best k1 c1 = Some (k2, c2)" "k2 \<le> k1" by (rule keep_closest_le)
        have "k \<le> k2" by (rule r(2) [of k2 c2]) (simp add: s k2(1))
        with k2(2) show ?thesis by simp
      qed
      have le2: "k \<le> k'" if "best = Some (k', c')" for k' c'
      proof (cases "k1 < k'")
        case True
        with le show ?thesis by simp
      next
        case False
        then show ?thesis using r(2) [of k' c'] s that by (simp add: keep_closest_def)
      qed
      have "best = Some (k, c) \<or> (\<exists>i'\<in>set (i # is). hit i' = Some (k, c))"
        using r(1) Some h s by (auto simp: keep_closest_def split: option.splits if_splits)
      moreover have "k \<le> k'" if hit': "best = Some (k', c') \<or> (\<exists>i'\<in>set (i # is). hit i' = Some (k', c'))" for k' c'
      proof (cases "best = Some (k', c')")
        case True
        then show ?thesis by (rule le2)
      next
        case False
        with hit' consider "hit i = Some (k', c')" | "\<exists>i\<in>set is. hit i = Some (k', c')" by auto
        then show ?thesis
        proof cases
          case 1
          with le Some h show ?thesis by simp
        next
          case 2
          then show ?thesis using r(2) [of k' c'] by blast
        qed
      qed
      ultimately show ?thesis by blast
    qed }
qed

lemmas search_none = search_from(1) [of None, simplified]

lemma search_some:
  assumes "foldl step None is = Some (k, c)"
  shows "\<exists>i\<in>set is. hit i = Some (k, c)" "i \<in> set is \<Longrightarrow> hit i = Some (k', c') \<Longrightarrow> k \<le> k'"
  using search_from(2) [OF assms] by auto

end

section \<open>Lakes\<close>

definition lake_covers :: "lake \<Rightarrow> int \<Rightarrow> int \<Rightarrow> bool" where
  "lake_covers l gx gy \<longleftrightarrow> lake_distance_sq l gx gy \<le> lk_radius l * lk_radius l"

definition lake_key :: "lake \<Rightarrow> int \<Rightarrow> int \<Rightarrow> int \<times> u64" where
  "lake_key l gx gy = (lake_distance_sq l gx gy, lk_identity_hash l)"

definition lake_hit :: "hydrology_settings \<Rightarrow> int \<Rightarrow> int \<Rightarrow> int \<times> int \<Rightarrow> ((int \<times> u64) \<times> lake) option" where
  "lake_hit s gx gy region =
     (case lake_candidate s (snd region) (fst region) of
        None \<Rightarrow> None
      | Some l \<Rightarrow> if lake_covers l gx gy then Some (lake_key l gx gy, l) else None)"

interpretation lakes: closest_search "lake_hit s gx gy" "try_lake s gx gy" for s gx gy
  by unfold_locales
    (auto simp: try_lake_def lake_hit_def lake_covers_def lake_key_def Let_def split: prod.split option.split)

lemma signed_bucket_bounds: "lo \<le> hi \<Longrightarrow> lo \<le> signed_bucket v lo hi \<and> signed_bucket v lo hi \<le> hi"
  using pos_mod_sign [of "hi - lo + 1" "uint v"] pos_mod_bound [of "hi - lo + 1" "uint v"]
  by (simp add: signed_bucket_def)

lemma lake_center_value: "lake_center region off = Some c \<Longrightarrow> c = region * 48 + 24 + off"
  by (auto simp: lake_center_def lake_region_side_def lake_half_region_def checked_mul_i64_Some checked_add_i64_Some
      bind_eq_Some_conv)

text \<open>A lake lies within eleven points around the inner part of its region.\<close>

lemma lake_candidate_place:
  assumes "lake_candidate s rx ry = Some l"
  shows "rx * 48 + 8 \<le> lk_center_x l \<and> lk_center_x l \<le> rx * 48 + 40"
    and "ry * 48 + 8 \<le> lk_center_y l \<and> lk_center_y l \<le> ry * 48 + 40"
    and "5 \<le> lk_radius l \<and> lk_radius l \<le> 11"
proof -
  have m: "0 \<le> uint v mod 7" "uint v mod 7 \<le> 6" for v :: u64
    using pos_mod_sign [of 7 "uint v"] pos_mod_bound [of 7 "uint v"] by linarith+
  have b: "- 16 \<le> signed_bucket v (- 16) 16" "signed_bucket v (- 16) 16 \<le> 16" for v
    using signed_bucket_bounds [of "- 16" 16 v] by simp_all
  let ?h = "hash_xy s lake_tag rx ry"
  show "rx * 48 + 8 \<le> lk_center_x l \<and> lk_center_x l \<le> rx * 48 + 40"
    "ry * 48 + 8 \<le> lk_center_y l \<and> lk_center_y l \<le> ry * 48 + 40" "5 \<le> lk_radius l \<and> lk_radius l \<le> 11"
    using assms b [of "drop_bit 8 ?h"] b [of "drop_bit 16 ?h"] m [of "drop_bit 32 ?h"]
    by (auto simp: lake_candidate_def Let_def split: if_splits option.splits dest!: lake_center_value)
qed

lemma square_le_bound:
  fixes a b r :: int
  assumes "a * a + b * b \<le> r * r" "0 \<le> r"
  shows "\<bar>a\<bar> \<le> r"
proof -
  have "a * a \<le> r * r" using assms(1) zero_le_square [of b] by linarith
  then have "\<bar>a\<bar>\<^sup>2 \<le> r\<^sup>2" by (simp add: power2_eq_square)
  then show ?thesis using assms(2) by (rule power2_le_imp_le)
qed

lemma near_region: "48 * r - 48 \<le> g \<Longrightarrow> g < 48 * r + 96 \<Longrightarrow> \<bar>g div 48 - r\<bar> \<le> (1 :: int)"
proof -
  assume g: "48 * r - 48 \<le> g" "g < 48 * r + 96"
  then have "(r - 1) * 48 div 48 \<le> g div 48" "g div 48 \<le> (47 + (r + 1) * 48) div 48" by (intro zdiv_mono1; simp)+
  then have "r - 1 \<le> g div 48" "g div 48 \<le> r + 1" by (simp_all only: div_mult_self1 nonzero_mult_div_cancel_right)
  then show ?thesis by linarith
qed

lemma lake_covers_near:
  assumes "lake_candidate s rx ry = Some l" "lake_covers l gx gy"
  shows "\<bar>gx div 48 - rx\<bar> \<le> 1 \<and> \<bar>gy div 48 - ry\<bar> \<le> 1"
proof -
  note p = lake_candidate_place [OF assms(1)]
  let ?dx = "gx - lk_center_x l" and ?dy = "gy - lk_center_y l"
  have q: "?dx * ?dx + ?dy * ?dy \<le> lk_radius l * lk_radius l" "?dy * ?dy + ?dx * ?dx \<le> lk_radius l * lk_radius l"
    using assms(2) by (simp_all add: lake_covers_def lake_distance_sq_def Let_def add.commute)
  have "\<bar>?dx\<bar> \<le> lk_radius l" "\<bar>?dy\<bar> \<le> lk_radius l"
    using square_le_bound [OF q(1)] square_le_bound [OF q(2)] p(3) by simp_all
  then have "48 * rx - 48 \<le> gx" "gx < 48 * rx + 96" "48 * ry - 48 \<le> gy" "gy < 48 * ry + 96" using p by linarith+
  then show ?thesis using near_region by blast
qed

lemma saturate_i64_id: "in_i64 v \<Longrightarrow> saturate_i64 v = v"
  by (simp add: saturate_i64_def clamp_def in_i64_def)

lemma div_between:
  fixes v :: int
  assumes "lo * d \<le> v" "v \<le> hi * d" "0 < d"
  shows "lo \<le> v div d" "v div d \<le> hi"
  using zdiv_mono1 [OF assms(1,3)] zdiv_mono1 [OF assms(2,3)] assms(3) by simp_all

lemma in_i64_region: "in_i64 v \<Longrightarrow> in_i64 (v div 48 - 1) \<and> in_i64 (v div 48 + 1)"
  using div_between [of "- (2 ^ 62)" 48 v "2 ^ 62"] by (simp add: in_i64_def)

text \<open>The nine regions around a point hold every lake that covers it.\<close>

lemma lake_regions:
  assumes "in_i64 gx" "in_i64 gy"
  defines "regions \<equiv> List.product [saturate_i64 (div_euclid gy 48 - 1)..saturate_i64 (div_euclid gy 48 + 1)]
    [saturate_i64 (div_euclid gx 48 - 1)..saturate_i64 (div_euclid gx 48 + 1)]"
  shows "lake_hit s gx gy region = Some h \<Longrightarrow> region \<in> set regions"
    and "select_lake s gx gy = map_option snd (foldl (try_lake s gx gy) None regions)"
proof -
  show "select_lake s gx gy = map_option snd (foldl (try_lake s gx gy) None regions)"
    by (simp add: select_lake_def regions_def lake_region_side_def Let_def)
  obtain ry rx where r: "region = (ry, rx)" by (cases region)
  assume "lake_hit s gx gy region = Some h"
  then obtain l where "lake_candidate s rx ry = Some l" "lake_covers l gx gy"
    by (auto simp: lake_hit_def r split: option.splits if_splits)
  from lake_covers_near [OF this] show "region \<in> set regions"
    using in_i64_region [OF assms(1)] in_i64_region [OF assms(2)]
    by (auto simp: regions_def r div_euclid_def saturate_i64_id)
qed

lemma lake_hit_Some:
  "lake_hit s gx gy (ry, rx) = Some (k, l) \<longleftrightarrow> lake_candidate s rx ry = Some l \<and> lake_covers l gx gy \<and> k = lake_key l gx gy"
  by (auto simp: lake_hit_def split: option.splits)

section \<open>Rivers\<close>

definition river_covers :: "river \<Rightarrow> int \<Rightarrow> bool" where
  "river_covers r gx \<longleftrightarrow> \<bar>gx - rv_center_x r\<bar> \<le> rv_half_width r"

definition river_hit :: "hydrology_settings \<Rightarrow> int \<Rightarrow> int \<Rightarrow> int \<Rightarrow> ((int \<times> u64) \<times> river) option" where
  "river_hit s gx gy band =
     (let r = river_candidate s band gy
      in if river_covers r gx then Some ((\<bar>gx - rv_center_x r\<bar>, rv_identity_hash r), r) else None)"

interpretation rivers: closest_search "river_hit s gx gy" "try_river s gx gy" for s gx gy
  by unfold_locales (auto simp: try_river_def river_hit_def river_covers_def Let_def)

text \<open>A river stays in its band of 96 points.\<close>

lemma river_candidate_place:
  assumes "\<bar>band\<bar> \<le> 2 ^ 56"
  shows "band * 96 + 20 \<le> rv_center_x (river_candidate s band gy) \<and> rv_center_x (river_candidate s band gy) \<le> band * 96 + 76"
    and "2 \<le> rv_half_width (river_candidate s band gy) \<and> rv_half_width (river_candidate s band gy) \<le> 4"
proof -
  define f where "f = gy mod 32"
  define south where "south = river_anchor_offset s band (div_euclid gy 32)"
  define north where "north = river_anchor_offset s band (saturate_i64 (div_euclid gy 32 + 1))"
  define off where "off = (south * (32 - f) + north * f) sdiv 32"
  define base where "base = band * 96 + 48 + signed_bucket (drop_bit 8 (hash_xy s river_band_tag band 0)) (- 16) 16"
  have f: "0 \<le> f" "f < 32" by (simp_all add: f_def)
  have "\<bar>south\<bar> \<le> 12" "\<bar>north\<bar> \<le> 12"
    using signed_bucket_bounds [of "- 12" 12] by (simp_all add: south_def north_def river_anchor_offset_def abs_le_iff minus_le_iff)
  then have "\<bar>south\<bar> * (32 - f) \<le> 12 * (32 - f)" "\<bar>north\<bar> * f \<le> 12 * f" using f by (intro mult_right_mono; simp)+
  then have "\<bar>south * (32 - f)\<bar> \<le> 12 * (32 - f)" "\<bar>north * f\<bar> \<le> 12 * f" using f by (simp_all add: abs_mult)
  then have "\<bar>south * (32 - f) + north * f\<bar> \<le> 384"
    using abs_triangle_ineq [of "south * (32 - f)" "north * f"] by simp
  then have "\<bar>south * (32 - f) + north * f\<bar> div 32 \<le> 384 div 32" by (intro zdiv_mono1) simp_all
  then have off: "\<bar>off\<bar> \<le> 12" by (simp add: off_def sdiv_abs)
  have b: "band * 96 + 32 \<le> base" "base \<le> band * 96 + 64"
    using signed_bucket_bounds [of "- 16" 16 "drop_bit 8 (hash_xy s river_band_tag band 0)"] by (simp_all add: base_def)
  moreover have "- (2 ^ 56) \<le> band" "band \<le> 2 ^ 56" "- 12 \<le> off" "off \<le> 12" using assms off by linarith+
  ultimately have "in_i64 base" "in_i64 (base + off)" by (simp_all add: in_i64_def)
  then have "rv_center_x (river_candidate s band gy) = base + off"
    by (simp add: river_candidate_def Let_def river_band_spacing_def river_half_band_def river_anchor_spacing_def
        base_def off_def south_def north_def f_def saturate_i64_id)
  then show "band * 96 + 20 \<le> rv_center_x (river_candidate s band gy) \<and>
    rv_center_x (river_candidate s band gy) \<le> band * 96 + 76" using b off by linarith
  have "0 \<le> uint v mod 3 \<and> uint v mod 3 \<le> 2" for v :: u64
    using pos_mod_sign [of 3 "uint v"] pos_mod_bound [of 3 "uint v"] by linarith
  then show "2 \<le> rv_half_width (river_candidate s band gy) \<and> rv_half_width (river_candidate s band gy) \<le> 4"
    by (simp add: river_candidate_def Let_def)
qed

lemma river_hit_own_band:
  assumes "\<bar>gx\<bar> \<le> 2 ^ 59" "\<bar>band - gx div 96\<bar> \<le> 1" "river_hit s gx gy band = Some h"
  shows "band = gx div 96"
proof -
  have "- (2 ^ 54) * 96 \<le> gx" "gx \<le> 2 ^ 54 * 96" using assms(1) by (simp_all add: abs_le_iff)
  then have "- (2 ^ 54) \<le> gx div 96" "gx div 96 \<le> 2 ^ 54" by (rule div_between; simp)+
  then have "\<bar>band\<bar> \<le> 2 ^ 56" using assms(2) by (simp add: abs_le_iff)
  note p = river_candidate_place [OF this, of s gy]
  have "river_covers (river_candidate s band gy) gx" using assms(3) by (simp add: river_hit_def Let_def split: if_splits)
  then have "band * 96 \<le> gx" "gx < band * 96 + 96" using p unfolding river_covers_def by linarith+
  then show ?thesis using int_div_pos_eq [of gx 96 band "gx - 96 * band"] by simp
qed

section \<open>The samples of a quadrant\<close>

text \<open>The field itself, defined everywhere.\<close>

definition water_field :: "hydrology_settings \<Rightarrow> int \<Rightarrow> int \<Rightarrow> hydrology_sample" where
  "water_field s gx gy =
     (case select_lake s gx gy of
        Some l \<Rightarrow> hydro_lake (lk_water_surface_mm l)
      | None \<Rightarrow> (case select_river s gx gy of Some r \<Rightarrow> hydro_river (rv_water_surface_mm r) | None \<Rightarrow> hydro_dry))"

definition local_field :: "hydrology_settings \<Rightarrow> frontier_quadrant_coord \<Rightarrow> nat \<Rightarrow> nat \<times> nat \<Rightarrow> hydrology_sample" where
  "local_field s q n p = water_field s (fqc_x q * (int n - 1) + int (snd p)) (fqc_y q * (int n - 1) + int (fst p))"

definition points_fit :: "frontier_quadrant_coord \<Rightarrow> nat \<Rightarrow> bool" where
  "points_fit q n \<longleftrightarrow> in_i64 (fqc_x q * (int n - 1)) \<and> in_i64 (fqc_x q * (int n - 1) + (int n - 1)) \<and>
     in_i64 (fqc_y q * (int n - 1)) \<and> in_i64 (fqc_y q * (int n - 1) + (int n - 1))"

lemma sample_hydrology_value: "hydrology_validate s = Inr s \<Longrightarrow> sample_hydrology s gx gy = Inr (water_field s gx gy)"
  by (simp add: sample_hydrology_def water_field_def split: option.split)

lemma sample_local_value:
  assumes "hydrology_validate s = Inr s" "points_fit q n" "2 \<le> n" "ly < n" "lx < n"
  shows "sample_hydrology_local s q (int lx) (int ly) (int n - 1) = Inr (local_field s q n (ly, lx))"
proof -
  have "in_i64 (fqc_x q * (int n - 1) + int lx)" "in_i64 (fqc_y q * (int n - 1) + int ly)"
    using assms(2,4,5) by (auto simp: points_fit_def in_i64_def)
  with assms show ?thesis
    by (simp add: sample_hydrology_local_def checked_mul_i64_def checked_add_i64_def points_fit_def
        sample_hydrology_value local_field_def)
qed

text \<open>A wet sample has a surface, an \<open>i32\<close>; a dry one none.\<close>

definition wet_sample :: "hydrology_sample \<Rightarrow> bool" where
  "wet_sample h \<longleftrightarrow> hs_kind h \<noteq> HydroDry"

lemma select_lake_candidate: "select_lake s gx gy = Some l \<Longrightarrow> \<exists>rx ry. lake_candidate s rx ry = Some l"
proof -
  assume "select_lake s gx gy = Some l"
  then obtain k regions where "foldl (try_lake s gx gy) None regions = Some (k, l)"
    by (auto simp: select_lake_def Let_def)
  from lakes.search_some(1) [OF this] show ?thesis by (auto simp: lake_hit_def split: option.splits if_splits)
qed

lemma lake_surface: "lake_candidate s rx ry = Some l \<Longrightarrow> in_i32 (lk_water_surface_mm l)"
proof -
  have m: "0 \<le> uint v mod 4001" "uint v mod 4001 \<le> 4000" for v :: u64
    using pos_mod_sign [of 4001 "uint v"] pos_mod_bound [of 4001 "uint v"] by linarith+
  have "in_i32 (- 2000 + uint v mod 4001)" for v :: u64
    using m [of v] by (simp add: in_i32_def)
  then show "lake_candidate s rx ry = Some l \<Longrightarrow> in_i32 (lk_water_surface_mm l)"
    by (auto simp: lake_candidate_def Let_def split: if_splits option.splits)
qed

lemma in_i32_saturate [simp]: "in_i32 (saturate_i32 v)"
  by (simp add: saturate_i32_def clamp_def in_i32_def)

lemma select_river_surface: "select_river s gx gy = Some r \<Longrightarrow> in_i32 (rv_water_surface_mm r)"
proof -
  assume "select_river s gx gy = Some r"
  then obtain k bands where "foldl (try_river s gx gy) None bands = Some (k, r)"
    by (auto simp: select_river_def Let_def)
  from rivers.search_some(1) [OF this] obtain band where "r = river_candidate s band gy"
    by (auto simp: river_hit_def Let_def split: if_splits)
  then show ?thesis by (simp add: river_candidate_def Let_def)
qed

lemma water_field_surface:
  "(\<exists>w. hs_water_surface_mm (water_field s gx gy) = Some w \<and> in_i32 w \<and> wet_sample (water_field s gx gy) \<and>
      water_field s gx gy \<in> {hydro_lake w, hydro_river w}) \<or>
   water_field s gx gy = hydro_dry"
proof (cases "select_lake s gx gy")
  case (Some l)
  then obtain rx ry where "lake_candidate s rx ry = Some l" using select_lake_candidate by blast
  from lake_surface [OF this] Some show ?thesis by (simp add: water_field_def hydro_lake_def wet_sample_def)
next
  case None
  show ?thesis
  proof (cases "select_river s gx gy")
    case (Some r)
    from select_river_surface [OF this] Some None show ?thesis
      by (simp add: water_field_def hydro_river_def wet_sample_def)
  qed (use None in \<open>simp add: water_field_def\<close>)
qed

lemma water_field_cases:
  obtains (Dry) "water_field s gx gy = hydro_dry"
  | (Lake) w where "water_field s gx gy = hydro_lake w" "in_i32 w"
  | (River) w where "water_field s gx gy = hydro_river w" "in_i32 w"
  using water_field_surface [of s gx gy] by blast

section \<open>Carving\<close>

text \<open>The height of a control point after the water has been dug in.\<close>

definition bed :: "hydrology_sample \<Rightarrow> int \<Rightarrow> int" where
  "bed h height =
     (case hs_water_surface_mm h of
        None \<Rightarrow> height
      | Some w \<Rightarrow>
          min height (saturate_i32 (w - (if hs_kind h = HydroLake then lake_basin_depth_mm else river_channel_depth_mm))))"

lemma bed_below:
  assumes "hs_water_surface_mm h = Some w" "in_i32 w"
  shows "bed h height \<le> w"
proof -
  let ?d = "if hs_kind h = HydroLake then lake_basin_depth_mm else river_channel_depth_mm"
  have "0 \<le> ?d" by (simp add: lake_basin_depth_mm_def river_channel_depth_mm_def)
  then have "saturate_i32 (w - ?d) \<le> w" using assms(2) by (auto simp: saturate_i32_def clamp_def in_i32_def)
  with assms(1) show ?thesis by (simp add: bed_def min.coboundedI2)
qed

lemma bed_lower: "bed h height \<le> height"
  by (simp add: bed_def split: option.split)

lemma bed_dry: "hs_water_surface_mm h = None \<Longrightarrow> bed h height = height"
  by (simp add: bed_def)

lemma in_i32_bed: "in_i32 height \<Longrightarrow> in_i32 (bed h height)"
  by (auto simp: bed_def min_def split: option.split)

lemma grid_point: "i div n = y \<and> i mod n = x \<longleftrightarrow> i = y * n + x" if "x < (n :: nat)"
  using that div_mult_mod_eq [of i n] by auto

lemma carve_value:
  assumes "hydrology_validate s = Inr s" "points_fit (tc_coord t) n" "2 \<le> n"
    and "set ps \<subseteq> set (grid n)" "distinct ps" "length hs = n * n" "length wet = n * n"
  shows "\<exists>hs' wet'. carve s t n ps (hs, wet) = Inr (hs', wet') \<and> length hs' = n * n \<and> length wet' = n * n \<and>
    (\<forall>i < n * n. hs' ! i = (if (i div n, i mod n) \<in> set ps
        then bed (local_field s (tc_coord t) n (i div n, i mod n)) (hs ! i) else hs ! i) \<and>
      wet' ! i = (wet ! i \<or> (i div n, i mod n) \<in> set ps \<and> wet_sample (local_field s (tc_coord t) n (i div n, i mod n))))"
  using assms(4-7)
proof (induction ps arbitrary: hs wet)
  case (Cons p ps)
  obtain y x where p: "p = (y, x)" "y < n" "x < n" using Cons.prems(1) by (cases p) auto
  let ?h = "local_field s (tc_coord t) n (y, x)" and ?j = "y * n + x"
  have j: "?j < n * n" using p by (intro grid_index)
  have at: "(i div n, i mod n) = (y, x) \<longleftrightarrow> i = ?j" for i using grid_point [OF p(3)] by simp
  note loc = sample_local_value [OF assms(1-3) p(2,3)]
  have rest: "set ps \<subseteq> set (grid n)" "distinct ps" "(y, x) \<notin> set ps" using Cons.prems(1,2) p by auto
  have cases: "carve s t n (p # ps) (hs, wet) =
    (if wet_sample ?h then carve s t n ps (hs[?j := bed ?h (hs ! ?j)], wet[?j := True]) else carve s t n ps (hs, wet))"
    unfolding local_field_def
    by (rule water_field_cases [of s "fqc_x (tc_coord t) * (int n - 1) + int (snd (y, x))"
          "fqc_y (tc_coord t) * (int n - 1) + int (fst (y, x))"])
      (simp_all add: p(1) loc local_field_def wet_sample_def bed_def hydro_dry_def hydro_lake_def hydro_river_def Let_def)
  have none: "\<not> wet_sample ?h \<Longrightarrow> hs_water_surface_mm ?h = None"
    unfolding local_field_def
    by (rule water_field_cases [of s "fqc_x (tc_coord t) * (int n - 1) + int (snd (y, x))"
          "fqc_y (tc_coord t) * (int n - 1) + int (fst (y, x))"])
      (simp_all add: wet_sample_def hydro_dry_def hydro_lake_def hydro_river_def)
  show ?case
  proof (cases "wet_sample ?h")
    case False
    from Cons.IH [OF rest(1,2) Cons.prems(3,4)] obtain hs' wet' where
      r: "carve s t n ps (hs, wet) = Inr (hs', wet')" "length hs' = n * n" "length wet' = n * n"
      "\<And>i. i < n * n \<Longrightarrow> hs' ! i = (if (i div n, i mod n) \<in> set ps
          then bed (local_field s (tc_coord t) n (i div n, i mod n)) (hs ! i) else hs ! i)"
      "\<And>i. i < n * n \<Longrightarrow> wet' ! i = (wet ! i \<or> (i div n, i mod n) \<in> set ps \<and> wet_sample (local_field s (tc_coord t) n (i div n, i mod n)))"
      by blast
    have "hs' ! i = (if (i div n, i mod n) \<in> set (p # ps)
          then bed (local_field s (tc_coord t) n (i div n, i mod n)) (hs ! i) else hs ! i) \<and>
        wet' ! i = (wet ! i \<or> (i div n, i mod n) \<in> set (p # ps) \<and> wet_sample (local_field s (tc_coord t) n (i div n, i mod n)))"
      if i: "i < n * n" for i
    proof (cases "(i div n, i mod n) = (y, x)")
      case True
      then show ?thesis using r(4,5) [OF i] False none bed_dry rest(3) by (simp only: True) (simp add: p(1))
    next
      case off: False
      then show ?thesis using r(4,5) [OF i] by (simp add: p(1) del: Pair_inject prod.inject)
    qed
    with r(1-3) show ?thesis unfolding cases if_not_P [OF False] by blast
  next
    case True
    let ?hs = "hs[?j := bed ?h (hs ! ?j)]" and ?wet = "wet[?j := True]"
    have len: "length ?hs = n * n" "length ?wet = n * n" using Cons.prems(3,4) by simp_all
    from Cons.IH [OF rest(1,2) len] obtain hs' wet' where
      r: "carve s t n ps (?hs, ?wet) = Inr (hs', wet')" "length hs' = n * n" "length wet' = n * n"
      "\<And>i. i < n * n \<Longrightarrow> hs' ! i = (if (i div n, i mod n) \<in> set ps
          then bed (local_field s (tc_coord t) n (i div n, i mod n)) (?hs ! i) else ?hs ! i)"
      "\<And>i. i < n * n \<Longrightarrow> wet' ! i = (?wet ! i \<or> (i div n, i mod n) \<in> set ps \<and> wet_sample (local_field s (tc_coord t) n (i div n, i mod n)))"
      by blast
    have "hs' ! i = (if (i div n, i mod n) \<in> set (p # ps)
          then bed (local_field s (tc_coord t) n (i div n, i mod n)) (hs ! i) else hs ! i) \<and>
        wet' ! i = (wet ! i \<or> (i div n, i mod n) \<in> set (p # ps) \<and> wet_sample (local_field s (tc_coord t) n (i div n, i mod n)))"
      if i: "i < n * n" for i
    proof (cases "i = ?j")
      case eq: True
      have d: "(i div n, i mod n) = (y, x)" using at eq by blast
      have "?hs ! i = bed ?h (hs ! i)" "?wet ! i" using eq i Cons.prems(3,4) by simp_all
      with r(4,5) [OF i] True rest(3) show ?thesis unfolding d by (simp add: p(1))
    next
      case off: False
      then have d: "(i div n, i mod n) \<noteq> p" using at p(1) by blast
      have "?hs ! i = hs ! i" "?wet ! i = wet ! i" using off by simp_all
      with r(4,5) [OF i] d show ?thesis by simp
    qed
    with r(1-3) show ?thesis unfolding cases if_P [OF True] by blast
  qed
qed simp

section \<open>Flooding\<close>

lemma corners_range: "p \<in> set (grid (n - 1)) \<Longrightarrow> c \<in> set (corners n p) \<Longrightarrow> c < n * n"
proof -
  assume "p \<in> set (grid (n - 1))" "c \<in> set (corners n p)"
  moreover obtain y x where p: "p = (y, x)" by (cases p)
  ultimately have yx: "y + 1 < n" "x + 1 < n" and c: "c \<in> {y * n + x, y * n + (x + 1), (y + 1) * n + x, (y + 1) * n + (x + 1)}"
    by (auto simp: corners_def Let_def)
  have "v * n + u < n * n" if "v \<in> {y, y + 1}" "u \<in> {x, x + 1}" for v u
    using that yx by (intro grid_index) auto
  with c show ?thesis by blast
qed

lemma if_merge:
  "(if a \<in> S \<and> E a then v else if a = p \<and> E p then v else w) = (if a \<in> insert p S \<and> E a then v else w)"
  by auto

lemma flood_value:
  assumes "set ps \<subseteq> set (grid (n - 1))" "length fs = (n - 1) * (n - 1)"
  shows "length (foldl (flood n wet) fs ps) = (n - 1) * (n - 1) \<and>
    (\<forall>i < (n - 1) * (n - 1). foldl (flood n wet) fs ps ! i =
      (if (i div (n - 1), i mod (n - 1)) \<in> set ps \<and> (\<exists>c\<in>set (corners n (i div (n - 1), i mod (n - 1))). wet ! c)
       then cell_water OR cell_blocked else fs ! i))"
  using assms
proof (induction ps arbitrary: fs)
  case (Cons p ps)
  let ?m = "n - 1" and ?v = "cell_water OR cell_blocked"
  obtain y x where p: "p = (y, x)" "y < ?m" "x < ?m" using Cons.prems(1) by (cases p) auto
  have at: "(i div ?m, i mod ?m) = p \<longleftrightarrow> i = y * ?m + x" for i using grid_point [OF p(3)] by (simp add: p(1))
  have j: "y * ?m + x < ?m * ?m" using p by (intro grid_index)
  have f: "length (flood n wet fs p) = ?m * ?m"
    "\<And>i. i < ?m * ?m \<Longrightarrow> flood n wet fs p ! i =
      (if (i div ?m, i mod ?m) = p \<and> (\<exists>c\<in>set (corners n p). wet ! c) then ?v else fs ! i)"
  proof -
    have fl: "flood n wet fs p = (if \<exists>c\<in>set (corners n p). wet ! c then fs[y * ?m + x := ?v] else fs)"
      by (simp add: flood_def p(1))
    show "length (flood n wet fs p) = ?m * ?m" using Cons.prems(2) by (simp add: fl)
    show "flood n wet fs p ! i = (if (i div ?m, i mod ?m) = p \<and> (\<exists>c\<in>set (corners n p). wet ! c) then ?v else fs ! i)"
      if "i < ?m * ?m" for i
      unfolding fl at using Cons.prems(2) that by (auto simp: nth_list_update)
  qed
  have ps: "set ps \<subseteq> set (grid ?m)" using Cons.prems(1) by simp
  note r = Cons.IH [OF ps f(1)]
  have "foldl (flood n wet) (flood n wet fs p) ps ! i =
      (if (i div ?m, i mod ?m) \<in> set (p # ps) \<and> (\<exists>c\<in>set (corners n (i div ?m, i mod ?m)). wet ! c) then ?v else fs ! i)"
    if i: "i < ?m * ?m" for i
  proof -
    from r i have e: "foldl (flood n wet) (flood n wet fs p) ps ! i =
      (if (i div ?m, i mod ?m) \<in> set ps \<and> (\<exists>c\<in>set (corners n (i div ?m, i mod ?m)). wet ! c) then ?v
       else flood n wet fs p ! i)" by blast
    show ?thesis unfolding e f(2) [OF i] list.set by (rule if_merge)
  qed
  then show ?case unfolding foldl_Cons using conjunct1 [OF r] by (intro conjI allI impI)
qed simp

lemma distinct_grid [simp]: "distinct (grid n)"
  by (simp add: grid_def distinct_product)

lemma in_grid: "i < n * n \<Longrightarrow> (i div n, i mod n) \<in> set (grid n)"
  using grid_nth [of i n] nth_mem [of i "grid n"] by simp

section \<open>The integrated terrain\<close>

definition wet_point :: "hydrology_settings \<Rightarrow> terrain_contract \<Rightarrow> nat \<Rightarrow> nat \<Rightarrow> bool" where
  "wet_point s t n i \<longleftrightarrow> wet_sample (local_field s (tc_coord t) n (i div n, i mod n))"

definition wet_cell :: "hydrology_settings \<Rightarrow> terrain_contract \<Rightarrow> nat \<Rightarrow> nat \<Rightarrow> bool" where
  "wet_cell s t n i \<longleftrightarrow> (\<exists>c\<in>set (corners n (i div (n - 1), i mod (n - 1))). wet_point s t n c)"

text \<open>What integration has to yield: the beds and the flooded cells, and nothing else changed.\<close>

definition integrates :: "hydrology_settings \<Rightarrow> terrain_contract \<Rightarrow> terrain_contract \<Rightarrow> bool" where
  "integrates s t t' \<longleftrightarrow> (let n = unat (tc_control_grid_side t) in
     t' = t\<lparr>tc_elevation_samples_mm := tc_elevation_samples_mm t', tc_cell_flags := tc_cell_flags t'\<rparr> \<and>
     length (tc_elevation_samples_mm t') = n * n \<and> length (tc_cell_flags t') = (n - 1) * (n - 1) \<and>
     (\<forall>i < n * n. tc_elevation_samples_mm t' ! i =
        bed (local_field s (tc_coord t) n (i div n, i mod n)) (tc_elevation_samples_mm t ! i)) \<and>
     (\<forall>i < (n - 1) * (n - 1). tc_cell_flags t' ! i =
        (if wet_cell s t n i then cell_water OR cell_blocked else tc_cell_flags t ! i)))"

lemma validate_side:
  assumes "terrain_validate t = Inr ()" "n = unat (tc_control_grid_side t)"
  shows "2 \<le> n" "length (tc_elevation_samples_mm t) = n * n" "length (tc_cell_flags t) = (n - 1) * (n - 1)"
  using assms by (simp_all add: terrain_validate_Inr control_side_ok_def control_points_def control_cells_def Let_def
      unat_saturating_sub word_le_nat_alt)

lemma flooded_cell_ok: "cell_ok (cell_water OR cell_blocked)"
  by (simp add: cell_ok_def cell_known_mask_def cell_walkable_def cell_buildable_def cell_blocked_def cell_water_def
      cell_connector_corridor_def)

lemma integrates_valid:
  assumes "integrates s t t'" "terrain_validate t = Inr ()"
  shows "terrain_validate t' = Inr ()"
proof -
  define n where "n = unat (tc_control_grid_side t)"
  note side = validate_side [OF assms(2) n_def]
  from assms(1) have i: "t' = t\<lparr>tc_elevation_samples_mm := tc_elevation_samples_mm t', tc_cell_flags := tc_cell_flags t'\<rparr>"
    "length (tc_elevation_samples_mm t') = n * n" "length (tc_cell_flags t') = (n - 1) * (n - 1)"
    "\<And>i. i < (n - 1) * (n - 1) \<Longrightarrow> tc_cell_flags t' ! i =
        (if wet_cell s t n i then cell_water OR cell_blocked else tc_cell_flags t ! i)"
    by (simp_all add: integrates_def Let_def n_def)
  have f: "tc_version t' = tc_version t" "tc_quadrant_size_mm t' = tc_quadrant_size_mm t"
    "tc_generator_version t' = tc_generator_version t" "tc_control_grid_side t' = tc_control_grid_side t"
    by (subst i(1), simp)+
  have "cell_ok (tc_cell_flags t' ! k)" if "k < (n - 1) * (n - 1)" for k
    using i(4) [OF that] assms(2) side(3) that flooded_cell_ok
    by (auto simp: terrain_validate_Inr list_all_length)
  with assms(2) side i(2,3) f show ?thesis by (simp add: terrain_validate_Inr list_all_length)
qed

lemma apply_hydrology_value:
  assumes "terrain_validate t = Inr ()" "hydrology_validate s = Inr s" "tc_generator_version t = hy_generator_version s"
    and "points_fit (tc_coord t) (unat (tc_control_grid_side t))"
  shows "\<exists>t'. apply_hydrology s t = Inr t' \<and> integrates s t t'"
proof -
  define n where "n = unat (tc_control_grid_side t)"
  note side = validate_side [OF assms(1) n_def]
  let ?hs = "tc_elevation_samples_mm t" and ?wet = "replicate (n * n) False"
  obtain hs' wet' where c: "carve s t n (grid n) (?hs, ?wet) = Inr (hs', wet')" "length hs' = n * n" "length wet' = n * n"
    "\<And>i. i < n * n \<Longrightarrow> hs' ! i = (if (i div n, i mod n) \<in> set (grid n)
        then bed (local_field s (tc_coord t) n (i div n, i mod n)) (?hs ! i) else ?hs ! i) \<and>
      wet' ! i = (?wet ! i \<or> (i div n, i mod n) \<in> set (grid n) \<and> wet_sample (local_field s (tc_coord t) n (i div n, i mod n)))"
    using carve_value [OF assms(2,4) [folded n_def] side(1) order_refl distinct_grid side(2), of ?wet] by auto
  let ?t = "t\<lparr>tc_elevation_samples_mm := hs', tc_cell_flags := foldl (flood n wet') (tc_cell_flags t) (grid (n - 1))\<rparr>"
  note fl = flood_value [OF order_refl side(3), of wet']
  have wet: "wet' ! i = wet_point s t n i" if "i < n * n" for i
    using c(4) [OF that] in_grid [OF that] that by (simp add: wet_point_def del: set_grid)
  have cell: "(\<exists>c\<in>set (corners n (i div (n - 1), i mod (n - 1))). wet' ! c) = wet_cell s t n i" if "i < (n - 1) * (n - 1)" for i
    unfolding wet_cell_def by (rule bex_cong [OF refl]) (rule wet, rule corners_range [OF in_grid [OF that]])
  have "integrates s t ?t"
    unfolding integrates_def Let_def n_def [symmetric]
    using fl cell c in_grid [of _ "n - 1"] in_grid [of _ n] by (simp del: set_grid)
  moreover from integrates_valid [OF this assms(1)] have "apply_hydrology s t = Inr ?t"
    using c(1) assms(3) side(2) by (simp add: apply_hydrology_def assms(1,2) n_def [symmetric] Let_def)
  ultimately show ?thesis by blast
qed

section \<open>The presentation agrees\<close>

definition to_water :: "hydrology_sample \<Rightarrow> water_sample" where
  "to_water h =
     (case hs_water_surface_mm h of
        None \<Rightarrow> water_dry
      | Some w \<Rightarrow> if hs_kind h = HydroLake then water_lake w else water_river w (hs_flow_hint_x h) (hs_flow_hint_y h))"

lemma to_water_field:
  "is_wet (to_water (local_field s q n p)) = wet_sample (local_field s q n p)"
  "sample_ok (to_water (local_field s q n p))"
  "wet_sample (local_field s q n p) \<Longrightarrow>
    hs_water_surface_mm (local_field s q n p) = Some (ws_water_surface_mm (to_water (local_field s q n p))) \<and>
    in_i32 (ws_water_surface_mm (to_water (local_field s q n p)))"
  unfolding local_field_def
  by (rule water_field_cases [of s "fqc_x q * (int n - 1) + int (snd p)" "fqc_y q * (int n - 1) + int (fst p)"],
    simp_all add: to_water_def is_wet_def wet_sample_def sample_ok_def hydro_dry_def hydro_lake_def hydro_river_def
      water_dry_def water_lake_def water_river_def)+

text \<open>What the presentation shows of a sample, and the height of the bed under it.\<close>

lemma shown_water:
  fixes s q n p
  defines "h \<equiv> local_field s q n p"
  shows "case hs_kind h of
      HydroDry \<Rightarrow> to_water h = water_dry \<and> bed h z = z
    | kind \<Rightarrow>
        ws_kind (to_water h) = (if kind = HydroLake then WaterLake else WaterRiver) \<and>
        hs_water_surface_mm h = Some (ws_water_surface_mm (to_water h)) \<and>
        bed h z = min z (saturate_i32 (ws_water_surface_mm (to_water h) -
          (if kind = HydroLake then lake_basin_depth_mm else river_channel_depth_mm))) \<and> is_wet (to_water h)"
  unfolding h_def local_field_def
  by (rule water_field_cases [of s "fqc_x q * (int n - 1) + int (snd p)" "fqc_y q * (int n - 1) + int (fst p)"],
    simp_all add: to_water_def is_wet_def bed_def hydro_dry_def hydro_lake_def hydro_river_def
      water_dry_def water_lake_def water_river_def)


lemma present_sample_value:
  assumes "hydrology_validate s = Inr s" "points_fit (tc_coord t) n" "2 \<le> n" "p \<in> set (grid n)"
    and "wet_sample (local_field s (tc_coord t) n p) \<Longrightarrow>
      tc_elevation_samples_mm t ! (fst p * n + snd p) \<le> ws_water_surface_mm (to_water (local_field s (tc_coord t) n p))"
  shows "present_sample s t n p = Inr (to_water (local_field s (tc_coord t) n p))"
proof -
  obtain y x where p: "p = (y, x)" "y < n" "x < n" by (rule grid_cases [OF assms(4)])
  note loc = sample_local_value [OF assms(1-3) p(2,3)]
  show ?thesis
    using assms(5) unfolding present_sample_def p(1) prod.case loc sum.case local_field_def
    by (cases rule: water_field_cases [of s "fqc_x (tc_coord t) * (int n - 1) + int (snd (y, x))"
          "fqc_y (tc_coord t) * (int n - 1) + int (fst (y, x))"])
      (simp_all add: Let_def to_water_def is_wet_def wet_sample_def ok_or_def hydro_dry_def hydro_lake_def hydro_river_def
        water_dry_def water_lake_def water_river_def)
qed

lemma water_presentation_value:
  assumes "terrain_validate t = Inr ()" "hydrology_validate s = Inr s" "tc_generator_version t = hy_generator_version s"
    and n: "n = unat (tc_control_grid_side t)" "points_fit (tc_coord t) n"
    and dry: "list_all (\<lambda>f. f AND cell_water = 0) (tc_cell_flags t)"
    and t': "integrates s t t'"
  shows "\<exists>p. generate_water_presentation s t' = Inr p \<and> water_validate p = Inr () \<and>
    (\<forall>i < n * n. wp_samples p ! i = to_water (local_field s (tc_coord t) n (i div n, i mod n)) \<and>
      (is_wet (wp_samples p ! i) \<longrightarrow> tc_elevation_samples_mm t' ! i \<le> ws_water_surface_mm (wp_samples p ! i)))"
proof -
  note side = validate_side [OF assms(1) n(1)]
  from t' have i: "t' = t\<lparr>tc_elevation_samples_mm := tc_elevation_samples_mm t', tc_cell_flags := tc_cell_flags t'\<rparr>"
    "\<And>i. i < n * n \<Longrightarrow> tc_elevation_samples_mm t' ! i =
       bed (local_field s (tc_coord t) n (i div n, i mod n)) (tc_elevation_samples_mm t ! i)"
    "\<And>i. i < (n - 1) * (n - 1) \<Longrightarrow> tc_cell_flags t' ! i =
       (if wet_cell s t n i then cell_water OR cell_blocked else tc_cell_flags t ! i)"
    by (simp_all add: integrates_def Let_def n)
  have f: "tc_coord t' = tc_coord t" "tc_generator_version t' = tc_generator_version t"
    "tc_control_grid_side t' = tc_control_grid_side t" by (subst i(1), simp)+
  let ?f = "\<lambda>p. to_water (local_field s (tc_coord t) n p)"
  let ?samples = "map ?f (grid n)"
  have below: "tc_elevation_samples_mm t' ! (fst p * n + snd p) \<le> ws_water_surface_mm (?f p)"
    if mem: "p \<in> set (grid n)" and wet: "wet_sample (local_field s (tc_coord t) n p)" for p
  proof -
    obtain y x where p: "p = (y, x)" "y < n" "x < n" by (rule grid_cases [OF mem])
    have e: "tc_elevation_samples_mm t' ! (y * n + x) =
      bed (local_field s (tc_coord t) n (y, x)) (tc_elevation_samples_mm t ! (y * n + x))"
      using i(2) [OF grid_index [OF p(2,3)]] p(3) by simp
    show ?thesis using to_water_field(3) [OF wet] by (auto simp: p(1) e intro: bed_below)
  qed
  have c1: "collect (present_sample s t' n) (grid n) = Inr ?samples"
    using present_sample_value [OF assms(2), of t' n] n(2) side(1) below by (intro collect_map) (simp add: f(1))
  have nth: "?samples ! i = ?f (i div n, i mod n)" if "i < n * n" for i
    using grid_nth [OF that] that by simp
  have c2: "collect (check_water_cell t' n ?samples) (grid (n - 1)) = Inr (map (\<lambda>_. ()) (grid (n - 1)))"
  proof (rule collect_map)
    fix p assume p: "p \<in> set (grid (n - 1))"
    obtain y x where yx: "p = (y, x)" "y < n - 1" "x < n - 1" by (rule grid_cases [OF p])
    let ?k = "y * (n - 1) + x"
    have k: "?k < (n - 1) * (n - 1)" using yx by (intro grid_index)
    have kp: "(?k div (n - 1), ?k mod (n - 1)) = p" using yx by simp
    have "is_wet (?samples ! c) = wet_point s t n c" if "c \<in> set (corners n p)" for c
      using nth [OF corners_range [OF p that]] by (simp add: to_water_field(1) wet_point_def)
    then have e: "(\<exists>c\<in>set (corners n p). is_wet (?samples ! c)) = wet_cell s t n ?k"
      unfolding wet_cell_def kp by blast
    have "tc_cell_flags t ! ?k AND cell_water = 0" using dry k side(3) by (simp add: list_all_length)
    then have "(tc_cell_flags t' ! ?k AND cell_water \<noteq> 0) = wet_cell s t n ?k"
      using i(3) [OF k] by (simp add: cell_water_def cell_blocked_def)
    with e show "check_water_cell t' n ?samples p = Inr ()" by (simp add: check_water_cell_def Let_def yx(1))
  qed
  let ?p = "\<lparr>wp_version = water_presentation_version, wp_coord = tc_coord t',
    wp_terrain_generator_version = tc_generator_version t', wp_hydrology_generator_version = hy_generator_version s,
    wp_control_grid_side = tc_control_grid_side t', wp_samples = ?samples\<rparr>"
  have v: "water_validate ?p = Inr ()"
    using assms(1,2,3) n(1) to_water_field(2)
    by (auto simp: water_validate_Inr f terrain_validate_Inr hydrology_validate_def control_points_def list_all_iff
        split: if_splits)
  have "generate_water_presentation s t' = Inr ?p"
    using integrates_valid [OF t' assms(1)] assms(3) c1 c2 v
    by (simp add: generate_water_presentation_def assms(2) f n(1) [symmetric] Let_def)
  moreover have "is_wet (?samples ! i) \<longrightarrow> tc_elevation_samples_mm t' ! i \<le> ws_water_surface_mm (?samples ! i)"
    if "i < n * n" for i
    using below [OF in_grid [OF that]] nth [OF that] by (simp add: to_water_field(1))
  ultimately show ?thesis using v nth by (intro exI [of _ ?p]) simp
qed

text \<open>A generated terrain has no water yet.\<close>

lemma generated_dry:
  assumes "generate_terrain_authority r c = Some (Inr t)"
  shows "list_all (\<lambda>f. f AND cell_water = 0) (tc_cell_flags t)"
proof (unfold list_all_iff, intro ballI)
  note g = generate_Inr [OF assms]
  fix f assume "f \<in> set (tc_cell_flags t)"
  then have "Some f \<in> set (map (flags_at (tc_elevation_samples_mm t) (trs_quadrant_size_mm r)) (grid 8))"
    unfolding g(4) [symmetric] by simp
  then obtain q where "flags_at (tc_elevation_samples_mm t) (trs_quadrant_size_mm r) q = Some f" by auto
  then have "f \<in> {cell_walkable OR cell_buildable, cell_walkable, cell_blocked}"
    by (auto simp: flags_at_def derive_cell_flags_def Let_def split: prod.splits option.splits if_splits)
  then show "f AND cell_water = 0" by (auto simp: cell_walkable_def cell_buildable_def cell_blocked_def cell_water_def)
qed

section \<open>Properties\<close>

text \<open>
  C20: looking at nine regions is enough: the lake selected at a point covers it, and among the lakes of all regions of the
  world that cover the point none comes before it in the order of distance and identity; if none is selected no lake of
  any region covers the point. (A lake that does not cover the point may well have a closer centre.)
\<close>

theorem lake_search_exact:
  assumes "in_i64 gx" "in_i64 gy"
  shows "case select_lake s gx gy of
      None \<Rightarrow> \<not> (\<exists>rx ry l. lake_candidate s rx ry = Some l \<and> lake_covers l gx gy)
    | Some l \<Rightarrow> lake_covers l gx gy \<and> (\<exists>rx ry. lake_candidate s rx ry = Some l) \<and>
        (\<forall>rx ry l'. lake_candidate s rx ry = Some l' \<and> lake_covers l' gx gy \<longrightarrow> lake_key l gx gy \<le> lake_key l' gx gy)"
proof -
  let ?regions = "List.product [saturate_i64 (div_euclid gy 48 - 1)..saturate_i64 (div_euclid gy 48 + 1)]
    [saturate_i64 (div_euclid gx 48 - 1)..saturate_i64 (div_euclid gx 48 + 1)]"
  note r = lake_regions [OF assms, of s]
  have hit: "lake_hit s gx gy (ry, rx) = Some (lake_key l gx gy, l)"
    if "lake_candidate s rx ry = Some l" "lake_covers l gx gy" for rx ry l
    using that by (simp add: lake_hit_Some)
  show ?thesis
  proof (cases "foldl (try_lake s gx gy) None ?regions")
    case None
    then have "\<forall>i\<in>set ?regions. lake_hit s gx gy i = None" by (simp only: lakes.search_none)
    then have none: "\<not> (\<exists>rx ry l. lake_candidate s rx ry = Some l \<and> lake_covers l gx gy)"
      using hit r(1) by (metis option.distinct(1))
    show ?thesis unfolding r(2) None using none by (simp only: option.map option.case) simp
  next
    case (Some kl)
    obtain k l where kl: "kl = (k, l)" by (cases kl)
    note some = Some [unfolded kl]
    obtain ry rx where "lake_hit s gx gy (ry, rx) = Some (k, l)" using lakes.search_some(1) [OF some] by auto
    then have l: "lake_candidate s rx ry = Some l" "lake_covers l gx gy" "k = lake_key l gx gy"
      by (simp_all add: lake_hit_Some)
    have "lake_key l gx gy \<le> lake_key l' gx gy" if "lake_candidate s rx' ry' = Some l'" "lake_covers l' gx gy" for rx' ry' l'
      using lakes.search_some(2) [OF some r(1) [OF hit [OF that]] hit [OF that]] l(3) by simp
    then show ?thesis unfolding r(2) some using l by auto
  qed
qed

definition sample_water :: hydrology_settings where
  "sample_water = \<lparr>hy_world_seed = 0xA11CEFA11A11CE01, hy_generator_version = 1\<rparr>"

theorem lake_search_exact_witness:
  "(select_lake sample_water 33 (- 128) \<noteq> None) =
   (\<exists>rx ry l. lake_candidate sample_water rx ry = Some l \<and> lake_covers l 33 (- 128))"
  using lake_search_exact [of 33 "- 128" sample_water] by (auto simp: in_i64_def split: option.splits)

text \<open>
  A river never leaves its band: away from the edge of the coordinates the river selected at a point is that of
  the point's own band of 96 control points, when it covers the point, and there is no other.
\<close>

theorem river_stays_in_band:
  assumes "\<bar>gx\<bar> \<le> 2 ^ 59"
  shows "select_river s gx gy =
    (if river_covers (river_candidate s (gx div 96) gy) gx then Some (river_candidate s (gx div 96) gy) else None)"
proof -
  let ?b = "gx div 96"
  have "- (2 ^ 54) * 96 \<le> gx" "gx \<le> 2 ^ 54 * 96" using assms by (simp_all add: abs_le_iff)
  then have "- (2 ^ 54) \<le> ?b" "?b \<le> 2 ^ 54" by (rule div_between; simp)+
  then have "in_i64 (?b - 1)" "in_i64 (?b + 1)" by (simp_all add: in_i64_def)
  then have sel: "select_river s gx gy = map_option snd (foldl (try_river s gx gy) None [?b - 1..?b + 1])"
    by (simp add: select_river_def river_band_spacing_def div_euclid_def saturate_i64_id Let_def)
  have own: "band = ?b" if "band \<in> set [?b - 1..?b + 1]" "river_hit s gx gy band = Some h" for band h
    using that river_hit_own_band [OF assms _ that(2)] by (simp add: abs_le_iff)
  show ?thesis
  proof (cases "foldl (try_river s gx gy) None [?b - 1..?b + 1]")
    case None
    then have "\<forall>i\<in>set [?b - 1..?b + 1]. river_hit s gx gy i = None" by (simp only: rivers.search_none)
    then have "river_hit s gx gy ?b = None" by simp
    with sel None show ?thesis by (simp add: river_hit_def Let_def split: if_splits)
  next
    case (Some kr)
    obtain k r where kr: "kr = (k, r)" by (cases kr)
    obtain band where band: "band \<in> set [?b - 1..?b + 1]" "river_hit s gx gy band = Some (k, r)"
      using rivers.search_some(1) [OF Some [unfolded kr]] by blast
    with own have "river_hit s gx gy ?b = Some (k, r)" by metis
    with sel Some kr show ?thesis by (simp add: river_hit_def Let_def split: if_splits)
  qed
qed

theorem river_stays_in_band_witness:
  "select_river sample_water 500 7 =
   (if river_covers (river_candidate sample_water 5 7) 500 then Some (river_candidate sample_water 5 7) else None)"
  using river_stays_in_band [of 500 sample_water 7] by simp

text \<open>
  C18: terrain, water and its presentation agree with the sampled hydrology: integrating the hydrology into a generated terrain
  succeeds and keeps it valid, and the presentation of the result is generated without any of its errors. At each of the 81 control
  points the hydrology has a sample: the presentation shows its kind of water at its surface, a dry point keeps its ground, and
  a wet one is cut down to the depth of its lake or river below the surface, so it is never above the water. A cell is marked
  water exactly when the hydrology is wet at one of its corners.
\<close>

theorem terrain_water_agree:
  assumes "generate_terrain_authority r c = Some (Inr t)"
    and "hydrology_validate s = Inr s" "hy_generator_version s = trs_generator_version r"
  shows "\<exists>t' p h. apply_hydrology s t = Inr t' \<and> terrain_validate t' = Inr () \<and>
    generate_water_presentation s t' = Inr p \<and> water_validate p = Inr () \<and>
    (\<forall>i < 81. sample_hydrology_local s c (int (i mod 9)) (int (i div 9)) 8 = Inr (h i) \<and>
      (case hs_kind (h i) of
         HydroDry \<Rightarrow> wp_samples p ! i = water_dry \<and> tc_elevation_samples_mm t' ! i = tc_elevation_samples_mm t ! i
       | kind \<Rightarrow>
           ws_kind (wp_samples p ! i) = (if kind = HydroLake then WaterLake else WaterRiver) \<and>
           hs_water_surface_mm (h i) = Some (ws_water_surface_mm (wp_samples p ! i)) \<and>
           tc_elevation_samples_mm t' ! i = min (tc_elevation_samples_mm t ! i)
             (saturate_i32 (ws_water_surface_mm (wp_samples p ! i) -
               (if kind = HydroLake then lake_basin_depth_mm else river_channel_depth_mm))) \<and>
           tc_elevation_samples_mm t' ! i \<le> ws_water_surface_mm (wp_samples p ! i))) \<and>
    (\<forall>i < 64. (tc_cell_flags t' ! i AND cell_water \<noteq> 0) =
      (\<exists>k\<in>set (corners 9 (i div 8, i mod 8)). hs_kind (h k) \<noteq> HydroDry))"
proof -
  note g = generate_Inr [OF assms(1)]
  have n: "unat (tc_control_grid_side t) = 9" by (simp add: g(9))
  have fit: "points_fit (tc_coord t) 9" using g(2) by (simp add: points_fit_def lattice_fits_def g(6))
  note dry = generated_dry [OF assms(1)]
  have nine: "(9 :: nat) * 9 = 81" by simp
  have gen: "tc_generator_version t = hy_generator_version s" using g(8) assms(3) by simp
  obtain t' where t': "apply_hydrology s t = Inr t'" "integrates s t t'"
    using apply_hydrology_value [OF g(5) assms(2) gen] n fit by auto
  obtain p where p: "generate_water_presentation s t' = Inr p" "water_validate p = Inr ()"
    "\<And>i. i < 81 \<Longrightarrow> wp_samples p ! i = to_water (local_field s (tc_coord t) 9 (i div 9, i mod 9))"
    "\<And>i. i < 81 \<Longrightarrow> is_wet (wp_samples p ! i) \<Longrightarrow> tc_elevation_samples_mm t' ! i \<le> ws_water_surface_mm (wp_samples p ! i)"
    using water_presentation_value [OF g(5) assms(2) gen n [symmetric] fit dry t'(2)] unfolding nine by blast
  from t'(2) have i: "\<And>i. i < 81 \<Longrightarrow> tc_elevation_samples_mm t' ! i =
      bed (local_field s (tc_coord t) 9 (i div 9, i mod 9)) (tc_elevation_samples_mm t ! i)"
    "\<And>i. i < 64 \<Longrightarrow> tc_cell_flags t' ! i = (if wet_cell s t 9 i then cell_water OR cell_blocked else tc_cell_flags t ! i)"
    "length (tc_cell_flags t) = 64"
    using validate_side(3) [OF g(5) n [symmetric]] by (simp_all add: integrates_def n Let_def)
  let ?h = "\<lambda>k. local_field s (tc_coord t) 9 (k div 9, k mod 9)"
  have point: "sample_hydrology_local s c (int (k mod 9)) (int (k div 9)) 8 = Inr (?h k) \<and>
      (case hs_kind (?h k) of
         HydroDry \<Rightarrow> wp_samples p ! k = water_dry \<and> tc_elevation_samples_mm t' ! k = tc_elevation_samples_mm t ! k
       | kind \<Rightarrow>
           ws_kind (wp_samples p ! k) = (if kind = HydroLake then WaterLake else WaterRiver) \<and>
           hs_water_surface_mm (?h k) = Some (ws_water_surface_mm (wp_samples p ! k)) \<and>
           tc_elevation_samples_mm t' ! k = min (tc_elevation_samples_mm t ! k)
             (saturate_i32 (ws_water_surface_mm (wp_samples p ! k) -
               (if kind = HydroLake then lake_basin_depth_mm else river_channel_depth_mm))) \<and>
           tc_elevation_samples_mm t' ! k \<le> ws_water_surface_mm (wp_samples p ! k))" if k: "k < 81" for k
  proof (intro conjI)
    have "k div 9 < 9" "k mod 9 < 9" using k by auto
    from sample_local_value [OF assms(2) fit _ this]
    show "sample_hydrology_local s c (int (k mod 9)) (int (k div 9)) 8 = Inr (?h k)" by (simp add: g(6))
    show "case hs_kind (?h k) of
         HydroDry \<Rightarrow> wp_samples p ! k = water_dry \<and> tc_elevation_samples_mm t' ! k = tc_elevation_samples_mm t ! k
       | kind \<Rightarrow>
           ws_kind (wp_samples p ! k) = (if kind = HydroLake then WaterLake else WaterRiver) \<and>
           hs_water_surface_mm (?h k) = Some (ws_water_surface_mm (wp_samples p ! k)) \<and>
           tc_elevation_samples_mm t' ! k = min (tc_elevation_samples_mm t ! k)
             (saturate_i32 (ws_water_surface_mm (wp_samples p ! k) -
               (if kind = HydroLake then lake_basin_depth_mm else river_channel_depth_mm))) \<and>
           tc_elevation_samples_mm t' ! k \<le> ws_water_surface_mm (wp_samples p ! k)"
      using shown_water [of s "tc_coord t" 9 "(k div 9, k mod 9)"] p(3,4) [OF k] i(1) [OF k]
      by (cases "hs_kind (?h k)") simp_all
  qed
  have cells: "(tc_cell_flags t' ! k AND cell_water \<noteq> 0) = (\<exists>j\<in>set (corners 9 (k div 8, k mod 8)). hs_kind (?h j) \<noteq> HydroDry)"
    if k: "k < 64" for k
  proof -
    have kg: "(k div 8, k mod 8) \<in> set (grid (9 - 1))" using in_grid [of k 8] k by (simp del: set_grid)
    have "(\<exists>j\<in>set (corners 9 (k div 8, k mod 8)). hs_kind (?h j) \<noteq> HydroDry) = wet_cell s t 9 k"
      by (simp add: wet_cell_def wet_point_def wet_sample_def)
    moreover have "tc_cell_flags t ! k AND cell_water = 0" using dry k i(3) by (simp add: list_all_length)
    ultimately show ?thesis using i(2) [OF k] by (simp add: cell_water_def cell_blocked_def)
  qed
  from t'(1) p(1,2) integrates_valid [OF t'(2) g(5)] point cells show ?thesis
    by (intro exI [of _ t'] exI [of _ p] exI [of _ ?h]) blast
qed

theorem terrain_water_agree_witness:
  "\<exists>t' p. apply_hydrology sample_water (generated sample_settings (FrontierQuadrantCoord 3 (- 2))) = Inr t' \<and>
     generate_water_presentation sample_water t' = Inr p"
proof -
  have "generate_terrain_authority sample_settings (FrontierQuadrantCoord 3 (- 2)) =
      Some (Inr (generated sample_settings (FrontierQuadrantCoord 3 (- 2))))"
    using generate_value [OF sample_settings_ok, of "FrontierQuadrantCoord 3 (- 2)"] by (simp add: lattice_fits_def in_i64_def)
  from terrain_water_agree [OF this, of sample_water] show ?thesis
    by (auto simp: hydrology_validate_def sample_water_def sample_settings_def)
qed

end
