(* ===== verification/Revealed_Terrain.thy ===== *)
theory Revealed_Terrain
  imports Preparation_Scheduler Terrain_Environment Hydrology
begin

unbundle bit_operations_syntax

text \<open>
  The terrain side of apps/world-server/src/preparation\_scheduler.rs: the generation the executor runs, and the lookup of
  the terrain, policy and water that are delivered for a revealed quadrant. It composes Terrain, Terrain\_Environment and
  Hydrology with the artifacts the scheduler retains. blake3 is two arguments, \<open>hash\<close> and its keyed mode \<open>keyed\<close>.
\<close>

section \<open>Generation\<close>

definition terrain_world_seed :: "(u8 list \<Rightarrow> u8 list \<Rightarrow> u8 list) \<Rightarrow> universe_seed \<Rightarrow> u64" where
  "terrain_world_seed keyed u = from_le_bytes (take 8 (quadrant_seed keyed u (QuadrantCoord 0 0) 1))"

datatype integrated_error =
  BaseTerrainFailed terrain_recipe_error
| IntegrationFailed integration_error

text \<open>\<open>None\<close> is the overflow of the grade comparison in the recipe.\<close>

definition generate_integrated_terrain ::
  "int \<Rightarrow> u32 \<Rightarrow> u64 \<Rightarrow> frontier_quadrant_coord \<Rightarrow> u8 list \<Rightarrow> (integrated_error + terrain_contract) option" where
  "generate_integrated_terrain size_mm gen seed c available =
     (case generate_terrain_authority
             \<lparr>trs_quadrant_size_mm = size_mm, trs_generator_version = gen, trs_world_seed = seed\<rparr> c of
        None \<Rightarrow> None
      | Some (Inl e) \<Rightarrow> Some (Inl (BaseTerrainFailed e))
      | Some (Inr t) \<Rightarrow>
          (let t1 = (if available \<noteq> []
                     then t\<lparr>tc_biome_id := derive_quadrant_biome_from_pool seed c available\<rparr> else t)
           in Some (map_sum IntegrationFailed id
                (apply_hydrology \<lparr>hy_world_seed = seed, hy_generator_version = gen\<rparr> t1))))"

text \<open>What the executor makes of it: a panic in the blocking task is reported as a failure.\<close>

definition retain_contract :: "(u8 list \<Rightarrow> u8 list) \<Rightarrow> terrain_contract \<Rightarrow> terrain_contract retained_terrain" where
  "retain_contract hash t =
     (let a = artifact_from_contract hash t
      in \<lparr>rn_contract = ta_contract a, rn_fingerprint = ta_fingerprint a, rn_byte_len = artifact_byte_len a\<rparr>)"

definition executor_generate ::
  "(u8 list \<Rightarrow> u8 list) \<Rightarrow> int \<Rightarrow> u64 \<Rightarrow> u8 list \<Rightarrow> quadrant_coord \<Rightarrow> u32
     \<Rightarrow> string + terrain_contract retained_terrain" where
  "executor_generate hash size_mm seed available c gen =
     (case generate_integrated_terrain size_mm gen seed (FrontierQuadrantCoord (qc_x c) (qc_y c)) available of
        None \<Rightarrow> Inl ''blocking task failed''
      | Some (Inl e) \<Rightarrow> Inl ''generation failed''
      | Some (Inr t) \<Rightarrow> Inr (retain_contract hash t))"

section \<open>Lookup\<close>

datatype revealed_error =
  RegenerationFailed integrated_error
| PolicyFailed environment_generation_error
| PolicyIdentityDiverged
| WaterFailed water_generation_error
| WaterIdentityDiverged
| PolicyWaterDiverged

definition find_retained ::
  "terrain_contract scheduler \<Rightarrow> frontier_quadrant_coord \<Rightarrow> terrain_contract retained_terrain option" where
  "find_retained sc c =
     map_option snd (find (\<lambda>(i, _). pi_generator_version i = sc_generator_version sc \<and>
       qc_x (pi_coord i) = fqc_x c \<and> qc_y (pi_coord i) = fqc_y c) (sc_retained sc))"

definition terrain_authority_for_revealed ::
  "(u8 list \<Rightarrow> u8 list \<Rightarrow> u8 list) \<Rightarrow> terrain_contract scheduler \<Rightarrow> frontier_quadrant_coord
     \<Rightarrow> (revealed_error + terrain_contract) option" where
  "terrain_authority_for_revealed keyed sc c =
     (case find_retained sc c of
        Some a \<Rightarrow> Some (Inr (rn_contract a))
      | None \<Rightarrow>
          map_option (map_sum RegenerationFailed id)
            (generate_integrated_terrain (sc_quadrant_size_mm sc) (sc_generator_version sc)
              (terrain_world_seed keyed (sc_universe_seed sc)) c []))"

definition presentation_contracts_for_revealed ::
  "(u8 list \<Rightarrow> u8 list) \<Rightarrow> (u8 list \<Rightarrow> u8 list \<Rightarrow> u8 list) \<Rightarrow> terrain_contract scheduler \<Rightarrow> frontier_quadrant_coord
     \<Rightarrow> (revealed_error + terrain_contract \<times> environment_policy) option" where
  "presentation_contracts_for_revealed hash keyed sc c =
     (case terrain_authority_for_revealed keyed sc c of
        None \<Rightarrow> None
      | Some (Inl e) \<Rightarrow> Some (Inl e)
      | Some (Inr t) \<Rightarrow>
          Some (case generate_environment_policy hash (terrain_world_seed keyed (sc_universe_seed sc))
                       (ta_contract (artifact_from_contract hash t)) of
                  Inl e \<Rightarrow> Inl (PolicyFailed e)
                | Inr p \<Rightarrow>
                    if ep_coord p \<noteq> tc_coord t \<or> ep_terrain_generator_version p \<noteq> tc_generator_version t \<or>
                       ep_control_grid_side p \<noteq> tc_control_grid_side t \<or>
                       length (ep_cell_family_masks p) \<noteq> length (tc_cell_flags t)
                    then Inl PolicyIdentityDiverged else Inr (t, p)))"

definition presentation_contracts_with_water_for_revealed ::
  "(u8 list \<Rightarrow> u8 list) \<Rightarrow> (u8 list \<Rightarrow> u8 list \<Rightarrow> u8 list) \<Rightarrow> terrain_contract scheduler \<Rightarrow> frontier_quadrant_coord
     \<Rightarrow> (revealed_error + terrain_contract \<times> environment_policy \<times> water_presentation) option" where
  "presentation_contracts_with_water_for_revealed hash keyed sc c =
     (case presentation_contracts_for_revealed hash keyed sc c of
        None \<Rightarrow> None
      | Some (Inl e) \<Rightarrow> Some (Inl e)
      | Some (Inr (t, p)) \<Rightarrow>
          Some (case generate_water_presentation
                       \<lparr>hy_world_seed = terrain_world_seed keyed (sc_universe_seed sc),
                        hy_generator_version = sc_generator_version sc\<rparr> t of
                  Inl e \<Rightarrow> Inl (WaterFailed e)
                | Inr w \<Rightarrow>
                    if wp_coord w \<noteq> tc_coord t \<or> wp_terrain_generator_version w \<noteq> tc_generator_version t \<or>
                       wp_hydrology_generator_version w \<noteq> tc_generator_version t \<or>
                       wp_control_grid_side w \<noteq> tc_control_grid_side t \<or>
                       length (wp_samples w) \<noteq> length (tc_elevation_samples_mm t)
                    then Inl WaterIdentityDiverged
                    else if ep_coord p \<noteq> wp_coord w \<or> ep_terrain_generator_version p \<noteq> wp_terrain_generator_version w \<or>
                       ep_control_grid_side p \<noteq> wp_control_grid_side w
                    then Inl PolicyWaterDiverged else Inr (t, p, w)))"

section \<open>A generated terrain and its presentations\<close>

text \<open>An integrated terrain: what the generation makes of a recipe, whatever the biome it was given.\<close>

definition integrated_at :: "int \<Rightarrow> u32 \<Rightarrow> u64 \<Rightarrow> frontier_quadrant_coord \<Rightarrow> terrain_contract \<Rightarrow> bool" where
  "integrated_at size_mm gen seed c t' \<longleftrightarrow>
     (\<exists>t biome. generate_terrain_authority
          \<lparr>trs_quadrant_size_mm = size_mm, trs_generator_version = gen, trs_world_seed = seed\<rparr> c = Some (Inr t) \<and>
        integrates \<lparr>hy_world_seed = seed, hy_generator_version = gen\<rparr> (t\<lparr>tc_biome_id := biome\<rparr>) t')"

definition recipe_fits :: "int \<Rightarrow> u32 \<Rightarrow> bool" where
  "recipe_fits size_mm gen \<longleftrightarrow> 0 < size_mm \<and> in_i64 size_mm \<and> size_mm * size_mm * 700 * 700 < 2 ^ 127 \<and> gen \<noteq> 0"

lemma biome_irrelevant:
  "terrain_validate (t\<lparr>tc_biome_id := biome\<rparr>) = Inr () \<longleftrightarrow> terrain_validate t = Inr ()"
  by (simp add: terrain_validate_Inr)

lemma integrated_facts:
  assumes "generate_terrain_authority r c = Some (Inr t)"
  shows "terrain_validate (t\<lparr>tc_biome_id := biome\<rparr>) = Inr ()"
    "unat (tc_control_grid_side (t\<lparr>tc_biome_id := biome\<rparr>)) = 9"
    "list_all (\<lambda>f. f AND cell_water = 0) (tc_cell_flags (t\<lparr>tc_biome_id := biome\<rparr>))"
  using generate_Inr [OF assms] generated_dry [OF assms] by (simp_all add: biome_irrelevant)

lemma lattice_points_fit: "lattice_fits c \<Longrightarrow> points_fit c 9"
  by (simp add: points_fit_def lattice_fits_def)

lemma generate_integrated_value:
  assumes fits: "recipe_fits size_mm gen" "lattice_fits c"
  obtains t' where "generate_integrated_terrain size_mm gen seed c available = Some (Inr t')"
    "integrated_at size_mm gen seed c t'"
proof -
  let ?r = "\<lparr>trs_quadrant_size_mm = size_mm, trs_generator_version = gen, trs_world_seed = seed\<rparr>"
  let ?s = "\<lparr>hy_world_seed = seed, hy_generator_version = gen\<rparr>"
  have "recipe_validate ?r = Inr ?r" using fits(1) by (simp add: recipe_validate_def recipe_fits_def)
  from generate_value [OF this, of c] fits obtain t where t: "generate_terrain_authority ?r c = Some (Inr t)"
    by (auto simp: recipe_fits_def)
  define biome where "biome = (if available \<noteq> [] then derive_quadrant_biome_from_pool seed c available else tc_biome_id t)"
  have t1: "(if available \<noteq> [] then t\<lparr>tc_biome_id := derive_quadrant_biome_from_pool seed c available\<rparr> else t) =
      t\<lparr>tc_biome_id := biome\<rparr>"
    by (simp add: biome_def)
  note f = integrated_facts [OF t, of biome] and g = generate_Inr [OF t]
  have "hydrology_validate ?s = Inr ?s" using fits(1) by (simp add: hydrology_validate_def recipe_fits_def)
  from apply_hydrology_value [OF f(1) this] obtain t' where
    t': "apply_hydrology ?s (t\<lparr>tc_biome_id := biome\<rparr>) = Inr t'" "integrates ?s (t\<lparr>tc_biome_id := biome\<rparr>) t'"
    using lattice_points_fit [OF g(2)] f(2) g(6,8) by auto
  show ?thesis
  proof (rule that)
    show "generate_integrated_terrain size_mm gen seed c available = Some (Inr t')"
      by (simp add: generate_integrated_terrain_def t t1 t'(1) Let_def)
    show "integrated_at size_mm gen seed c t'" using t t'(2) by (auto simp: integrated_at_def)
  qed
qed

lemma generate_integrated_Inr:
  assumes "generate_integrated_terrain size_mm gen seed c available = Some (Inr t')"
  shows "integrated_at size_mm gen seed c t'"
proof -
  let ?r = "\<lparr>trs_quadrant_size_mm = size_mm, trs_generator_version = gen, trs_world_seed = seed\<rparr>"
  let ?s = "\<lparr>hy_world_seed = seed, hy_generator_version = gen\<rparr>"
  from assms obtain t where t: "generate_terrain_authority ?r c = Some (Inr t)"
    by (auto simp: generate_integrated_terrain_def split: option.splits sum.splits)
  define biome where "biome = (if available \<noteq> [] then derive_quadrant_biome_from_pool seed c available else tc_biome_id t)"
  have t1: "(if available \<noteq> [] then t\<lparr>tc_biome_id := derive_quadrant_biome_from_pool seed c available\<rparr> else t) =
      t\<lparr>tc_biome_id := biome\<rparr>"
    by (simp add: biome_def)
  from assms have a: "apply_hydrology ?s (t\<lparr>tc_biome_id := biome\<rparr>) = Inr t'"
    by (cases "apply_hydrology ?s (t\<lparr>tc_biome_id := biome\<rparr>)") (auto simp: generate_integrated_terrain_def t t1 Let_def)
  note f = integrated_facts [OF t, of biome] and g = generate_Inr [OF t]
  have "gen \<noteq> 0" using g(1) by (auto simp: recipe_validate_def split: if_splits)
  then have "hydrology_validate ?s = Inr ?s" by (simp add: hydrology_validate_def)
  from apply_hydrology_value [OF f(1) this] a have "integrates ?s (t\<lparr>tc_biome_id := biome\<rparr>) t'"
    using lattice_points_fit [OF g(2)] f(2) g(6,8) by auto
  with t show ?thesis by (auto simp: integrated_at_def)
qed

lemma water_presentation_fields:
  assumes "generate_water_presentation s t = Inr p"
  shows "wp_coord p = tc_coord t" "wp_terrain_generator_version p = tc_generator_version t"
    "wp_hydrology_generator_version p = tc_generator_version t" "wp_control_grid_side p = tc_control_grid_side t"
  using assms by (auto simp: generate_water_presentation_def Let_def split: sum.splits if_splits)

lemma bed_in_i32: "in_i32 h \<Longrightarrow> in_i32 (bed smp h)"
  by (auto simp: bed_def in_i32_def saturate_i32_def clamp_def split: option.split)

text \<open>What a client is promised about the three messages of a quadrant.\<close>

definition deliverable :: "frontier_quadrant_coord \<Rightarrow> terrain_contract \<Rightarrow> environment_policy \<Rightarrow> water_presentation \<Rightarrow> bool" where
  "deliverable c t p w \<longleftrightarrow> tc_coord t = c \<and> ep_coord p = c \<and> wp_coord w = c \<and>
     terrain_valid t \<and> environment_valid p \<and> water_valid w \<and>
     (\<forall>i < 64. (tc_cell_flags t ! i AND cell_water \<noteq> 0) = (\<exists>k\<in>set (corners 9 (i div 8, i mod 8)). is_wet (wp_samples w ! k)) \<and>
        mask_respects (tc_cell_flags t ! i) (ep_cell_family_masks p ! i)) \<and>
     (\<forall>i < 81. is_wet (wp_samples w ! i) \<longrightarrow> tc_elevation_samples_mm t ! i \<le> ws_water_surface_mm (wp_samples w ! i))"

lemma integrated_at_terrain:
  assumes at: "integrated_at size_mm gen seed c t'" and size_mm: "in_i64 size_mm"
  shows "terrain_valid t'" "tc_coord t' = c" "tc_generator_version t' = gen" "tc_control_grid_side t' = 9"
    "length (tc_cell_flags t') = 64" "length (tc_elevation_samples_mm t') = 81" "lattice_fits c" "gen \<noteq> 0"
proof -
  let ?r = "\<lparr>trs_quadrant_size_mm = size_mm, trs_generator_version = gen, trs_world_seed = seed\<rparr>"
  let ?s = "\<lparr>hy_world_seed = seed, hy_generator_version = gen\<rparr>"
  from at obtain t biome where t: "generate_terrain_authority ?r c = Some (Inr t)"
    and i: "integrates ?s (t\<lparr>tc_biome_id := biome\<rparr>) t'" by (auto simp: integrated_at_def)
  note g = generate_Inr [OF t] and f = integrated_facts [OF t, of biome]
  have n: "unat (tc_control_grid_side t) = 9" using g(9) by simp
  from i have e: "t' = t\<lparr>tc_biome_id := biome, tc_elevation_samples_mm := tc_elevation_samples_mm t', tc_cell_flags := tc_cell_flags t'\<rparr>"
    and len: "length (tc_elevation_samples_mm t') = 81" "length (tc_cell_flags t') = 64"
    and h: "\<And>i. i < 81 \<Longrightarrow> tc_elevation_samples_mm t' ! i =
      bed (local_field ?s (tc_coord t) 9 (i div 9, i mod 9)) (tc_elevation_samples_mm t ! i)"
    by (simp_all add: integrates_def Let_def n)
  have flds: "tc_coord t' = c" "tc_generator_version t' = gen" "tc_control_grid_side t' = 9" "tc_quadrant_size_mm t' = size_mm"
    using g(6-9) by (subst e, simp)+
  have "in_i32 (tc_elevation_samples_mm t ! k)" if "k < 81" for k
    using relief_lattice_heights [OF that, of seed gen c] g(3) by (auto simp: in_i32_def abs_le_iff)
  then have "list_all in_i32 (tc_elevation_samples_mm t')"
    by (simp add: list_all_length len(1) h bed_in_i32)
  moreover have "coord_fits c" using g(2) by (auto simp: lattice_fits_def coord_fits_def in_i64_def)
  ultimately show "terrain_valid t'" using integrates_valid [OF i f(1)] size_mm flds by (simp add: terrain_valid_def)
  show "tc_coord t' = c" "tc_generator_version t' = gen" "tc_control_grid_side t' = 9"
    "length (tc_cell_flags t') = 64" "length (tc_elevation_samples_mm t') = 81" "lattice_fits c"
    using flds len g(2) by simp_all
  show "gen \<noteq> 0" using g(1) by (auto simp: recipe_validate_def split: if_splits)
qed

lemma integrated_at_policy:
  assumes at: "integrated_at size_mm gen seed c t'" and size_mm: "in_i64 size_mm"
  obtains p where "generate_environment_policy hash seed' t' = Inr p" "environment_valid p" "ep_coord p = c"
    "ep_terrain_generator_version p = gen" "ep_control_grid_side p = 9" "length (ep_cell_family_masks p) = 64"
    "\<forall>i < 64. mask_respects (tc_cell_flags t' ! i) (ep_cell_family_masks p ! i)"
proof -
  note t = integrated_at_terrain [OF at size_mm]
  have "cells_fit (tc_coord t') 8" using t(2,7) by (auto simp: lattice_fits_def cells_fit_def in_i64_def)
  moreover have "coord_fits c" using t(1,2) by (simp add: terrain_valid_def)
  ultimately show ?thesis
    using environment_policy_value [of t' 8 hash seed'] t(1-4) that
    by (auto simp: terrain_valid_def environment_valid_def)
qed

lemma to_water_fits: "sample_fits (to_water (local_field s q n p))"
  unfolding local_field_def
  by (rule water_field_cases [of s "fqc_x q * (int n - 1) + int (snd p)" "fqc_y q * (int n - 1) + int (fst p)"])
    (auto simp: to_water_def sample_fits_def in_i32_def hydro_dry_def hydro_lake_def hydro_river_def
      water_dry_def water_lake_def water_river_def)

lemma integrated_at_water:
  assumes at: "integrated_at size_mm gen seed c t'"
  obtains w where "generate_water_presentation \<lparr>hy_world_seed = seed, hy_generator_version = gen\<rparr> t' = Inr w"
    "water_validate w = Inr ()" "list_all sample_fits (wp_samples w)" "length (wp_samples w) = 81"
    "\<forall>i < 64. (tc_cell_flags t' ! i AND cell_water \<noteq> 0) = (\<exists>k\<in>set (corners 9 (i div 8, i mod 8)). is_wet (wp_samples w ! k))"
    "\<forall>i < 81. is_wet (wp_samples w ! i) \<longrightarrow> tc_elevation_samples_mm t' ! i \<le> ws_water_surface_mm (wp_samples w ! i)"
proof -
  let ?r = "\<lparr>trs_quadrant_size_mm = size_mm, trs_generator_version = gen, trs_world_seed = seed\<rparr>"
  let ?s = "\<lparr>hy_world_seed = seed, hy_generator_version = gen\<rparr>"
  from at obtain t0 biome where t0: "generate_terrain_authority ?r c = Some (Inr t0)"
    and i: "integrates ?s (t0\<lparr>tc_biome_id := biome\<rparr>) t'" by (auto simp: integrated_at_def)
  define t where "t = t0\<lparr>tc_biome_id := biome\<rparr>"
  note g = generate_Inr [OF t0] and f = integrated_facts [OF t0, of biome, folded t_def]
  have tf: "tc_coord t = c" "tc_generator_version t = gen" using g(6,8) by (simp_all add: t_def)
  have gen: "gen \<noteq> 0" using g(1) by (auto simp: recipe_validate_def split: if_splits)
  then have v: "hydrology_validate ?s = Inr ?s" by (simp add: hydrology_validate_def)
  note i = i [folded t_def]
  have nine: "(9 :: nat) * 9 = 81" by simp
  have "tc_generator_version t = hy_generator_version ?s" "points_fit (tc_coord t) 9"
    using lattice_points_fit [OF g(2)] by (simp_all add: tf)
  from water_presentation_value [OF f(1) v this(1) f(2) [symmetric] this(2) f(3) i, unfolded nine tf]
  obtain w where w: "generate_water_presentation ?s t' = Inr w" "water_validate w = Inr ()"
    and all: "\<forall>i < 81. wp_samples w ! i = to_water (local_field ?s c 9 (i div 9, i mod 9)) \<and>
      (is_wet (wp_samples w ! i) \<longrightarrow> tc_elevation_samples_mm t' ! i \<le> ws_water_surface_mm (wp_samples w ! i))"
    by blast
  from all have pts: "wp_samples w ! i = to_water (local_field ?s c 9 (i div 9, i mod 9))"
    "is_wet (wp_samples w ! i) \<Longrightarrow> tc_elevation_samples_mm t' ! i \<le> ws_water_surface_mm (wp_samples w ! i)" if "i < 81" for i
    using that by blast+
  have side: "wp_control_grid_side w = 9"
  proof -
    have "tc_control_grid_side t' = tc_control_grid_side t0"
      using i by (auto simp: integrates_def t_def Let_def dest: arg_cong [of _ _ tc_control_grid_side])
    then show ?thesis using water_presentation_fields(4) [OF w(1)] g(9) by simp
  qed
  then have len: "length (wp_samples w) = 81" using w(2) by (simp add: water_validate_Inr control_points_def)
  have fits: "sample_fits (wp_samples w ! k)" if "k < 81" for k
    by (simp add: pts(1) [OF that] to_water_fits)
  have wet: "is_wet (wp_samples w ! k) = wet_point ?s t 9 k" if "k < 81" for k
    using pts(1) [OF that] by (simp add: to_water_field(1) wet_point_def tf)
  have cells: "(tc_cell_flags t' ! k AND cell_water \<noteq> 0) = (\<exists>j\<in>set (corners 9 (k div 8, k mod 8)). is_wet (wp_samples w ! j))"
    if k: "k < 64" for k
  proof -
    have kg: "(k div 8, k mod 8) \<in> set (grid (9 - 1))" using in_grid [of k 8] k by (simp del: set_grid)
    have "is_wet (wp_samples w ! j) = wet_point ?s t 9 j" if "j \<in> set (corners 9 (k div 8, k mod 8))" for j
      using corners_range [OF kg that] by (intro wet) simp
    then have "(\<exists>j\<in>set (corners 9 (k div 8, k mod 8)). is_wet (wp_samples w ! j)) = wet_cell ?s t 9 k"
      unfolding wet_cell_def by simp
    moreover have "tc_cell_flags t ! k AND cell_water = 0"
      using f(3) k validate_side(3) [OF f(1) f(2) [symmetric]] by (simp add: list_all_length)
    moreover have "tc_cell_flags t' ! k = (if wet_cell ?s t 9 k then cell_water OR cell_blocked else tc_cell_flags t ! k)"
      using i k f(2) by (simp add: integrates_def Let_def)
    ultimately show ?thesis by (simp add: cell_water_def cell_blocked_def)
  qed
  from w fits len cells pts(2) show ?thesis by (intro that) (auto simp: list_all_length)
qed

section \<open>The retained artifacts\<close>

text \<open>
  An evaluation may drop retained artifacts, never add or change one, and leaves the configuration alone; only the
  executor adds to the store.
\<close>

definition store_shrinks :: "'c scheduler \<Rightarrow> 'c scheduler \<Rightarrow> bool" where
  "store_shrinks sc sc' \<longleftrightarrow> set (sc_retained sc') \<subseteq> set (sc_retained sc) \<and>
     sc_universe_seed sc' = sc_universe_seed sc \<and> sc_quadrant_size_mm sc' = sc_quadrant_size_mm sc \<and>
     sc_generator_version sc' = sc_generator_version sc"

lemma store_shrinks_refl [simp]: "store_shrinks sc sc"
  by (simp add: store_shrinks_def)

lemma store_shrinks_trans: "store_shrinks a b \<Longrightarrow> store_shrinks b c \<Longrightarrow> store_shrinks a c"
  by (auto simp: store_shrinks_def)

lemma store_shrinks_retries: "store_shrinks sc (sc\<lparr>sc_retries := r\<rparr>)"
  by (simp add: store_shrinks_def)

lemma store_shrinks_remove: "store_shrinks sc (remove_retained i sc)"
  by (auto simp: store_shrinks_def remove_retained_def AList.delete_eq)

lemma consume_event_shrinks:
  assumes "consume_event x now (sc, rt, rep) = (r, sc', rt', rep')"
  shows "store_shrinks sc sc'"
proof (cases x)
  case (Completed a)
  with assms show ?thesis
    by (auto simp: consume_completed_def Let_def store_shrinks_retries split: sum.splits if_splits)
next
  case (Failed i e)
  with assms show ?thesis
    by (auto simp: consume_failed_def Let_def store_shrinks_remove
        intro: store_shrinks_trans [OF store_shrinks_remove store_shrinks_retries]
        split: sum.splits if_splits abandon_outcome.splits)
qed

lemma consume_results_shrinks:
  "consume_results xs disc now (sc, rt, rep) = (r, sc', rt', rep') \<Longrightarrow> store_shrinks sc sc'"
proof (induction xs arbitrary: sc rt rep)
  case (Cons x xs)
  obtain r1 sc1 rt1 rep1 where x: "consume_event x now (sc, rt, rep) = (r1, sc1, rt1, rep1)" by (metis surj_pair)
  note s = consume_event_shrinks [OF x]
  show ?case
  proof (cases r1)
    case (Inr u)
    with Cons.prems x have "consume_results xs disc now (sc1, rt1, rep1) = (r, sc', rt', rep')" by simp
    from Cons.IH [OF this] s show ?thesis by (blast intro: store_shrinks_trans)
  qed (use Cons.prems x s in auto)
qed simp

lemma schedule_loop_scheduler:
  "schedule_loop submit hash now budget coords admitted ((sc, rt, rep), w) = (r, (sc', rt', rep'), w') \<Longrightarrow> sc' = sc"
proof (induction coords arbitrary: admitted rt rep w)
  case (Cons c cs)
  from Cons.prems show ?case
    by (auto split: if_splits sum.splits request_outcome.splits prod.splits submission_outcome.splits dest: Cons.IH)
qed simp

lemma evaluate_shrinks:
  assumes "evaluate submit hash events disc now sc rt w = (r, sc', rt', w')"
  shows "store_shrinks sc sc'"
proof -
  obtain r1 sc1 rt1 rep1 where c: "consume_results events disc now (sc, rt, report_default) = (r1, sc1, rt1, rep1)"
    by (metis surj_pair)
  obtain r2 sc2 rt2 rep2 w2 where s: "schedule_candidates submit hash now ((sc1, rt1, rep1), w) = (r2, (sc2, rt2, rep2), w2)"
    by (metis surj_pair)
  then have "sc2 = sc1"
    by (auto simp: schedule_candidates_def Let_def dest: schedule_loop_scheduler split: if_splits)
  with assms c s consume_results_shrinks [OF c] show ?thesis by (auto simp: evaluate_def split: sum.splits)
qed

text \<open>Every retained artifact is what the executor generates for its identity.\<close>

definition store_ok ::
  "(quadrant_coord \<Rightarrow> u32 \<Rightarrow> string + 'c retained_terrain) \<Rightarrow> 'c scheduler \<Rightarrow> 'c scheduler \<Rightarrow> bool" where
  "store_ok generate sc0 sc \<longleftrightarrow>
     (\<forall>(i, a)\<in>set (sc_retained sc). generate (pi_coord i) (pi_generator_version i) = Inr a) \<and>
     sc_universe_seed sc = sc_universe_seed sc0 \<and> sc_quadrant_size_mm sc = sc_quadrant_size_mm sc0 \<and>
     sc_generator_version sc = sc_generator_version sc0"

lemma store_ok_shrinks: "store_ok generate sc0 sc \<Longrightarrow> store_shrinks sc sc' \<Longrightarrow> store_ok generate sc0 sc'"
  by (auto simp: store_ok_def store_shrinks_def)

lemma set_update_subset: "set (AList.update k v xs) \<subseteq> insert (k, v) (set xs)"
  by (induction xs) auto

lemma store_ok_retain:
  assumes "store_ok generate sc0 sc"
  shows "store_ok generate sc0 (executor_retain generate i sc)"
proof (cases "terrain_execute generate i")
  case (Inr x)
  obtain a terrain where x: "x = (a, terrain)" by (cases x)
  with Inr have "generate (pi_coord i) (pi_generator_version i) = Inr terrain"
    by (auto simp: terrain_execute_def split: sum.splits)
  moreover have "set (AList.update i terrain (sc_retained sc)) \<subseteq> insert (i, terrain) (set (sc_retained sc))"
    by (rule set_update_subset)
  ultimately show ?thesis using assms Inr x by (auto simp: executor_retain_def store_ok_def)
qed (use assms in \<open>simp add: executor_retain_def\<close>)

lemma store_ok_step:
  assumes "store_ok generate sc0 (fst s)"
  shows "store_ok generate sc0 (fst (scheduler_step submit hash generate s op))"
proof -
  obtain sc rt w where s: "s = (sc, rt, w)" by (cases s)
  show ?thesis
  proof (cases op)
    case (Evaluate now events disc)
    obtain r sc' rt' w' where e: "evaluate submit hash events disc now sc rt w = (r, sc', rt', w')" by (metis surj_pair)
    from store_ok_shrinks [OF _ evaluate_shrinks [OF e]] assms e s Evaluate show ?thesis by simp
  qed (use assms s in \<open>simp_all add: store_ok_retain\<close>)
qed

interpretation store_machine:
  invariant_machine "scheduler_step submit hash generate" "\<lambda>s. store_ok generate sc0 (fst s)"
  by unfold_locales (rule store_ok_step)

section \<open>Properties\<close>

lemma find_retained_Some:
  assumes "find_retained sc c = Some a"
  obtains i where "(i, a) \<in> set (sc_retained sc)" "pi_generator_version i = sc_generator_version sc"
    "pi_coord i = QuadrantCoord (fqc_x c) (fqc_y c)"
proof -
  from assms obtain i where "find (\<lambda>(i, _). pi_generator_version i = sc_generator_version sc \<and>
      qc_x (pi_coord i) = fqc_x c \<and> qc_y (pi_coord i) = fqc_y c) (sc_retained sc) = Some (i, a)"
    by (auto simp: find_retained_def)
  then show ?thesis using that [of i]
    by (auto simp: find_Some_iff) (metis nth_mem quadrant_coord.collapse)
qed

lemma executor_generate_Inr:
  assumes "executor_generate hash size_mm seed available c gen = Inr a"
  shows "integrated_at size_mm gen seed (FrontierQuadrantCoord (qc_x c) (qc_y c)) (rn_contract a)"
  using assms
  by (auto simp: executor_generate_def retain_contract_def artifact_from_contract_def Let_def
      intro: generate_integrated_Inr split: option.splits sum.splits)

lemma revealed_terrain_value:
  assumes "store_ok (executor_generate hash (sc_quadrant_size_mm sc) (terrain_world_seed keyed (sc_universe_seed sc)) available) sc sc"
    and "recipe_fits (sc_quadrant_size_mm sc) (sc_generator_version sc)" "lattice_fits c"
  obtains t where "terrain_authority_for_revealed keyed sc c = Some (Inr t)"
    "integrated_at (sc_quadrant_size_mm sc) (sc_generator_version sc) (terrain_world_seed keyed (sc_universe_seed sc)) c t"
proof (cases "find_retained sc c")
  case None
  obtain t where t: "generate_integrated_terrain (sc_quadrant_size_mm sc) (sc_generator_version sc)
      (terrain_world_seed keyed (sc_universe_seed sc)) c [] = Some (Inr t)"
    "integrated_at (sc_quadrant_size_mm sc) (sc_generator_version sc) (terrain_world_seed keyed (sc_universe_seed sc)) c t"
    by (rule generate_integrated_value [OF assms(2,3)])
  from None t(1) have "terrain_authority_for_revealed keyed sc c = Some (Inr t)"
    by (simp add: terrain_authority_for_revealed_def)
  from that [OF this t(2)] show ?thesis .
next
  case (Some a)
  obtain i where i: "(i, a) \<in> set (sc_retained sc)" "pi_generator_version i = sc_generator_version sc"
    "pi_coord i = QuadrantCoord (fqc_x c) (fqc_y c)" by (rule find_retained_Some [OF Some])
  with assms(1) have "executor_generate hash (sc_quadrant_size_mm sc) (terrain_world_seed keyed (sc_universe_seed sc))
      available (QuadrantCoord (fqc_x c) (fqc_y c)) (sc_generator_version sc) = Inr a"
    by (auto simp: store_ok_def)
  from executor_generate_Inr [OF this] show ?thesis
    using Some by (intro that [of "rn_contract a"]) (simp_all add: terrain_authority_for_revealed_def)
qed

lemma small_square:
  fixes n :: int
  assumes "0 < n" "n * n * 700 * 700 < 2 ^ 127"
  shows "in_i64 n"
proof (rule ccontr)
  assume "\<not> in_i64 n"
  then have "2 ^ 63 \<le> n" using assms(1) by (simp add: in_i64_def)
  then have "(2 ^ 63) * (2 ^ 63) * 700 * 700 \<le> n * n * 700 * 700" using assms(1) by (intro mult_mono) simp_all
  with assms(2) show False by simp
qed

text \<open>
  C16: what is delivered for a revealed quadrant is complete and consistent. Take a nonzero terrain generation and a quadrant
  size that is positive and at most about 18,600 km (its square times 490000 stays below 2^127: the bound of the terrain
  generation's \<open>i128\<close> arithmetic, beyond which \<open>terrain_large_quadrant_panics\<close> applies), and a quadrant whose control points
  have \<open>i64\<close> coordinates. From the start of the scheduler, after any evaluations, reveals and executions, the
  lookup finds a terrain, a policy and a water presentation for it without any of its errors. The three are for that
  quadrant and pass the checks of their messages, so their encodings are accepted by the decoders; water is where the
  terrain says, never below the ground, and nothing grows on it.
\<close>

theorem revealed_contracts_deliverable:
  assumes "0 < size_mm" "size_mm * size_mm * 700 * 700 < 2 ^ 127" "gen \<noteq> 0" "lattice_fits c"
    and "generate = executor_generate hash size_mm (terrain_world_seed keyed seed) available"
    and "(sc, rt', w') = foldl (scheduler_step submit keyed generate) (scheduler_spawn settings seed size_mm gen, rt, w) ops"
  shows "\<exists>t p wt. presentation_contracts_with_water_for_revealed hash keyed sc c = Some (Inr (t, p, wt)) \<and>
    deliverable c t p wt \<and> (\<exists>bs. terrain_encode t = Inr bs \<and> terrain_decode bs = Inr t) \<and>
    (\<exists>bs. environment_encode p = Inr bs \<and> environment_decode bs = Inr p) \<and>
    (\<exists>bs. water_encode wt = Inr bs \<and> water_decode bs = Inr wt)"
proof -
  let ?sc0 = "scheduler_spawn settings seed size_mm gen" and ?seed = "terrain_world_seed keyed seed"
  have size_mm: "in_i64 size_mm" by (rule small_square) (use assms(1,2) in simp_all)
  have fits: "recipe_fits size_mm gen" using assms(1-3) size_mm by (simp add: recipe_fits_def)
  have "store_ok generate ?sc0 ?sc0" by (simp add: store_ok_def scheduler_spawn_def)
  then have ok: "store_ok generate ?sc0 sc"
    using store_machine.inv_run [of generate ?sc0 "(?sc0, rt, w)" submit keyed ops] by (simp add: assms(6) [symmetric])
  then have cfg: "sc_quadrant_size_mm sc = size_mm" "sc_generator_version sc = gen" "sc_universe_seed sc = seed"
    by (simp_all add: store_ok_def scheduler_spawn_def)
  have "store_ok generate sc sc" using ok by (simp add: store_ok_def)
  with revealed_terrain_value [of hash sc keyed available c] fits assms(4,5) cfg obtain t where
    t: "terrain_authority_for_revealed keyed sc c = Some (Inr t)" "integrated_at size_mm gen ?seed c t" by auto
  note it = integrated_at_terrain [OF t(2) size_mm]
  obtain p where p: "generate_environment_policy hash ?seed t = Inr p" "environment_valid p" "ep_coord p = c"
    "ep_terrain_generator_version p = gen" "ep_control_grid_side p = 9" "length (ep_cell_family_masks p) = 64"
    "\<forall>i < 64. mask_respects (tc_cell_flags t ! i) (ep_cell_family_masks p ! i)"
    by (rule integrated_at_policy [OF t(2) size_mm])
  obtain wt where w: "generate_water_presentation \<lparr>hy_world_seed = ?seed, hy_generator_version = gen\<rparr> t = Inr wt"
    "water_validate wt = Inr ()" "list_all sample_fits (wp_samples wt)" "length (wp_samples wt) = 81"
    "\<forall>i < 64. (tc_cell_flags t ! i AND cell_water \<noteq> 0) = (\<exists>k\<in>set (corners 9 (i div 8, i mod 8)). is_wet (wp_samples wt ! k))"
    "\<forall>i < 81. is_wet (wp_samples wt ! i) \<longrightarrow> tc_elevation_samples_mm t ! i \<le> ws_water_surface_mm (wp_samples wt ! i)"
    by (rule integrated_at_water [OF t(2)])
  note wf = water_presentation_fields [OF w(1)]
  have wv: "water_valid wt" using w(2,3) wf(1) it(1,2) by (simp add: water_valid_def terrain_valid_def)
  have two: "presentation_contracts_for_revealed hash keyed sc c = Some (Inr (t, p))"
    using t(1) p it cfg by (simp add: presentation_contracts_for_revealed_def artifact_from_contract_def Let_def)
  have "presentation_contracts_with_water_for_revealed hash keyed sc c = Some (Inr (t, p, wt))"
    using p w it wf cfg by (simp add: presentation_contracts_with_water_for_revealed_def two)
  moreover have "deliverable c t p wt" using p w it wf wv by (simp add: deliverable_def)
  ultimately show ?thesis
    using it(1) p(2) wv
    by (auto simp: terrain_encode_Inr environment_encode_Inr water_encode_Inr terrain_valid_def environment_valid_def
        water_valid_def intro!: terrain_codec.dec_enc environment_codec.dec_enc water_codec.dec_enc)
qed

theorem revealed_contracts_deliverable_witness:
  "\<exists>t p wt. presentation_contracts_with_water_for_revealed (\<lambda>bs. replicate 32 1) (\<lambda>k bs. replicate 32 7)
      (scheduler_spawn sample_scheduler_settings (UniverseSeed [1]) 512000 3) (FrontierQuadrantCoord 2 (- 5)) =
    Some (Inr (t, p, wt)) \<and> deliverable (FrontierQuadrantCoord 2 (- 5)) t p wt"
proof -
  have "lattice_fits (FrontierQuadrantCoord 2 (- 5))" by (simp add: lattice_fits_def in_i64_def)
  from revealed_contracts_deliverable [OF _ _ _ this refl, of 512000 3
      "scheduler_spawn sample_scheduler_settings (UniverseSeed [1]) 512000 3" rt w "\<lambda>w i. (Submitted, w)"
      "\<lambda>k bs. replicate 32 7" "\<lambda>bs. replicate 32 1" "UniverseSeed [1]" "[1, 2]" sample_scheduler_settings rt w "[]" for rt w]
  show ?thesis by fastforce
qed

lemma pool_biome: "available \<noteq> [] \<Longrightarrow> derive_quadrant_biome_from_pool seed c available \<in> set available"
  by (simp add: derive_quadrant_biome_from_pool_def Let_def)

lemma generated_biome:
  "generate_terrain_authority r c = Some (Inr t) \<Longrightarrow> tc_biome_id t = derive_quadrant_biome_id (trs_world_seed r) c"
  by (auto simp: generate_terrain_authority_def Let_def recipe_validate_def split: sum.splits option.splits if_splits)

lemma integrated_biome:
  assumes "generate_integrated_terrain size_mm gen seed c available = Some (Inr t')"
  shows "tc_biome_id t' =
    (if available \<noteq> [] then derive_quadrant_biome_from_pool seed c available else derive_quadrant_biome_id seed c)"
proof -
  let ?r = "\<lparr>trs_quadrant_size_mm = size_mm, trs_generator_version = gen, trs_world_seed = seed\<rparr>"
  let ?s = "\<lparr>hy_world_seed = seed, hy_generator_version = gen\<rparr>"
  from assms obtain t where t: "generate_terrain_authority ?r c = Some (Inr t)"
    by (auto simp: generate_integrated_terrain_def split: option.splits sum.splits)
  define t1 where "t1 = (if available \<noteq> [] then t\<lparr>tc_biome_id := derive_quadrant_biome_from_pool seed c available\<rparr> else t)"
  from assms have "apply_hydrology ?s t1 = Inr t'"
    by (cases "apply_hydrology ?s t1") (auto simp: generate_integrated_terrain_def t t1_def Let_def)
  then have "tc_biome_id t' = tc_biome_id t1"
    by (auto simp: apply_hydrology_def Let_def split: sum.splits if_splits prod.splits)
  then show ?thesis using generated_biome [OF t] by (simp add: t1_def)
qed

text \<open>
  C40: for a recipe and a coordinate the generation can handle (positive size within its bound, nonzero generation, lattice
  within \<open>i64\<close>), the biome of a revealed quadrant depends on whether its artifact is retained: what the executor generates from a
  configured pool of one biome has that biome, but the lookup without an artifact (a quadrant of the initial frontier, or
  any quadrant after a restart) ignores the pool and delivers one of the two built-in biomes.
\<close>

theorem revealed_biome_ignores_pool:
  assumes "recipe_fits size_mm gen" "lattice_fits c" "biome \<notin> {1, 2}"
  shows "\<exists>t t'. generate_integrated_terrain size_mm gen (terrain_world_seed keyed seed) c [biome] = Some (Inr t) \<and>
    terrain_authority_for_revealed keyed (scheduler_spawn settings seed size_mm gen) c = Some (Inr t') \<and>
    tc_biome_id t = biome \<and> tc_biome_id t' \<in> {1, 2} \<and> tc_coord t = tc_coord t'"
proof -
  let ?seed = "terrain_world_seed keyed seed"
  obtain t where t: "generate_integrated_terrain size_mm gen ?seed c [biome] = Some (Inr t)"
    "integrated_at size_mm gen ?seed c t" by (rule generate_integrated_value [OF assms(1,2)])
  obtain t' where t': "generate_integrated_terrain size_mm gen ?seed c [] = Some (Inr t')"
    "integrated_at size_mm gen ?seed c t'" by (rule generate_integrated_value [OF assms(1,2)])
  have "tc_biome_id t' \<in> set [1, 2]"
    using integrated_biome [OF t'(1)] pool_biome [of "[1, 2]"] by (simp add: derive_quadrant_biome_id_def)
  moreover have "terrain_authority_for_revealed keyed (scheduler_spawn settings seed size_mm gen) c = Some (Inr t')"
    by (simp add: terrain_authority_for_revealed_def scheduler_spawn_def find_retained_def t'(1))
  moreover have "tc_biome_id t = biome"
    using integrated_biome [OF t(1)] by (simp add: derive_quadrant_biome_from_pool_def)
  moreover have "in_i64 size_mm" using assms(1) by (simp add: recipe_fits_def)
  ultimately show ?thesis
    using t(1) integrated_at_terrain(2) [OF t(2)] integrated_at_terrain(2) [OF t'(2)] by auto
qed

theorem revealed_biome_ignores_pool_witness:
  "\<exists>t t'. generate_integrated_terrain 512000 3 (terrain_world_seed (\<lambda>k bs. replicate 32 7) (UniverseSeed [1]))
       (FrontierQuadrantCoord 2 (- 5)) [9] = Some (Inr t) \<and>
     terrain_authority_for_revealed (\<lambda>k bs. replicate 32 7)
       (scheduler_spawn sample_scheduler_settings (UniverseSeed [1]) 512000 3) (FrontierQuadrantCoord 2 (- 5)) = Some (Inr t') \<and>
     tc_biome_id t = 9 \<and> tc_biome_id t' \<in> {1, 2} \<and> tc_coord t = tc_coord t'"
  by (rule revealed_biome_ignores_pool) (simp_all add: recipe_fits_def lattice_fits_def in_i64_def)

end
