(* ===== verification/Reliable_Egress.thy ===== *)
theory Reliable_Egress
  imports Contracts_Bootstrap
begin

text \<open>
  crates/transport/src/reliable\_egress.rs and egress.rs: the capabilities through which the server sends to one
  connection. A reliable capability is shared by its clones, sends one frame at a time and fails closed: the first failed
  send closes the connection, and nothing is sent afterwards. The network (quinn, or a channel in tests) is an argument
  that gives the outcome of one transmission.
\<close>

section \<open>Reliable frames\<close>

datatype reliable_config_error = ZeroCapacity | ZeroMaximumPayloadBytes | ZeroSendTimeout

datatype reliable_error =
  ReliablePayloadTooLarge nat nat
| ReliableTimedOut u64
| ReliableOpenStream u64
| ReliableFrame
| ReliableChannelClosed u64
| ReliableFailClosed u64

text \<open>How a transmission under its timeout ends.\<close>

datatype transmission = Transmitted | TransmitTimeout | TransmitOpenFailed | TransmitFrameFailed | TransmitClosed

text \<open>\<open>rl_failed\<close> is the flag the clones share; a \<open>Duration\<close> is a number of nanoseconds.\<close>

record reliable_sender =
  rl_connection :: u64
  rl_minor :: u16
  rl_max_payload :: nat
  rl_send_timeout :: nat
  rl_failed :: bool

definition validate_reliable :: "nat \<Rightarrow> nat \<Rightarrow> reliable_config_error + unit" where
  "validate_reliable max_payload timeout =
     (if max_payload = 0 then Inl ZeroMaximumPayloadBytes else if timeout = 0 then Inl ZeroSendTimeout else Inr ())"

definition reliable_new :: "u64 \<Rightarrow> nat \<Rightarrow> nat \<Rightarrow> reliable_config_error + reliable_sender" where
  "reliable_new cid max_payload timeout =
     (case validate_reliable max_payload timeout of
        Inl e \<Rightarrow> Inl e
      | Inr _ \<Rightarrow> Inr \<lparr>rl_connection = cid, rl_minor = 0, rl_max_payload = max_payload, rl_send_timeout = timeout,
                       rl_failed = False\<rparr>)"

definition reliable_channel :: "u64 \<Rightarrow> nat \<Rightarrow> nat \<Rightarrow> nat \<Rightarrow> reliable_config_error + reliable_sender" where
  "reliable_channel cid capacity max_payload timeout =
     (if capacity = 0 then Inl ZeroCapacity else reliable_new cid max_payload timeout)"

definition with_negotiated_minor :: "u16 \<Rightarrow> reliable_sender \<Rightarrow> reliable_sender" where
  "with_negotiated_minor minor s = s\<lparr>rl_minor := minor\<rparr>"

definition supports_minor :: "u16 \<Rightarrow> reliable_sender \<Rightarrow> bool" where
  "supports_minor minimum s \<longleftrightarrow> minimum \<le> rl_minor s"

text \<open>Failing closed; the flag in front tells whether this call closes the connection.\<close>

definition fail_close :: "reliable_sender \<Rightarrow> bool \<times> reliable_sender" where
  "fail_close s = (\<not> rl_failed s, s\<lparr>rl_failed := True\<rparr>)"

definition send_attempt ::
  "(message_kind \<Rightarrow> u8 list \<Rightarrow> transmission) \<Rightarrow> message_kind \<Rightarrow> u8 list \<Rightarrow> reliable_sender \<Rightarrow> reliable_error + unit" where
  "send_attempt transmit kind payload s =
     (if rl_max_payload s < length payload then Inl (ReliablePayloadTooLarge (length payload) (rl_max_payload s))
      else (case transmit kind payload of
              Transmitted \<Rightarrow> Inr ()
            | TransmitTimeout \<Rightarrow> Inl (ReliableTimedOut (rl_connection s))
            | TransmitOpenFailed \<Rightarrow> Inl (ReliableOpenStream (rl_connection s))
            | TransmitFrameFailed \<Rightarrow> Inl ReliableFrame
            | TransmitClosed \<Rightarrow> Inl (ReliableChannelClosed (rl_connection s))))"

text \<open>A send that nothing interferes with: the flag is the same at both of its checks.\<close>

definition reliable_send ::
  "(message_kind \<Rightarrow> u8 list \<Rightarrow> transmission) \<Rightarrow> message_kind \<Rightarrow> u8 list \<Rightarrow> reliable_sender
     \<Rightarrow> (reliable_error + unit) \<times> reliable_sender" where
  "reliable_send transmit kind payload s =
     (if rl_failed s then (Inl (ReliableFailClosed (rl_connection s)), s)
      else (case send_attempt transmit kind payload s of
              Inl e \<Rightarrow> (Inl e, snd (fail_close s))
            | Inr _ \<Rightarrow> (Inr (), s)))"

datatype capability_outcome = CapabilitySent | UnsupportedProtocolMinor u16 u16

definition send_if_supported ::
  "(message_kind \<Rightarrow> u8 list \<Rightarrow> transmission) \<Rightarrow> u16 \<Rightarrow> message_kind \<Rightarrow> u8 list \<Rightarrow> reliable_sender
     \<Rightarrow> (reliable_error + capability_outcome) \<times> reliable_sender" where
  "send_if_supported transmit minimum kind payload s =
     (if \<not> supports_minor minimum s then (Inr (UnsupportedProtocolMinor (rl_minor s) minimum), s)
      else (case reliable_send transmit kind payload s of
              (Inl e, s') \<Rightarrow> (Inl e, s')
            | (Inr _, s') \<Rightarrow> (Inr CapabilitySent, s')))"

section \<open>Realtime datagrams\<close>

datatype realtime_error =
  RealtimeFrame datagram_frame_error
| RealtimeTransport u64
| RealtimeChannelFull u64
| RealtimeChannelClosed u64

datatype realtime_backend = QuinnBackend nat | ChannelBackend

record realtime_sender =
  rt_connection :: u64
  rt_backend :: realtime_backend

definition realtime_channel :: "u64 \<Rightarrow> nat \<Rightarrow> reliable_config_error + realtime_sender" where
  "realtime_channel cid capacity =
     (if capacity = 0 then Inl ZeroCapacity else Inr \<lparr>rt_connection = cid, rt_backend = ChannelBackend\<rparr>)"

text \<open>What happens to a datagram on its way out; a channel may be full or closed, quinn may refuse it.\<close>

datatype datagram_fate = DatagramTaken | DatagramFull | DatagramClosed

definition realtime_try_send ::
  "(message_kind \<Rightarrow> u8 list \<Rightarrow> datagram_fate) \<Rightarrow> message_kind \<Rightarrow> u8 list \<Rightarrow> realtime_sender \<Rightarrow> realtime_error + unit" where
  "realtime_try_send fate kind payload s =
     (case rt_backend s of
        QuinnBackend maximum \<Rightarrow>
          (case encode_datagram_frame kind payload maximum of
             Inl e \<Rightarrow> Inl (RealtimeFrame e)
           | Inr frame \<Rightarrow>
               if fate kind payload = DatagramTaken then Inr () else Inl (RealtimeTransport (rt_connection s)))
      | ChannelBackend \<Rightarrow>
          (case fate kind payload of
             DatagramTaken \<Rightarrow> Inr ()
           | DatagramFull \<Rightarrow> Inl (RealtimeChannelFull (rt_connection s))
           | DatagramClosed \<Rightarrow> Inl (RealtimeChannelClosed (rt_connection s))))"

section \<open>Concurrent senders\<close>

text \<open>
  The clones of one capability, each in its own task. \<open>send\<close> reads the flag, waits for the gate, reads the flag again under
  it, transmits, and fails closed before it gives the gate back; \<open>fail_close\<close> may be called from outside at any time.
  The log records the transmissions that ended and whether they succeeded.
\<close>

datatype send_pc = AtRest | Waiting | Holding | Transmitting | Failing | Returned bool

record egress =
  eg_failed :: bool
  eg_gate :: "nat option"
  eg_pc :: "nat \<Rightarrow> send_pc"
  eg_log :: "(nat \<times> bool) list"
  eg_closes :: nat

definition egress_start :: egress where
  "egress_start = \<lparr>eg_failed = False, eg_gate = None, eg_pc = (\<lambda>_. AtRest), eg_log = [], eg_closes = 0\<rparr>"

definition close_egress :: "egress \<Rightarrow> egress" where
  "close_egress g = (if eg_failed g then g else g\<lparr>eg_failed := True, eg_closes := eg_closes g + 1\<rparr>)"

inductive egress_step :: "egress \<Rightarrow> egress \<Rightarrow> bool" where
  Refuse: "eg_pc g i = AtRest \<Longrightarrow> eg_failed g \<Longrightarrow> egress_step g (g\<lparr>eg_pc := (eg_pc g)(i := Returned False)\<rparr>)"
| Queue: "eg_pc g i = AtRest \<Longrightarrow> \<not> eg_failed g \<Longrightarrow> egress_step g (g\<lparr>eg_pc := (eg_pc g)(i := Waiting)\<rparr>)"
| Lock: "eg_pc g i = Waiting \<Longrightarrow> eg_gate g = None \<Longrightarrow>
    egress_step g (g\<lparr>eg_pc := (eg_pc g)(i := Holding), eg_gate := Some i\<rparr>)"
| Recheck: "eg_pc g i = Holding \<Longrightarrow> eg_failed g \<Longrightarrow>
    egress_step g (g\<lparr>eg_pc := (eg_pc g)(i := Returned False), eg_gate := None\<rparr>)"
| Transmit: "eg_pc g i = Holding \<Longrightarrow> \<not> eg_failed g \<Longrightarrow> egress_step g (g\<lparr>eg_pc := (eg_pc g)(i := Transmitting)\<rparr>)"
| Succeed: "eg_pc g i = Transmitting \<Longrightarrow>
    egress_step g (g\<lparr>eg_pc := (eg_pc g)(i := Returned True), eg_gate := None, eg_log := eg_log g @ [(i, True)]\<rparr>)"
| Fail: "eg_pc g i = Transmitting \<Longrightarrow>
    egress_step g (g\<lparr>eg_pc := (eg_pc g)(i := Failing), eg_log := eg_log g @ [(i, False)]\<rparr>)"
| CloseAfter: "eg_pc g i = Failing \<Longrightarrow>
    egress_step g (close_egress (g\<lparr>eg_pc := (eg_pc g)(i := Returned False), eg_gate := None\<rparr>))"
| CloseOutside: "egress_step g (close_egress g)"
| Again: "eg_pc g i = Returned r \<Longrightarrow> egress_step g (g\<lparr>eg_pc := (eg_pc g)(i := AtRest)\<rparr>)"

inductive_cases egress_stepE: "egress_step g g'"

fun in_gate :: "send_pc \<Rightarrow> bool" where
  "in_gate Holding = True"
| "in_gate Transmitting = True"
| "in_gate Failing = True"
| "in_gate _ = False"

text \<open>
  Only the holder of the gate is past it; a failure in the log is the last entry, and it is followed by the flag or by
  the failing holder; the connection is closed once, when the flag is set.
\<close>

definition egress_inv :: "egress \<Rightarrow> bool" where
  "egress_inv g \<longleftrightarrow>
     (\<forall>i. in_gate (eg_pc g i) \<longleftrightarrow> eg_gate g = Some i) \<and>
     (\<forall>x\<in>set (butlast (eg_log g)). snd x) \<and>
     (eg_log g \<noteq> [] \<and> \<not> snd (last (eg_log g)) \<longrightarrow>
        (case eg_gate g of Some i \<Rightarrow> eg_pc g i = Failing \<or> eg_failed g \<and> eg_pc g i = Holding | None \<Rightarrow> eg_failed g)) \<and>
     eg_closes g = (if eg_failed g then 1 else 0)"

lemma close_egress_simps [simp]:
  "eg_failed (close_egress g)" "eg_gate (close_egress g) = eg_gate g" "eg_pc (close_egress g) = eg_pc g"
  "eg_log (close_egress g) = eg_log g" "eg_closes (close_egress g) = (if eg_failed g then eg_closes g else eg_closes g + 1)"
  by (simp_all add: close_egress_def)

lemma egress_inv_start: "egress_inv egress_start"
  by (simp add: egress_inv_def egress_start_def)

lemma egress_inv_log:
  "egress_inv g \<Longrightarrow> eg_pc g i = Transmitting \<Longrightarrow> eg_gate g = Some i \<and> (\<forall>x\<in>set (eg_log g). snd x)"
proof -
  assume inv: "egress_inv g" and pc: "eg_pc g i = Transmitting"
  have gate: "eg_gate g = Some i" using inv pc unfolding egress_inv_def by (metis in_gate.simps(2))
  with inv pc have ok: "eg_log g = [] \<or> snd (last (eg_log g))" by (auto simp: egress_inv_def)
  have "\<forall>x\<in>set (eg_log g). snd x"
  proof (cases "eg_log g = []")
    case False
    then have "set (eg_log g) = insert (last (eg_log g)) (set (butlast (eg_log g)))"
      by (metis append_butlast_last_id list.simps(15) rotate1.simps(2) set_rotate1)
    with False ok inv show ?thesis by (auto simp: egress_inv_def)
  qed simp
  with gate show ?thesis by simp
qed

lemma egress_inv_step:
  assumes "egress_step g g'" "egress_inv g"
  shows "egress_inv g'"
proof -
  have gate: "in_gate (eg_pc g i) = (eg_gate g = Some i)" for i using assms(2) by (simp add: egress_inv_def)
  from assms(1) show ?thesis
  proof cases
    case (Refuse i)
    with gate [of i] assms(2) show ?thesis by (auto simp: egress_inv_def split: option.splits if_splits)
  next
    case (Queue i)
    with gate [of i] assms(2) show ?thesis by (auto simp: egress_inv_def split: option.splits if_splits)
  next
    case (Lock i)
    with gate [of i] assms(2) show ?thesis by (auto simp: egress_inv_def split: option.splits if_splits)
  next
    case (Recheck i)
    with gate [of i] assms(2) show ?thesis by (auto simp: egress_inv_def split: option.splits if_splits)
  next
    case (Transmit i)
    with gate [of i] assms(2) show ?thesis by (auto simp: egress_inv_def split: option.splits if_splits)
  next
    case (Succeed i)
    with gate [of i] assms(2) egress_inv_log [OF assms(2)] show ?thesis by (auto simp: egress_inv_def split: option.splits if_splits)
  next
    case (Fail i)
    with gate [of i] assms(2) egress_inv_log [OF assms(2)] show ?thesis by (auto simp: egress_inv_def split: option.splits if_splits)
  next
    case (CloseAfter i)
    with gate [of i] assms(2) show ?thesis by (auto simp: egress_inv_def split: option.splits if_splits)
  next
    case CloseOutside
    with assms(2) show ?thesis by (auto simp: egress_inv_def split: option.splits if_splits)
  next
    case (Again i r)
    with gate [of i] assms(2) show ?thesis by (auto simp: egress_inv_def split: option.splits if_splits)
  qed
qed

interpretation egress_system: transition_system egress_step egress_start egress_inv
  by unfold_locales (rule egress_inv_start, rule egress_inv_step)

text \<open>The outcomes of a sequence of sends over one capability.\<close>

fun send_all ::
  "(message_kind \<times> u8 list \<times> transmission) list \<Rightarrow> reliable_sender \<Rightarrow> (reliable_error + unit) list \<times> reliable_sender" where
  "send_all [] s = ([], s)"
| "send_all ((kind, payload, outcome) # xs) s =
     (case reliable_send (\<lambda>_ _. outcome) kind payload s of
        (r, s') \<Rightarrow> (case send_all xs s' of (rs, s'') \<Rightarrow> (r # rs, s'')))"

lemma send_all_failed:
  "rl_failed s \<Longrightarrow> send_all xs s = (map (\<lambda>_. Inl (ReliableFailClosed (rl_connection s))) xs, s)"
  by (induction xs) (auto simp: reliable_send_def)

lemma reliable_send_cases:
  assumes "reliable_send transmit kind payload s = (r, s')"
  obtains (Refused) "rl_failed s" "r = Inl (ReliableFailClosed (rl_connection s))" "s' = s"
  | (Sent) "\<not> rl_failed s" "r = Inr ()" "s' = s" "transmit kind payload = Transmitted" "length payload \<le> rl_max_payload s"
  | (Failed) e where "\<not> rl_failed s" "r = Inl e" "s' = s\<lparr>rl_failed := True\<rparr>"
proof (cases "rl_failed s")
  case False
  show ?thesis
  proof (cases "send_attempt transmit kind payload s")
    case (Inl e)
    with False assms have "r = Inl e" "s' = s\<lparr>rl_failed := True\<rparr>" by (simp_all add: reliable_send_def fail_close_def)
    with False show ?thesis by (rule Failed)
  next
    case (Inr u)
    with False assms show ?thesis
      by (intro Sent) (auto simp: reliable_send_def send_attempt_def split: if_splits transmission.splits)
  qed
next
  case True
  with assms have "r = Inl (ReliableFailClosed (rl_connection s))" "s' = s" by (auto simp: reliable_send_def)
  with True show ?thesis by (rule Refused)
qed

section \<open>Properties\<close>

text \<open>
  C17: a reliable capability shared by any number of concurrent tasks fails closed exactly once: at most one task is past
  the gate, every transmission that ended before the last one succeeded, after a failed transmission none is in
  progress, and the connection is closed at most once, however sends and outside closes interleave.
\<close>

theorem egress_fails_closed_once:
  assumes "egress_step\<^sup>*\<^sup>* egress_start g"
  shows "(\<forall>x\<in>set (butlast (eg_log g)). snd x) \<and> eg_closes g = (if eg_failed g then 1 else 0) \<and>
    (\<forall>i j. in_gate (eg_pc g i) \<and> in_gate (eg_pc g j) \<longrightarrow> i = j) \<and>
    (eg_log g \<noteq> [] \<and> \<not> snd (last (eg_log g)) \<longrightarrow> (\<forall>i. eg_pc g i \<noteq> Transmitting))"
proof -
  note inv = egress_system.reachable_inv [OF assms]
  then have gate: "in_gate (eg_pc g i) \<longleftrightarrow> eg_gate g = Some i" for i by (simp add: egress_inv_def)
  have "eg_pc g i \<noteq> Transmitting" if "eg_log g \<noteq> []" "\<not> snd (last (eg_log g))" for i
    using egress_inv_log [OF inv, of i] that by (metis last_in_set)
  with inv gate show ?thesis by (auto simp: egress_inv_def)
qed

theorem egress_fails_closed_once_witness:
  "\<exists>g. egress_step\<^sup>*\<^sup>* egress_start g \<and> eg_log g = [(4, False)] \<and> eg_closes g = 1"
proof -
  let ?g1 = "egress_start\<lparr>eg_pc := (eg_pc egress_start)(4 := Waiting)\<rparr>"
  let ?g2 = "?g1\<lparr>eg_pc := (eg_pc ?g1)(4 := Holding), eg_gate := Some 4\<rparr>"
  let ?g3 = "?g2\<lparr>eg_pc := (eg_pc ?g2)(4 := Transmitting)\<rparr>"
  let ?g4 = "?g3\<lparr>eg_pc := (eg_pc ?g3)(4 := Failing), eg_log := eg_log ?g3 @ [(4, False)]\<rparr>"
  let ?g5 = "close_egress (?g4\<lparr>eg_pc := (eg_pc ?g4)(4 := Returned False), eg_gate := None\<rparr>)"
  have "egress_step egress_start ?g1" by (rule Queue) (simp_all add: egress_start_def)
  moreover have "egress_step ?g1 ?g2" by (rule Lock) (simp_all add: egress_start_def)
  moreover have "egress_step ?g2 ?g3" by (rule Transmit) (simp_all add: egress_start_def)
  moreover have "egress_step ?g3 ?g4" by (rule Fail) (simp_all add: egress_start_def)
  moreover have "egress_step ?g4 ?g5" by (rule CloseAfter) (simp_all add: egress_start_def)
  ultimately have run: "egress_step\<^sup>*\<^sup>* egress_start ?g5" by (meson rtranclp.rtrancl_into_rtrancl rtranclp.rtrancl_refl)
  have "eg_closes ?g5 = (if eg_failed ?g5 then 1 else 0)" using egress_fails_closed_once [OF run] by blast
  then have "eg_closes ?g5 = 1" by simp
  moreover have "eg_log ?g5 = [(4, False)]" by (simp add: egress_start_def)
  ultimately show ?thesis using run by blast
qed

text \<open>
  One task that sends a sequence of messages gets successes, then at most one error of its own, then only the
  fail-closed error; a message for a newer protocol minor is suppressed without failing the capability.
\<close>

theorem reliable_sequence_outcomes:
  "send_all xs s = (rs, s') \<Longrightarrow> \<not> rl_failed s \<Longrightarrow>
    rs = replicate (length xs) (Inr ()) \<and> s' = s \<or>
    (\<exists>n e. n < length xs \<and> s' = s\<lparr>rl_failed := True\<rparr> \<and>
       rs = replicate n (Inr ()) @ Inl e # replicate (length xs - n - 1) (Inl (ReliableFailClosed (rl_connection s))))"
proof (induction xs arbitrary: rs)
  case (Cons x xs)
  obtain kind payload outcome where x: "x = (kind, payload, outcome)" by (cases x)
  obtain r s1 where r: "reliable_send (\<lambda>_ _. outcome) kind payload s = (r, s1)" by (metis surj_pair)
  obtain rs1 s2 where rest: "send_all xs s1 = (rs1, s2)" by (metis surj_pair)
  from Cons.prems(1) x r rest have out: "rs = r # rs1" "s' = s2" by simp_all
  from r show ?case
  proof (cases rule: reliable_send_cases)
    case Sent
    from Cons.IH [of rs1] rest Sent out Cons.prems(2) consider
      "rs1 = replicate (length xs) (Inr ())" "s' = s"
    | n e where "n < length xs" "s' = s\<lparr>rl_failed := True\<rparr>"
        "rs1 = replicate n (Inr ()) @ Inl e # replicate (length xs - n - 1) (Inl (ReliableFailClosed (rl_connection s)))"
      by auto
    then show ?thesis
    proof cases
      case 1
      with out Sent show ?thesis by simp
    next
      case (2 n e)
      then have "Suc n < length (x # xs) \<and> s' = s\<lparr>rl_failed := True\<rparr> \<and> rs = replicate (Suc n) (Inr ()) @ Inl e #
          replicate (length (x # xs) - Suc n - 1) (Inl (ReliableFailClosed (rl_connection s)))"
        using out Sent by simp
      then show ?thesis by blast
    qed
  next
    case (Failed e)
    then have "send_all xs s1 = (map (\<lambda>_. Inl (ReliableFailClosed (rl_connection s))) xs, s1)"
      by (simp add: send_all_failed)
    with rest out Failed show ?thesis by (auto intro!: exI [of _ 0] simp: map_replicate_const)
  qed (use Cons.prems in simp)
qed simp

theorem reliable_sequence_outcomes_witness:
  "\<exists>rs. fst (send_all [(KFrontierManifest, [1], Transmitted), (KFrontierManifest, [2], TransmitTimeout)]
     \<lparr>rl_connection = 7, rl_minor = 0, rl_max_payload = 8, rl_send_timeout = 1, rl_failed = False\<rparr>) = rs \<and>
   rs = [Inr (), Inl (ReliableTimedOut 7)]"
proof -
  let ?s = "\<lparr>rl_connection = 7, rl_minor = 0, rl_max_payload = 8, rl_send_timeout = 1, rl_failed = False\<rparr>"
  let ?xs = "[(KFrontierManifest, [1], Transmitted), (KFrontierManifest, [2], TransmitTimeout)]"
  have run: "send_all ?xs ?s = ([Inr (), Inl (ReliableTimedOut 7)], ?s\<lparr>rl_failed := True\<rparr>)"
    by (simp add: reliable_send_def send_attempt_def fail_close_def)
  from reliable_sequence_outcomes [OF run] run show ?thesis by simp
qed

end
