(* ===== verification/Snapshot_Bridge.thy ===== *)
theory Snapshot_Bridge
  imports Reliable_Egress Contracts_Movement Zone
begin

text \<open>
  apps/world-server/src/snapshot\_bridge.rs: which connection gets the movement snapshots of which character. Both hash
  maps are only looked up and filtered by value, so they are maps.
\<close>

section \<open>Definitions\<close>

record bridge =
  br_realtime :: "u64 \<rightharpoonup> realtime_sender"
  br_character :: "u64 \<rightharpoonup> u64"

definition bridge_empty :: bridge where
  "bridge_empty = \<lparr>br_realtime = Map.empty, br_character = Map.empty\<rparr>"

datatype bridge_error =
  RealtimeAlreadyRegistered u64
| NoRealtimeCapability u64 u64
| CharacterAlreadyBound u64 u64
| SnapshotEncoding datagram_frame_error

definition bridge_register :: "realtime_sender \<Rightarrow> bridge \<Rightarrow> (bridge_error + unit) \<times> bridge" where
  "bridge_register realtime b =
     (case br_realtime b (rt_connection realtime) of
        None \<Rightarrow> (Inr (), b\<lparr>br_realtime := (br_realtime b)(rt_connection realtime \<mapsto> realtime)\<rparr>)
      | Some _ \<Rightarrow> (Inl (RealtimeAlreadyRegistered (rt_connection realtime)), b))"

definition bridge_bind :: "u64 \<Rightarrow> u64 \<Rightarrow> bridge \<Rightarrow> (bridge_error + unit) \<times> bridge" where
  "bridge_bind c cid b =
     (if br_realtime b cid = None then (Inl (NoRealtimeCapability c cid), b)
      else (case br_character b c of
              None \<Rightarrow> (Inr (), b\<lparr>br_character := (br_character b)(c \<mapsto> cid)\<rparr>)
            | Some bound \<Rightarrow> (Inl (CharacterAlreadyBound c bound), b)))"

definition bridge_remove :: "u64 \<Rightarrow> bridge \<Rightarrow> bridge" where
  "bridge_remove cid b =
     b\<lparr>br_realtime := (br_realtime b)(cid := None),
       br_character := (\<lambda>c. if br_character b c = Some cid then None else br_character b c)\<rparr>"

datatype snapshot_route_outcome = SnapshotSent | DroppedNoRoute | DroppedRealtime

definition wire_snapshot :: "zone_snapshot \<Rightarrow> self_movement_snapshot_v2" where
  "wire_snapshot s =
     \<lparr>s2_server_tick = zs_tick s, s2_x_mm = pos_x (zs_position s), s2_y_mm = pos_y (zs_position s),
      s2_z_mm = pos_z (zs_position s), s2_last_processed = zs_last_processed s, s2_active_movement = zs_active_movement s\<rparr>"

text \<open>
  The route of a snapshot, with the connection and payload of the datagram that was sent. \<open>fate\<close> is what happens to a
  datagram of a connection.
\<close>

definition bridge_route ::
  "(u64 \<Rightarrow> message_kind \<Rightarrow> u8 list \<Rightarrow> datagram_fate) \<Rightarrow> zone_snapshot \<Rightarrow> bridge
     \<Rightarrow> (bridge_error + snapshot_route_outcome) \<times> (u64 \<times> u8 list) option" where
  "bridge_route fate s b =
     (case br_character b (zs_character s) of
        None \<Rightarrow> (Inr DroppedNoRoute, None)
      | Some cid \<Rightarrow>
          (case br_realtime b cid of
             None \<Rightarrow> (Inr DroppedNoRoute, None)
           | Some realtime \<Rightarrow>
               (let payload = snapshot_v2_encode (wire_snapshot s)
                in case realtime_try_send (fate (rt_connection realtime)) KSelfMovementSnapshotV2 payload realtime of
                     Inr _ \<Rightarrow> (Inr SnapshotSent, Some (rt_connection realtime, payload))
                   | Inl (RealtimeFrame e) \<Rightarrow> (Inl (SnapshotEncoding e), None)
                   | Inl _ \<Rightarrow> (Inr DroppedRealtime, None))))"

section \<open>The bridge as a machine\<close>

datatype bridge_op = BridgeRegister realtime_sender | BridgeBind u64 u64 | BridgeRemove u64

fun bridge_step :: "bridge \<Rightarrow> bridge_op \<Rightarrow> bridge" where
  "bridge_step b (BridgeRegister realtime) = snd (bridge_register realtime b)"
| "bridge_step b (BridgeBind c cid) = snd (bridge_bind c cid b)"
| "bridge_step b (BridgeRemove cid) = bridge_remove cid b"

text \<open>A capability is filed under its own connection, and a bound connection has one.\<close>

definition bridge_inv :: "bridge \<Rightarrow> bool" where
  "bridge_inv b \<longleftrightarrow> (\<forall>cid r. br_realtime b cid = Some r \<longrightarrow> rt_connection r = cid) \<and>
     (\<forall>c cid. br_character b c = Some cid \<longrightarrow> br_realtime b cid \<noteq> None)"

lemma bridge_inv_empty: "bridge_inv bridge_empty"
  by (simp add: bridge_inv_def bridge_empty_def)

lemma bridge_inv_step: "bridge_inv b \<Longrightarrow> bridge_inv (bridge_step b op)"
  by (cases op) (auto simp: bridge_inv_def bridge_register_def bridge_bind_def bridge_remove_def split: option.splits)

interpretation bridge_machine: invariant_machine bridge_step bridge_inv
  by unfold_locales (rule bridge_inv_step)

lemma length_snapshot_v2 [simp]: "length (snapshot_v2_encode m) = 50"
  by (rule snapshot_v2_codec.length_enc)

lemma bridge_route_sent:
  assumes "bridge_inv b" "bridge_route fate s b = (r, Some (cid, payload))"
  shows "r = Inr SnapshotSent \<and> br_character b (zs_character s) = Some cid \<and> payload = snapshot_v2_encode (wire_snapshot s)"
  using assms
  by (auto simp: bridge_route_def bridge_inv_def Let_def split: option.splits sum.splits realtime_error.splits)

lemma frame_fits:
  assumes "realtime_try_send fate KSelfMovementSnapshotV2 (snapshot_v2_encode m) rt = Inl (RealtimeFrame e)"
  shows "\<exists>n. rt_backend rt = QuinnBackend n \<and> n < 58"
  using assms
  by (auto simp: realtime_try_send_def encode_datagram_frame_def frame_header_new_def frame_header_bytes_def Let_def
      split: realtime_backend.splits sum.splits if_splits datagram_fate.splits)

section \<open>Properties\<close>

text \<open>
  A snapshot reaches only its own player: after any registrations, bindings and removals, a datagram of a snapshot goes
  to the connection its character is bound to, which still has its capability, and the client decodes the tick, position
  and sequence numbers the zone reported. When every connection takes frames of 58 bytes the route never fails.
\<close>

theorem snapshot_reaches_its_player:
  assumes "b = foldl bridge_step bridge_empty ops" "bridge_route fate s b = (r, out)"
    and "in_i64 (pos_x (zs_position s))" "in_i64 (pos_y (zs_position s))" "in_i64 (pos_z (zs_position s))"
  shows "(case out of
      None \<Rightarrow> r \<noteq> Inr SnapshotSent
    | Some (cid, payload) \<Rightarrow> br_character b (zs_character s) = Some cid \<and> br_realtime b cid \<noteq> None \<and>
        snapshot_v2_decode payload = Inr (wire_snapshot s)) \<and>
    ((\<forall>cid rt m. br_realtime b cid = Some rt \<and> rt_backend rt = QuinnBackend m \<longrightarrow> 58 \<le> m) \<longrightarrow> (\<exists>outcome. r = Inr outcome))"
proof
  have inv: "bridge_inv b" unfolding assms(1) by (rule bridge_machine.inv_run) (rule bridge_inv_empty)
  show "case out of
      None \<Rightarrow> r \<noteq> Inr SnapshotSent
    | Some (cid, payload) \<Rightarrow> br_character b (zs_character s) = Some cid \<and> br_realtime b cid \<noteq> None \<and>
        snapshot_v2_decode payload = Inr (wire_snapshot s)"
  proof (cases out)
    case None
    with assms(2) show ?thesis
      by (auto simp: bridge_route_def Let_def split: option.splits sum.splits realtime_error.splits)
  next
    case (Some x)
    obtain cid payload where x: "x = (cid, payload)" by (cases x)
    have "snapshot_v2_decode (snapshot_v2_encode (wire_snapshot s)) = Inr (wire_snapshot s)"
      using assms(3-5) by (intro snapshot_v2_codec.dec_enc) (simp add: snapshot_v2_valid_def wire_snapshot_def)
    with bridge_route_sent [OF inv, of fate s r cid payload] assms(2) inv Some x show ?thesis
      by (auto simp: bridge_inv_def)
  qed
  show "(\<forall>cid rt m. br_realtime b cid = Some rt \<and> rt_backend rt = QuinnBackend m \<longrightarrow> 58 \<le> m) \<longrightarrow> (\<exists>outcome. r = Inr outcome)"
    using assms(2)
    by (auto simp: bridge_route_def Let_def dest!: frame_fits split: option.splits sum.splits realtime_error.splits)
      (meson leD)
qed

theorem snapshot_reaches_its_player_witness:
  "bridge_route (\<lambda>_ _ _. DatagramTaken)
      \<lparr>zs_character = 99, zs_tick = 9001, zs_position = WorldPositionMm 400 (- 125) 42, zs_last_processed = Some 103,
       zs_active_movement = Some 103\<rparr>
      (foldl bridge_step bridge_empty [BridgeRegister \<lparr>rt_connection = 7, rt_backend = ChannelBackend\<rparr>, BridgeBind 99 7]) =
    (Inr SnapshotSent, Some (7, snapshot_v2_encode \<lparr>s2_server_tick = 9001, s2_x_mm = 400, s2_y_mm = - 125, s2_z_mm = 42,
       s2_last_processed = Some 103, s2_active_movement = Some 103\<rparr>))"
proof -
  let ?b = "foldl bridge_step bridge_empty [BridgeRegister \<lparr>rt_connection = 7, rt_backend = ChannelBackend\<rparr>, BridgeBind 99 7]"
  let ?s = "\<lparr>zs_character = 99, zs_tick = 9001, zs_position = WorldPositionMm 400 (- 125) 42, zs_last_processed = Some 103,
       zs_active_movement = Some 103\<rparr>"
  have r: "bridge_route (\<lambda>_ _ _. DatagramTaken) ?s ?b = (Inr SnapshotSent, Some (7, snapshot_v2_encode (wire_snapshot ?s)))"
    by (simp add: bridge_route_def bridge_register_def bridge_bind_def bridge_empty_def realtime_try_send_def Let_def)
  from snapshot_reaches_its_player [OF refl r] have "br_character ?b 99 = Some 7" by (simp add: in_i64_def)
  with r show ?thesis by (simp add: wire_snapshot_def)
qed

end
