(* ===== verification/World_Router.thy ===== *)
theory World_Router
  imports Session_Registry Zone
begin

text \<open>
  apps/world-server/src/world\_router.rs: the commands of the session runtime on their way to the zones. The queue of a zone
  is a Tokio channel: its sender is a handle \<open>'q\<close>, and \<open>try\_send\<close> an argument. An operation returns its outcome and the
  command the zone's queue took, if it took one.
\<close>

section \<open>Definitions\<close>

type_synonym 'q world_router = "u64 \<rightharpoonup> 'q"

datatype route_outcome = Routed | DroppedBackpressure

datatype router_error =
  ZoneAlreadyRegistered u64
| ZoneNotRegistered u64
| ZoneQueueFull u64 string
| ZoneQueueClosed u64
| InvalidAuthorizedAxes "16 word" "16 word"

type_synonym 'q zone_send = "'q \<Rightarrow> zone_command \<Rightarrow> try_send_result"

definition register_zone :: "u64 \<Rightarrow> 'q \<Rightarrow> 'q world_router \<Rightarrow> (router_error + unit) \<times> 'q world_router" where
  "register_zone z q r =
     (case r z of None \<Rightarrow> (Inr (), r(z \<mapsto> q)) | Some _ \<Rightarrow> (Inl (ZoneAlreadyRegistered z), r))"

definition sender_for_zone :: "'q world_router \<Rightarrow> u64 \<Rightarrow> router_error + 'q" where
  "sender_for_zone r z = ok_or (ZoneNotRegistered z) (r z)"

definition route_control ::
  "'q zone_send \<Rightarrow> 'q world_router \<Rightarrow> u64 \<Rightarrow> zone_command \<Rightarrow> string \<Rightarrow> (router_error + unit) \<times> zone_command option" where
  "route_control try_send r z command action =
     (case sender_for_zone r z of
        Inl e \<Rightarrow> (Inl e, None)
      | Inr q \<Rightarrow>
          (case try_send q command of
             SendOk \<Rightarrow> (Inr (), Some command)
           | SendFull \<Rightarrow> (Inl (ZoneQueueFull z action), None)
           | SendClosed \<Rightarrow> (Inl (ZoneQueueClosed z), None)))"

definition router_spawn ::
  "'q zone_send \<Rightarrow> 'q world_router \<Rightarrow> u64 \<Rightarrow> u64 \<Rightarrow> world_position \<Rightarrow> character_inventory \<Rightarrow> u64
     \<Rightarrow> (router_error + unit) \<times> zone_command option" where
  "router_spawn try_send r z c p iv revision =
     route_control try_send r z (SpawnCharacter c p iv revision) ''spawn character''"

definition router_despawn ::
  "'q zone_send \<Rightarrow> 'q world_router \<Rightarrow> u64 \<Rightarrow> u64 \<Rightarrow> bool \<Rightarrow> (router_error + unit) \<times> zone_command option" where
  "router_despawn try_send r z c responder =
     route_control try_send r z (DespawnCharacter c responder) ''despawn character''"

definition router_snapshot_inventory ::
  "'q zone_send \<Rightarrow> 'q world_router \<Rightarrow> u64 \<Rightarrow> u64 \<Rightarrow> (router_error + unit) \<times> zone_command option" where
  "router_snapshot_inventory try_send r z c =
     route_control try_send r z (SnapshotInventory c) ''snapshot inventory''"

definition send_zone_command ::
  "'q zone_send \<Rightarrow> 'q world_router \<Rightarrow> u64 \<Rightarrow> zone_command \<Rightarrow> (router_error + unit) \<times> zone_command option" where
  "send_zone_command try_send r z command =
     (case sender_for_zone r z of
        Inl e \<Rightarrow> (Inl e, None)
      | Inr q \<Rightarrow>
          (case try_send q command of
             SendOk \<Rightarrow> (Inr (), Some command)
           | SendFull \<Rightarrow> (Inr (), None)
           | SendClosed \<Rightarrow> (Inl (ZoneQueueClosed z), None)))"

definition authorized_to_zone_command :: "authorized_intent \<Rightarrow> router_error + zone_command" where
  "authorized_to_zone_command ai =
     (case ai_payload ai of
        Move ax ay \<Rightarrow>
          (case input_from_axes ax ay of
             None \<Rightarrow> Inl (InvalidAuthorizedAxes ax ay)
           | Some input \<Rightarrow> Inr (MoveCommand (ai_character ai) (ai_sequence ai) input)))"

definition route_authorized ::
  "'q zone_send \<Rightarrow> 'q world_router \<Rightarrow> authorized_intent \<Rightarrow> (router_error + route_outcome) \<times> zone_command option" where
  "route_authorized try_send r ai =
     (case sender_for_zone r (ai_zone ai) of
        Inl e \<Rightarrow> (Inl e, None)
      | Inr q \<Rightarrow>
          (case authorized_to_zone_command ai of
             Inl e \<Rightarrow> (Inl e, None)
           | Inr command \<Rightarrow>
               (case try_send q command of
                  SendOk \<Rightarrow> (Inr Routed, Some command)
                | SendFull \<Rightarrow> (Inr DroppedBackpressure, None)
                | SendClosed \<Rightarrow> (Inl (ZoneQueueClosed (ai_zone ai)), None))))"

section \<open>Outcomes\<close>

lemma route_control_sent:
  "route_control try_send r z command action = (res, sent) \<Longrightarrow> sent = (if res = Inr () then Some command else None)"
  by (auto simp: route_control_def split: sum.splits try_send_result.splits)

lemma router_control_sent:
  "router_spawn try_send r z c p iv revision = (res, sent) \<Longrightarrow>
    sent = (if res = Inr () then Some (SpawnCharacter c p iv revision) else None)"
  "router_despawn try_send r z c responder = (res, sent) \<Longrightarrow>
    sent = (if res = Inr () then Some (DespawnCharacter c responder) else None)"
  "router_snapshot_inventory try_send r z c = (res, sent) \<Longrightarrow>
    sent = (if res = Inr () then Some (SnapshotInventory c) else None)"
  unfolding router_spawn_def router_despawn_def router_snapshot_inventory_def by (rule route_control_sent, assumption)+

lemma send_zone_command_sent:
  "send_zone_command try_send r z command = (res, sent) \<Longrightarrow> sent = None \<or> sent = Some command"
  by (auto simp: send_zone_command_def split: sum.splits try_send_result.splits)

lemma route_authorized_sent:
  "route_authorized try_send r ai = (res, sent) \<Longrightarrow>
    sent = None \<or> (\<exists>input. sent = Some (MoveCommand (ai_character ai) (ai_sequence ai) input))"
  by (auto simp: route_authorized_def authorized_to_zone_command_def
      split: sum.splits try_send_result.splits intent_payload.splits option.splits)

section \<open>The protocol of a zone's commands\<close>

text \<open>
  A zone stops with an error when it gets a command for a character that is not in it, or a second spawn. The commands a
  zone may be sent when the characters \<open>P\<close> are in it, and who is in it afterwards.
\<close>

fun command_ok :: "u64 set \<Rightarrow> zone_command \<Rightarrow> bool" where
  "command_ok P (SpawnCharacter c _ _ _) \<longleftrightarrow> c \<notin> P"
| "command_ok P (DespawnCharacter c _) \<longleftrightarrow> c \<in> P"
| "command_ok P (MoveCommand c _ _) \<longleftrightarrow> c \<in> P"
| "command_ok P (MineCommand c _) \<longleftrightarrow> c \<in> P"
| "command_ok P _ \<longleftrightarrow> True"

fun command_after :: "u64 set \<Rightarrow> zone_command \<Rightarrow> u64 set" where
  "command_after P (SpawnCharacter c _ _ _) = insert c P"
| "command_after P (DespawnCharacter c _) = P - {c}"
| "command_after P _ = P"

fun commands_ok :: "u64 set \<Rightarrow> zone_command list \<Rightarrow> bool" where
  "commands_ok P [] = True"
| "commands_ok P (x # xs) \<longleftrightarrow> command_ok P x \<and> commands_ok (command_after P x) xs"

lemma commands_ok_append:
  "commands_ok P (xs @ ys) \<longleftrightarrow> commands_ok P xs \<and> commands_ok (foldl command_after P xs) ys"
  by (induction xs arbitrary: P) simp_all

text \<open>A zone that has served some commands, with ticks in between; the allocator gives new identifiers.\<close>

inductive zone_served :: "zone \<Rightarrow> zone_command list \<Rightarrow> bool" where
  Created: "movement_settings_new speed timeout radius = Inr settings \<Longrightarrow> zone_new hz settings tw = Inr z \<Longrightarrow>
    zone_served z []"
| Accepted: "zone_served z xs \<Longrightarrow> fresh \<notin> en_id ` set (zo_world z) \<Longrightarrow> zone_accept fresh x z = (Inr a, z') \<Longrightarrow>
    zone_served z' (xs @ [x])"
| Stepped: "zone_served z xs \<Longrightarrow> zone_step z = Some (r, z') \<Longrightarrow> zone_served z' xs"

lemma zone_served_reached: "zone_served z xs \<Longrightarrow> zone_reached z"
  by (induction rule: zone_served.induct) (auto intro: zone_reached.intros)

lemma zone_step_entities: "zone_step z = Some (r, z') \<Longrightarrow> zo_entity_map z' = zo_entity_map z"
  by (auto simp: zone_step_def process_inventory_intents_def split: option.splits sum.splits)

text \<open>A command within the protocol is accepted, except for a spawn inside a blocker, and moves the protocol on.\<close>

lemma accept_protocol:
  assumes inv: "zone_sound K z" and ok: "command_ok (dom (zo_entity_map z)) x" and run: "zone_accept fresh x z = (r, z')"
  shows "(\<exists>a. r = Inr a \<and> dom (zo_entity_map z') = command_after (dom (zo_entity_map z)) x) \<or>
    (\<exists>e. r = Inl (ZoneTraversal e))"
proof (cases x)
  case (SpawnCharacter c p iv revision)
  with ok run show ?thesis by (auto split: sum.splits option.splits)
next
  case (DespawnCharacter c responder)
  with ok obtain e where e: "zo_entity_map z c = Some e" by auto
  obtain y where "entity_of (zo_world z) e = Some y" by (rule known_entity [OF inv e])
  with DespawnCharacter e run show ?thesis by (auto simp: Let_def split: if_splits)
next
  case (SnapshotInventory c)
  with run show ?thesis by (auto split: option.splits)
next
  case (MoveCommand c sequence input)
  with ok obtain e where e: "zo_entity_map z c = Some e" by auto
  obtain y where "entity_of (zo_world z) e = Some y" by (rule known_entity [OF inv e])
  with MoveCommand e run show ?thesis by (auto simp: insert_one_def)
next
  case (MineCommand c force)
  with ok obtain e where e: "zo_entity_map z c = Some e" by auto
  obtain y where "entity_of (zo_world z) e = Some y" by (rule known_entity [OF inv e])
  with MineCommand e run show ?thesis by (auto simp: insert_one_def)
qed (use run in auto)

lemma zone_served_present:
  "zone_served z xs \<Longrightarrow> commands_ok {} xs \<Longrightarrow> dom (zo_entity_map z) = foldl command_after {} xs"
proof (induction rule: zone_served.induct)
  case (Created speed timeout radius settings hz tw z)
  then show ?case by (auto simp: zone_new_def split: if_splits sum.splits)
next
  case (Accepted z xs fresh x a z')
  have "zone_sound any_inventory z" by (rule zone_reached_sound) (rule zone_served_reached [OF Accepted.hyps(1)])
  from accept_protocol [OF this _ Accepted.hyps(3)] Accepted.IH Accepted.prems show ?case
    by (auto simp: commands_ok_append)
next
  case (Stepped z xs r z')
  then show ?case by (simp add: zone_step_entities)
qed

lemma zone_serves_protocol:
  assumes "zone_served z xs" "commands_ok {} (xs @ [x])" "zone_accept fresh x z = (r, z')"
  shows "(\<exists>a. r = Inr a) \<or> (\<exists>e. r = Inl (ZoneTraversal e))"
proof -
  have "zone_sound any_inventory z" by (rule zone_reached_sound) (rule zone_served_reached [OF assms(1)])
  moreover have "command_ok (dom (zo_entity_map z)) x"
    using zone_served_present [OF assms(1)] assms(2) by (simp add: commands_ok_append)
  ultimately show ?thesis using accept_protocol [OF _ _ assms(3)] by blast
qed

end
