(* ===== verification/Development_Frontier.thy ===== *)
theory Development_Frontier
  imports Preparation_Scheduler
begin

text \<open>
  apps/world-server/src/development\_frontier.rs: the gate of a development server that reveals one configured quadrant a
  while after the first player is admitted. An \<open>Instant\<close> and a \<open>Duration\<close> are numbers of nanoseconds.
\<close>

section \<open>Definitions\<close>

record dev_config =
  dc_coord :: quadrant_coord
  dc_delay :: nat

datatype dev_error =
  ZeroRevealDelay
| DevPreparation preparation_error
| DevRuntime runtime_error
| DevRequirement eligibility_error

definition dev_config_new :: "quadrant_coord \<Rightarrow> nat \<Rightarrow> dev_error + dev_config" where
  "dev_config_new coord delay = (if delay = 0 then Inl ZeroRevealDelay else Inr \<lparr>dc_coord = coord, dc_delay = delay\<rparr>)"

definition dev_requirement_id :: u32 where
  "dev_requirement_id = 1"

definition dev_input_fingerprint :: "u8 list" where
  "dev_input_fingerprint = replicate 32 0xD1"

definition dev_artifact_fingerprint :: "u8 list" where
  "dev_artifact_fingerprint = replicate 32 0xD2"

definition dev_artifact_bytes :: u64 where
  "dev_artifact_bytes = 1"

record dev_gate =
  dg_requirements :: unlock_requirements
  dg_requirement :: requirement_id
  dg_delay :: nat
  dg_armed_at :: "nat option"
  dg_complete :: bool

text \<open>The frontier keeps what was done before an error.\<close>

definition dev_gate_new :: "dev_config \<Rightarrow> frontier_runtime \<Rightarrow> (dev_error + dev_gate) \<times> frontier_runtime" where
  "dev_gate_new config rt =
     (case fingerprint_new dev_input_fingerprint of
        Inl e \<Rightarrow> (Inl (DevPreparation e), rt)
      | Inr inputs \<Rightarrow>
     (case runtime_preparation_identity rt (dc_coord config) inputs of
        Inl e \<Rightarrow> (Inl (DevRuntime e), rt)
      | Inr i \<Rightarrow>
     (case request_preparation rt i of
        Inl e \<Rightarrow> (Inl (DevRuntime e), rt)
      | Inr (_, rt1) \<Rightarrow>
     (case fingerprint_new dev_artifact_fingerprint of
        Inl e \<Rightarrow> (Inl (DevPreparation e), rt1)
      | Inr fp \<Rightarrow>
     (case prepared_artifact_new i fp dev_artifact_bytes of
        Inl e \<Rightarrow> (Inl (DevPreparation e), rt1)
      | Inr a \<Rightarrow>
     (case complete_preparation rt1 a of
        Inl e \<Rightarrow> (Inl (DevRuntime e), rt1)
      | Inr (_, rt2) \<Rightarrow>
     (case requirement_id_new dev_requirement_id of
        Inl e \<Rightarrow> (Inl (DevRequirement e), rt2)
      | Inr req \<Rightarrow>
     (case unlock_requirements_new (dc_coord config) [req] of
        Inl e \<Rightarrow> (Inl (DevRequirement e), rt2)
      | Inr reqs \<Rightarrow>
          (Inr \<lparr>dg_requirements = reqs, dg_requirement = req, dg_delay = dc_delay config, dg_armed_at = None,
                dg_complete = False\<rparr>, rt2)))))))))"

definition gate_arm :: "nat \<Rightarrow> dev_gate \<Rightarrow> bool \<times> dev_gate" where
  "gate_arm now g =
     (if dg_armed_at g \<noteq> None \<or> dg_complete g then (False, g) else (True, g\<lparr>dg_armed_at := Some now\<rparr>))"

definition gate_is_ready :: "nat \<Rightarrow> dev_gate \<Rightarrow> bool" where
  "gate_is_ready now g = (case dg_armed_at g of None \<Rightarrow> False | Some armed_at \<Rightarrow> dg_delay g \<le> now - armed_at)"

definition gate_mark_complete :: "dev_gate \<Rightarrow> dev_gate" where
  "gate_mark_complete g = g\<lparr>dg_complete := True\<rparr>"

definition gate_resolver :: "bool \<Rightarrow> dev_gate \<Rightarrow> requirement_resolver" where
  "gate_resolver satisfied g =
     (\<lambda>coord requirement. if coord = ur_coord (dg_requirements g) \<and> requirement = dg_requirement g
                          then Some satisfied else None)"

section \<open>The gate's own requirement\<close>

lemma dev_gate_requirements:
  assumes "dev_gate_new config rt = (Inr g, rt')"
  shows "dg_requirements g = \<lparr>ur_coord = dc_coord config, ur_requirements = [dg_requirement g]\<rparr>" "\<not> dg_complete g"
    "dg_armed_at g = None" "dg_delay g = dc_delay config"
  using assms
  by (auto simp: dev_gate_new_def unlock_requirements_new_def Let_def split: sum.splits option.splits if_splits)

lemma gate_requirement_resolves:
  assumes "dg_requirements g = \<lparr>ur_coord = c, ur_requirements = [dg_requirement g]\<rparr>"
  shows "evaluate_frontier_eligibility (dg_requirements g) (gate_resolver satisfied g) =
    Inr \<lparr>ev_coord = c, unsatisfied_requirements = (if satisfied then [] else [dg_requirement g])\<rparr>"
  using assms by (simp add: evaluate_frontier_eligibility_def gate_resolver_def)

text \<open>Creating the gate prepares its quadrant in private.\<close>

lemma dev_gate_private:
  assumes inv: "runtime_inv init rt" and run: "dev_gate_new config rt = (r, rt')"
  shows "private_change init rt rt'"
proof -
  from run consider (Nothing) "rt' = rt"
    | (Requested) i out where "request_preparation rt i = Inr (out, rt')"
    | (Done) i out rt1 a out2 where "request_preparation rt i = Inr (out, rt1)" "complete_preparation rt1 a = Inr (out2, rt')"
    by (auto simp: dev_gate_new_def split: sum.splits)
  then show ?thesis
  proof cases
    case Nothing
    with inv show ?thesis by (simp add: private_change_refl)
  next
    case (Requested i out)
    from private_steps(1) [OF inv this] show ?thesis .
  next
    case (Done i out rt1 a out2)
    note p = private_steps(1) [OF inv Done(1)]
    then have "runtime_inv init rt1" by (simp add: private_change_def)
    from private_change_trans [OF p private_steps(2) [OF this Done(2)]] show ?thesis .
  qed
qed

lemma dev_gate_prepared:
  assumes inv: "runtime_inv init rt" and run: "dev_gate_new config rt = (Inr g, rt')"
    and cand: "quadrant_state (rt_state rt) (dc_coord config) = Candidate"
  shows "quadrant_state (rt_state rt') (dc_coord config) = Prepared"
proof -
  from run obtain i out rt1 a out2 where i: "runtime_preparation_identity rt (dc_coord config) dev_input_fingerprint = Inr i"
    "request_preparation rt i = Inr (out, rt1)" "prepared_artifact_new i dev_artifact_fingerprint dev_artifact_bytes = Inr a"
    "complete_preparation rt1 a = Inr (out2, rt')"
    by (auto simp: dev_gate_new_def fingerprint_new_def split: sum.splits if_splits)
  have c: "pi_coord (pa_identity a) = dc_coord config"
    using i(1,3) by (auto simp: runtime_preparation_identity_def preparation_identity_new_def prepared_artifact_new_def
        split: sum.splits if_splits)
  have s1: "rt_state rt1 = rt_state rt"
    using i(2) by (auto simp: request_preparation_def split: sum.splits)
  from i(4) obtain slots f where p: "prep_complete (rt_state rt1) a (rt_preparations rt1) = Inr (out2, slots, f)"
    "rt_state rt' = f" by (auto simp: complete_preparation_def split: sum.splits)
  show ?thesis
    using p(1)
  proof (cases rule: prep_complete_cases)
    case again
    have "runtime_inv init rt1" using private_steps(1) [OF inv i(2)] by (simp add: private_change_def)
    then have "slot_matches (rt_state rt1) (dc_coord config) (PreparedSlot a)"
      using again(1) c by (auto simp: runtime_inv_def preparation_inv_def dest: map_of_SomeD)
    with cand s1 show ?thesis by (simp add: slot_matches_def)
  next
    case (first t)
    have "frontier_inv (rt_state rt1)" using inv s1 by (simp add: runtime_inv_def)
    from transition_state [OF this first(4)] c p(2) show ?thesis by simp
  qed
qed

section \<open>Properties\<close>

text \<open>
  The development gate reveals exactly its own quadrant, and only when it is told so: created for a candidate, it
  prepares it without any public change; committed unsatisfied it stays blocked and nothing changes; committed
  satisfied it reveals that quadrant and advances the revision by one.
\<close>

theorem development_gate_reveals_one:
  assumes inv: "runtime_inv init rt" and cand: "quadrant_state (rt_state rt) (dc_coord config) = Candidate"
    and new: "dev_gate_new config rt = (Inr g, rt1)"
  shows "runtime_manifest rt1 = runtime_manifest rt \<and>
    commit_reveal rt1 (dg_requirements g) (gate_resolver False g) =
      Some (Inr (RevealBlocked \<lparr>ev_coord = dc_coord config, unsatisfied_requirements = [dg_requirement g]\<rparr>), rt1) \<and>
    (\<forall>out rt2. commit_reveal rt1 (dg_requirements g) (gate_resolver True g) = Some (Inr out, rt2) \<longrightarrow>
      revealed_quadrants (rt_state rt2) = revealed_quadrants (rt_state rt) @ [dc_coord config] \<and>
      unat (revision (rt_state rt2)) = unat (revision (rt_state rt)) + 1)"
proof -
  note priv = dev_gate_private [OF inv new]
  then have pub: "revision (rt_state rt1) = revision (rt_state rt)"
    "revealed_quadrants (rt_state rt1) = revealed_quadrants (rt_state rt)"
    and man: "runtime_manifest rt1 = runtime_manifest rt" and inv1: "frontier_inv (rt_state rt1)"
    by (simp_all add: private_change_def runtime_inv_def runtime_manifest_def build_manifest_def)
  note prepared = dev_gate_prepared [OF inv new cand]
  note reqs = dev_gate_requirements(1) [OF new]
  have c: "ur_coord (dg_requirements g) = dc_coord config" by (simp add: reqs)
  note res = gate_requirement_resolves [OF reqs]
  have blocked: "commit_reveal rt1 (dg_requirements g) (gate_resolver False g) =
      Some (Inr (RevealBlocked \<lparr>ev_coord = dc_coord config, unsatisfied_requirements = [dg_requirement g]\<rparr>), rt1)"
    by (simp add: commit_reveal_def commit_authoritative_reveal_def Let_def c prepared res is_eligible_def)
  have "revealed_quadrants (rt_state rt2) = revealed_quadrants (rt_state rt) @ [dc_coord config] \<and>
      unat (revision (rt_state rt2)) = unat (revision (rt_state rt)) + 1"
    if run: "commit_reveal rt1 (dg_requirements g) (gate_resolver True g) = Some (Inr out, rt2)" for out rt2
  proof -
    from run obtain f where f: "commit_authoritative_reveal (rt_state rt1) (dg_requirements g) (gate_resolver True g) =
        Some (Inr out, f)" "rt_state rt2 = f"
      by (auto simp: commit_reveal_def map_sum_def split: option.splits sum.splits)
    then obtain t d where "out = RevealDone t d"
      by (auto simp: commit_authoritative_reveal_def Let_def c prepared res is_eligible_def
          split: option.splits sum.splits prod.splits)
    with reveal_commit_done(1,2) [OF inv1] f pub c show ?thesis by auto
  qed
  with man blocked show ?thesis by blast
qed

end
