(* ===== verification/Ttl_Cache.thy ===== *)
theory Ttl_Cache
  imports Prelude
begin

text \<open>
  crates/cache/src/lib.rs: \<open>BoundedTtlCache\<close>, a cache with a capacity and a time to live from the last touch. The hash map is
  an association list whose order is the iteration order; an \<open>Instant\<close> is a number of nanoseconds, and an operation takes
  the readings of the clock it makes, in their order.
\<close>

section \<open>Definitions\<close>

record 'v cache_entry =
  ce_value :: 'v
  ce_touched_at :: nat

record ('k, 'v) cache =
  ca_entries :: "('k \<times> 'v cache_entry) list"
  ca_capacity :: nat
  ca_ttl :: nat

definition cache_new :: "nat \<Rightarrow> nat \<Rightarrow> ('k, 'v) cache" where
  "cache_new capacity ttl = \<lparr>ca_entries = [], ca_capacity = capacity, ca_ttl = ttl\<rparr>"

definition prune_expired :: "nat \<Rightarrow> ('k, 'v) cache \<Rightarrow> ('k, 'v) cache" where
  "prune_expired now c = c\<lparr>ca_entries := [(k, e) \<leftarrow> ca_entries c. now - ce_touched_at e \<le> ca_ttl c]\<rparr>"

text \<open>\<open>min\_by\_key\<close>: the first of the oldest entries.\<close>

fun oldest_key :: "('k \<times> 'v cache_entry) list \<Rightarrow> ('k \<times> nat) option" where
  "oldest_key [] = None"
| "oldest_key ((k, e) # es) =
     (case oldest_key es of
        None \<Rightarrow> Some (k, ce_touched_at e)
      | Some (k', t) \<Rightarrow> if t < ce_touched_at e then Some (k', t) else Some (k, ce_touched_at e))"

definition evict_oldest :: "('k, 'v) cache \<Rightarrow> ('k, 'v) cache" where
  "evict_oldest c =
     (case oldest_key (ca_entries c) of
        None \<Rightarrow> c
      | Some (k, _) \<Rightarrow> c\<lparr>ca_entries := AList.delete k (ca_entries c)\<rparr>)"

definition cache_insert :: "nat \<Rightarrow> nat \<Rightarrow> 'k \<Rightarrow> 'v \<Rightarrow> ('k, 'v) cache \<Rightarrow> ('k, 'v) cache" where
  "cache_insert now now' k v c0 =
     (let c = prune_expired now c0
      in if ca_capacity c = 0 then c
         else (let c = (if ca_capacity c \<le> length (ca_entries c) \<and> map_of (ca_entries c) k = None
                        then evict_oldest c else c)
               in c\<lparr>ca_entries := AList.update k \<lparr>ce_value = v, ce_touched_at = now'\<rparr> (ca_entries c)\<rparr>))"

definition cache_get :: "nat \<Rightarrow> nat \<Rightarrow> 'k \<Rightarrow> ('k, 'v) cache \<Rightarrow> 'v option \<times> ('k, 'v) cache" where
  "cache_get now now' k c0 =
     (let c = prune_expired now c0
      in case map_of (ca_entries c) k of
           None \<Rightarrow> (None, c)
         | Some e \<Rightarrow>
             (Some (ce_value e), c\<lparr>ca_entries := AList.update k (e\<lparr>ce_touched_at := now'\<rparr>) (ca_entries c)\<rparr>))"

section \<open>The cache as a machine\<close>

datatype ('k, 'v) cache_op = CacheInsert nat nat 'k 'v | CacheGet nat nat 'k | CachePrune nat

fun cache_step :: "('k, 'v) cache \<Rightarrow> ('k, 'v) cache_op \<Rightarrow> ('k, 'v) cache" where
  "cache_step c (CacheInsert now now' k v) = cache_insert now now' k v c"
| "cache_step c (CacheGet now now' k) = snd (cache_get now now' k c)"
| "cache_step c (CachePrune now) = prune_expired now c"

definition cache_inv :: "nat \<Rightarrow> nat \<Rightarrow> ('k, 'v) cache \<Rightarrow> bool" where
  "cache_inv capacity ttl c \<longleftrightarrow> ca_capacity c = capacity \<and> ca_ttl c = ttl \<and>
     distinct (map fst (ca_entries c)) \<and> length (ca_entries c) \<le> capacity"

lemma prune_fields [simp]:
  "ca_capacity (prune_expired now c) = ca_capacity c" "ca_ttl (prune_expired now c) = ca_ttl c"
  by (simp_all add: prune_expired_def)

lemma distinct_prune: "distinct (map fst xs) \<Longrightarrow> distinct (map fst (filter P xs))"
  by (induction xs) auto

lemma map_of_filter_value:
  "distinct (map fst xs) \<Longrightarrow> map_of (filter (\<lambda>(k, e). P e) xs) k =
    (case map_of xs k of None \<Rightarrow> None | Some e \<Rightarrow> if P e then Some e else None)"
proof (induction xs)
  case (Cons x xs)
  obtain a b where x: "x = (a, b)" by (cases x)
  show ?case
  proof (cases "a = k")
    case True
    with Cons.prems x have "map_of xs k = None" by (auto simp: map_of_eq_None_iff)
    with Cons.IH Cons.prems x True show ?thesis by simp
  qed (use Cons x in simp)
qed simp

lemma prune_lookup:
  "distinct (map fst (ca_entries c)) \<Longrightarrow>
    map_of (ca_entries (prune_expired now c)) k =
      (case map_of (ca_entries c) k of
         None \<Rightarrow> None | Some e \<Rightarrow> if now - ce_touched_at e \<le> ca_ttl c then Some e else None)"
  by (simp add: prune_expired_def map_of_filter_value)

lemma length_update: "length (AList.update k v xs) = (if map_of xs k = None then length xs + 1 else length xs)"
  by (induction xs) auto

lemma length_delete_less: "map_of xs k \<noteq> None \<Longrightarrow> length (AList.delete k xs) < length xs"
  by (auto simp: AList.delete_eq dest!: map_of_SomeD intro!: length_filter_less)

lemma oldest_key_Some:
  "oldest_key es = Some (k, t) \<Longrightarrow> (\<exists>e. (k, e) \<in> set es \<and> ce_touched_at e = t) \<and> (\<forall>(k', e')\<in>set es. t \<le> ce_touched_at e')"
proof (induction es arbitrary: k t)
  case (Cons x es)
  obtain a e where x: "x = (a, e)" by (cases x)
  show ?case
  proof (cases "oldest_key es")
    case None
    then have "es = []" by (cases es rule: oldest_key.cases) (auto split: option.splits if_splits)
    with Cons.prems x show ?thesis by simp
  next
    case (Some y)
    obtain k' t' where y: "y = (k', t')" by (cases y)
    note ih = Cons.IH [OF Some [unfolded y]]
    from ih have "t' \<le> ce_touched_at e'" if "(b, e') \<in> set es" for b e' using that by auto
    with ih Cons.prems x Some y show ?thesis by (auto split: if_splits) (meson le_trans linorder_not_less)
  qed
qed simp

lemma oldest_key_None: "oldest_key es = None \<longleftrightarrow> es = []"
  by (cases es rule: oldest_key.cases) (auto split: option.splits)

lemma evict_oldest_fields [simp]:
  "ca_capacity (evict_oldest c) = ca_capacity c" "ca_ttl (evict_oldest c) = ca_ttl c"
  by (simp_all add: evict_oldest_def split: option.splits prod.splits)

lemma evict_oldest_cases:
  assumes "ca_entries c \<noteq> []" "distinct (map fst (ca_entries c))"
  obtains k e where "map_of (ca_entries c) k = Some e" "\<forall>(k', e')\<in>set (ca_entries c). ce_touched_at e \<le> ce_touched_at e'"
    "ca_entries (evict_oldest c) = AList.delete k (ca_entries c)"
proof -
  obtain k t where k: "oldest_key (ca_entries c) = Some (k, t)"
    using assms(1) oldest_key_None [of "ca_entries c"] by auto
  from oldest_key_Some [OF k] obtain e where e: "(k, e) \<in> set (ca_entries c)" "ce_touched_at e = t"
    "\<forall>(k', e')\<in>set (ca_entries c). t \<le> ce_touched_at e'" by auto
  show ?thesis
  proof (rule that)
    show "map_of (ca_entries c) k = Some e" using assms(2) e(1) by simp
    show "\<forall>(k', e')\<in>set (ca_entries c). ce_touched_at e \<le> ce_touched_at e'" using e(2,3) by simp
    show "ca_entries (evict_oldest c) = AList.delete k (ca_entries c)" by (simp add: evict_oldest_def k)
  qed
qed

lemma cache_inv_prune: "cache_inv capacity ttl c \<Longrightarrow> cache_inv capacity ttl (prune_expired now c)"
  by (auto simp: cache_inv_def prune_expired_def distinct_prune intro: order_trans [OF length_filter_le])

lemma cache_inv_insert:
  assumes "cache_inv capacity ttl c0"
  shows "cache_inv capacity ttl (cache_insert now now' k v c0)"
proof -
  define c where "c = prune_expired now c0"
  have c: "cache_inv capacity ttl c" unfolding c_def by (rule cache_inv_prune [OF assms])
  show ?thesis
  proof (cases "capacity = 0")
    case True
    with c show ?thesis by (simp add: cache_insert_def Let_def cache_inv_def flip: c_def)
  next
    case False
    define c1 where "c1 = (if ca_capacity c \<le> length (ca_entries c) \<and> map_of (ca_entries c) k = None then evict_oldest c else c)"
    have "distinct (map fst (ca_entries c1)) \<and> length (ca_entries c1) \<le> capacity \<and>
        (map_of (ca_entries c1) k = None \<longrightarrow> length (ca_entries c1) < capacity)"
    proof (cases "ca_capacity c \<le> length (ca_entries c) \<and> map_of (ca_entries c) k = None")
      case True
      with False c have "ca_entries c \<noteq> []" "distinct (map fst (ca_entries c))" by (auto simp: cache_inv_def)
      then obtain k' e where k': "map_of (ca_entries c) k' = Some e" "ca_entries (evict_oldest c) = AList.delete k' (ca_entries c)"
        by (rule evict_oldest_cases)
      have "length (AList.delete k' (ca_entries c)) < length (ca_entries c)" using k'(1) by (intro length_delete_less) simp
      with c k'(2) True show ?thesis by (auto simp: c1_def cache_inv_def distinct_delete)
    qed (use c in \<open>auto simp: c1_def cache_inv_def\<close>)
    moreover have "cache_insert now now' k v c0 =
        c1\<lparr>ca_entries := AList.update k \<lparr>ce_value = v, ce_touched_at = now'\<rparr> (ca_entries c1)\<rparr>"
      using False c by (simp add: cache_insert_def Let_def cache_inv_def c1_def flip: c_def)
    moreover have "ca_capacity c1 = capacity" "ca_ttl c1 = ttl" using c by (simp_all add: c1_def cache_inv_def)
    ultimately show ?thesis by (auto simp: cache_inv_def length_update distinct_update)
  qed
qed

lemma cache_inv_step: "cache_inv capacity ttl c \<Longrightarrow> cache_inv capacity ttl (cache_step c op)"
proof (cases op)
  case (CacheGet now now' k)
  assume "cache_inv capacity ttl c"
  from cache_inv_prune [OF this, of now] CacheGet show ?thesis
    by (auto simp: cache_get_def Let_def cache_inv_def length_update distinct_update split: option.splits)
qed (simp_all add: cache_inv_prune cache_inv_insert)

interpretation cache_machine: invariant_machine cache_step "cache_inv capacity ttl"
  by unfold_locales (rule cache_inv_step)

section \<open>Properties\<close>

text \<open>
  The cache is bounded and honest: after any operations it holds at most its capacity, one entry per key; a read gives
  exactly the value of an entry touched within the time to live, and never an expired one.
\<close>

theorem cache_bounded_and_fresh:
  assumes "c = foldl cache_step (cache_new capacity ttl) ops"
  shows "length (ca_entries c) \<le> capacity \<and> distinct (map fst (ca_entries c)) \<and>
    fst (cache_get now now' k c) =
      (case map_of (ca_entries c) k of
         None \<Rightarrow> None | Some e \<Rightarrow> if now - ce_touched_at e \<le> ttl then Some (ce_value e) else None)"
proof -
  have "cache_inv capacity ttl c"
    unfolding assms by (rule cache_machine.inv_run) (simp add: cache_inv_def cache_new_def)
  then show ?thesis
    using prune_lookup [of c now k] by (auto simp: cache_inv_def cache_get_def Let_def split: option.splits)
qed

theorem cache_bounded_and_fresh_witness:
  "fst (cache_get 9 9 ''a'' (foldl cache_step (cache_new 2 5)
      [CacheInsert 0 0 ''a'' 1, CacheInsert 1 1 ''b'' 2, CacheGet 4 4 ''a'', CacheInsert 6 6 ''c'' (3 :: nat)])) = Some 1"
proof -
  let ?c = "foldl cache_step (cache_new 2 5)
      [CacheInsert 0 0 ''a'' 1, CacheInsert 1 1 ''b'' 2, CacheGet 4 4 ''a'', CacheInsert 6 6 ''c'' (3 :: nat)]"
  have "map_of (ca_entries ?c) ''a'' = Some \<lparr>ce_value = 1, ce_touched_at = 4\<rparr>" by code_simp
  with cache_bounded_and_fresh [of ?c, OF refl, of 9 9 "''a''"] show ?thesis by simp
qed

text \<open>
  Inserting a new key into a full cache drops exactly one entry, one that was touched least recently, and the new
  value can be read back at once.
\<close>

theorem insert_evicts_oldest:
  assumes "cache_inv capacity ttl c" "0 < capacity" "map_of (ca_entries (prune_expired now c)) k = None"
    and "length (ca_entries (prune_expired now c)) = capacity"
  shows "\<exists>k0 e0. map_of (ca_entries (prune_expired now c)) k0 = Some e0 \<and>
    (\<forall>(k', e')\<in>set (ca_entries (prune_expired now c)). ce_touched_at e0 \<le> ce_touched_at e') \<and>
    map_of (ca_entries (cache_insert now now' k v c)) =
      (map_of (ca_entries (prune_expired now c)))(k0 := None, k \<mapsto> \<lparr>ce_value = v, ce_touched_at = now'\<rparr>)"
proof -
  let ?c = "prune_expired now c"
  have inv: "cache_inv capacity ttl ?c" by (rule cache_inv_prune [OF assms(1)])
  then have "ca_entries ?c \<noteq> []" "distinct (map fst (ca_entries ?c))" using assms(2,4) by (auto simp: cache_inv_def)
  then obtain k0 e0 where k0: "map_of (ca_entries ?c) k0 = Some e0"
    "\<forall>(k', e')\<in>set (ca_entries ?c). ce_touched_at e0 \<le> ce_touched_at e'"
    "ca_entries (evict_oldest ?c) = AList.delete k0 (ca_entries ?c)" by (rule evict_oldest_cases)
  have "ca_capacity ?c = capacity" using inv by (simp add: cache_inv_def)
  then have "map_of (ca_entries (cache_insert now now' k v c)) =
      (map_of (ca_entries ?c))(k0 := None, k \<mapsto> \<lparr>ce_value = v, ce_touched_at = now'\<rparr>)"
    using assms k0(3) by (simp add: cache_insert_def Let_def update_conv' delete_conv')
  with k0(1,2) show ?thesis by blast
qed

theorem insert_evicts_oldest_witness:
  "\<exists>k0. map_of (ca_entries (cache_insert 6 6 ''c'' 3 (\<lparr>ca_entries = [(''a'', \<lparr>ce_value = 1, ce_touched_at = 4\<rparr>),
      (''b'', \<lparr>ce_value = 2 :: nat, ce_touched_at = 2\<rparr>)], ca_capacity = 2, ca_ttl = 5\<rparr>))) k0 = None \<and> k0 = ''b''"
proof -
  let ?c = "\<lparr>ca_entries = [(''a'', \<lparr>ce_value = 1, ce_touched_at = 4\<rparr>), (''b'', \<lparr>ce_value = 2 :: nat, ce_touched_at = 2\<rparr>)],
    ca_capacity = 2, ca_ttl = 5\<rparr>"
  have "cache_inv 2 5 ?c" by (simp add: cache_inv_def)
  from insert_evicts_oldest [OF this, of 6 "''c''" 6 3] show ?thesis
    by (auto simp: prune_expired_def split: if_splits)
qed

end
