(* ===== verification/Position_Buffer.thy ===== *)
theory Position_Buffer
  imports Prelude
begin

text \<open>
  crates/persistence/src/position\_buffer.rs: positions kept in memory, the last one of every character, and written to the
  database in batches. The map is an association list whose order is the iteration order; whether the database executes
  an update is an argument. Other tasks may track positions between any two of a flush's accesses to the map, so a flush
  is also given as its parts.
\<close>

section \<open>Definitions\<close>

record position_update =
  pu_character :: int
  pu_x_mm :: int
  pu_y_mm :: int
  pu_z_mm :: int
  pu_quadrant_x :: int
  pu_quadrant_y :: int

type_synonym position_buffer = "(int \<times> position_update) list"

definition track_position :: "position_update \<Rightarrow> position_buffer \<Rightarrow> position_buffer" where
  "track_position u b = AList.update (pu_character u) u b"

text \<open>The updates in order, until one fails.\<close>

fun write_updates :: "(position_update \<Rightarrow> bool) \<Rightarrow> position_update list \<Rightarrow> bool \<times> position_update list" where
  "write_updates exec [] = (True, [])"
| "write_updates exec (u # us) =
     (if exec u then (case write_updates exec us of (ok, written) \<Rightarrow> (ok, u # written)) else (False, []))"

definition flush_collect :: "position_buffer \<Rightarrow> position_update list" where
  "flush_collect b = map snd b"

definition flush_clear :: "position_buffer \<Rightarrow> position_buffer" where
  "flush_clear b = []"

text \<open>Whether the flush succeeds, what was written, and the buffer afterwards, when nothing interferes.\<close>

definition flush_to_db :: "(position_update \<Rightarrow> bool) \<Rightarrow> position_buffer \<Rightarrow> (bool \<times> position_update list) \<times> position_buffer" where
  "flush_to_db exec b =
     (if b = [] then ((True, []), b)
      else (let updates = flush_collect b; b' = flush_clear b in (write_updates exec updates, b')))"

section \<open>Tracking\<close>

definition tracked :: "position_update list \<Rightarrow> position_buffer" where
  "tracked us = foldl (\<lambda>b u. track_position u b) [] us"

text \<open>The reference: the last update of a character in a sequence.\<close>

definition last_update :: "int \<Rightarrow> position_update list \<Rightarrow> position_update option" where
  "last_update c us = find (\<lambda>u. pu_character u = c) (rev us)"

lemma tracked_snoc: "tracked (us @ [u]) = track_position u (tracked us)"
  by (simp add: tracked_def)

lemma last_update_snoc: "last_update c (us @ [u]) = (if pu_character u = c then Some u else last_update c us)"
  by (simp add: last_update_def)

lemma tracked_distinct: "distinct (map fst (tracked us))"
  by (induction us rule: rev_induct) (simp_all add: tracked_snoc track_position_def distinct_update, simp add: tracked_def)

lemma tracked_lookup: "map_of (tracked us) c = last_update c us"
proof (induction us rule: rev_induct)
  case Nil
  then show ?case by (simp add: tracked_def last_update_def)
next
  case (snoc u us)
  then show ?case by (simp add: tracked_snoc track_position_def update_conv' last_update_snoc)
qed

lemma write_updates_all: "(\<forall>u\<in>set us. exec u) \<Longrightarrow> write_updates exec us = (True, us)"
  by (induction us) auto

lemma write_updates_first_failure:
  "\<not> (\<forall>u\<in>set us. exec u) \<Longrightarrow> write_updates exec us = (False, takeWhile exec us)"
  by (induction us) (auto simp: write_updates_all)

section \<open>Properties\<close>

text \<open>
  A flush writes the last position of every character and nothing else: after any sequence of tracked positions, with a
  database that executes every update, each character's last update is written exactly once and the buffer is empty.
\<close>

theorem flush_writes_latest:
  assumes "\<And>u. exec u"
  shows "\<exists>written. flush_to_db exec (tracked us) = ((True, written), []) \<and>
    distinct written \<and> set written = {u. last_update (pu_character u) us = Some u}"
proof -
  have key: "fst x = pu_character (snd x)" if "x \<in> set (tracked us)" for x
  proof -
    have "last_update (fst x) us = Some (snd x)"
      using that tracked_distinct [of us] by (metis map_of_is_SomeI prod.collapse tracked_lookup)
    then show ?thesis by (auto simp: last_update_def find_Some_iff)
  qed
  have "flush_to_db exec (tracked us) = ((True, map snd (tracked us)), [])"
    using assms by (auto simp: flush_to_db_def flush_collect_def flush_clear_def write_updates_all)
  moreover have "distinct (map snd (tracked us))"
    using tracked_distinct [of us] key by (auto simp: distinct_map inj_on_def)
  moreover have "set (map snd (tracked us)) = {u. last_update (pu_character u) us = Some u}"
  proof -
    have "u \<in> snd ` set (tracked us) \<longleftrightarrow> (pu_character u, u) \<in> set (tracked us)" for u
      by (metis (no_types) image_iff key prod.collapse snd_conv)
    then have "u \<in> snd ` set (tracked us) \<longleftrightarrow> last_update (pu_character u) us = Some u" for u
      by (simp add: map_of_eq_Some_iff [OF tracked_distinct, symmetric] tracked_lookup)
    then show ?thesis by (simp add: set_eq_iff)
  qed
  ultimately show ?thesis by blast
qed

definition sample_update :: "int \<Rightarrow> int \<Rightarrow> position_update" where
  "sample_update c x = \<lparr>pu_character = c, pu_x_mm = x, pu_y_mm = 0, pu_z_mm = 0, pu_quadrant_x = 0, pu_quadrant_y = 0\<rparr>"

theorem flush_writes_latest_witness:
  "\<exists>written. flush_to_db (\<lambda>_. True) (tracked [sample_update 1 5, sample_update 2 6, sample_update 1 7]) = ((True, written), []) \<and>
    sample_update 1 7 \<in> set written \<and> sample_update 1 5 \<notin> set written"
  using flush_writes_latest [of "\<lambda>_. True" "[sample_update 1 5, sample_update 2 6, sample_update 1 7]", OF TrueI]
  by (auto simp: last_update_def sample_update_def)

text \<open>
  An update the database refuses loses positions: the buffer is cleared before the writes, so the refused update and
  all that come after it are neither written nor kept for the next flush.
\<close>

theorem failed_flush_loses_positions:
  assumes "u \<in> set (map snd b)" "\<not> exec u"
  shows "\<exists>written. flush_to_db exec b = ((False, written), []) \<and> u \<notin> set written \<and>
    written = takeWhile exec (map snd b)"
proof -
  from assms have "b \<noteq> []" "\<not> (\<forall>u\<in>set (map snd b). exec u)" by auto
  then have "flush_to_db exec b = ((False, takeWhile exec (map snd b)), [])"
    by (simp add: flush_to_db_def flush_collect_def flush_clear_def write_updates_first_failure)
  with assms(2) show ?thesis by (auto dest: set_takeWhileD)
qed

theorem failed_flush_loses_positions_witness:
  "\<exists>written. flush_to_db (\<lambda>u. pu_character u \<noteq> 2) (tracked [sample_update 1 5, sample_update 2 6, sample_update 3 7]) =
    ((False, written), []) \<and> sample_update 2 6 \<notin> set written"
proof -
  have "sample_update 2 6 \<in> set (map snd (tracked [sample_update 1 5, sample_update 2 6, sample_update 3 7]))"
    by (simp add: tracked_def track_position_def sample_update_def)
  from failed_flush_loses_positions [OF this, of "\<lambda>u. pu_character u \<noteq> 2"] show ?thesis
    by (auto simp: sample_update_def)
qed

text \<open>A position tracked between the two accesses of a flush is lost as well.\<close>

theorem interleaved_position_lost:
  "flush_clear (track_position u b) = [] \<and> (u \<notin> set (map snd b) \<longrightarrow> u \<notin> set (snd (write_updates exec (flush_collect b))))"
  by (auto simp: flush_clear_def flush_collect_def) (metis (no_types, lifting) eq_snd_iff list.set_map set_takeWhileD
      write_updates_all write_updates_first_failure)

end
