(* ===== verification/Spec2Isabelle.thy ===== *)
theory Spec2Isabelle
  imports
    World_Grid Replay_Window Session Session_Registry
    Frontier Candidate_Frontier Frontier_Reveal Quadrant_Preparation
    Contracts_Bootstrap Contracts_Movement Contracts_Frontier
    Frontier_Runtime Frontier_Delivery
    Inventory_Grid Items Containers Container_Layout Container_Tree
    Movement Traversal Encumbrance Character Systems
    Preparation_Worker Preparation_Scheduler Loot Zone_Inventory Zone
    Client_Reconciliation Client_Prediction Client_Presentation
    Contracts_Terrain Contracts_Water Terrain Terrain_Environment Hydrology Revealed_Terrain
    Reliable_Egress Snapshot_Bridge World_Router Development_Frontier Ttl_Cache Position_Buffer
begin

text \<open>
  A verification library for the Aurenfall server, a Rust workspace of an authoritative game server. Paths are
  relative to src/.

  \<^bold>\<open>The program.\<close> Clients connect over QUIC, say hello (crates/contracts/src/bootstrap.rs), get a session
  (crates/session) and send intents in datagrams. A session earns its identity step by step; the registry lets an
  intent through only for a session that is in the world, and only with a sequence number above all earlier ones. A
  zone (crates/simulation) integrates the movement inputs, resolves them against blockers, mines and applies the
  inventory intents; the protocol client predicts the same movement ahead of the server. Inventories and
  containers live in crates/domain. The world is a grid of quadrants (crates/core/src/world.rs) of which a frontier
  is revealed: quadrants next to revealed ones become candidates, are prepared by workers, and are revealed when
  their requirements are met (crates/domain/src/frontier*.rs). The server composes this in
  apps/world-server/src/frontier_runtime.rs and delivers the resulting manifest to every client until it is
  acknowledged (frontier_sync.rs, frontier_delivery.rs). The ground of a quadrant is a deterministic recipe of the
  world seed (crates/terrain): heights, walkable and buildable cells, lakes and rivers, and the environment policy.

  \<^bold>\<open>The theories.\<close>
  \<^item> Prelude: machine integers (words; \<open>i64\<close> as integers with \<open>in_i64\<close>), \<open>Result\<close> as a sum, the locales of
    machines with an invariant and of machines with a monotone measure, interpreted in the theories below.
  \<^item> Bytes: little- and big-endian encodings and the locales of wire codecs (round trip, fixed width, canonical).
  \<^item> World\_Grid: core/src/world.rs. Replay\_Window: core/src/replay.rs.
  \<^item> Session, Session\_Registry: session/src/state.rs, intent.rs, registry.rs, ingress.rs.
  \<^item> Frontier, Candidate\_Frontier, Frontier\_Reveal, Quadrant\_Preparation: domain/src/frontier.rs,
    candidate\_frontier.rs, frontier\_eligibility.rs and frontier\_reveal.rs, quadrant\_preparation.rs.
  \<^item> Contracts\_Bootstrap, Contracts\_Movement, Contracts\_Frontier: the messages of crates/contracts and the datagram
    frame of crates/transport.
  \<^item> Frontier\_Runtime, Frontier\_Delivery: the frontier modules of apps/world-server.
  \<^item> Inventory\_Grid, Items: the two halves of domain/src/items.rs.
  \<^item> Containers (operations on one container), Container\_Layout (geometry), Container\_Tree (nesting, weight, the
    public operations): domain/src/containers.rs.
  \<^item> Movement, Traversal: simulation/src/movement.rs, traversal.rs. Float32: the single-precision arithmetic that
    Encumbrance (encumbrance.rs) needs. Character (character.rs) composes them in one tick of a character; Systems
    (systems.rs, components.rs) are the ECS systems over all entities.
  \<^item> Loot: loot.rs. Character\_Inventory, Zone\_Inventory: the inventory of a character and the intents on it. Zone:
    the commands, the tick and the loop of zone.rs.
  \<^item> Preparation\_Worker: crates/preparation as a machine of atomic actions. Preparation\_Scheduler: the scheduler of
    apps/world-server, over the runtime, the worker and the frontier.
  \<^item> Client\_Reconciliation, Client\_Prediction, Client\_Presentation: the modules of apps/protocol-client;
    reconciliation.rs, held\_prediction.rs with prediction.rs, presentation.rs.
  \<^item> Wire\_Elements: fixed-width fields and repeated elements of a message, with the locale of element readers.
    Contracts\_Terrain, Contracts\_Water: the terrain, environment and water messages of crates/contracts.
  \<^item> Terrain (recipe, summary, artifact), Terrain\_Environment (policy), Hydrology (lakes, rivers, their integration
    and presentation): crates/terrain. Revealed\_Terrain: their composition for revealed quadrants in
    apps/world-server/src/preparation\_scheduler.rs and the executor of main.rs that fills the store.
  \<^item> Reliable\_Egress: the bounded egress lanes of crates/transport/src/reliable\_egress.rs. Snapshot\_Bridge, World\_Router,
    Development\_Frontier: the modules of apps/world-server between the zones and the sessions; World\_Router also states the
    protocol under which a zone is never stopped. Ttl\_Cache, Position\_Buffer: the parts of crates/persistence that keep state.

  \<^bold>\<open>Conventions.\<close> An unsigned integer of Rust is a word of its width; \<open>usize\<close> lengths are naturals; \<open>i64\<close> is an
  integer with the checked operations of the Prelude. A \<open>Result\<close> is \<open>'e + 'a\<close>. An operation that can panic or not
  return has an option around its result, \<open>None\<close> for the panic (overflow checks as in a debug build) or the endless
  loop. An operation that changes state and can fail returns the result and the state. A \<open>HashMap\<close> that is iterated
  over is an association list with distinct keys, one that is only looked up is a map. Libraries (blake3, the tokio
  channels) and the requirement resolver are parameters. A 32-bit float is an integral multiple of 2 to the -149, an infinity
  or not a number, and its operations round to nearest even (Float32); in messages it is its bit pattern. Instants and durations
  of the asynchronous parts are unbounded naturals.

  \<^bold>\<open>Bounds and fuel.\<close> The parent chains of the container tree are \<open>partial_function (option)\<close>: they are shown to
  return on every well-nested tree. The recursive container weight takes fuel, and \<open>container_weight_returns\<close> shows
  that some fuel gives a result and every larger fuel the same. The square root runs on naturals; on \<open>u64\<close> arguments
  none of its intermediate values exceeds the argument plus one half of it, so no sum wraps.

  \<^bold>\<open>What the lemmas show.\<close> Each stateful component has an invariant, a preservation lemma per operation and an
  interpretation of the machine locale; the properties, numbered C1 and on at the end of the theories, speak about
  every reachable state or give the exact outcome of an operation on every branch.

  \<^bold>\<open>Hypotheses.\<close> Where the code accepts more than a property covers, the property says so: the conservation of items in a
  zone (C14) is for zones into which no item is spawned that they hold already, which the zone does not check; the delivery of
  revealed terrain (C16) is for quadrant sizes within the range of the \<open>i128\<close> arithmetic, beyond which C39 shows the panic; the
  speed bound (C29) is for speeds that a 32-bit float represents. What is proved of the characters of a zone (C15), of the grids
  of inventories (C8) and of the client's pending inputs (C32) needs none of this: it holds after any sequence of operations.
  The atomic steps of the concurrent parts (a refused submission of the preparation worker, the closing of an egress lane) are
  each one action, between which any interleaving is allowed.

  \<^bold>\<open>Not modelled.\<close> The asynchronous loops of apps/world-server (session\_runtime.rs, main.rs) and the QUIC
  transport (input and output over tokio and quinn), the SQL of crates/persistence (sqlx), the parsing of game data
  (serde), configuration, certificates and logging; weapon statistics of items.rs.
\<close>

end
